(* ===== verification/Prelude.thy ===== *)
theory Prelude
  imports
    "HOL-Library.Word"
    "HOL-Library.List_Lexorder"
    "HOL-Library.Char_ord"
    "HOL-Library.Sublist"
begin

text \<open>
  Shared vocabulary of the BlazeNet development: the machine integers and byte strings
  of the Rust sources, the result type of fallible code, the text formatting and
  parsing routines of the Rust standard library that the crates use (little/big endian
  bytes, decimal and hexadecimal rendering, \<open>from_str_radix\<close>, \<open>parse::<u64>\<close>, UTF-8
  validation), and the ordered key-value table that every redb table is modelled by.
  The locales \<open>wire_codec\<close> and \<open>kv_table\<close> are the two interfaces the components share;
  both are interpreted here on the definitions the model uses.
\<close>

unbundle bit_operations_syntax

type_synonym u8 = "8 word"
type_synonym u16 = "16 word"
type_synonym u32 = "32 word"
type_synonym u64 = "64 word"
type_synonym bytes = "8 word list"

named_theorems codec_simps \<open>byte-level encoders and decoders\<close>
named_theorems tbl_simps \<open>laws of the ordered tables\<close>
named_theorems inv_intros \<open>preservation of the components' invariants\<close>

section \<open>Results\<close>

text \<open>
  Rust's \<open>Result<A, E>\<close> is the sum \<open>'e + 'a\<close> with \<open>Inl\<close> for \<open>Err\<close>; the operator
  \<open>?\<close> is \<open>res_bind\<close>, and collecting an iterator of results is \<open>res_map\<close>.
\<close>

fun res_bind :: "'e + 'a \<Rightarrow> ('a \<Rightarrow> 'e + 'b) \<Rightarrow> 'e + 'b" where
  "res_bind (Inl e) f = Inl e"
| "res_bind (Inr x) f = f x"

fun res_map :: "('a \<Rightarrow> 'e + 'b) \<Rightarrow> 'a list \<Rightarrow> 'e + 'b list" where
  "res_map f [] = Inr []"
| "res_map f (x # xs) = res_bind (f x) (\<lambda>y. res_bind (res_map f xs) (\<lambda>ys. Inr (y # ys)))"

lemma res_bind_eq_Inr [simp]:
  "res_bind r f = Inr y \<longleftrightarrow> (\<exists>x. r = Inr x \<and> f x = Inr y)"
  by (cases r) auto

lemma res_bind_eq_Inl:
  "res_bind r f = Inl e \<longleftrightarrow> r = Inl e \<or> (\<exists>x. r = Inr x \<and> f x = Inl e)"
  by (cases r) auto

lemma res_map_Inr: "(\<And>x. x \<in> set xs \<Longrightarrow> f x = Inr (g x)) \<Longrightarrow> res_map f xs = Inr (map g xs)"
  by (induction xs) auto

lemma res_map_length: "res_map f xs = Inr ys \<Longrightarrow> length ys = length xs"
  by (induction xs arbitrary: ys) auto

section \<open>Integers as bytes\<close>

text \<open>
  \<open>to_le_bytes\<close> / \<open>from_le_bytes\<close> on a value of \<open>n\<close> bytes; tokio's \<open>write_u32\<close> and
  \<open>write_u64\<close> write the same digits most significant byte first.
\<close>

fun nat_to_le :: "nat \<Rightarrow> nat \<Rightarrow> bytes" where
  "nat_to_le 0 x = []"
| "nat_to_le (Suc n) x = word_of_nat x # nat_to_le n (x div 256)"

fun nat_of_le :: "bytes \<Rightarrow> nat" where
  "nat_of_le [] = 0"
| "nat_of_le (b # bs) = unat b + 256 * nat_of_le bs"

lemma unat_less: "unat (w :: 'a::len word) < 2 ^ LENGTH('a)"
  by (rule unsigned_less)

lemma length_nat_to_le [simp]: "length (nat_to_le n x) = n"
  by (induction n arbitrary: x) auto

lemma nat_of_to_le: "nat_of_le (nat_to_le n x) = x mod 256 ^ n"
proof (induction n arbitrary: x)
  case 0
  then show ?case by simp
next
  case (Suc n)
  have "x mod 256 ^ Suc n = x mod 256 + 256 * (x div 256 mod 256 ^ n)"
    by (simp add: mod_mult2_eq)
  with Suc show ?case by (simp add: unat_of_nat)
qed

lemma nat_of_le_bound: "nat_of_le bs < 256 ^ length bs"
proof (induction bs)
  case (Cons b bs)
  have "unat b < 256" using unat_less [of b] by simp
  moreover have "nat_of_le bs + 1 \<le> 256 ^ length bs" using Cons by simp
  then have "256 * nat_of_le bs + 256 \<le> 256 * 256 ^ length bs" by linarith
  ultimately show ?case by simp
qed simp

lemma nat_to_of_le: "nat_to_le (length bs) (nat_of_le bs) = bs"
proof (induction bs)
  case (Cons b bs)
  have b: "unat b < 256" using unat_less [of b] by simp
  then have "(unat b + 256 * nat_of_le bs) div 256 = nat_of_le bs" by simp
  moreover have "(word_of_nat (unat b + 256 * nat_of_le bs) :: u8) = b"
  proof -
    have "(word_of_nat (256 * nat_of_le bs) :: u8) = 0"
      by (simp add: word_of_nat_eq_0_iff del: of_nat_mult)
    then show ?thesis by (simp del: of_nat_mult)
  qed
  ultimately show ?case using Cons by simp
qed simp

definition le_of_u16 :: "u16 \<Rightarrow> bytes" where "le_of_u16 w = nat_to_le 2 (unat w)"
definition le_of_u32 :: "u32 \<Rightarrow> bytes" where "le_of_u32 w = nat_to_le 4 (unat w)"
definition le_of_u64 :: "u64 \<Rightarrow> bytes" where "le_of_u64 w = nat_to_le 8 (unat w)"
definition u16_of_le :: "bytes \<Rightarrow> u16" where "u16_of_le bs = word_of_nat (nat_of_le bs)"
definition u32_of_le :: "bytes \<Rightarrow> u32" where "u32_of_le bs = word_of_nat (nat_of_le bs)"
definition u64_of_le :: "bytes \<Rightarrow> u64" where "u64_of_le bs = word_of_nat (nat_of_le bs)"

definition be_of_u32 :: "u32 \<Rightarrow> bytes" where "be_of_u32 w = rev (le_of_u32 w)"
definition be_of_u64 :: "u64 \<Rightarrow> bytes" where "be_of_u64 w = rev (le_of_u64 w)"
definition u32_of_be :: "bytes \<Rightarrow> u32" where "u32_of_be bs = u32_of_le (rev bs)"
definition u64_of_be :: "bytes \<Rightarrow> u64" where "u64_of_be bs = u64_of_le (rev bs)"

lemma length_le_of [simp]:
  "length (le_of_u16 a) = 2" "length (le_of_u32 b) = 4" "length (le_of_u64 c) = 8"
  "length (be_of_u32 b) = 4" "length (be_of_u64 c) = 8"
  by (simp_all add: le_of_u16_def le_of_u32_def le_of_u64_def be_of_u32_def be_of_u64_def)

lemma u16_of_le_of [simp, codec_simps]: "u16_of_le (le_of_u16 a) = a"
  using unat_less [of a] by (simp add: u16_of_le_def le_of_u16_def nat_of_to_le)

lemma u32_of_le_of [simp, codec_simps]: "u32_of_le (le_of_u32 b) = b"
  using unat_less [of b] by (simp add: u32_of_le_def le_of_u32_def nat_of_to_le)

lemma u64_of_le_of [simp, codec_simps]: "u64_of_le (le_of_u64 c) = c"
  using unat_less [of c] by (simp add: u64_of_le_def le_of_u64_def nat_of_to_le)

lemma u32_of_be_of [simp, codec_simps]: "u32_of_be (be_of_u32 b) = b"
  by (simp add: u32_of_be_def be_of_u32_def)

lemma u64_of_be_of [simp, codec_simps]: "u64_of_be (be_of_u64 c) = c"
  by (simp add: u64_of_be_def be_of_u64_def)

lemma le_of_u16_of [codec_simps]: "length bs = 2 \<Longrightarrow> le_of_u16 (u16_of_le bs) = bs"
  using nat_of_le_bound [of bs] nat_to_of_le [of bs]
  by (simp add: u16_of_le_def le_of_u16_def unat_of_nat)

lemma le_of_u32_of [codec_simps]: "length bs = 4 \<Longrightarrow> le_of_u32 (u32_of_le bs) = bs"
  using nat_of_le_bound [of bs] nat_to_of_le [of bs]
  by (simp add: u32_of_le_def le_of_u32_def unat_of_nat)

lemma le_of_u64_of [codec_simps]: "length bs = 8 \<Longrightarrow> le_of_u64 (u64_of_le bs) = bs"
  using nat_of_le_bound [of bs] nat_to_of_le [of bs]
  by (simp add: u64_of_le_def le_of_u64_def unat_of_nat)

lemma be_of_u32_of [codec_simps]: "length bs = 4 \<Longrightarrow> be_of_u32 (u32_of_be bs) = bs"
  by (simp add: u32_of_be_def be_of_u32_def le_of_u32_of)

lemma be_of_u64_of [codec_simps]: "length bs = 8 \<Longrightarrow> be_of_u64 (u64_of_be bs) = bs"
  by (simp add: u64_of_be_def be_of_u64_def le_of_u64_of)

lemma unat_word_of_nat_u64: "n < 2 ^ 64 \<Longrightarrow> unat (word_of_nat n :: u64) = n"
  by (simp add: unat_of_nat)

lemma unat_word_of_nat_u32: "n < 2 ^ 32 \<Longrightarrow> unat (word_of_nat n :: u32) = n"
  by (simp add: unat_of_nat)

lemma unat_u32_less: "unat (x :: u32) < 2 ^ 32"
  using unat_less [of x] by simp

lemma unat_u64_less: "unat (x :: u64) < 2 ^ 64"
  using unat_less [of x] by simp

lemma unat_add_u64: "unat (a :: u64) + unat b < 2 ^ 64 \<Longrightarrow> unat (a + b) = unat a + unat b"
  by (simp add: unat_word_ariths)

lemma unat_ucast_u32_u64 [simp]: "unat (ucast (x :: u32) :: u64) = unat x"
  using unat_less [of x] by (simp add: unsigned_ucast_eq take_bit_nat_eq_self)

section \<open>Reading from a byte cursor\<close>

text \<open>
  \<open>Cursor::read_exact\<close> and its kin: take the first bytes or report the end of the
  input. A reader returns the value read and the bytes left.
\<close>

datatype read_error = UnexpectedEof

type_synonym ('e, 'a) reader = "bytes \<Rightarrow> 'e + 'a \<times> bytes"

definition read_exact :: "nat \<Rightarrow> (read_error, bytes) reader" where
  "read_exact n bs = (if n \<le> length bs then Inr (take n bs, drop n bs) else Inl UnexpectedEof)"

text \<open>The loop \<open>for _ in 0..count { v.push(read(&mut cursor)?) }\<close>.\<close>

fun read_many :: "('e, 'a) reader \<Rightarrow> nat \<Rightarrow> ('e, 'a list) reader" where
  "read_many rd 0 bs = Inr ([], bs)"
| "read_many rd (Suc n) bs =
     res_bind (rd bs) (\<lambda>(x, bs1). res_bind (read_many rd n bs1) (\<lambda>(xs, bs2). Inr (x # xs, bs2)))"

lemma read_exact_append [simp, codec_simps]:
  "length xs = n \<Longrightarrow> read_exact n (xs @ r) = Inr (xs, r)"
  by (simp add: read_exact_def)

lemma read_exact_eq_Inr:
  "read_exact n bs = Inr (xs, r) \<longleftrightarrow> bs = xs @ r \<and> length xs = n"
  by (auto simp: read_exact_def split: if_splits)

text \<open>
  A wire format: an encoder and a reader that inverts it on well-formed values
  whatever follows. \<open>exact_codec\<close> adds that the reader accepts nothing but encodings.
\<close>

locale wire_codec =
  fixes enc :: "'a \<Rightarrow> bytes"
    and rd :: "bytes \<Rightarrow> 'e + 'a \<times> bytes"
    and ok :: "'a \<Rightarrow> bool"
  assumes rd_enc: "ok x \<Longrightarrow> rd (enc x @ r) = Inr (x, r)"
begin

lemma read_many_enc:
  "list_all ok xs \<Longrightarrow> read_many rd (length xs) (concat (map enc xs) @ r) = Inr (xs, r)"
  by (induction xs) (auto simp: rd_enc)

lemma enc_inject: "ok x \<Longrightarrow> ok y \<Longrightarrow> enc x @ r = enc y @ s \<Longrightarrow> x = y \<and> r = s"
  by (metis rd_enc Inr_inject prod.inject)

end

locale exact_codec = wire_codec enc rd ok
  for enc :: "'a \<Rightarrow> bytes" and rd :: "bytes \<Rightarrow> 'e + 'a \<times> bytes" and ok :: "'a \<Rightarrow> bool" +
  assumes enc_rd: "rd bs = Inr (x, r) \<Longrightarrow> bs = enc x @ r \<and> ok x"
begin

lemma read_many_exact:
  "read_many rd n bs = Inr (xs, r) \<Longrightarrow>
     bs = concat (map enc xs) @ r \<and> list_all ok xs \<and> length xs = n"
proof (induction n arbitrary: bs xs)
  case 0
  then show ?case by simp
next
  case (Suc n)
  then obtain y bs1 ys where 1: "rd bs = Inr (y, bs1)"
    and 2: "read_many rd n bs1 = Inr (ys, r)" and xs: "xs = y # ys"
    by (auto split: prod.splits)
  from enc_rd [OF 1] Suc.IH [OF 2] xs show ?case by auto
qed

lemma rd_unique: "rd bs = Inr (x, r) \<Longrightarrow> rd bs' = Inr (x, r) \<Longrightarrow> bs = bs'"
  using enc_rd by metis

end

definition read_u16 :: "(read_error, u16) reader" where
  "read_u16 bs = res_bind (read_exact 2 bs) (\<lambda>(x, r). Inr (u16_of_le x, r))"

definition read_u32 :: "(read_error, u32) reader" where
  "read_u32 bs = res_bind (read_exact 4 bs) (\<lambda>(x, r). Inr (u32_of_le x, r))"

interpretation c16: exact_codec le_of_u16 read_u16 "\<lambda>_. True"
  by unfold_locales
    (auto simp: read_u16_def read_exact_eq_Inr le_of_u16_of split: prod.splits)

interpretation c32: exact_codec le_of_u32 read_u32 "\<lambda>_. True"
  by unfold_locales
    (auto simp: read_u32_def read_exact_eq_Inr le_of_u32_of split: prod.splits)


section \<open>Text\<close>

text \<open>
  A Rust \<open>String\<close> is its UTF-8 bytes, one \<^typ>\<open>char\<close> per byte; \<open>as_bytes\<close> and its
  inverse translate. \<open>utf8_valid\<close> is the check of \<open>String::from_utf8\<close> (the well-formed
  byte sequences of the Unicode standard, table 3-7).
\<close>

definition as_bytes :: "string \<Rightarrow> bytes" where
  "as_bytes s = map (\<lambda>c. word_of_nat (of_char c)) s"

definition of_bytes :: "bytes \<Rightarrow> string" where
  "of_bytes bs = map (\<lambda>b. char_of (unat b)) bs"

lemma length_as_bytes [simp]: "length (as_bytes s) = length s"
  by (simp add: as_bytes_def)

lemma of_bytes_as_bytes [simp]: "of_bytes (as_bytes s) = s"
proof -
  have "char_of (unat (word_of_nat (of_char c) :: u8)) = c" for c
    by (simp add: unat_of_nat of_char_mod_256)
  then show ?thesis by (simp add: of_bytes_def as_bytes_def map_idI)
qed

lemma as_bytes_of_bytes [simp]: "as_bytes (of_bytes bs) = bs"
proof -
  have "(word_of_nat (of_char (char_of (unat b))) :: u8) = b" for b :: u8
    using unat_less [of b] by (simp add: of_char_of)
  then show ?thesis by (simp add: of_bytes_def as_bytes_def map_idI)
qed

definition utf8_cont :: "u8 \<Rightarrow> bool" where
  "utf8_cont b \<longleftrightarrow> 128 \<le> unat b \<and> unat b \<le> 191"

definition in_range :: "nat \<Rightarrow> nat \<Rightarrow> u8 \<Rightarrow> bool" where
  "in_range lo hi b \<longleftrightarrow> lo \<le> unat b \<and> unat b \<le> hi"

fun utf8_valid :: "bytes \<Rightarrow> bool" where
  "utf8_valid [] = True"
| "utf8_valid (b # bs) =
     (if in_range 0 127 b then utf8_valid bs
      else case bs of
        [] \<Rightarrow> False
      | c # cs \<Rightarrow>
          if in_range 194 223 b then utf8_cont c \<and> utf8_valid cs
          else case cs of
            [] \<Rightarrow> False
          | d # ds \<Rightarrow>
              if in_range 224 239 b then
                (if b = 224 then in_range 160 191 c
                 else if b = 237 then in_range 128 159 c
                 else utf8_cont c) \<and> utf8_cont d \<and> utf8_valid ds
              else case ds of
                [] \<Rightarrow> False
              | e # es \<Rightarrow>
                  in_range 240 244 b \<and>
                  (if b = 240 then in_range 144 191 c
                   else if b = 244 then in_range 128 143 c
                   else utf8_cont c) \<and> utf8_cont d \<and> utf8_cont e \<and> utf8_valid es)"

lemma utf8_valid_ascii: "list_all (in_range 0 127) bs \<Longrightarrow> utf8_valid bs"
  by (induction bs) auto

text \<open>\<open>str::is_char_boundary\<close>: slicing a \<open>str\<close> elsewhere panics.\<close>

definition is_char_boundary :: "bytes \<Rightarrow> nat \<Rightarrow> bool" where
  "is_char_boundary bs i \<longleftrightarrow> i = 0 \<or> i = length bs \<or> i < length bs \<and> \<not> utf8_cont (bs ! i)"

subsection \<open>Hexadecimal\<close>

definition hex_digit :: "nat \<Rightarrow> char" where
  "hex_digit n = ''0123456789abcdef'' ! n"

text \<open>\<open>format!("{b:02x}")\<close>.\<close>

definition hex2 :: "u8 \<Rightarrow> string" where
  "hex2 b = [hex_digit (unat b div 16), hex_digit (unat b mod 16)]"

definition hex_bytes :: "bytes \<Rightarrow> string" where
  "hex_bytes bs = concat (map hex2 bs)"

text \<open>
  \<open>format!("{n:016x}")\<close> of a \<open>u64\<close>: sixteen digits, most significant first, which are
  the two digits of each of its bytes in big-endian order.
\<close>

definition hex16 :: "u64 \<Rightarrow> string" where
  "hex16 n = hex_bytes (be_of_u64 n)"

text \<open>\<open>char::to_digit(16)\<close> and \<open>u8::from_str_radix(_, 16)\<close> on a text of two bytes.\<close>

definition digit16 :: "char \<Rightarrow> nat option" where
  "digit16 c = (let n = of_char c :: nat in
     if 48 \<le> n \<and> n \<le> 57 then Some (n - 48)
     else if 97 \<le> n \<and> n \<le> 102 then Some (n - 87)
     else if 65 \<le> n \<and> n \<le> 70 then Some (n - 55)
     else None)"

definition u8_from_hex2 :: "char \<Rightarrow> char \<Rightarrow> u8 option" where
  "u8_from_hex2 c d =
     (if c = CHR ''+'' then map_option word_of_nat (digit16 d)
      else case (digit16 c, digit16 d) of
        (Some x, Some y) \<Rightarrow> Some (word_of_nat (16 * x + y))
      | _ \<Rightarrow> None)"

lemma nibble_cases: "n < 16 \<Longrightarrow> n \<in> {0, 1, 2, 3, 4, 5, 6, 7, 8, 9, 10, 11, 12, 13, 14, 15 :: nat}"
  by (simp, presburger)

lemma digit16_hex_digit: "n < 16 \<Longrightarrow> digit16 (hex_digit n) = Some n"
  by (drule nibble_cases) (auto simp: digit16_def hex_digit_def)

lemma hex_digit_ascii: "n < 16 \<Longrightarrow> of_char (hex_digit n) < (128 :: nat) \<and> hex_digit n \<noteq> CHR ''+''"
  by (drule nibble_cases) (auto simp: hex_digit_def)

lemma hex_digit_inj: "m < 16 \<Longrightarrow> n < 16 \<Longrightarrow> hex_digit m = hex_digit n \<Longrightarrow> m = n"
  by (metis digit16_hex_digit option.inject)

lemma byte_nibbles: "unat (b :: u8) div 16 < 16" "unat (b :: u8) mod 16 < 16"
  using unat_less [of b] by auto

lemma u8_from_hex2_hex2: "u8_from_hex2 (hex2 b ! 0) (hex2 b ! 1) = Some b"
  using byte_nibbles [of b] hex_digit_ascii [of "unat b div 16"]
  by (simp add: u8_from_hex2_def hex2_def digit16_hex_digit)

lemma hex2_inject [simp]: "hex2 a = hex2 b \<longleftrightarrow> a = b"
  by (metis u8_from_hex2_hex2 option.inject)

lemma length_hex2 [simp]: "length (hex2 b) = 2"
  by (simp add: hex2_def)

lemma hex_bytes_simps [simp]:
  "hex_bytes [] = []" "hex_bytes (b # bs) = hex2 b @ hex_bytes bs"
  by (simp_all add: hex_bytes_def)

lemma length_hex_bytes [simp]: "length (hex_bytes bs) = 2 * length bs"
  by (induction bs) auto

lemma hex_bytes_inject [simp]: "hex_bytes xs = hex_bytes ys \<longleftrightarrow> xs = ys"
proof
  assume "hex_bytes xs = hex_bytes ys"
  then show "xs = ys"
  proof (induction xs arbitrary: ys)
    case Nil
    then show ?case by (cases ys) (auto simp: hex2_def)
  next
    case (Cons x xs)
    then show ?case
    proof (cases ys)
      case Nil
      with Cons.prems show ?thesis by (simp add: hex2_def)
    next
      case (Cons y ys')
      with Cons.prems have "hex2 x = hex2 y \<and> hex_bytes xs = hex_bytes ys'"
        by (simp add: append_eq_append_conv del: hex2_inject)
      with Cons Cons.IH show ?thesis by simp
    qed
  qed
qed simp

lemma length_hex16 [simp]: "length (hex16 n) = 16"
  by (simp add: hex16_def)

lemma hex16_inject [simp]: "hex16 a = hex16 b \<longleftrightarrow> a = b"
  by (metis hex16_def hex_bytes_inject u64_of_be_of)

subsection \<open>Decimal\<close>

fun show_nat :: "nat \<Rightarrow> string" where
  "show_nat n = (if n < 10 then [char_of (48 + n)] else show_nat (n div 10) @ [char_of (48 + n mod 10)])"

declare show_nat.simps [simp del]

text \<open>\<open>u64::to_string\<close>, and \<open>str::parse::<u64>\<close>: an optional plus sign, then digits, no overflow.\<close>

definition show_u64 :: "u64 \<Rightarrow> string" where
  "show_u64 w = show_nat (unat w)"

definition is_digit :: "char \<Rightarrow> bool" where
  "is_digit c \<longleftrightarrow> 48 \<le> (of_char c :: nat) \<and> (of_char c :: nat) \<le> 57"

definition digits_value :: "string \<Rightarrow> nat" where
  "digits_value s = foldl (\<lambda>acc c. 10 * acc + (of_char c - 48)) 0 s"

definition parse_u64 :: "string \<Rightarrow> u64 option" where
  "parse_u64 s =
     (let ds = (case s of c # (d # rest) \<Rightarrow> if c = CHR ''+'' then d # rest else s | _ \<Rightarrow> s)
      in if ds \<noteq> [] \<and> list_all is_digit ds \<and> digits_value ds < 2 ^ 64
         then Some (word_of_nat (digits_value ds)) else None)"

lemma of_char_digit: "k < 10 \<Longrightarrow> of_char (char_of (48 + k) :: char) = 48 + (k :: nat)"
  by (simp add: of_char_of)

lemma show_nat_digits: "list_all is_digit (show_nat n)"
proof (induction n rule: show_nat.induct)
  case (1 n)
  show ?case
    by (cases "n < 10") (use 1 in \<open>auto simp: show_nat.simps [of n] is_digit_def of_char_of\<close>)
qed

lemma show_nat_nonempty [simp]: "show_nat n \<noteq> []"
  by (simp add: show_nat.simps [of n])

lemma digits_value_show_nat [simp]: "digits_value (show_nat n) = n"
proof (induction n rule: show_nat.induct)
  case (1 n)
  show ?case
    by (cases "n < 10")
      (use 1 in \<open>auto simp: show_nat.simps [of n] digits_value_def of_char_of\<close>)
qed

lemma show_nat_inject [simp]: "show_nat m = show_nat n \<longleftrightarrow> m = n"
  by (metis digits_value_show_nat)

lemma show_u64_inject [simp]: "show_u64 a = show_u64 b \<longleftrightarrow> a = b"
  by (simp add: show_u64_def word_unat_eq_iff)

lemma show_u64_digits: "c \<in> set (show_u64 w) \<Longrightarrow> is_digit c"
  using show_nat_digits [of "unat w"] by (auto simp: show_u64_def list_all_iff)

lemma parse_show_u64 [simp]: "parse_u64 (show_u64 w) = Some w"
proof -
  let ?s = "show_nat (unat w)"
  have ne: "?s \<noteq> []" by simp
  have "CHR ''+'' \<notin> set ?s"
    using show_nat_digits [of "unat w"] by (auto simp: list_all_iff is_digit_def)
  then have "(case ?s of c # (d # rest) \<Rightarrow> if c = CHR ''+'' then d # rest else ?s | _ \<Rightarrow> ?s) = ?s"
    by (auto split: list.splits)
  with ne show ?thesis
    using show_nat_digits [of "unat w"] unat_less [of w]
    by (simp add: parse_u64_def show_u64_def Let_def)
qed

text \<open>\<open>str::strip_prefix\<close> and \<open>str::strip_suffix\<close>.\<close>

definition strip_prefix :: "string \<Rightarrow> string \<Rightarrow> string option" where
  "strip_prefix p s = (if prefix p s then Some (drop (length p) s) else None)"

definition strip_suffix :: "string \<Rightarrow> string \<Rightarrow> string option" where
  "strip_suffix p s = (if suffix p s then Some (take (length s - length p) s) else None)"

lemma strip_prefix_eq: "strip_prefix p s = Some r \<longleftrightarrow> s = p @ r"
  by (auto simp: strip_prefix_def prefix_def)

lemma strip_suffix_eq: "strip_suffix p s = Some r \<longleftrightarrow> s = r @ p"
  by (auto simp: strip_suffix_def suffix_def)

section \<open>Ordered tables\<close>

text \<open>
  A redb table is a finite map whose iterator yields the entries in ascending key order.
  It is modelled by the list of its entries in that order. \<open>kv_table\<close> is the contract
  the stores rely on; their lemmas are proved from it and reach the model through the
  interpretation \<open>tbl\<close>.
\<close>

type_synonym ('k, 'v) table = "('k \<times> 'v) list"

definition tbl_ok :: "('k::linorder, 'v) table \<Rightarrow> bool" where
  "tbl_ok t \<longleftrightarrow> sorted_wrt (<) (map fst t)"

definition tbl_get :: "('k, 'v) table \<Rightarrow> 'k \<Rightarrow> 'v option" where
  "tbl_get t k = map_of t k"

definition tbl_insert :: "'k::linorder \<Rightarrow> 'v \<Rightarrow> ('k, 'v) table \<Rightarrow> ('k, 'v) table" where
  "tbl_insert k v t = takeWhile (\<lambda>e. fst e < k) t @ (k, v) # dropWhile (\<lambda>e. fst e \<le> k) t"

definition tbl_remove :: "'k \<Rightarrow> ('k, 'v) table \<Rightarrow> ('k, 'v) table" where
  "tbl_remove k t = filter (\<lambda>e. fst e \<noteq> k) t"

locale kv_table =
  fixes empty :: "'t"
    and get :: "'t \<Rightarrow> 'k \<Rightarrow> 'v option"
    and insert :: "'k \<Rightarrow> 'v \<Rightarrow> 't \<Rightarrow> 't"
    and remove :: "'k \<Rightarrow> 't \<Rightarrow> 't"
    and entries :: "'t \<Rightarrow> ('k \<times> 'v) list"
    and ok :: "'t \<Rightarrow> bool"
  assumes ok_empty: "ok empty"
    and ok_insert: "ok t \<Longrightarrow> ok (insert k v t)"
    and ok_remove: "ok t \<Longrightarrow> ok (remove k t)"
    and get_empty: "get empty k = None"
    and get_insert: "ok t \<Longrightarrow> get (insert k v t) j = (if j = k then Some v else get t j)"
    and get_remove: "ok t \<Longrightarrow> get (remove k t) j = (if j = k then None else get t j)"
    and entries_get: "ok t \<Longrightarrow> (k, v) \<in> set (entries t) \<longleftrightarrow> get t k = Some v"
    and entries_distinct: "ok t \<Longrightarrow> distinct (map fst (entries t))"
begin

lemma entries_insert:
  "ok t \<Longrightarrow> set (entries (insert k v t)) = {(k, v)} \<union> {e \<in> set (entries t). fst e \<noteq> k}"
  by (auto simp: entries_get ok_insert get_insert split: if_splits)

lemma entries_remove:
  "ok t \<Longrightarrow> set (entries (remove k t)) = {e \<in> set (entries t). fst e \<noteq> k}"
  by (auto simp: entries_get ok_remove get_remove split: if_splits)

lemma keys_get: "ok t \<Longrightarrow> k \<in> fst ` set (entries t) \<longleftrightarrow> get t k \<noteq> None"
  by (auto simp: entries_get image_iff) (metis entries_get fst_conv)

end

lemma tbl_ok_simps:
  "tbl_ok []"
  "tbl_ok ((k, v) # t) \<longleftrightarrow> (\<forall>e \<in> set t. k < fst e) \<and> tbl_ok t"
  by (auto simp: tbl_ok_def)

lemma tbl_insert_simps:
  "tbl_insert k v [] = [(k, v)]"
  "tbl_insert k v (e # t) =
     (if fst e < k then e # tbl_insert k v t
      else if fst e = k then (k, v) # dropWhile (\<lambda>e. fst e \<le> k) t
      else (k, v) # e # t)"
  by (auto simp: tbl_insert_def)

lemma tbl_dropWhile_above: "tbl_ok ((k, v) # t) \<Longrightarrow> dropWhile (\<lambda>e. fst e \<le> k) t = t"
  by (cases t) (auto simp: tbl_ok_simps)

lemma set_tbl_insert:
  "tbl_ok t \<Longrightarrow> set (tbl_insert k v t) = {(k, v)} \<union> {e \<in> set t. fst e \<noteq> k}"
proof (induction t)
  case (Cons e t)
  obtain j w where e: "e = (j, w)" by (cases e)
  from Cons.prems have t: "tbl_ok t" and above: "\<forall>e \<in> set t. j < fst e"
    by (auto simp: e tbl_ok_simps)
  consider "j < k" | "j = k" | "k < j" by (rule linorder_cases)
  then show ?case
  proof cases
    case 1
    with Cons.IH [OF t] e show ?thesis by (auto simp: tbl_insert_simps)
  next
    case 2
    with Cons.prems e above show ?thesis
      by (auto simp: tbl_insert_simps tbl_dropWhile_above [of k w t])
  next
    case 3
    with above e show ?thesis by (force simp: tbl_insert_simps)
  qed
qed (simp add: tbl_insert_def)

lemma tbl_ok_insert: "tbl_ok t \<Longrightarrow> tbl_ok (tbl_insert k v t)"
proof (induction t)
  case (Cons e t)
  obtain j w where e: "e = (j, w)" by (cases e)
  from Cons.prems have t: "tbl_ok t" and above: "\<forall>e \<in> set t. j < fst e"
    by (auto simp: e tbl_ok_simps)
  consider "j < k" | "j = k" | "k < j" by (rule linorder_cases)
  then show ?case
  proof cases
    case 1
    with Cons.IH [OF t] above e show ?thesis
      by (auto simp: tbl_insert_simps tbl_ok_simps set_tbl_insert [OF t])
  next
    case 2
    with t above e Cons.prems show ?thesis
      by (auto simp: tbl_insert_simps tbl_ok_simps tbl_dropWhile_above [of k w t])
  next
    case 3
    with t above e show ?thesis by (auto simp: tbl_insert_simps tbl_ok_simps)
  qed
qed (simp add: tbl_insert_def tbl_ok_def)

lemma tbl_ok_remove: "tbl_ok t \<Longrightarrow> tbl_ok (tbl_remove k t)"
  unfolding tbl_ok_def tbl_remove_def
  by (induction t) auto

lemma tbl_ok_distinct: "tbl_ok t \<Longrightarrow> distinct (map fst t)"
  unfolding tbl_ok_def by (metis strict_sorted_iff)

lemma tbl_get_iff: "tbl_ok t \<Longrightarrow> tbl_get t k = Some v \<longleftrightarrow> (k, v) \<in> set t"
  by (simp add: tbl_get_def tbl_ok_distinct)

lemma tbl_get_None: "tbl_get t k = None \<longleftrightarrow> k \<notin> fst ` set t"
  by (simp add: tbl_get_def map_of_eq_None_iff)

lemma option_eqI: "(\<And>w. a = Some w \<longleftrightarrow> b = Some w) \<Longrightarrow> a = b"
  by (cases a; cases b) auto

interpretation tbl: kv_table "[]" tbl_get tbl_insert tbl_remove "\<lambda>t. t" tbl_ok
proof unfold_locales
  fix t :: "('k::linorder, 'v) table" and k j v
  assume ok: "tbl_ok t"
  show "tbl_get (tbl_insert k v t) j = (if j = k then Some v else tbl_get t j)"
    by (rule option_eqI) (use ok in \<open>auto simp: tbl_get_iff tbl_ok_insert set_tbl_insert\<close>)
  show "tbl_get (tbl_remove k t) j = (if j = k then None else tbl_get t j)"
    by (induction t) (auto simp: tbl_get_def tbl_remove_def)
qed (auto simp: tbl_ok_simps tbl_ok_insert tbl_ok_remove tbl_get_iff tbl_ok_distinct tbl_get_def)

lemmas tbl_laws [tbl_simps] =
  tbl.get_insert tbl.get_remove tbl.entries_insert tbl.entries_remove tbl_ok_insert tbl_ok_remove

lemma tbl_get_empty [simp, tbl_simps]: "tbl_get [] k = None"
  by (simp add: tbl_get_def)

text \<open>Membership of an element in a sorted list of a set, used wherever a hash set is listed.\<close>

lemma sort_remdups_set [simp]: "set (sort (remdups xs)) = set xs"
  by simp

text \<open>
  An iteration order of hash sets and hash maps: any function that lists the distinct keys it is
  given, each once.
\<close>

definition lists_sets :: "('a list \<Rightarrow> 'a list) \<Rightarrow> bool" where
  "lists_sets order \<longleftrightarrow> (\<forall>xs. distinct xs \<longrightarrow> distinct (order xs) \<and> set (order xs) = set xs)"

end
