(* ===== verification/Manifest.thy ===== *)
theory Manifest
  imports Prelude
begin

text \<open>
  The version manifest \<^verbatim>\<open>.gameindex\<close> (\<^verbatim>\<open>crates/blaze-common/src/manifest.rs\<close>): its data
  types, the encoder, and the decoder with every rejection the source has. BLAKE3 is not
  part of the repository and is a parameter \<open>blake3\<close>; all that is assumed of it is that
  a digest has 32 bytes. Lengths are cast exactly as the source casts them (\<open>as u16\<close>,
  \<open>as u32\<close> keep the low bits).
\<close>

definition MAGIC :: bytes where "MAGIC = as_bytes ''BLZGI''"
definition FORMAT_VERSION :: u16 where "FORMAT_VERSION = 1"
definition HASH_LEN :: nat where "HASH_LEN = 32"

record chunk_meta =
  cm_hash :: bytes
  cm_len :: u32

record file_entry =
  fe_name :: string
  fe_hash :: bytes
  fe_chunks :: "chunk_meta list"

record game_index =
  gi_version :: u16
  gi_files :: "file_entry list"
  gi_hash :: bytes

datatype manifest_error =
    TooShort
  | BadMagic
  | Truncated
  | NameNotUtf8
  | TrailingData
  | HashMismatch

section \<open>Encoding\<close>

definition encode_chunk :: "chunk_meta \<Rightarrow> bytes" where
  "encode_chunk c = cm_hash c @ le_of_u32 (cm_len c)"

definition encode_file :: "file_entry \<Rightarrow> bytes" where
  "encode_file f =
     le_of_u16 (word_of_nat (length (as_bytes (fe_name f)))) @ as_bytes (fe_name f) @ fe_hash f @
     le_of_u32 (word_of_nat (length (fe_chunks f))) @ concat (map encode_chunk (fe_chunks f))"

definition encode_body :: "game_index \<Rightarrow> bytes" where
  "encode_body gi =
     MAGIC @ le_of_u16 (gi_version gi) @ le_of_u16 0 @
     le_of_u32 (word_of_nat (length (gi_files gi))) @ concat (map encode_file (gi_files gi))"

definition build :: "(bytes \<Rightarrow> bytes) \<Rightarrow> file_entry list \<Rightarrow> game_index" where
  "build blake3 files =
     (let index = \<lparr>gi_version = FORMAT_VERSION, gi_files = files, gi_hash = replicate HASH_LEN 0\<rparr>
      in index\<lparr>gi_hash := blake3 (encode_body index)\<rparr>)"

definition encode :: "game_index \<Rightarrow> bytes" where
  "encode gi = encode_body gi @ gi_hash gi"

section \<open>Decoding\<close>

text \<open>The \<open>?\<close> operator turns the I/O error of the cursor into the decoder's error.\<close>

definition lift_eof :: "read_error + 'a \<Rightarrow> manifest_error + 'a" where
  "lift_eof r = map_sum (\<lambda>_. Truncated) id r"

definition decode_chunk :: "(manifest_error, chunk_meta) reader" where
  "decode_chunk bs =
     res_bind (lift_eof (read_exact HASH_LEN bs)) (\<lambda>(hash, bs).
     res_bind (lift_eof (read_u32 bs)) (\<lambda>(len, bs).
       Inr (\<lparr>cm_hash = hash, cm_len = len\<rparr>, bs)))"

definition decode_file :: "(manifest_error, file_entry) reader" where
  "decode_file bs =
     res_bind (lift_eof (read_u16 bs)) (\<lambda>(name_len, bs).
     res_bind (lift_eof (read_exact (unat name_len) bs)) (\<lambda>(name_bytes, bs).
     if \<not> utf8_valid name_bytes then Inl NameNotUtf8 else
     res_bind (lift_eof (read_exact HASH_LEN bs)) (\<lambda>(file_hash, bs).
     res_bind (lift_eof (read_u32 bs)) (\<lambda>(chunk_count, bs).
     res_bind (read_many decode_chunk (unat chunk_count) bs) (\<lambda>(chunks, bs).
       Inr (\<lparr>fe_name = of_bytes name_bytes, fe_hash = file_hash, fe_chunks = chunks\<rparr>, bs))))))"

definition decode_body :: "bytes \<Rightarrow> manifest_error + u16 \<times> u16 \<times> file_entry list" where
  "decode_body body =
     res_bind (lift_eof (read_exact (length MAGIC) body)) (\<lambda>(magic, bs).
     if magic \<noteq> MAGIC then Inl BadMagic else
     res_bind (lift_eof (read_u16 bs)) (\<lambda>(format_version, bs).
     res_bind (lift_eof (read_u16 bs)) (\<lambda>(flags, bs).
     res_bind (lift_eof (read_u32 bs)) (\<lambda>(file_count, bs).
     res_bind (read_many decode_file (unat file_count) bs) (\<lambda>(files, rest).
     if rest \<noteq> [] then Inl TrailingData
     else Inr (format_version, flags, files))))))"

definition decode :: "(bytes \<Rightarrow> bytes) \<Rightarrow> bytes \<Rightarrow> manifest_error + game_index" where
  "decode blake3 bs =
     (if length bs < length MAGIC + 2 + 2 + 4 + HASH_LEN then Inl TooShort
      else let body = take (length bs - HASH_LEN) bs; tail = drop (length bs - HASH_LEN) bs in
        res_bind (decode_body body) (\<lambda>(format_version, flags, files).
        if blake3 body \<noteq> tail then Inl HashMismatch
        else Inr \<lparr>gi_version = format_version, gi_files = files, gi_hash = tail\<rparr>))"

definition chunk_hashes :: "game_index \<Rightarrow> bytes list" where
  "chunk_hashes gi = concat (map (\<lambda>f. map cm_hash (fe_chunks f)) (gi_files gi))"

definition chunk_set :: "game_index \<Rightarrow> bytes set" where
  "chunk_set gi = set (chunk_hashes gi)"

section \<open>Well-formed manifests\<close>

text \<open>What the Rust types and the width of the length fields allow.\<close>

definition wf_chunk :: "chunk_meta \<Rightarrow> bool" where
  "wf_chunk c \<longleftrightarrow> length (cm_hash c) = HASH_LEN"

definition wf_file :: "file_entry \<Rightarrow> bool" where
  "wf_file f \<longleftrightarrow> utf8_valid (as_bytes (fe_name f)) \<and> length (fe_name f) < 2 ^ 16 \<and>
     length (fe_hash f) = HASH_LEN \<and> length (fe_chunks f) < 2 ^ 32 \<and> list_all wf_chunk (fe_chunks f)"

definition wf_files :: "file_entry list \<Rightarrow> bool" where
  "wf_files fs \<longleftrightarrow> length fs < 2 ^ 32 \<and> list_all wf_file fs"

definition blake3_ok :: "(bytes \<Rightarrow> bytes) \<Rightarrow> bool" where
  "blake3_ok blake3 \<longleftrightarrow> (\<forall>bs. length (blake3 bs) = HASH_LEN)"

lemma lift_eof_simps [simp]:
  "lift_eof (Inr x) = Inr x" "lift_eof (Inl e) = Inl Truncated"
  "lift_eof r = Inr x \<longleftrightarrow> r = Inr x"
  by (cases r; simp add: lift_eof_def)+

lemma length_MAGIC [simp]: "length MAGIC = 5"
  by (simp add: MAGIC_def)

interpretation chunk_codec: exact_codec encode_chunk decode_chunk wf_chunk
proof unfold_locales
  fix c :: chunk_meta and r
  assume "wf_chunk c"
  then show "decode_chunk (encode_chunk c @ r) = Inr (c, r)"
    by (simp add: decode_chunk_def encode_chunk_def wf_chunk_def c32.rd_enc)
next
  fix bs c r
  assume "decode_chunk bs = Inr (c, r)"
  then show "bs = encode_chunk c @ r \<and> wf_chunk c"
    by (auto simp: decode_chunk_def encode_chunk_def wf_chunk_def read_exact_eq_Inr
        dest!: c32.enc_rd)
qed

lemma unat_u16_of_length: "n < 2 ^ 16 \<Longrightarrow> unat (word_of_nat n :: u16) = n"
  by (simp add: unat_of_nat)

interpretation file_codec: exact_codec encode_file decode_file wf_file
proof unfold_locales
  fix f :: file_entry and r
  assume wf: "wf_file f"
  then have "read_many decode_chunk (length (fe_chunks f))
      (concat (map encode_chunk (fe_chunks f)) @ r) = Inr (fe_chunks f, r)"
    by (intro chunk_codec.read_many_enc) (simp add: wf_file_def)
  with wf show "decode_file (encode_file f @ r) = Inr (f, r)"
    by (simp add: decode_file_def encode_file_def wf_file_def c16.rd_enc c32.rd_enc
        unat_u16_of_length unat_word_of_nat_u32)
next
  fix bs f r
  assume "decode_file bs = Inr (f, r)"
  then obtain name_len nm fh cc cs bs1 bs2 bs3 where
    1: "read_u16 bs = Inr (name_len, bs1)" and utf: "utf8_valid nm"
    and 2: "bs1 = nm @ bs2" "length nm = unat name_len"
    and 3: "read_exact HASH_LEN bs2 = Inr (fh, bs3)"
    and 4: "res_bind (lift_eof (read_u32 bs3)) (\<lambda>(cc, b). read_many decode_chunk (unat cc) b) = Inr (cs, r)"
    and f: "f = \<lparr>fe_name = of_bytes nm, fe_hash = fh, fe_chunks = cs\<rparr>"
    by (auto simp: decode_file_def read_exact_eq_Inr split: prod.splits if_splits)
  from 4 obtain cc b where cc: "read_u32 bs3 = Inr (cc, b)"
    and many: "read_many decode_chunk (unat cc) b = Inr (cs, r)"
    by (auto split: prod.splits)
  from chunk_codec.read_many_exact [OF many] have cs: "b = concat (map encode_chunk cs) @ r"
    "list_all wf_chunk cs" "length cs = unat cc" by auto
  from c16.enc_rd [OF 1] 2 have "bs = le_of_u16 (word_of_nat (length nm)) @ nm @ bs2" by simp
  moreover from 3 have "bs2 = fh @ bs3" "length fh = HASH_LEN" by (auto simp: read_exact_eq_Inr)
  moreover from c32.enc_rd [OF cc] cs have "bs3 = le_of_u32 (word_of_nat (length cs)) @
    concat (map encode_chunk cs) @ r" by simp
  moreover have "length nm < 2 ^ 16" using 2 unat_less [of name_len] by simp
  moreover have "length cs < 2 ^ 32" using cs unat_less [of cc] by simp
  ultimately show "bs = encode_file f @ r \<and> wf_file f"
    using utf cs(2) by (simp add: f encode_file_def wf_file_def)
      (metis as_bytes_of_bytes length_as_bytes)
qed

lemma encode_body_decode:
  assumes "wf_files (gi_files gi)"
  shows "decode_body (encode_body gi) = Inr (gi_version gi, 0, gi_files gi)"
proof -
  from assms have "read_many decode_file (length (gi_files gi))
      (concat (map encode_file (gi_files gi)) @ []) = Inr (gi_files gi, [])"
    by (intro file_codec.read_many_enc) (simp add: wf_files_def)
  with assms show ?thesis
    by (simp add: decode_body_def encode_body_def wf_files_def c16.rd_enc c32.rd_enc
        unat_word_of_nat_u32)
qed

text \<open>The body with an arbitrary value in the flags field, which the decoder ignores.\<close>

definition body_with_flags :: "u16 \<Rightarrow> game_index \<Rightarrow> bytes" where
  "body_with_flags flags gi =
     MAGIC @ le_of_u16 (gi_version gi) @ le_of_u16 flags @
     le_of_u32 (word_of_nat (length (gi_files gi))) @ concat (map encode_file (gi_files gi))"

lemma decode_body_exact:
  assumes "decode_body body = Inr (v, flags, files)"
  shows "body = body_with_flags flags \<lparr>gi_version = v, gi_files = files, gi_hash = h\<rparr> \<and> wf_files files"
proof -
  from assms obtain cnt bs1 bs2 bs3 bs4 where
    "body = MAGIC @ bs1" and 1: "read_u16 bs1 = Inr (v, bs2)" and 2: "read_u16 bs2 = Inr (flags, bs3)"
    and 3: "read_u32 bs3 = Inr (cnt, bs4)" and many: "read_many decode_file (unat cnt) bs4 = Inr (files, [])"
    by (auto simp: decode_body_def read_exact_eq_Inr split: prod.splits if_splits)
  with file_codec.read_many_exact [OF many] c16.enc_rd [OF 1] c16.enc_rd [OF 2] c32.enc_rd [OF 3]
    unat_less [of cnt]
  show ?thesis by (auto simp: body_with_flags_def wf_files_def)
qed

lemma length_encode_body_ge: "13 \<le> length (encode_body gi)"
  by (simp add: encode_body_def)

lemma build_simps [simp]:
  "gi_version (build b fs) = FORMAT_VERSION" "gi_files (build b fs) = fs"
  by (simp_all add: build_def Let_def)

lemma build_hash: "gi_hash (build b fs) = b (encode_body (build b fs))"
  by (simp add: build_def Let_def encode_body_def)

lemma decode_encode:
  assumes "length (gi_hash gi) = HASH_LEN" "gi_hash gi = blake3 (encode_body gi)"
    and "wf_files (gi_files gi)"
  shows "decode blake3 (encode gi) = Inr gi"
  using assms encode_body_decode [of gi] length_encode_body_ge [of gi]
  by (simp add: decode_def encode_def HASH_LEN_def Let_def)

lemma decode_chunk_error: "decode_chunk bs = Inl e \<Longrightarrow> e = Truncated"
  by (auto simp: decode_chunk_def lift_eof_def res_bind_eq_Inl split: prod.splits)
    (auto simp: map_sum_def split: sum.splits)

lemma read_many_decode_chunk_short:
  "length bs < 36 * n \<Longrightarrow> read_many decode_chunk n bs = Inl Truncated"
proof (cases "read_many decode_chunk n bs")
  case (Inl e)
  then have "e = Truncated"
    by (induction n arbitrary: bs e)
      (auto simp: res_bind_eq_Inl split: prod.splits dest: decode_chunk_error)
  with Inl show ?thesis by simp
next
  case (Inr q)
  then obtain cs r where "read_many decode_chunk n bs = Inr (cs, r)" by (cases q) auto
  from chunk_codec.read_many_exact [OF this]
  have "bs = concat (map encode_chunk cs) @ r" "list_all wf_chunk cs" "length cs = n" by auto
  moreover have "list_all wf_chunk cs \<Longrightarrow> length (concat (map encode_chunk cs)) = 36 * length cs"
    for cs by (induction cs) (auto simp: encode_chunk_def wf_chunk_def HASH_LEN_def)
  ultimately have "36 * n \<le> length bs" by simp
  moreover assume "length bs < 36 * n"
  ultimately show ?thesis by simp
qed

section \<open>Properties\<close>

text \<open>
  C11. Encoding the manifest built from well-formed file entries and decoding the bytes
  gives the manifest back, for every 32-byte digest function.
\<close>

theorem decode_encode_build:
  assumes "blake3_ok blake3" and "wf_files files"
  shows "decode blake3 (encode (build blake3 files)) = Inr (build blake3 files)"
  using assms by (intro decode_encode) (simp_all add: build_hash blake3_ok_def)

theorem decode_encode_build_witness:
  "decode (\<lambda>bs. replicate 32 (word_of_nat (length bs)))
     (encode (build (\<lambda>bs. replicate 32 (word_of_nat (length bs)))
       [\<lparr>fe_name = ''a.bin'', fe_hash = replicate 32 7,
         fe_chunks = [\<lparr>cm_hash = replicate 32 1, cm_len = 10\<rparr>]\<rparr>])) =
   Inr (build (\<lambda>bs. replicate 32 (word_of_nat (length bs)))
       [\<lparr>fe_name = ''a.bin'', fe_hash = replicate 32 7,
         fe_chunks = [\<lparr>cm_hash = replicate 32 1, cm_len = 10\<rparr>]\<rparr>])"
  by (rule decode_encode_build)
    (simp_all add: blake3_ok_def wf_files_def wf_file_def wf_chunk_def HASH_LEN_def
      as_bytes_def utf8_valid_ascii in_range_def)

text \<open>
  C12. Whatever the decoder accepts is a well-formed manifest whose digest covers the whole
  body, and the accepted bytes are the encoding of the result with some value in the
  reserved flags field. So re-encoding reproduces the input exactly when the flags are 0:
  the decoder drops them, and the digest of the re-encoded body no longer matches.
\<close>

theorem decode_sound:
  assumes "decode blake3 bs = Inr gi"
  shows "wf_files (gi_files gi) \<and> length (gi_hash gi) = HASH_LEN \<and>
    (\<exists>flags. bs = body_with_flags flags gi @ gi_hash gi \<and>
             gi_hash gi = blake3 (body_with_flags flags gi) \<and>
             (encode gi = bs \<longleftrightarrow> flags = 0))"
proof -
  let ?body = "take (length bs - HASH_LEN) bs" and ?tail = "drop (length bs - HASH_LEN) bs"
  from assms obtain v flags files where len: "45 \<le> length bs"
    and body: "decode_body ?body = Inr (v, flags, files)" and hash: "blake3 ?body = ?tail"
    and gi: "gi = \<lparr>gi_version = v, gi_files = files, gi_hash = ?tail\<rparr>"
    by (auto simp: decode_def Let_def HASH_LEN_def split: if_splits prod.splits)
  from decode_body_exact [OF body, of ?tail] gi
  have b: "?body = body_with_flags flags gi" and wf: "wf_files (gi_files gi)" by simp_all
  have bs: "bs = body_with_flags flags gi @ gi_hash gi"
    by (metis append_take_drop_id b gi game_index.select_convs(3))
  moreover have "encode gi = bs \<longleftrightarrow> flags = 0"
    using bs by (simp add: encode_def encode_body_def body_with_flags_def)
      (metis u16_of_le_of)
  moreover have "gi_hash gi = blake3 (body_with_flags flags gi)" using hash b gi by simp
  moreover have "length (gi_hash gi) = HASH_LEN" using len gi by (simp add: HASH_LEN_def)
  ultimately show ?thesis using wf by blast
qed

theorem decode_sound_witness:
  "\<exists>flags. encode (build (\<lambda>_. replicate 32 5) []) =
       body_with_flags flags (build (\<lambda>_. replicate 32 5) []) @ gi_hash (build (\<lambda>_. replicate 32 5) [])"
proof -
  have "decode (\<lambda>_. replicate 32 5) (encode (build (\<lambda>_. replicate 32 5) [])) =
      Inr (build (\<lambda>_. replicate 32 5) [])"
    by (rule decode_encode) (simp_all add: build_hash HASH_LEN_def wf_files_def)
  from decode_sound [OF this] show ?thesis by blast
qed

text \<open>
  The length of a file name is written as \<open>name.len() as u16\<close>: for a name of 65536
  bytes the field holds 0, the encoder reports no error, and the manifest it produced
  cannot be decoded.
\<close>

theorem overlong_name_not_decodable:
  assumes "blake3_ok blake3"
  shows "decode blake3 (encode (build blake3
      [\<lparr>fe_name = replicate 65536 CHR ''a'', fe_hash = replicate 32 0, fe_chunks = []\<rparr>])) =
    Inl Truncated"
proof -
  let ?f = "\<lparr>fe_name = replicate 65536 CHR ''a'', fe_hash = replicate 32 0, fe_chunks = []\<rparr>"
  let ?a = "\<lambda>n. replicate n (97 :: u8)"
  let ?rest = "?a 65500 @ replicate 32 0 @ le_of_u32 0"
  have enc: "encode_file ?f = le_of_u16 0 @ ?a 32 @ ?a 4 @ ?rest"
  proof -
    have "as_bytes (replicate 65536 CHR ''a'') = ?a (32 + 4 + 65500)"
      by (simp add: as_bytes_def)
    moreover have "le_of_u16 65536 = le_of_u16 0" by (simp add: le_of_u16_def)
    ultimately show ?thesis
      by (simp only: encode_file_def replicate_add) simp
  qed
  have cnt: "unat (u32_of_le (?a 4)) = 1633771873"
  proof -
    have "?a 4 = [97, 97, 97, 97]" by code_simp
    then show ?thesis by (simp add: u32_of_le_def unat_of_nat)
  qed
  have "read_many decode_chunk 1633771873 ?rest = Inl Truncated"
    by (rule read_many_decode_chunk_short) simp
  then have "decode_file (encode_file ?f) = Inl Truncated"
    unfolding enc decode_file_def
    by (simp add: c16.rd_enc read_u32_def HASH_LEN_def cnt read_exact_def [of 0])
  then have "decode_body (encode_body (build blake3 [?f])) = Inl Truncated"
    by (simp add: decode_body_def encode_body_def c16.rd_enc c32.rd_enc)
  moreover have "length (gi_hash (build blake3 [?f])) = 32"
    using assms by (simp add: build_hash blake3_ok_def HASH_LEN_def)
  ultimately show ?thesis
    using length_encode_body_ge [of "build blake3 [?f]"]
    by (simp add: decode_def encode_def HASH_LEN_def Let_def)
qed

theorem overlong_name_not_decodable_witness:
  "decode (\<lambda>bs. replicate 32 1) (encode (build (\<lambda>bs. replicate 32 1)
      [\<lparr>fe_name = replicate 65536 CHR ''a'', fe_hash = replicate 32 0, fe_chunks = []\<rparr>])) =
    Inl Truncated"
  by (rule overlong_name_not_decodable) (simp add: blake3_ok_def HASH_LEN_def)

end
