(* ===== verification/Update_Plan.thy ===== *)
theory Update_Plan
  imports Manifest
begin

text \<open>
  The update plan (\<^verbatim>\<open>crates/blaze-common/src/update_plan.rs\<close>): the comparison of two
  manifests that tells a node which files are new, changed or gone and which chunks it has
  to download. Collecting pairs into a \<open>HashMap\<close> keeps the last entry of a repeated name;
  the loop over the chunks is a left fold over its three mutable variables.
\<close>

record update_plan =
  files_to_download :: "string list"
  files_to_update :: "string list"
  files_to_delete :: "string list"
  chunks_to_download :: "bytes list"
  download_bytes :: u64

definition file_map :: "game_index option \<Rightarrow> string \<rightharpoonup> file_entry" where
  "file_map old = (case old of None \<Rightarrow> Map.empty
     | Some o' \<Rightarrow> map_of (rev (map (\<lambda>f. (fe_name f, f)) (gi_files o'))))"

definition old_names :: "game_index option \<Rightarrow> string list" where
  "old_names old = (case old of None \<Rightarrow> [] | Some o' \<Rightarrow> map fe_name (gi_files o'))"

definition old_chunk_set :: "game_index option \<Rightarrow> bytes set" where
  "old_chunk_set old = (case old of None \<Rightarrow> {} | Some o' \<Rightarrow> chunk_set o')"

definition plan_file ::
    "(string \<rightharpoonup> file_entry) \<Rightarrow> string list \<times> string list \<Rightarrow> file_entry \<Rightarrow> string list \<times> string list" where
  "plan_file old_files = (\<lambda>(dl, upd) file.
     case old_files (fe_name file) of
       None \<Rightarrow> (dl @ [fe_name file], upd)
     | Some prev \<Rightarrow> if fe_hash prev \<noteq> fe_hash file then (dl, upd @ [fe_name file]) else (dl, upd))"

definition plan_chunk ::
    "bytes set \<Rightarrow> bytes set \<Rightarrow> bytes set \<times> bytes list \<times> u64 \<Rightarrow> chunk_meta \<Rightarrow> bytes set \<times> bytes list \<times> u64" where
  "plan_chunk old_chunks temp_chunks = (\<lambda>(seen, out, n) chunk.
     if cm_hash chunk \<in> old_chunks \<or> cm_hash chunk \<in> temp_chunks then (seen, out, n)
     else if cm_hash chunk \<notin> seen
       then (insert (cm_hash chunk) seen, out @ [cm_hash chunk], n + ucast (cm_len chunk))
     else (seen, out, n))"

definition all_chunks :: "game_index \<Rightarrow> chunk_meta list" where
  "all_chunks gi = concat (map fe_chunks (gi_files gi))"

definition compute :: "game_index \<Rightarrow> game_index option \<Rightarrow> bytes set \<Rightarrow> update_plan" where
  "compute new old temp_chunks =
     (let old_files = file_map old;
          (dl, upd) = foldl (plan_file old_files) ([], []) (gi_files new);
          new_names = map fe_name (gi_files new);
          del = sort (filter (\<lambda>n. n \<notin> set new_names) (remdups (old_names old)));
          (seen, out, n) = foldl (plan_chunk (old_chunk_set old) temp_chunks) ({}, [], 0) (all_chunks new)
      in \<lparr>files_to_download = dl, files_to_update = upd, files_to_delete = del,
          chunks_to_download = out, download_bytes = n\<rparr>)"

section \<open>Reference specification\<close>

text \<open>The first occurrence of every hash among the chunks that are not at hand yet.\<close>

fun first_chunks :: "bytes set \<Rightarrow> chunk_meta list \<Rightarrow> chunk_meta list" where
  "first_chunks have [] = []"
| "first_chunks have (c # cs) =
     (if cm_hash c \<in> have then first_chunks have cs
      else c # first_chunks (insert (cm_hash c) have) cs)"

lemma first_chunks_set:
  "cm_hash ` set (first_chunks have cs) = cm_hash ` set cs - have"
  by (induction "have" cs rule: first_chunks.induct) auto

lemma first_chunks_distinct: "distinct (map cm_hash (first_chunks have cs))"
proof (induction "have" cs rule: first_chunks.induct)
  case (2 "have" c cs)
  then show ?case
    using first_chunks_set [of "insert (cm_hash c) have" cs] by (auto simp: image_iff)
qed simp

lemma length_first_chunks: "length (first_chunks have cs) \<le> length cs"
  by (induction "have" cs rule: first_chunks.induct) auto

lemma set_chunk_hashes: "chunk_set gi = cm_hash ` set (all_chunks gi)"
  by (auto simp: chunk_set_def chunk_hashes_def all_chunks_def)

lemma foldl_plan_chunk:
  "foldl (plan_chunk old temp) (seen, out, n) cs =
     (seen \<union> cm_hash ` set (first_chunks (old \<union> temp \<union> seen) cs),
      out @ map cm_hash (first_chunks (old \<union> temp \<union> seen) cs),
      n + sum_list (map (\<lambda>c. ucast (cm_len c)) (first_chunks (old \<union> temp \<union> seen) cs)))"
proof (induction cs arbitrary: seen out n)
  case (Cons c cs)
  show ?case
  proof (cases "cm_hash c \<in> old \<union> temp \<union> seen")
    case True
    then have "plan_chunk old temp (seen, out, n) c = (seen, out, n)"
      by (auto simp: plan_chunk_def)
    with True Cons show ?thesis by auto
  next
    case False
    then have "plan_chunk old temp (seen, out, n) c =
        (insert (cm_hash c) seen, out @ [cm_hash c], n + ucast (cm_len c))"
      by (auto simp: plan_chunk_def)
    moreover have "old \<union> temp \<union> insert (cm_hash c) seen = insert (cm_hash c) (old \<union> temp \<union> seen)"
      by auto
    ultimately show ?thesis using False Cons by (auto simp: algebra_simps)
  qed
qed simp

lemma foldl_plan_file:
  "foldl (plan_file m) (dl, upd) fs =
     (dl @ map fe_name (filter (\<lambda>f. m (fe_name f) = None) fs),
      upd @ map fe_name (filter (\<lambda>f. \<exists>p. m (fe_name f) = Some p \<and> fe_hash p \<noteq> fe_hash f) fs))"
  by (induction fs arbitrary: dl upd) (auto simp: plan_file_def split: option.splits)

lemma compute_simps:
  "files_to_download (compute new old temp) =
     map fe_name (filter (\<lambda>f. file_map old (fe_name f) = None) (gi_files new))"
  "files_to_update (compute new old temp) =
     map fe_name (filter (\<lambda>f. \<exists>p. file_map old (fe_name f) = Some p \<and> fe_hash p \<noteq> fe_hash f) (gi_files new))"
  "files_to_delete (compute new old temp) =
     sort (filter (\<lambda>n. n \<notin> fe_name ` set (gi_files new)) (remdups (old_names old)))"
  "chunks_to_download (compute new old temp) =
     map cm_hash (first_chunks (old_chunk_set old \<union> temp) (all_chunks new))"
  "download_bytes (compute new old temp) =
     sum_list (map (\<lambda>c. ucast (cm_len c)) (first_chunks (old_chunk_set old \<union> temp) (all_chunks new)))"
  by (simp_all add: compute_def foldl_plan_file foldl_plan_chunk Let_def)

lemma file_map_dom: "file_map old n = None \<longleftrightarrow> n \<notin> set (old_names old)"
  by (auto simp: file_map_def old_names_def map_of_eq_None_iff image_image split: option.splits)

lemma unat_sum_list_u32:
  fixes cs :: "chunk_meta list"
  assumes "length cs < 2 ^ 32"
  shows "unat (sum_list (map (\<lambda>c. ucast (cm_len c) :: u64) cs)) = sum_list (map (\<lambda>c. unat (cm_len c)) cs)"
proof -
  have bound: "sum_list (map (\<lambda>c. unat (cm_len c)) cs) \<le> length cs * (2 ^ 32 - 1)" for cs :: "chunk_meta list"
  proof (induction cs)
    case (Cons c cs)
    have "unat (cm_len c) \<le> 2 ^ 32 - 1" using unat_u32_less [of "cm_len c"] by simp
    with Cons show ?case by simp
  qed simp
  show ?thesis
    using assms
  proof (induction cs)
    case (Cons c cs)
    then have IH: "unat (sum_list (map (\<lambda>c. ucast (cm_len c) :: u64) cs)) = sum_list (map (\<lambda>c. unat (cm_len c)) cs)"
      by simp
    have "sum_list (map (\<lambda>c. unat (cm_len c)) (c # cs)) \<le> length (c # cs) * (2 ^ 32 - 1)"
      by (rule bound)
    also have "\<dots> < 2 ^ 64" using Cons.prems by simp
    finally have "unat (ucast (cm_len c) :: u64) + unat (sum_list (map (\<lambda>c. ucast (cm_len c) :: u64) cs)) < 2 ^ 64"
      using IH by simp
    then show ?case using IH by (simp add: unat_add_u64)
  qed simp
qed

section \<open>Properties\<close>

text \<open>
  C13. The chunks to download are exactly the chunks of the new version that neither the
  old version nor the temporary directory holds, each listed once, in the order of their
  first occurrence in the new manifest; so old chunks, temporary chunks and downloads
  together cover the new version.
\<close>

theorem compute_chunks:
  "chunks_to_download (compute new old temp) =
      map cm_hash (first_chunks (old_chunk_set old \<union> temp) (all_chunks new)) \<and>
   distinct (chunks_to_download (compute new old temp)) \<and>
   set (chunks_to_download (compute new old temp)) = chunk_set new - (old_chunk_set old \<union> temp) \<and>
   chunk_set new \<subseteq> old_chunk_set old \<union> temp \<union> set (chunks_to_download (compute new old temp))"
  by (auto simp: compute_simps first_chunks_distinct set_chunk_hashes)
    (use first_chunks_set [of "old_chunk_set old \<union> temp" "all_chunks new"] in \<open>auto simp: image_iff\<close>)

text \<open>
  The byte count of the plan is the sum of the lengths of the listed chunks, with no
  wrap-around of the 64-bit counter, for every manifest with fewer than \<open>2 ^ 32\<close> chunks.
\<close>

theorem compute_download_bytes:
  assumes "length (all_chunks new) < 2 ^ 32"
  shows "unat (download_bytes (compute new old temp)) =
    sum_list (map (\<lambda>c. unat (cm_len c)) (first_chunks (old_chunk_set old \<union> temp) (all_chunks new)))"
  using assms length_first_chunks [of "old_chunk_set old \<union> temp" "all_chunks new"]
  by (simp only: compute_simps) (rule unat_sum_list_u32, simp)

theorem compute_download_bytes_witness:
  "unat (download_bytes (compute
     \<lparr>gi_version = 1, gi_files = [\<lparr>fe_name = ''a'', fe_hash = [],
        fe_chunks = [\<lparr>cm_hash = [1], cm_len = 100\<rparr>, \<lparr>cm_hash = [2], cm_len = 50\<rparr>, \<lparr>cm_hash = [1], cm_len = 100\<rparr>]\<rparr>],
      gi_hash = []\<rparr> None {})) = 150"
  by (subst compute_download_bytes) (simp_all add: all_chunks_def old_chunk_set_def)

text \<open>
  Every file of the new version is classified by its name: it is downloaded as new
  when the old version has no file of that name, updated when the old entry has another
  hash, and otherwise untouched; the files to delete are the old names that are gone,
  without repetition and in ascending order.
\<close>

theorem compute_files:
  "(n \<in> set (files_to_download (compute new old temp)) \<longleftrightarrow>
      n \<in> fe_name ` set (gi_files new) \<and> n \<notin> set (old_names old)) \<and>
   (n \<in> set (files_to_update (compute new old temp)) \<longleftrightarrow>
      (\<exists>f \<in> set (gi_files new). \<exists>p. fe_name f = n \<and> file_map old n = Some p \<and> fe_hash p \<noteq> fe_hash f)) \<and>
   (n \<in> set (files_to_delete (compute new old temp)) \<longleftrightarrow>
      n \<in> set (old_names old) \<and> n \<notin> fe_name ` set (gi_files new)) \<and>
   sorted (files_to_delete (compute new old temp)) \<and> distinct (files_to_delete (compute new old temp))"
  by (auto simp: compute_simps file_map_dom)

end
