(* ===== verification/Byte_File.thy ===== *)
theory Byte_File
  imports Prelude
begin

text \<open>
  Files as byte lists with positional reads and writes. The loops that complete short
  reads and writes (\<^verbatim>\<open>read_exact_at\<close>, \<^verbatim>\<open>write_exact_at_impl\<close> and \<^verbatim>\<open>write_exact_at\<close> of
  \<^verbatim>\<open>crates/origin/src/storage.rs\<close>, \<^verbatim>\<open>read_chunk_at\<close> of \<^verbatim>\<open>crates/agent/src/update.rs\<close>) and the
  sequential copier and writer of \<^verbatim>\<open>crates/blaze-common/src/compio_io.rs\<close>.

  How many bytes one system call transfers, and whether it fails, is the choice of the
  operating system: an oracle argument, over which every lemma is quantified. The compio
  library is not part of the repository: its \<open>read_exact_at\<close> and \<open>write_all_at\<close> are the
  fields of a record parameter with their documented behaviour as \<open>compio_ok\<close>.
  File positions are natural numbers (a file is far shorter than \<open>2 ^ 64\<close> bytes, so the
  sources' \<open>u64\<close> positions do not wrap before the end of the file is reported).
\<close>

datatype io_error = IoFault | ReadEof | WriteZero | SlicePanic

section \<open>Positional reads\<close>

type_synonym os_choice = "nat \<Rightarrow> nat \<Rightarrow> nat option"

text \<open>
  \<open>FileExt::read_at\<close>: an error, or between one byte and the whole request, and nothing
  only at the end of the file. Every such behaviour is some oracle \<open>rd\<close>.
\<close>

definition read_at :: "os_choice \<Rightarrow> bytes \<Rightarrow> nat \<Rightarrow> nat \<Rightarrow> io_error + bytes" where
  "read_at rd fc len off =
     (case rd len off of
        None \<Rightarrow> Inl IoFault
      | Some k \<Rightarrow> Inr (take (min len (max 1 k)) (drop off fc)))"

function read_exact_at :: "os_choice \<Rightarrow> bytes \<Rightarrow> nat \<Rightarrow> nat \<Rightarrow> io_error + bytes" where
  "read_exact_at rd fc len off =
     (if len = 0 then Inr []
      else case read_at rd fc len off of
        Inl e \<Rightarrow> Inl e
      | Inr xs \<Rightarrow>
          if xs = [] then Inl ReadEof
          else res_bind (read_exact_at rd fc (len - length xs) (off + length xs))
                 (\<lambda>ys. Inr (xs @ ys)))"
  by pat_completeness auto
termination
  by (relation "measure (\<lambda>(rd, fc, len, off). len)") auto

declare read_exact_at.simps [simp del]

lemma read_at_take:
  assumes "read_at rd fc len off = Inr xs"
  shows "xs = take (length xs) (drop off fc) \<and> length xs \<le> len"
proof -
  from assms obtain m where "xs = take m (drop off fc)" "m \<le> len"
    by (auto simp: read_at_def split: option.splits)
  then show ?thesis by (simp add: min_def)
qed

lemma read_at_Nil: "read_at rd fc len off = Inr [] \<Longrightarrow> len = 0 \<or> length fc \<le> off"
  by (auto simp: read_at_def split: option.splits)

lemma take_drop_split: "take n (drop off f) @ take m (drop (off + n) f) = take (n + m) (drop off f)"
  by (simp add: take_add add.commute [of off])

lemma read_exact_at_Inr:
  "read_exact_at rd fc len off = Inr xs \<Longrightarrow>
     xs = take len (drop off fc) \<and> length xs = len"
proof (induction rd fc len off arbitrary: xs rule: read_exact_at.induct)
  case (1 rd fc len off)
  show ?case
  proof (cases "len = 0")
    case True
    with 1 show ?thesis by (simp add: read_exact_at.simps)
  next
    case False
    with "1.prems" obtain ys zs where ys: "read_at rd fc len off = Inr ys" "ys \<noteq> []"
      and zs: "read_exact_at rd fc (len - length ys) (off + length ys) = Inr zs" and xs: "xs = ys @ zs"
      by (auto simp: read_exact_at.simps [of rd fc len off] split: sum.splits if_splits)
    note tk = read_at_take [OF ys(1)]
    from "1.IH" [OF False ys zs] have z: "zs = take (len - length ys) (drop (off + length ys) fc)"
      "length zs = len - length ys" by auto
    have "xs = take (length ys + (len - length ys)) (drop off fc)"
      unfolding xs take_drop_split [symmetric] using tk z(1) by simp
    with tk z xs show ?thesis by simp
  qed
qed

lemma read_exact_at_error:
  "read_exact_at rd fc len off = Inl e \<Longrightarrow>
     e = IoFault \<and> (\<exists>n o'. rd n o' = None) \<or> e = ReadEof \<and> length fc < off + len"
proof (induction rd fc len off rule: read_exact_at.induct)
  case (1 rd fc len off)
  from "1.prems" have ne: "len \<noteq> 0" by (rule_tac notI) (simp add: read_exact_at.simps)
  show ?case
  proof (cases "read_at rd fc len off")
    case (Inl e')
    with "1.prems" ne show ?thesis
      by (auto simp: read_exact_at.simps [of rd fc len off] read_at_def split: option.splits)
  next
    case (Inr ys)
    show ?thesis
    proof (cases "ys = []")
      case True
      with Inr "1.prems" ne read_at_Nil [of rd fc len off] show ?thesis
        by (auto simp: read_exact_at.simps [of rd fc len off])
    next
      case False
      with Inr "1.prems" ne
      have "read_exact_at rd fc (len - length ys) (off + length ys) = Inl e"
        by (auto simp: read_exact_at.simps [of rd fc len off] res_bind_eq_Inl)
      from "1.IH" [OF ne Inr False this] read_at_take [OF Inr] show ?thesis by auto
    qed
  qed
qed

text \<open>An operating system that reports no I/O error.\<close>

definition os_live :: "os_choice \<Rightarrow> bool" where
  "os_live rd \<longleftrightarrow> (\<forall>n off. rd n off \<noteq> None)"

lemma read_exact_at_live:
  assumes "os_live rd"
  shows "read_exact_at rd fc len off =
    (if len = 0 \<or> off + len \<le> length fc then Inr (take len (drop off fc)) else Inl ReadEof)"
proof (cases "read_exact_at rd fc len off")
  case (Inl e)
  have "rd n o' \<noteq> None" for n o' using assms by (simp add: os_live_def)
  with read_exact_at_error [OF Inl] have e: "e = ReadEof" "length fc < off + len"
    by blast+
  moreover have "len \<noteq> 0" using Inl by (rule_tac notI) (simp add: read_exact_at.simps)
  ultimately show ?thesis using Inl by auto
next
  case (Inr xs)
  from read_exact_at_Inr [OF Inr] have "xs = take len (drop off fc)" "len \<le> length fc - off"
    by auto
  with Inr show ?thesis by auto
qed

section \<open>Positional writes\<close>

text \<open>A write at a position past the end leaves a gap that reads as zeros.\<close>

definition pwrite :: "nat \<Rightarrow> bytes \<Rightarrow> bytes \<Rightarrow> bytes" where
  "pwrite off xs fc =
     take off (fc @ replicate (off - length fc) 0) @ xs @ drop (off + length xs) fc"

text \<open>\<open>write_exact_at_impl\<close> with the injected writer as a state transformer.\<close>

function write_exact_at_impl ::
    "(bytes \<Rightarrow> nat \<Rightarrow> 's \<Rightarrow> (io_error + nat) \<times> 's) \<Rightarrow> bytes \<Rightarrow> nat \<Rightarrow> 's \<Rightarrow> (io_error + unit) \<times> 's" where
  "write_exact_at_impl write buf off s =
     (if buf = [] then (Inr (), s)
      else case write buf off s of
        (Inl e, s') \<Rightarrow> (Inl e, s')
      | (Inr n, s') \<Rightarrow>
          if n = 0 then (Inl WriteZero, s')
          else if length buf < n then (Inl SlicePanic, s')
          else write_exact_at_impl write (drop n buf) (off + n) s')"
  by pat_completeness auto
termination
  by (relation "measure (\<lambda>(write, buf, off, s). length buf)") auto

declare write_exact_at_impl.simps [simp del]

definition write_at :: "os_choice \<Rightarrow> bytes \<Rightarrow> nat \<Rightarrow> bytes \<Rightarrow> (io_error + nat) \<times> bytes" where
  "write_at wr buf off fc =
     (case wr (length buf) off of
        None \<Rightarrow> (Inl IoFault, fc)
      | Some k \<Rightarrow> let n = min (length buf) k in (Inr n, pwrite off (take n buf) fc))"

definition write_exact_at :: "os_choice \<Rightarrow> bytes \<Rightarrow> nat \<Rightarrow> bytes \<Rightarrow> (io_error + unit) \<times> bytes" where
  "write_exact_at wr buf off fc = write_exact_at_impl (write_at wr) buf off fc"

lemma length_pwrite: "length (pwrite off xs fc) = max (length fc) (off + length xs)"
  by (auto simp: pwrite_def)

lemma pwrite_Nil: "off \<le> length fc \<Longrightarrow> pwrite off [] fc = fc"
  by (simp add: pwrite_def)

lemma pwrite_append:
  "off \<le> length fc \<Longrightarrow> pwrite (off + length xs) ys (pwrite off xs fc) = pwrite off (xs @ ys) fc"
  by (auto simp: pwrite_def ac_simps)

lemma take_pwrite: "n \<le> off \<Longrightarrow> off \<le> length fc \<Longrightarrow> take n (pwrite off xs fc) = take n fc"
  by (simp add: pwrite_def min_def)

lemma slice_before_pwrite:
  "o' + n \<le> off \<Longrightarrow> off \<le> length fc \<Longrightarrow>
     take n (drop o' (pwrite off xs fc)) = take n (drop o' fc)"
  using take_pwrite [of "o' + n" off fc xs]
  by (metis add.commute drop_take diff_add_inverse2)

lemma slice_pwrite: "off \<le> length fc \<Longrightarrow> take (length xs) (drop off (pwrite off xs fc)) = xs"
  by (simp add: pwrite_def)

text \<open>
  Whatever the operating system does, the file ends with some prefix of the buffer
  written at the position, the whole of it exactly when the call succeeds.
\<close>

lemma write_exact_at_result:
  assumes "off \<le> length fc" and "write_exact_at wr buf off fc = (r, fc')"
  shows "\<exists>k \<le> length buf. fc' = pwrite off (take k buf) fc \<and> (r = Inr () \<longrightarrow> k = length buf)"
  using assms unfolding write_exact_at_def
proof (induction "write_at wr" buf off fc arbitrary: r fc' rule: write_exact_at_impl.induct)
  case (1 buf off fc)
  show ?case
  proof (cases "buf = []")
    case True
    with "1.prems" show ?thesis by (auto simp: write_exact_at_impl.simps pwrite_Nil)
  next
    case False
    show ?thesis
    proof (cases "wr (length buf) off")
      case None
      with False "1.prems" show ?thesis
        by (auto simp: write_exact_at_impl.simps [of _ buf] write_at_def pwrite_Nil
            intro!: exI [of _ 0])
    next
      case (Some k)
      let ?n = "min (length buf) k"
      have w: "write_at wr buf off fc = (Inr ?n, pwrite off (take ?n buf) fc)"
        using Some by (simp add: write_at_def Let_def)
      show ?thesis
      proof (cases "?n = 0")
        case True
        with w False "1.prems" show ?thesis
          by (auto simp: write_exact_at_impl.simps [of _ buf] pwrite_Nil intro!: exI [of _ 0])
      next
        case n: False
        let ?f = "pwrite off (take ?n buf) fc"
        have rest: "write_exact_at_impl (write_at wr) (drop ?n buf) (off + ?n) ?f = (r, fc')"
          using "1.prems"(2) w False n by (auto simp: write_exact_at_impl.simps [of _ buf])
        have len: "off + ?n \<le> length ?f" using "1.prems"(1) by (simp add: length_pwrite)
        from "1.hyps" [OF False w [symmetric] refl n _ len rest]
        obtain j where j: "j \<le> length (drop ?n buf)" "fc' = pwrite (off + ?n) (take j (drop ?n buf)) ?f"
          "r = Inr () \<longrightarrow> j = length (drop ?n buf)" by auto
        have "fc' = pwrite off (take ?n buf @ take j (drop ?n buf)) fc"
          using j(2) pwrite_append [OF "1.prems"(1), of "take ?n buf" "take j (drop ?n buf)"] by simp
        also have "take ?n buf @ take j (drop ?n buf) = take (?n + j) buf" by (simp add: take_add)
        finally show ?thesis using j by (intro exI [of _ "?n + j"]) auto
      qed
    qed
  qed
qed

lemma write_exact_at_live:
  assumes "\<And>n off. \<exists>k. wr n off = Some (Suc k)"
  shows "fst (write_exact_at wr buf off fc) = Inr ()"
  unfolding write_exact_at_def
proof (induction "write_at wr" buf off fc rule: write_exact_at_impl.induct)
  case (1 buf off fc)
  obtain k where k: "wr (length buf) off = Some (Suc k)" using assms by blast
  show ?case
  proof (cases "buf = []")
    case True
    then show ?thesis by (simp add: write_exact_at_impl.simps)
  next
    case False
    let ?n = "min (length buf) (Suc k)"
    have w: "write_at wr buf off fc = (Inr ?n, pwrite off (take ?n buf) fc)"
      using k by (simp add: write_at_def Let_def)
    have n: "?n \<noteq> 0" using False by simp
    from "1.hyps" [OF False w [symmetric] refl n] w n False show ?thesis
      by (auto simp: write_exact_at_impl.simps [of _ buf])
  qed
qed

end
