(* ===== verification/Compio_Io.thy ===== *)
theory Compio_Io
  imports Byte_File
begin

text \<open>
  Sequential bulk I/O over compio (\<^verbatim>\<open>crates/blaze-common/src/compio_io.rs\<close>): the copier
  that rewrites a pack file from a list of ranges in pieces of one MiB, and the sequential
  writer that assembles a game file. The compio calls are the fields of the record
  \<open>compio\<close>: \<open>read_exact_at\<close> fills the buffer or fails, \<open>write_all_at\<close> writes the whole
  buffer or fails; creating, syncing and closing a file succeed or not.
\<close>

record compio =
  cx_open :: bool
  cx_create :: bool
  cx_read_exact_at :: "bytes \<Rightarrow> nat \<Rightarrow> nat \<Rightarrow> io_error + bytes"
  cx_write_all_at :: "bytes \<Rightarrow> bytes \<Rightarrow> nat \<Rightarrow> (io_error + unit) \<times> bytes"
  cx_sync :: bool
  cx_close :: bool

definition compio_ok :: "compio \<Rightarrow> bool" where
  "compio_ok cx \<longleftrightarrow>
     (\<forall>f n pos d. cx_read_exact_at cx f n pos = Inr d \<longrightarrow> d = take n (drop pos f) \<and> length d = n) \<and>
     (\<forall>f d pos f'. cx_write_all_at cx f d pos = (Inr (), f') \<longrightarrow> f' = pwrite pos d f)"

text \<open>A run in which nothing fails but reads past the end.\<close>

definition compio_live :: "compio \<Rightarrow> bool" where
  "compio_live cx \<longleftrightarrow> cx_open cx \<and> cx_create cx \<and> cx_sync cx \<and> cx_close cx \<and>
     (\<forall>f n pos. pos + n \<le> length f \<longrightarrow> (\<exists>d. cx_read_exact_at cx f n pos = Inr d)) \<and>
     (\<forall>f d pos. fst (cx_write_all_at cx f d pos) = Inr ())"

datatype copy_error = OpenSourceFailed | CreateTargetFailed | ReadChunkFailed | WriteChunkFailed | SyncFailed | CloseFailed

definition COPY_CHUNK :: nat where "COPY_CHUNK = 1024 * 1024"

section \<open>Copying ranges\<close>

text \<open>The inner \<open>while remaining > 0\<close> loop: the target file and the output offset are its state.\<close>

function copy_range ::
    "compio \<Rightarrow> bytes \<Rightarrow> nat \<Rightarrow> nat \<Rightarrow> bytes \<times> nat \<Rightarrow> copy_error + bytes \<times> nat" where
  "copy_range cx src remaining pos (dst, out_offset) =
     (if remaining = 0 then Inr (dst, out_offset)
      else let want = min remaining COPY_CHUNK in
        case cx_read_exact_at cx src want pos of
          Inl _ \<Rightarrow> Inl ReadChunkFailed
        | Inr data \<Rightarrow>
            (case cx_write_all_at cx dst data out_offset of
               (Inl _, _) \<Rightarrow> Inl WriteChunkFailed
             | (Inr _, dst') \<Rightarrow>
                 copy_range cx src (remaining - want) (pos + want) (dst', out_offset + want)))"
  by pat_completeness auto
termination
  by (relation "measure (\<lambda>(cx, src, remaining, pos, st). remaining)") (auto simp: COPY_CHUNK_def)

declare copy_range.simps [simp del]

fun copy_loop ::
    "compio \<Rightarrow> bytes \<Rightarrow> (u64 \<times> u32) list \<Rightarrow> bytes \<times> nat \<Rightarrow> copy_error + bytes \<times> nat" where
  "copy_loop cx src [] st = Inr st"
| "copy_loop cx src ((start, len) # ranges) st =
     res_bind (copy_range cx src (unat len) (unat start) st) (copy_loop cx src ranges)"

text \<open>The result is the new target file and the number of bytes written.\<close>

definition copy_ranges :: "compio \<Rightarrow> bytes \<Rightarrow> (u64 \<times> u32) list \<Rightarrow> copy_error + bytes \<times> u64" where
  "copy_ranges cx src ranges =
     (if \<not> cx_open cx then Inl OpenSourceFailed
      else if \<not> cx_create cx then Inl CreateTargetFailed
      else res_bind (copy_loop cx src ranges ([], 0)) (\<lambda>(dst, written).
        if \<not> cx_sync cx then Inl SyncFailed else Inr (dst, word_of_nat written)))"

definition range_slice :: "bytes \<Rightarrow> u64 \<times> u32 \<Rightarrow> bytes" where
  "range_slice src r = take (unat (snd r)) (drop (unat (fst r)) src)"

definition range_fits :: "bytes \<Rightarrow> u64 \<times> u32 \<Rightarrow> bool" where
  "range_fits src r \<longleftrightarrow> unat (snd r) = 0 \<or> unat (fst r) + unat (snd r) \<le> length src"

lemma pwrite_at_end: "pwrite (length f) d f = f @ d"
  by (simp add: pwrite_def)

lemma copy_range_Inr:
  assumes ok: "compio_ok cx"
  shows "copy_range cx src remaining pos (dst, length dst) = Inr (dst', n) \<Longrightarrow>
    dst' = dst @ take remaining (drop pos src) \<and> n = length dst' \<and>
    length (take remaining (drop pos src)) = remaining"
proof (induction remaining arbitrary: pos dst rule: less_induct)
  case (less remaining)
  show ?case
  proof (cases "remaining = 0")
    case True
    with less.prems show ?thesis by (auto simp: copy_range.simps)
  next
    case False
    let ?want = "min remaining COPY_CHUNK"
    from False less.prems obtain data dst1 where
      rd: "cx_read_exact_at cx src ?want pos = Inr data"
      and wr: "cx_write_all_at cx dst data (length dst) = (Inr (), dst1)"
      and rest: "copy_range cx src (remaining - ?want) (pos + ?want) (dst1, length dst + ?want) = Inr (dst', n)"
      by (auto simp: copy_range.simps [of cx src remaining] Let_def split: sum.splits prod.splits)
    have data: "data = take ?want (drop pos src)" "length data = ?want"
      using rd ok unfolding compio_ok_def by blast+
    have dst1: "dst1 = dst @ data"
      using wr ok unfolding compio_ok_def by (metis pwrite_at_end)
    from data have len: "length dst + ?want = length dst1" by (simp add: dst1)
    have lt: "remaining - ?want < remaining" using False by (simp add: COPY_CHUNK_def)
    from less.IH [OF lt rest [unfolded len]]
    have IH: "dst' = dst1 @ take (remaining - ?want) (drop (pos + ?want) src)" "n = length dst'"
      "length (take (remaining - ?want) (drop (pos + ?want) src)) = remaining - ?want" by auto
    have split: "take remaining (drop pos src) = data @ take (remaining - ?want) (drop (pos + ?want) src)"
      using take_drop_split [of ?want pos src "remaining - ?want"] data(1) by simp
    have "length (take remaining (drop pos src)) = remaining"
      unfolding split using data(2) IH(3) by (simp only: length_append)
    with IH(1,2) split dst1 show ?thesis by simp
  qed
qed

lemma copy_range_live:
  assumes live: "compio_live cx"
  shows "remaining = 0 \<or> pos + remaining \<le> length src \<Longrightarrow>
    \<exists>st'. copy_range cx src remaining pos (dst, off) = Inr st'"
proof (induction remaining arbitrary: pos dst off rule: less_induct)
  case (less remaining)
  show ?case
  proof (cases "remaining = 0")
    case True
    then show ?thesis by (simp add: copy_range.simps)
  next
    case False
    let ?want = "min remaining COPY_CHUNK"
    have "pos + ?want \<le> length src" using less.prems False by auto
    then obtain data where rd: "cx_read_exact_at cx src ?want pos = Inr data"
      using live unfolding compio_live_def by blast
    obtain dst1 where wr: "cx_write_all_at cx dst data off = (Inr (), dst1)"
      using live unfolding compio_live_def by (metis prod.collapse)
    have lt: "remaining - ?want < remaining" using False by (simp add: COPY_CHUNK_def)
    have "remaining - ?want = 0 \<or> (pos + ?want) + (remaining - ?want) \<le> length src"
      using less.prems False by auto
    from less.IH [OF lt this] rd wr False show ?thesis
      by (simp add: copy_range.simps [of cx src remaining] Let_def)
  qed
qed

lemma copy_loop_Inr:
  assumes ok: "compio_ok cx"
  shows "copy_loop cx src ranges (dst, length dst) = Inr (dst', n) \<Longrightarrow>
    dst' = dst @ concat (map (range_slice src) ranges) \<and> n = length dst' \<and>
    list_all (\<lambda>r. length (range_slice src r) = unat (snd r)) ranges"
proof (induction ranges arbitrary: dst)
  case Nil
  then show ?case by auto
next
  case (Cons r ranges)
  obtain start len where r: "r = (start, len)" by (cases r)
  from Cons.prems r obtain dst1 n1 where
    one: "copy_range cx src (unat len) (unat start) (dst, length dst) = Inr (dst1, n1)"
    and rest: "copy_loop cx src ranges (dst1, n1) = Inr (dst', n)" by auto
  from copy_range_Inr [OF ok one] have c: "dst1 = dst @ range_slice src r" "n1 = length dst1"
    "length (range_slice src r) = unat len"
    by (auto simp: range_slice_def r)
  from Cons.IH [OF rest [unfolded c(2)]] c r show ?case by simp
qed

lemma copy_loop_live:
  assumes live: "compio_live cx"
  shows "list_all (range_fits src) ranges \<Longrightarrow> \<exists>st'. copy_loop cx src ranges (dst, off) = Inr st'"
proof (induction ranges arbitrary: dst off)
  case (Cons r ranges)
  obtain start len where r: "r = (start, len)" by (cases r)
  with Cons.prems have "unat len = 0 \<or> unat start + unat len \<le> length src"
    by (simp add: range_fits_def)
  from copy_range_live [OF live this] obtain d n
    where "copy_range cx src (unat len) (unat start) (dst, off) = Inr (d, n)"
    by (metis surj_pair)
  with Cons r show ?case by simp
qed simp

lemma range_slice_fits:
  "length (range_slice src r) = unat (snd r) \<longleftrightarrow> range_fits src r"
  by (auto simp: range_slice_def range_fits_def)

lemma copy_ranges_Inr:
  assumes "compio_ok cx" and "copy_ranges cx src ranges = Inr (dst, nb)"
  shows "dst = concat (map (range_slice src) ranges) \<and> nb = word_of_nat (length dst) \<and>
    list_all (range_fits src) ranges"
  using copy_loop_Inr [OF assms(1), of src ranges "[]"] assms(2)
  by (auto simp: copy_ranges_def range_slice_fits split: if_splits)

lemma copy_ranges_live:
  assumes "compio_live cx" and "list_all (range_fits src) ranges"
  shows "\<exists>r. copy_ranges cx src ranges = Inr r"
  using copy_loop_live [OF assms, of "[]" 0] assms(1)
  by (auto simp: copy_ranges_def compio_live_def split: prod.splits)

section \<open>The sequential writer\<close>

record compio_writer =
  cw_file :: bytes
  cw_offset :: nat

definition writer_create :: "compio \<Rightarrow> copy_error + compio_writer" where
  "writer_create cx =
     (if cx_create cx then Inr \<lparr>cw_file = [], cw_offset = 0\<rparr> else Inl CreateTargetFailed)"

text \<open>A failed write leaves the offset where it was; the file is what the write left of it.\<close>

definition write_owned :: "compio \<Rightarrow> bytes \<Rightarrow> compio_writer \<Rightarrow> (copy_error + unit) \<times> compio_writer" where
  "write_owned cx data w =
     (let len = length data in
      case cx_write_all_at cx (cw_file w) data (cw_offset w) of
        (Inl _, f) \<Rightarrow> (Inl WriteChunkFailed, w\<lparr>cw_file := f\<rparr>)
      | (Inr _, f) \<Rightarrow> (Inr (), w\<lparr>cw_file := f, cw_offset := cw_offset w + len\<rparr>))"

definition writer_sync_all :: "compio \<Rightarrow> compio_writer \<Rightarrow> copy_error + unit" where
  "writer_sync_all cx w = (if cx_sync cx then Inr () else Inl SyncFailed)"

text \<open>Closing gives the file back.\<close>

definition writer_close :: "compio \<Rightarrow> compio_writer \<Rightarrow> copy_error + bytes" where
  "writer_close cx w = (if cx_close cx then Inr (cw_file w) else Inl CloseFailed)"

definition writer_ok :: "compio_writer \<Rightarrow> bool" where
  "writer_ok w \<longleftrightarrow> cw_offset w = length (cw_file w)"

lemma writer_create_ok: "writer_create cx = Inr w \<Longrightarrow> writer_ok w \<and> cw_file w = []"
  by (auto simp: writer_create_def writer_ok_def split: if_splits)

lemma write_owned_Inr:
  assumes "compio_ok cx" "writer_ok w" "write_owned cx data w = (Inr (), w')"
  shows "writer_ok w' \<and> cw_file w' = cw_file w @ data"
proof -
  from assms(3) obtain f where f: "cx_write_all_at cx (cw_file w) data (cw_offset w) = (Inr (), f)"
    "w' = w\<lparr>cw_file := f, cw_offset := cw_offset w + length data\<rparr>"
    by (auto simp: write_owned_def Let_def split: sum.splits prod.splits)
  with assms(1,2) have "f = cw_file w @ data"
    unfolding compio_ok_def writer_ok_def by (metis pwrite_at_end)
  with f assms(2) show ?thesis by (simp add: writer_ok_def)
qed

lemma write_owned_live:
  "compio_live cx \<Longrightarrow> \<exists>w'. write_owned cx data w = (Inr (), w')"
  by (cases "cx_write_all_at cx (cw_file w) data (cw_offset w)")
    (auto simp: compio_live_def write_owned_def Let_def split: sum.splits,
     metis fst_conv sum.simps(4))

text \<open>An instance with the documented behaviour, for concrete runs.\<close>

definition compio_std :: compio where
  "compio_std = \<lparr>cx_open = True, cx_create = True,
     cx_read_exact_at = (\<lambda>f n pos. if pos + n \<le> length f then Inr (take n (drop pos f)) else Inl ReadEof),
     cx_write_all_at = (\<lambda>f d pos. (Inr (), pwrite pos d f)), cx_sync = True, cx_close = True\<rparr>"

lemma compio_std_ok: "compio_ok compio_std" and compio_std_live: "compio_live compio_std"
  by (auto simp: compio_std_def compio_ok_def compio_live_def split: if_splits)

end
