(* ===== verification/Pack_Store.thy ===== *)
theory Pack_Store
  imports Complex_Main Compio_Io "HOL-Library.Product_Lexorder"
begin

text \<open>
  The block library of an origin or IDC node (\<^verbatim>\<open>crates/origin/src/storage.rs\<close>): one
  \<^verbatim>\<open>blocks.pack\<close> file per game, an index from chunk hash to (offset, length) in redb, and
  delayed compaction.

  The store record holds the index table, the bytes behind the open pack handle and the
  cached size. What the environment decides (whether a redb transaction succeeds, how the
  operating system serves reads and writes, the compio calls, the rename and the reopening
  of the pack) is the record \<open>pack_env\<close>; the lemmas are quantified over it, so they cover
  every failure path. \<open>abs_store\<close> is the abstract view, a map from hashes to chunk data;
  the operations are proved to refine its update, restriction and lookup.
\<close>

section \<open>Index keys and values\<close>

text \<open>\<open>format!("{:016x}{}", game_id, hex(hash))\<close>.\<close>

definition key :: "u64 \<Rightarrow> bytes \<Rightarrow> string" where
  "key game_id hash = hex16 game_id @ hex_bytes hash"

definition LEN_MASK :: u64 where "LEN_MASK = 0xffffffff"

definition unpack :: "u64 \<Rightarrow> u64 \<times> u32" where
  "unpack value = (drop_bit 32 value, ucast (value AND LEN_MASK))"

definition pack :: "u64 \<Rightarrow> u32 \<Rightarrow> u64" where
  "pack offset len = push_bit 32 offset OR ucast len"

lemma key_inject [simp]: "key g h = key g' h' \<longleftrightarrow> g = g' \<and> h = h'"
  by (simp add: key_def)

lemma LEN_MASK_mask: "LEN_MASK = mask 32"
  by (simp add: LEN_MASK_def mask_eq_exp_minus_1)

text \<open>Every bit of the offset from the 32nd on is shifted out.\<close>

lemma unpack_pack_gen: "unpack (pack offset len) = (take_bit 32 offset, len)"
proof -
  have "drop_bit 32 (push_bit 32 offset OR ucast len) = (take_bit 32 offset :: u64)"
    by (rule bit_word_eqI)
      (auto simp: bit_simps dest: bit_imp_le_length)
  moreover have "ucast ((push_bit 32 offset OR ucast len) AND mask 32 :: u64) = (len :: u32)"
    by (rule bit_word_eqI) (auto simp: bit_simps)
  ultimately show ?thesis by (simp add: unpack_def pack_def LEN_MASK_mask)
qed

lemma take_bit_32_small: "unat (offset :: u64) < 2 ^ 32 \<Longrightarrow> take_bit 32 offset = offset"
  by (simp add: word_unat_eq_iff unsigned_take_bit_eq take_bit_nat_eq_self)

lemma unpack_pack: "unat offset < 2 ^ 32 \<Longrightarrow> unpack (pack offset len) = (offset, len)"
  by (simp add: unpack_pack_gen take_bit_32_small)

section \<open>The store\<close>

text \<open>
  \<open>gs_pack\<close> is the file behind the open handle. Compaction renames a new file over the
  pack's path and then reopens it: between the two the path names another file than the
  handle, which \<open>gs_path\<close> records (\<open>None\<close> when both are the same file).
\<close>

record game_store =
  gs_game_id :: u64
  gs_index :: "(string, u64) table"
  gs_pack :: bytes
  gs_path :: "bytes option"
  gs_size :: u64

record pack_env =
  pe_mkdir :: bool
  pe_db :: bool
  pe_open_pack :: bool
  pe_read_txn :: bool
  pe_write_txn :: bool
  pe_rd :: os_choice
  pe_wr :: os_choice
  pe_cx :: compio
  pe_rename :: bool
  pe_reopen :: bool

datatype store_error =
    MkdirFailed | IndexOpenFailed | PackOpenFailed | ReadTxnFailed | WriteTxnFailed
  | PackWriteFailed io_error | PackReadFailed io_error | CopyFailed copy_error
  | CopySizeMismatch | RenameFailed | ReopenFailed

definition path_bytes :: "game_store \<Rightarrow> bytes" where
  "path_bytes st = (case gs_path st of None \<Rightarrow> gs_pack st | Some fc \<Rightarrow> fc)"

text \<open>What a game directory holds between runs of the process.\<close>

record game_disk =
  gd_index :: "(string, u64) table option"
  gd_pack :: "bytes option"

definition store_open :: "pack_env \<Rightarrow> u64 \<Rightarrow> game_disk \<Rightarrow> store_error + game_store" where
  "store_open env game_id disk =
     (if \<not> pe_mkdir env then Inl MkdirFailed
      else if \<not> pe_db env then Inl IndexOpenFailed
      else if \<not> pe_write_txn env then Inl WriteTxnFailed
      else if \<not> pe_open_pack env then Inl PackOpenFailed
      else
        let index = (case gd_index disk of None \<Rightarrow> [] | Some t \<Rightarrow> t);
            pack_file = (case gd_pack disk of None \<Rightarrow> [] | Some fc \<Rightarrow> fc)
        in Inr \<lparr>gs_game_id = game_id, gs_index = index, gs_pack = pack_file, gs_path = None,
                gs_size = word_of_nat (length pack_file)\<rparr>)"

definition store_disk :: "game_store \<Rightarrow> game_disk" where
  "store_disk st = \<lparr>gd_index = Some (gs_index st), gd_pack = Some (path_bytes st)\<rparr>"

subsection \<open>Appending\<close>

definition append_chunk ::
    "pack_env \<Rightarrow> bytes \<Rightarrow> bytes \<Rightarrow> game_store \<Rightarrow> (store_error + u64 \<times> u32) \<times> game_store" where
  "append_chunk env hash data st =
     (let k = key (gs_game_id st) hash in
      if \<not> pe_read_txn env then (Inl ReadTxnFailed, st)
      else case tbl_get (gs_index st) k of
        Some value \<Rightarrow> (Inr (unpack value), st)
      | None \<Rightarrow>
          let offset = gs_size st;
              len = word_of_nat (length data) :: u32
          in case write_exact_at (pe_wr env) data (unat offset) (gs_pack st) of
            (Inl e, p) \<Rightarrow> (Inl (PackWriteFailed e), st\<lparr>gs_pack := p\<rparr>)
          | (Inr _, p) \<Rightarrow>
              let st1 = st\<lparr>gs_pack := p, gs_size := offset + word_of_nat (length data)\<rparr> in
              if \<not> pe_write_txn env then (Inl WriteTxnFailed, st1)
              else (Inr (offset, len),
                    st1\<lparr>gs_index := tbl_insert k (pack offset len) (gs_index st1)\<rparr>))"

text \<open>
  \<open>append_chunks_batch\<close>: the duplicate scan under one read transaction, the writes, the
  resolution of duplicates inside the batch, and one index transaction. The scan's
  variables are a record of their own.
\<close>

record batch_scan =
  bs_out :: "(u64 \<times> u32) list"
  bs_new_data :: "(bytes \<times> bytes) list"
  bs_new_pos :: "nat list"
  bs_seen_new :: "bytes \<rightharpoonup> nat"
  bs_dup_of_new :: "(nat \<times> nat) list"

definition batch_scan_init :: batch_scan where
  "batch_scan_init = \<lparr>bs_out = [], bs_new_data = [], bs_new_pos = [], bs_seen_new = Map.empty,
     bs_dup_of_new = []\<rparr>"

definition batch_scan_step :: "game_store \<Rightarrow> nat \<times> bytes \<times> bytes \<Rightarrow> batch_scan \<Rightarrow> batch_scan" where
  "batch_scan_step st c sc =
     (case c of (idx, hash, data) \<Rightarrow>
      case bs_seen_new sc hash of
        Some first \<Rightarrow> sc\<lparr>bs_dup_of_new := bs_dup_of_new sc @ [(idx, first)], bs_out := bs_out sc @ [(0, 0)]\<rparr>
      | None \<Rightarrow>
          (case tbl_get (gs_index st) (key (gs_game_id st) hash) of
             Some value \<Rightarrow> sc\<lparr>bs_out := bs_out sc @ [unpack value]\<rparr>
           | None \<Rightarrow>
               sc\<lparr>bs_seen_new := (bs_seen_new sc)(hash \<mapsto> idx), bs_out := bs_out sc @ [(0, 0)],
                  bs_new_data := bs_new_data sc @ [(hash, data)], bs_new_pos := bs_new_pos sc @ [idx]\<rparr>))"

definition batch_scan_all :: "game_store \<Rightarrow> (bytes \<times> bytes) list \<Rightarrow> batch_scan" where
  "batch_scan_all st chunks = fold (batch_scan_step st) (enumerate 0 chunks) batch_scan_init"

text \<open>The write loop over the new chunks and their positions in the output.\<close>

fun batch_write ::
    "pack_env \<Rightarrow> ((bytes \<times> bytes) \<times> nat) list \<Rightarrow> bytes \<times> (u64 \<times> u32) list \<times> u64 \<Rightarrow>
     (store_error + unit) \<times> bytes \<times> (u64 \<times> u32) list \<times> u64" where
  "batch_write env [] s = (Inr (), s)"
| "batch_write env (((hash, data), pos) # rest) (p, out, offset) =
     (case write_exact_at (pe_wr env) data (unat offset) p of
        (Inl e, p') \<Rightarrow> (Inl (PackWriteFailed e), p', out, offset)
      | (Inr _, p') \<Rightarrow>
          let len = word_of_nat (length data) :: u32 in
          batch_write env rest (p', out[pos := (offset, len)], offset + ucast len))"

definition batch_dups :: "(nat \<times> nat) list \<Rightarrow> (u64 \<times> u32) list \<Rightarrow> (u64 \<times> u32) list" where
  "batch_dups dups out = fold (\<lambda>(idx, first) out. out[idx := out ! first]) dups out"

definition batch_index ::
    "u64 \<Rightarrow> (u64 \<times> u32) list \<Rightarrow> ((bytes \<times> bytes) \<times> nat) list \<Rightarrow> (string, u64) table \<Rightarrow> (string, u64) table" where
  "batch_index game_id out new t =
     fold (\<lambda>((hash, _), idx) t. tbl_insert (key game_id hash) (pack (fst (out ! idx)) (snd (out ! idx))) t) new t"

definition append_chunks_batch ::
    "pack_env \<Rightarrow> (bytes \<times> bytes) list \<Rightarrow> game_store \<Rightarrow> (store_error + (u64 \<times> u32) list) \<times> game_store" where
  "append_chunks_batch env chunks st =
     (if \<not> pe_read_txn env then (Inl ReadTxnFailed, st)
      else
        let sc = batch_scan_all st chunks;
            new = zip (bs_new_data sc) (bs_new_pos sc)
        in case batch_write env new (gs_pack st, bs_out sc, gs_size st) of
          (Inl e, p, _, _) \<Rightarrow> (Inl e, st\<lparr>gs_pack := p\<rparr>)
        | (Inr _, p, out, offset) \<Rightarrow>
            let out' = batch_dups (bs_dup_of_new sc) out;
                st1 = st\<lparr>gs_pack := p, gs_size := offset\<rparr>
            in if bs_new_data sc = [] then (Inr out', st1)
               else if \<not> pe_write_txn env then (Inl WriteTxnFailed, st1)
               else (Inr out', st1\<lparr>gs_index := batch_index (gs_game_id st) out' new (gs_index st1)\<rparr>))"

subsection \<open>Reading\<close>

definition store_read_chunk :: "pack_env \<Rightarrow> game_store \<Rightarrow> bytes \<Rightarrow> store_error + bytes option" where
  "store_read_chunk env st hash =
     (if \<not> pe_read_txn env then Inl ReadTxnFailed
      else case tbl_get (gs_index st) (key (gs_game_id st) hash) of
        None \<Rightarrow> Inr None
      | Some value \<Rightarrow>
          (case unpack value of (offset, len) \<Rightarrow>
           case read_exact_at (pe_rd env) (gs_pack st) (unat len) (unat offset) of
             Inl e \<Rightarrow> Inl (PackReadFailed e)
           | Inr buf \<Rightarrow> Inr (Some buf)))"

definition store_contains :: "pack_env \<Rightarrow> game_store \<Rightarrow> bytes \<Rightarrow> store_error + bool" where
  "store_contains env st hash =
     (if \<not> pe_read_txn env then Inl ReadTxnFailed
      else Inr (tbl_get (gs_index st) (key (gs_game_id st) hash) \<noteq> None))"

definition entries :: "pack_env \<Rightarrow> game_store \<Rightarrow> store_error + (string \<times> u64 \<times> u32) list" where
  "entries env st =
     (if \<not> pe_read_txn env then Inl ReadTxnFailed
      else Inr (map (\<lambda>(k, value). (k, unpack value)) (gs_index st)))"

definition store_size :: "game_store \<Rightarrow> u64" where "store_size st = gs_size st"

subsection \<open>Compaction\<close>

definition ensure_copy_size :: "u64 \<Rightarrow> u64 \<Rightarrow> store_error + unit" where
  "ensure_copy_size copied expected = (if copied \<noteq> expected then Inl CopySizeMismatch else Inr ())"

text \<open>The index entries of this game, and the live hashes' locations in iteration order of the set.\<close>

definition game_entries :: "game_store \<Rightarrow> (string, u64) table" where
  "game_entries st = filter (\<lambda>(k, value). prefix (hex16 (gs_game_id st)) k) (gs_index st)"

fun live_scan :: "u64 \<Rightarrow> (string, u64) table \<Rightarrow> bytes list \<Rightarrow> (bytes \<times> u64 \<times> u32) list" where
  "live_scan game_id es [] = []"
| "live_scan game_id es (hash # live) =
     (case find (\<lambda>(k, _). k = key game_id hash) es of
        None \<Rightarrow> live_scan game_id es live
      | Some (_, value) \<Rightarrow> (hash, unpack value) # live_scan game_id es live)"

definition live_bytes :: "(bytes \<times> u64 \<times> u32) list \<Rightarrow> u64" where
  "live_bytes locs = fold (\<lambda>(_, _, len) n. n + ucast len) locs 0"

fun new_locations :: "u64 \<Rightarrow> (bytes \<times> u64 \<times> u32) list \<Rightarrow> (bytes \<times> u64 \<times> u32) list" where
  "new_locations off [] = []"
| "new_locations off ((hash, _, len) # locs) = (hash, off, len) # new_locations (off + ucast len) locs"

definition compact_index ::
    "u64 \<Rightarrow> (string, u64) table \<Rightarrow> (bytes \<times> u64 \<times> u32) list \<Rightarrow> (string, u64) table \<Rightarrow> (string, u64) table" where
  "compact_index game_id es locs t =
     fold (\<lambda>(hash, off, len) t. tbl_insert (key game_id hash) (pack off len) t) locs
       (fold (\<lambda>(k, _) t. tbl_remove k t) es t)"

text \<open>
  The \<open>f64\<close> arithmetic is real arithmetic with the rounding \<open>rnd\<close> of the floating point
  format after each operation. The live set is the list of its elements in iteration order.
\<close>

definition store_compact ::
    "(real \<Rightarrow> real) \<Rightarrow> pack_env \<Rightarrow> bytes list \<Rightarrow> real \<Rightarrow> u64 \<Rightarrow> game_store \<Rightarrow>
     (store_error + bool) \<times> game_store" where
  "store_compact rnd env live threshold available_space st =
     (if \<not> pe_read_txn env then (Inl ReadTxnFailed, st)
      else
        let es = game_entries st;
            locs = live_scan (gs_game_id st) es live;
            lb = live_bytes locs
        in
        if gs_size st = 0 then (Inr False, st)
        else if rnd (1 - rnd (rnd (real (unat lb)) / rnd (real (unat (gs_size st))))) < threshold
        then (Inr False, st)
        else if available_space < lb then (Inr False, st)
        else
          let sorted_locs = sort locs;
              news = new_locations 0 sorted_locs;
              new_offset = live_bytes sorted_locs
          in case copy_ranges (pe_cx env) (path_bytes st) (map snd sorted_locs) of
            Inl e \<Rightarrow> (Inl (CopyFailed e), st)
          | Inr (fresh, copied) \<Rightarrow>
              (case ensure_copy_size copied lb of
                 Inl e \<Rightarrow> (Inl e, st)
               | Inr _ \<Rightarrow>
                   if \<not> pe_rename env then (Inl RenameFailed, st)
                   else if \<not> pe_reopen env then (Inl ReopenFailed, st\<lparr>gs_path := Some fresh\<rparr>)
                   else
                     let st1 = st\<lparr>gs_pack := fresh, gs_path := None, gs_size := new_offset\<rparr> in
                     if \<not> pe_write_txn env then (Inl WriteTxnFailed, st1)
                     else (Inr True,
                           st1\<lparr>gs_index := compact_index (gs_game_id st) es news (gs_index st1)\<rparr>)))"

section \<open>Invariant and abstract view\<close>

definition entry_end :: "u64 \<Rightarrow> nat" where
  "entry_end v = unat (fst (unpack v)) + unat (snd (unpack v))"

definition used_bytes :: "(string, u64) table \<Rightarrow> nat" where
  "used_bytes t = (\<Sum>e \<leftarrow> t. unat (snd (unpack (snd e))))"

definition entry_ok :: "u64 \<Rightarrow> nat \<Rightarrow> string \<times> u64 \<Rightarrow> bool" where
  "entry_ok game_id sz e \<longleftrightarrow>
     prefix (hex16 game_id) (fst e) \<and> entry_end (snd e) \<le> sz"

definition store_ok :: "game_store \<Rightarrow> bool" where
  "store_ok st \<longleftrightarrow>
     tbl_ok (gs_index st) \<and> unat (gs_size st) \<le> length (gs_pack st) \<and>
     list_all (entry_ok (gs_game_id st) (unat (gs_size st))) (gs_index st) \<and>
     used_bytes (gs_index st) \<le> unat (gs_size st)"

definition value_bytes :: "bytes \<Rightarrow> u64 \<Rightarrow> bytes" where
  "value_bytes p v = take (unat (snd (unpack v))) (drop (unat (fst (unpack v))) p)"

text \<open>The abstract store: a partial map from hashes to data.\<close>

definition abs_store :: "game_store \<Rightarrow> bytes \<Rightarrow> bytes option" where
  "abs_store st h =
     map_option (value_bytes (gs_pack st)) (tbl_get (gs_index st) (key (gs_game_id st) h))"

lemma prefix_key [simp]: "prefix (hex16 g) (key g h)"
  by (simp add: key_def)

lemma store_okD:
  assumes "store_ok st"
  shows "tbl_ok (gs_index st)" "unat (gs_size st) \<le> length (gs_pack st)"
    "(k, v) \<in> set (gs_index st) \<Longrightarrow> entry_end v \<le> unat (gs_size st)"
    "(k, v) \<in> set (gs_index st) \<Longrightarrow> prefix (hex16 (gs_game_id st)) k"
    "used_bytes (gs_index st) \<le> unat (gs_size st)"
  using assms by (auto simp: store_ok_def list_all_iff entry_ok_def)

lemma tbl_get_entry: "store_ok st \<Longrightarrow> tbl_get (gs_index st) k = Some v \<Longrightarrow> entry_end v \<le> unat (gs_size st)"
  by (metis store_okD(1,3) tbl_get_iff)

text \<open>A write at or after the end of an entry leaves its bytes alone.\<close>

lemma value_bytes_pwrite:
  "entry_end v \<le> off \<Longrightarrow> off \<le> length p \<Longrightarrow> value_bytes (pwrite off xs p) v = value_bytes p v"
  by (simp add: value_bytes_def entry_end_def slice_before_pwrite)

lemma abs_store_pwrite:
  assumes "store_ok st" "unat (gs_size st) = off"
  shows "abs_store (st\<lparr>gs_pack := pwrite off xs (gs_pack st)\<rparr>) = abs_store st"
  using assms value_bytes_pwrite [OF tbl_get_entry [OF assms(1)]] store_okD(2) [OF assms(1)]
  by (auto simp: abs_store_def fun_eq_iff intro!: option.map_cong0 option.map_cong)

lemma abs_store_size [simp]: "abs_store (st\<lparr>gs_size := n\<rparr>) = abs_store st"
  by (simp add: abs_store_def fun_eq_iff)

lemma entry_end_mono: "list_all (entry_ok g m) t \<Longrightarrow> m \<le> n \<Longrightarrow> list_all (entry_ok g n) t"
  by (auto simp: list_all_iff entry_ok_def)

text \<open>Bytes written past the recorded size, and the size that follows them, keep the invariant.\<close>

lemma store_ok_pwrite:
  "store_ok st \<Longrightarrow> store_ok (st\<lparr>gs_pack := pwrite (unat (gs_size st)) xs (gs_pack st)\<rparr>)"
  by (auto simp: store_ok_def length_pwrite)

lemma store_ok_grow:
  assumes "store_ok st" "unat (gs_size st) \<le> unat n" "unat n \<le> length (gs_pack st)"
  shows "store_ok (st\<lparr>gs_size := n\<rparr>)"
  using assms entry_end_mono [of "gs_game_id st" "unat (gs_size st)" "gs_index st" "unat n"]
  by (auto simp: store_ok_def)

lemma used_bytes_insert:
  assumes "tbl_ok t" "tbl_get t k = None"
  shows "used_bytes (tbl_insert k v t) = used_bytes t + unat (snd (unpack v))"
  using assms
proof (induction t)
  case (Cons e t)
  obtain j w where e: "e = (j, w)" by (cases e)
  from Cons.prems e have "j \<noteq> k" "tbl_get t k = None" "tbl_ok t"
    by (auto simp: tbl_get_def tbl_ok_simps split: if_splits)
  with Cons.IH e show ?case by (auto simp: tbl_insert_simps used_bytes_def)
qed (simp add: tbl_insert_def used_bytes_def)

lemma store_ok_insert:
  assumes ok: "store_ok st" and new: "tbl_get (gs_index st) (key (gs_game_id st) h) = None"
    and e: "entry_end v \<le> unat (gs_size st)"
    and u: "used_bytes (gs_index st) + unat (snd (unpack v)) \<le> unat (gs_size st)"
  shows "store_ok (st\<lparr>gs_index := tbl_insert (key (gs_game_id st) h) v (gs_index st)\<rparr>)"
  using ok e u used_bytes_insert [OF store_okD(1) [OF ok] new, of v]
  by (auto simp: store_ok_def list_all_iff entry_ok_def tbl_simps)

lemma abs_store_insert:
  assumes "store_ok st"
  shows "abs_store (st\<lparr>gs_index := tbl_insert (key (gs_game_id st) h) v (gs_index st)\<rparr>) =
    (abs_store st)(h \<mapsto> value_bytes (gs_pack st) v)"
  using store_okD(1) [OF assms] by (auto simp: abs_store_def fun_eq_iff tbl_simps)

section \<open>Reading and appending refine the abstract map\<close>

lemma value_bytes_range: "value_bytes p v = range_slice p (unpack v)"
  by (simp add: value_bytes_def range_slice_def)

lemma read_refines:
  assumes "store_ok st" "pe_read_txn env" "os_live (pe_rd env)"
  shows "store_read_chunk env st h = Inr (abs_store st h)"
proof (cases "tbl_get (gs_index st) (key (gs_game_id st) h)")
  case None
  with assms(2) show ?thesis by (simp add: store_read_chunk_def abs_store_def)
next
  case (Some v)
  from tbl_get_entry [OF assms(1) Some] store_okD(2) [OF assms(1)]
  have "unat (fst (unpack v)) + unat (snd (unpack v)) \<le> length (gs_pack st)"
    by (simp add: entry_end_def)
  with Some assms(2,3) show ?thesis
    by (auto simp: store_read_chunk_def abs_store_def value_bytes_def read_exact_at_live
        split: prod.splits)
qed

text \<open>The store once the data of a new chunk is in the pack, and once it is in the index too.\<close>

definition grown :: "game_store \<Rightarrow> bytes \<Rightarrow> game_store" where
  "grown st data = st\<lparr>gs_pack := pwrite (unat (gs_size st)) data (gs_pack st),
     gs_size := gs_size st + word_of_nat (length data)\<rparr>"

definition indexed :: "game_store \<Rightarrow> bytes \<Rightarrow> bytes \<Rightarrow> game_store" where
  "indexed st h data = (grown st data)\<lparr>gs_index :=
     tbl_insert (key (gs_game_id st) h) (pack (gs_size st) (word_of_nat (length data))) (gs_index st)\<rparr>"

lemma grown_fields [simp]:
  "gs_index (grown st data) = gs_index st" "gs_game_id (grown st data) = gs_game_id st"
  "gs_path (grown st data) = gs_path st" "gs_size (grown st data) = gs_size st + word_of_nat (length data)"
  "gs_pack (grown st data) = pwrite (unat (gs_size st)) data (gs_pack st)"
  by (simp_all add: grown_def)

lemma size_grown:
  "unat (gs_size st) + length data < 2 ^ 32 \<Longrightarrow>
     unat (gs_size st + word_of_nat (length data)) = unat (gs_size st) + length data"
  by (simp add: unat_word_ariths unat_of_nat)

lemma grown_ok:
  assumes "store_ok st" "unat (gs_size st) + length data < 2 ^ 32"
  shows "store_ok (grown st data)" "abs_store (grown st data) = abs_store st"
  using store_ok_grow [OF store_ok_pwrite [OF assms(1), of data], of "gs_size st + word_of_nat (length data)"]
    size_grown [OF assms(2)] abs_store_pwrite [OF assms(1) refl, of data]
  by (simp_all add: grown_def length_pwrite)

lemma indexed_ok:
  assumes ok: "store_ok st" and room: "unat (gs_size st) + length data < 2 ^ 32"
    and new: "tbl_get (gs_index st) (key (gs_game_id st) h) = None"
  shows "store_ok (indexed st h data)" "abs_store (indexed st h data) = (abs_store st)(h \<mapsto> data)"
    "range_slice (gs_pack (indexed st h data)) (gs_size st, word_of_nat (length data)) = data"
proof -
  let ?g = "grown st data" and ?v = "pack (gs_size st) (word_of_nat (length data) :: u32)"
  have len: "unat (word_of_nat (length data) :: u32) = length data" using room by (simp add: unat_of_nat)
  have up: "unpack ?v = (gs_size st, word_of_nat (length data))" using room by (simp add: unpack_pack)
  have v: "value_bytes (gs_pack ?g) ?v = data"
    using slice_pwrite [OF store_okD(2) [OF ok], of data] up len by (simp add: value_bytes_def)
  have idx: "indexed st h data =
      ?g\<lparr>gs_index := tbl_insert (key (gs_game_id ?g) h) ?v (gs_index ?g)\<rparr>"
    by (simp add: indexed_def)
  have e: "entry_end ?v \<le> unat (gs_size ?g)"
    and u: "used_bytes (gs_index ?g) + unat (snd (unpack ?v)) \<le> unat (gs_size ?g)"
    using up len size_grown [OF room] store_okD(5) [OF ok] by (simp_all add: entry_end_def)
  show "store_ok (indexed st h data)"
    unfolding idx using new by (intro store_ok_insert grown_ok [OF ok room] e u) simp
  show "abs_store (indexed st h data) = (abs_store st)(h \<mapsto> data)"
    unfolding idx abs_store_insert [OF grown_ok(1) [OF ok room]] using grown_ok(2) [OF ok room] v by simp
  show "range_slice (gs_pack (indexed st h data)) (gs_size st, word_of_nat (length data)) = data"
    using v up by (simp add: indexed_def value_bytes_range)
qed

text \<open>
  Every outcome of \<open>append_chunk\<close>: the existing entry, a failure that leaves at most a
  partial write past the end, data without an index entry, or both.
\<close>

lemma append_chunk_cases:
  assumes ok: "store_ok st" and run: "append_chunk env h data st = (r, st')"
  obtains (found) v where "tbl_get (gs_index st) (key (gs_game_id st) h) = Some v" "r = Inr (unpack v)" "st' = st"
  | (failed) e k where "r = Inl e" "st' = st\<lparr>gs_pack := pwrite (unat (gs_size st)) (take k data) (gs_pack st)\<rparr>"
  | (unindexed) "r = Inl WriteTxnFailed" "st' = grown st data"
  | (stored) "tbl_get (gs_index st) (key (gs_game_id st) h) = None"
      "r = Inr (gs_size st, word_of_nat (length data))" "st' = indexed st h data"
proof -
  let ?get = "tbl_get (gs_index st) (key (gs_game_id st) h)"
  obtain w p where w: "write_exact_at (pe_wr env) data (unat (gs_size st)) (gs_pack st) = (w, p)" by fastforce
  from write_exact_at_result [OF store_okD(2) [OF ok] w] obtain k where
    k: "p = pwrite (unat (gs_size st)) (take k data) (gs_pack st)" "w = Inr () \<longrightarrow> k = length data"
    by blast
  consider "\<not> pe_read_txn env" | v where "pe_read_txn env" "?get = Some v"
    | e where "pe_read_txn env" "?get = None" "w = Inl e"
    | "pe_read_txn env" "?get = None" "w = Inr ()"
    by (cases "pe_read_txn env"; cases ?get; cases w) auto
  then show thesis
  proof cases
    case 1
    with run pwrite_Nil [OF store_okD(2) [OF ok]] show ?thesis
      by (intro failed [of ReadTxnFailed 0]) (auto simp: append_chunk_def Let_def)
  next
    case (2 v)
    with run show ?thesis by (intro found) (auto simp: append_chunk_def Let_def)
  next
    case (3 e)
    with run w k(1) show ?thesis
      by (intro failed [of "PackWriteFailed e" k]) (auto simp: append_chunk_def Let_def)
  next
    case 4
    with w k have p: "write_exact_at (pe_wr env) data (unat (gs_size st)) (gs_pack st) =
        (Inr (), pwrite (unat (gs_size st)) data (gs_pack st))" by simp
    show ?thesis
    proof (cases "pe_write_txn env")
      case True
      with 4 run p show ?thesis
        by (intro stored) (auto simp: append_chunk_def Let_def indexed_def grown_def)
    next
      case False
      with 4 run p show ?thesis
        by (intro unindexed) (auto simp: append_chunk_def Let_def grown_def)
    qed
  qed
qed

lemma append_chunk_outcome:
  assumes ok: "store_ok st" and room: "unat (gs_size st) + length data < 2 ^ 32"
    and run: "append_chunk env h data st = (r, st')"
  shows "store_ok st' \<and>
    unat (gs_size st') \<le> unat (gs_size st) + length data \<and>
    abs_store st' = (if abs_store st h = None \<and> (\<exists>loc. r = Inr loc)
                     then (abs_store st)(h \<mapsto> data) else abs_store st) \<and>
    (\<forall>loc. r = Inr loc \<longrightarrow> abs_store st' h = Some (range_slice (gs_pack st') loc))"
  using ok run
proof (cases rule: append_chunk_cases)
  case (found v)
  with ok show ?thesis by (simp add: abs_store_def value_bytes_range)
next
  case (failed e k)
  with ok show ?thesis by (simp add: store_ok_pwrite abs_store_pwrite)
next
  case unindexed
  with grown_ok [OF ok room] size_grown [OF room] show ?thesis by simp
next
  case stored
  have "abs_store st h = None" using stored by (simp add: abs_store_def)
  moreover have "gs_size (indexed st h data) = gs_size st + word_of_nat (length data)"
    by (simp add: indexed_def)
  ultimately show ?thesis
    using stored indexed_ok [OF ok room stored(1)] size_grown [OF room] by simp
qed

text \<open>With no fault the append succeeds.\<close>

definition os_progress :: "os_choice \<Rightarrow> bool" where
  "os_progress wr \<longleftrightarrow> (\<forall>n off. \<exists>k. wr n off = Some (Suc k))"

definition env_live :: "pack_env \<Rightarrow> bool" where
  "env_live env \<longleftrightarrow> pe_mkdir env \<and> pe_db env \<and> pe_open_pack env \<and> pe_read_txn env \<and> pe_write_txn env \<and>
     os_live (pe_rd env) \<and> os_progress (pe_wr env) \<and> compio_ok (pe_cx env) \<and> compio_live (pe_cx env) \<and>
     pe_rename env \<and> pe_reopen env"

lemma write_exact_at_progress:
  assumes "os_progress wr" "off \<le> length p"
  shows "write_exact_at wr data off p = (Inr (), pwrite off data p)"
proof -
  obtain w p' where w: "write_exact_at wr data off p = (w, p')" by fastforce
  moreover have "w = Inr ()"
    using write_exact_at_live [of wr data off p] w assms(1) by (simp add: os_progress_def)
  ultimately show ?thesis using write_exact_at_result [OF assms(2) w] by auto
qed

lemma append_chunk_live:
  assumes "env_live env" "store_ok st"
  shows "append_chunk env h data st =
    (case tbl_get (gs_index st) (key (gs_game_id st) h) of
       Some v \<Rightarrow> (Inr (unpack v), st)
     | None \<Rightarrow> (Inr (gs_size st, word_of_nat (length data)), indexed st h data))"
  using assms write_exact_at_progress [of "pe_wr env", OF _ store_okD(2) [OF assms(2)]]
  by (simp add: append_chunk_def env_live_def Let_def indexed_def grown_def split: option.splits)

section \<open>The batch is the sequence of its appends\<close>

text \<open>The reference: the chunks appended one by one, stopping at the first error.\<close>

fun append_all ::
    "pack_env \<Rightarrow> (bytes \<times> bytes) list \<Rightarrow> game_store \<Rightarrow> (store_error + (u64 \<times> u32) list) \<times> game_store" where
  "append_all env [] st = (Inr [], st)"
| "append_all env ((h, d) # cs) st =
     (case append_chunk env h d st of
        (Inl e, st1) \<Rightarrow> (Inl e, st1)
      | (Inr loc, st1) \<Rightarrow>
          (case append_all env cs st1 of
             (Inl e, st2) \<Rightarrow> (Inl e, st2)
           | (Inr locs, st2) \<Rightarrow> (Inr (loc # locs), st2)))"

lemma append_all_snoc:
  "append_all env cs st = (Inr locs, st1) \<Longrightarrow> append_chunk env h d st1 = (Inr loc, st2) \<Longrightarrow>
     append_all env (cs @ [(h, d)]) st = (Inr (locs @ [loc]), st2)"
  by (induction cs arbitrary: st locs) (auto split: prod.splits sum.splits)

lemma batch_write_append:
  "batch_write env xs s = (Inr (), s1) \<Longrightarrow> batch_write env (xs @ ys) s = batch_write env ys s1"
  by (induction env xs s rule: batch_write.induct) (auto simp: Let_def split: prod.splits sum.splits)

lemma batch_write_longer:
  "batch_write env xs (p, out, off) = (Inr (), p', out', off') \<Longrightarrow> list_all (\<lambda>x. snd x < length out) xs \<Longrightarrow>
     batch_write env xs (p, out @ [z], off) = (Inr (), p', out' @ [z], off') \<and> length out' = length out"
proof (induction env xs "(p, out, off)" arbitrary: p out off rule: batch_write.induct)
  case (2 env h d pos rest p out off)
  then show ?case
    by (auto simp: Let_def list_update_append1 split: prod.splits sum.splits)
qed simp

lemma batch_dups_longer:
  "list_all (\<lambda>(i, f). i < length out \<and> f < length out) ds \<Longrightarrow>
     batch_dups ds (out @ [z]) = batch_dups ds out @ [z] \<and> length (batch_dups ds out) = length out"
  unfolding batch_dups_def
  by (induction ds arbitrary: out) (auto simp: list_update_append1 nth_append)

lemma batch_index_longer:
  "list_all (\<lambda>x. snd x < length out) xs \<Longrightarrow> batch_index g (out @ [z]) xs t = batch_index g out xs t"
  unfolding batch_index_def
  by (rule fold_cong) (auto simp: list_all_iff nth_append split: prod.splits)

text \<open>
  How the variables of the batch after a prefix of the input relate to the store \<open>st'\<close> and
  the locations \<open>locs\<close> of the sequential run on that prefix.
\<close>

definition batch_new :: "batch_scan \<Rightarrow> ((bytes \<times> bytes) \<times> nat) list" where
  "batch_new sc = zip (bs_new_data sc) (bs_new_pos sc)"

definition seen_ok :: "game_store \<Rightarrow> batch_scan \<Rightarrow> (u64 \<times> u32) list \<Rightarrow> game_store \<Rightarrow> bool" where
  "seen_ok st sc locs st' \<longleftrightarrow>
     (\<forall>h. bs_seen_new sc h = None \<longrightarrow>
        tbl_get (gs_index st') (key (gs_game_id st) h) = tbl_get (gs_index st) (key (gs_game_id st) h)) \<and>
     (\<forall>h f. bs_seen_new sc h = Some f \<longrightarrow>
        f < length locs \<and> unpack (pack (fst (locs ! f)) (snd (locs ! f))) = locs ! f \<and>
        tbl_get (gs_index st') (key (gs_game_id st) h) = Some (pack (fst (locs ! f)) (snd (locs ! f))))"

definition batch_shape :: "batch_scan \<Rightarrow> nat \<Rightarrow> bool" where
  "batch_shape sc n \<longleftrightarrow> length (bs_out sc) = n \<and> length (bs_new_data sc) = length (bs_new_pos sc) \<and>
     list_all (\<lambda>x. snd x < n) (batch_new sc) \<and> list_all (\<lambda>(i, f). i < n \<and> f < n) (bs_dup_of_new sc)"

definition batch_rel ::
    "pack_env \<Rightarrow> game_store \<Rightarrow> batch_scan \<Rightarrow> (u64 \<times> u32) list \<Rightarrow> (u64 \<times> u32) list \<Rightarrow> game_store \<Rightarrow> bool" where
  "batch_rel env st sc out locs st' \<longleftrightarrow>
     batch_write env (batch_new sc) (gs_pack st, bs_out sc, gs_size st) = (Inr (), gs_pack st', out, gs_size st') \<and>
     locs = batch_dups (bs_dup_of_new sc) out \<and>
     st' = st\<lparr>gs_pack := gs_pack st', gs_size := gs_size st',
              gs_index := batch_index (gs_game_id st) locs (batch_new sc) (gs_index st)\<rparr> \<and>
     length locs = length out \<and> batch_shape sc (length out) \<and> seen_ok st sc locs st'"

text \<open>Facts on the longer output that the three cases of the scan share.\<close>

lemma batch_rel_longer:
  assumes rel: "batch_rel env st sc out locs st'"
  shows "batch_write env (batch_new sc) (gs_pack st, bs_out sc @ [z], gs_size st) =
      (Inr (), gs_pack st', out @ [z], gs_size st')"
    and "batch_dups (bs_dup_of_new sc) (out @ [z]) = locs @ [z]"
    and "batch_index (gs_game_id st) (locs @ [z]) (batch_new sc) (gs_index st) = gs_index st'"
proof -
  have len: "length (bs_out sc) = length out" "length locs = length out"
    and "list_all (\<lambda>x. snd x < length out) (batch_new sc)"
    using rel unfolding batch_rel_def batch_shape_def by blast+
  then have pos: "list_all (\<lambda>x. snd x < length (bs_out sc)) (batch_new sc)" by simp
  have w: "batch_write env (batch_new sc) (gs_pack st, bs_out sc, gs_size st) = (Inr (), gs_pack st', out, gs_size st')"
    using rel by (simp add: batch_rel_def)
  show "batch_write env (batch_new sc) (gs_pack st, bs_out sc @ [z], gs_size st) =
      (Inr (), gs_pack st', out @ [z], gs_size st')"
    using batch_write_longer [OF w pos] by simp
  show "batch_dups (bs_dup_of_new sc) (out @ [z]) = locs @ [z]"
    using rel batch_dups_longer [of out "bs_dup_of_new sc" z] by (simp add: batch_rel_def batch_shape_def)
  have "gs_index st' = batch_index (gs_game_id st) locs (batch_new sc) (gs_index st)"
    using rel unfolding batch_rel_def by (metis game_store.select_convs(2) game_store.surjective game_store.update_convs(2))
  then show "batch_index (gs_game_id st) (locs @ [z]) (batch_new sc) (gs_index st) = gs_index st'"
    using batch_index_longer [of "locs" "batch_new sc"] pos len by simp
qed

lemma batch_rel_fields:
  "batch_rel env st sc out locs st' \<Longrightarrow>
     gs_game_id st' = gs_game_id st \<and> gs_path st' = gs_path st \<and> length locs = length out \<and>
     batch_shape sc (length out) \<and> seen_ok st sc locs st'"
  unfolding batch_rel_def by (metis game_store.select_convs(1,4) game_store.surjective game_store.update_convs(2,3,5))

text \<open>Extending the relation by one location, when nothing new is written.\<close>

lemma seen_ok_longer:
  "seen_ok st sc locs st' \<Longrightarrow> bs_seen_new sc' = bs_seen_new sc \<Longrightarrow> seen_ok st sc' (locs @ [z]) st'"
  unfolding seen_ok_def by (auto simp: nth_append less_Suc_eq)

lemma batch_shape_longer:
  "batch_shape sc n \<Longrightarrow> bs_out sc' = bs_out sc @ [z] \<Longrightarrow> batch_new sc' = batch_new sc \<Longrightarrow>
     bs_new_data sc' = bs_new_data sc \<Longrightarrow> bs_new_pos sc' = bs_new_pos sc \<Longrightarrow>
     bs_dup_of_new sc' = bs_dup_of_new sc @ ds \<Longrightarrow> list_all (\<lambda>(i, f). i \<le> n \<and> f \<le> n) ds \<Longrightarrow>
     batch_shape sc' (Suc n)"
  unfolding batch_shape_def by (force simp: list_all_iff)

lemma batch_rel_dup:
  assumes rel: "batch_rel env st sc out locs st'" and seen: "bs_seen_new sc h = Some f"
  shows "batch_rel env st (batch_scan_step st (length locs, h, d) sc) (out @ [(0, 0)]) (locs @ [locs ! f]) st'"
proof -
  let ?sc = "batch_scan_step st (length locs, h, d) sc"
  note fld = batch_rel_fields [OF rel] and longer = batch_rel_longer [OF rel]
  have f: "f < length locs" using fld seen unfolding seen_ok_def by blast
  have sc: "bs_out ?sc = bs_out sc @ [(0, 0)]" "batch_new ?sc = batch_new sc"
    "bs_new_data ?sc = bs_new_data sc" "bs_new_pos ?sc = bs_new_pos sc"
    "bs_dup_of_new ?sc = bs_dup_of_new sc @ [(length locs, f)]" "bs_seen_new ?sc = bs_seen_new sc"
    using seen by (simp_all add: batch_scan_step_def batch_new_def)
  have "batch_dups (bs_dup_of_new ?sc) (out @ [(0, 0)]) = locs @ [locs ! f]"
    using longer(2) [of "(0, 0)"] f by (simp add: sc batch_dups_def nth_append)
  moreover have "batch_shape ?sc (Suc (length out))"
    using batch_shape_longer [OF _ sc(1-5)] fld f by simp
  ultimately show ?thesis
    using longer seen_ok_longer [of st sc locs st' ?sc] fld sc rel
    by (simp add: batch_rel_def)
qed

lemma batch_rel_hit:
  assumes rel: "batch_rel env st sc out locs st'" and "bs_seen_new sc h = None"
    and "tbl_get (gs_index st) (key (gs_game_id st) h) = Some v"
  shows "batch_rel env st (batch_scan_step st (length locs, h, d) sc) (out @ [unpack v]) (locs @ [unpack v]) st'"
proof -
  let ?sc = "batch_scan_step st (length locs, h, d) sc"
  note fld = batch_rel_fields [OF rel] and longer = batch_rel_longer [OF rel]
  have sc: "bs_out ?sc = bs_out sc @ [unpack v]" "batch_new ?sc = batch_new sc"
    "bs_new_data ?sc = bs_new_data sc" "bs_new_pos ?sc = bs_new_pos sc"
    "bs_dup_of_new ?sc = bs_dup_of_new sc @ []" "bs_seen_new ?sc = bs_seen_new sc"
    using assms(2,3) by (simp_all add: batch_scan_step_def batch_new_def)
  have "batch_shape ?sc (Suc (length out))"
    using batch_shape_longer [OF _ sc(1-5)] fld by simp
  then show ?thesis
    using longer seen_ok_longer [of st sc locs st' ?sc] fld sc rel
    by (simp add: batch_rel_def)
qed

lemma batch_rel_new:
  assumes rel: "batch_rel env st sc out locs st'" and seen: "bs_seen_new sc h = None"
    and new: "tbl_get (gs_index st) (key (gs_game_id st) h) = None"
    and env: "env_live env" and ok: "store_ok st'" and room: "unat (gs_size st') + length d < 2 ^ 32"
  shows "batch_rel env st (batch_scan_step st (length locs, h, d) sc)
    (out @ [(gs_size st', word_of_nat (length d))]) (locs @ [(gs_size st', word_of_nat (length d))])
    (indexed st' h d)"
proof -
  let ?sc = "batch_scan_step st (length locs, h, d) sc" and ?loc = "(gs_size st', word_of_nat (length d) :: u32)"
  let ?p = "pwrite (unat (gs_size st')) d (gs_pack st')"
  note fld = batch_rel_fields [OF rel] and longer = batch_rel_longer [OF rel]
  have sc: "bs_out ?sc = bs_out sc @ [(0, 0)]" "batch_new ?sc = batch_new sc @ [((h, d), length locs)]"
    "bs_dup_of_new ?sc = bs_dup_of_new sc" "bs_seen_new ?sc = (bs_seen_new sc)(h \<mapsto> length locs)"
    "length (bs_new_data ?sc) = length (bs_new_pos ?sc)"
    using seen new fld by (simp_all add: batch_scan_step_def batch_new_def batch_shape_def)
  have sz: "ucast (word_of_nat (length d) :: u32) = (word_of_nat (length d) :: u64)"
    using room by (simp add: word_unat_eq_iff unat_of_nat)
  have w: "write_exact_at (pe_wr env) d (unat (gs_size st')) (gs_pack st') = (Inr (), ?p)"
    using env store_okD(2) [OF ok] by (simp add: env_live_def write_exact_at_progress)
  have bw: "batch_write env (batch_new ?sc) (gs_pack st, bs_out ?sc, gs_size st) =
      (Inr (), ?p, out @ [?loc], gs_size st' + word_of_nat (length d))"
    unfolding sc batch_write_append [OF longer(1)] using w fld sz
    by (simp add: Let_def list_update_append)
  have up: "unpack (pack (gs_size st') (word_of_nat (length d))) = ?loc" using room by (simp add: unpack_pack)
  have bi: "batch_index (gs_game_id st) (locs @ [?loc]) (batch_new ?sc) (gs_index st) =
      tbl_insert (key (gs_game_id st) h) (pack (gs_size st') (word_of_nat (length d))) (gs_index st')"
    using longer(3) [of ?loc] unfolding batch_index_def sc by simp
  have shape: "batch_shape ?sc (Suc (length out))"
    using fld sc by (force simp: batch_shape_def list_all_iff)
  have seen': "seen_ok st ?sc (locs @ [?loc]) (indexed st' h d)"
    using fld up store_okD(1) [OF ok] unfolding seen_ok_def sc
    by (auto simp: indexed_def tbl_simps nth_append less_Suc_eq)
  have "indexed st' h d = st\<lparr>gs_pack := ?p, gs_size := gs_size st' + word_of_nat (length d),
      gs_index := tbl_insert (key (gs_game_id st) h) (pack (gs_size st') (word_of_nat (length d))) (gs_index st')\<rparr>"
    using fld rel by (simp add: indexed_def grown_def batch_rel_def)
  with bw bi shape seen' longer(2) fld sc show ?thesis
    by (simp add: batch_rel_def)
qed

lemma batch_scan_snoc:
  "batch_scan_all st (cs @ [c]) = batch_scan_step st (length cs, c) (batch_scan_all st cs)"
  by (simp add: batch_scan_all_def enumerate_append_eq)

lemma batch_rel_step:
  assumes rel: "batch_rel env st sc out locs st'" and env: "env_live env" and ok: "store_ok st'"
    and room: "unat (gs_size st') + length d < 2 ^ 32"
  shows "\<exists>out' loc st''. append_chunk env h d st' = (Inr loc, st'') \<and>
    batch_rel env st (batch_scan_step st (length locs, h, d) sc) out' (locs @ [loc]) st''"
proof -
  note fld = batch_rel_fields [OF rel] and run = append_chunk_live [OF env ok, of h d]
  show ?thesis
  proof (cases "bs_seen_new sc h")
    case (Some f)
    then have "tbl_get (gs_index st') (key (gs_game_id st) h) = Some (pack (fst (locs ! f)) (snd (locs ! f)))"
      "unpack (pack (fst (locs ! f)) (snd (locs ! f))) = locs ! f"
      using fld unfolding seen_ok_def by blast+
    with run fld have "append_chunk env h d st' = (Inr (locs ! f), st')" by simp
    with batch_rel_dup [OF rel Some] show ?thesis by blast
  next
    case None
    then have same: "tbl_get (gs_index st') (key (gs_game_id st) h) = tbl_get (gs_index st) (key (gs_game_id st) h)"
      using fld unfolding seen_ok_def by blast
    show ?thesis
    proof (cases "tbl_get (gs_index st) (key (gs_game_id st) h)")
      case (Some v)
      with run fld same have "append_chunk env h d st' = (Inr (unpack v), st')" by simp
      with batch_rel_hit [OF rel None Some] show ?thesis by blast
    next
      case n: None
      with run fld same
      have "append_chunk env h d st' = (Inr (gs_size st', word_of_nat (length d)), indexed st' h d)" by simp
      with batch_rel_new [OF rel None n env ok room] show ?thesis by blast
    qed
  qed
qed

lemma batch_rel_all:
  assumes env: "env_live env" and ok: "store_ok st"
  shows "unat (gs_size st) + (\<Sum>c \<leftarrow> cs. length (snd c)) < 2 ^ 32 \<Longrightarrow>
    \<exists>out locs st'. batch_rel env st (batch_scan_all st cs) out locs st' \<and>
      append_all env cs st = (Inr locs, st') \<and> store_ok st' \<and> length locs = length cs \<and>
      unat (gs_size st') \<le> unat (gs_size st) + (\<Sum>c \<leftarrow> cs. length (snd c))"
proof (induction cs rule: rev_induct)
  case Nil
  have "batch_rel env st (batch_scan_all st []) [] [] st"
    by (simp add: batch_rel_def batch_scan_all_def batch_scan_init_def batch_new_def batch_dups_def
        batch_index_def batch_shape_def seen_ok_def)
  with ok show ?case by fastforce
next
  case (snoc c cs)
  obtain h d where c: "c = (h, d)" by (cases c)
  from snoc obtain out locs st' where
    rel: "batch_rel env st (batch_scan_all st cs) out locs st'"
    and run: "append_all env cs st = (Inr locs, st')" and ok': "store_ok st'" and len: "length locs = length cs"
    and sz: "unat (gs_size st') \<le> unat (gs_size st) + (\<Sum>c \<leftarrow> cs. length (snd c))" by auto
  have room: "unat (gs_size st') + length d < 2 ^ 32" using snoc.prems sz c by simp
  from batch_rel_step [OF rel env ok' room, of h] obtain out' loc st'' where
    step: "append_chunk env h d st' = (Inr loc, st'')"
    and rel': "batch_rel env st (batch_scan_step st (length locs, h, d) (batch_scan_all st cs)) out' (locs @ [loc]) st''"
    by blast
  show ?case
    using rel' append_all_snoc [OF run step] append_chunk_outcome [OF ok' room step] len sz c
    by (intro exI [of _ out'] exI [of _ "locs @ [loc]"] exI [of _ st'']) (simp add: batch_scan_snoc)
qed

lemma append_chunks_batch_rel:
  assumes "env_live env" "batch_rel env st (batch_scan_all st cs) out locs st'"
  shows "append_chunks_batch env cs st = (Inr locs, st')"
proof -
  let ?sc = "batch_scan_all st cs"
  have w: "batch_write env (zip (bs_new_data ?sc) (bs_new_pos ?sc)) (gs_pack st, bs_out ?sc, gs_size st) =
      (Inr (), gs_pack st', out, gs_size st')"
    and locs: "batch_dups (bs_dup_of_new ?sc) out = locs"
    using assms(2) unfolding batch_rel_def batch_new_def by simp_all
  have st': "st\<lparr>gs_pack := gs_pack st', gs_size := gs_size st',
      gs_index := batch_index (gs_game_id st) locs (batch_new ?sc) (gs_index st)\<rparr> = st'"
    using assms(2) unfolding batch_rel_def by metis
  show ?thesis
  proof (cases "bs_new_data ?sc = []")
    case True
    then have "st\<lparr>gs_pack := gs_pack st', gs_size := gs_size st'\<rparr> = st'"
      using st' by (simp add: batch_new_def batch_index_def)
    with assms(1) w locs True show ?thesis
      by (simp add: append_chunks_batch_def Let_def env_live_def)
  next
    case False
    with assms(1) w locs st' show ?thesis
      by (simp add: append_chunks_batch_def Let_def env_live_def batch_new_def)
  qed
qed

lemma env_live_read: "env_live env \<Longrightarrow> pe_read_txn env \<and> os_live (pe_rd env)"
  by (simp add: env_live_def)

section \<open>Batches under faults\<close>

text \<open>
  Whatever fails, a batch writes only past the recorded size; when all its writes succeed
  their effect does not depend on how the operating system split them.
\<close>

lemma batch_write_outcome:
  assumes "unat off \<le> length p" "unat off + (\<Sum>x \<leftarrow> xs. length (snd (fst x))) < 2 ^ 32"
    and "batch_write env xs (p, out, off) = (r, p', out', off')"
  shows "(\<exists>ys. p' = pwrite (unat off) ys p) \<and>
    (r = Inr () \<longrightarrow> unat off' = unat off + (\<Sum>x \<leftarrow> xs. length (snd (fst x))) \<and> unat off' \<le> length p' \<and>
       (\<forall>env2. os_progress (pe_wr env2) \<longrightarrow> batch_write env2 xs (p, out, off) = (Inr (), p', out', off')))"
  using assms
proof (induction env xs "(p, out, off)" arbitrary: p out off rule: batch_write.induct)
  case (1 env)
  then show ?case by (auto intro!: exI [of _ "[]"] simp: pwrite_Nil)
next
  case (2 env h d pos rest p out off)
  let ?len = "word_of_nat (length d) :: u32"
  obtain w p1 where w: "write_exact_at (pe_wr env) d (unat off) p = (w, p1)" by fastforce
  from write_exact_at_result [OF "2.prems"(1) w] obtain k where
    k: "p1 = pwrite (unat off) (take k d) p" "w = Inr () \<longrightarrow> k = length d" by blast
  show ?case
  proof (cases w)
    case (Inl e)
    with 2 w k(1) show ?thesis by auto
  next
    case (Inr u)
    with k have p1: "p1 = pwrite (unat off) d p" by simp
    have off1: "unat (off + ucast ?len) = unat off + length d"
      using "2.prems"(2) by (simp add: unat_word_ariths unat_of_nat)
    have rest: "batch_write env rest (p1, out[pos := (off, ?len)], off + ucast ?len) = (r, p', out', off')"
      using "2.prems"(3) w Inr by (simp add: Let_def)
    have IH: "(\<exists>ys. p' = pwrite (unat (off + ucast ?len)) ys p1) \<and>
      (r = Inr () \<longrightarrow> unat off' = unat (off + ucast ?len) + (\<Sum>x \<leftarrow> rest. length (snd (fst x))) \<and> unat off' \<le> length p' \<and>
       (\<forall>env2. os_progress (pe_wr env2) \<longrightarrow> batch_write env2 rest (p1, out[pos := (off, ?len)], off + ucast ?len) = (Inr (), p', out', off')))"
      using "2.hyps" [OF w [symmetric] _ refl _ _ rest] Inr "2.prems"(1,2) off1 p1
      by (auto simp: length_pwrite)
    have "batch_write env2 (((h, d), pos) # rest) (p, out, off) = (Inr (), p', out', off')"
      if "r = Inr ()" "os_progress (pe_wr env2)" for env2
      using IH that write_exact_at_progress [OF that(2) "2.prems"(1), of d] p1 by (simp add: Let_def)
    moreover obtain ys where "p' = pwrite (unat off + length d) ys (pwrite (unat off) d p)"
      using IH off1 p1 by auto
    then have "p' = pwrite (unat off) (d @ ys) p" using pwrite_append [OF "2.prems"(1)] by simp
    ultimately show ?thesis using IH off1 by auto
  qed
qed

lemma batch_new_sum:
  "(\<Sum>x \<leftarrow> batch_new (batch_scan_all st cs). length (snd (fst x))) \<le> (\<Sum>c \<leftarrow> cs. length (snd c)) \<and>
   length (bs_new_data (batch_scan_all st cs)) = length (bs_new_pos (batch_scan_all st cs))"
proof (induction cs rule: rev_induct)
  case Nil
  then show ?case by (simp add: batch_scan_all_def batch_scan_init_def batch_new_def)
next
  case (snoc c cs)
  obtain h d where "c = (h, d)" by (cases c)
  with snoc show ?case
    unfolding batch_scan_snoc by (auto simp: batch_scan_step_def batch_new_def split: option.splits)
qed

lemma append_chunks_batch_outcome:
  assumes ok: "store_ok st" and room: "unat (gs_size st) + (\<Sum>c \<leftarrow> cs. length (snd c)) < 2 ^ 32"
    and run: "append_chunks_batch env cs st = (r, st')"
  shows "(\<forall>locs env2. r = Inr locs \<longrightarrow> env_live env2 \<longrightarrow> append_all env2 cs st = (Inr locs, st')) \<and>
    (\<forall>e. r = Inl e \<longrightarrow> store_ok st' \<and> abs_store st' = abs_store st \<and> gs_path st' = gs_path st)"
proof (cases "pe_read_txn env")
  case False
  with run ok show ?thesis by (auto simp: append_chunks_batch_def)
next
  case True
  let ?sc = "batch_scan_all st cs"
  obtain w p out off where w: "batch_write env (batch_new ?sc) (gs_pack st, bs_out ?sc, gs_size st) = (w, p, out, off)"
    by (metis prod_cases4)
  have room': "unat (gs_size st) + (\<Sum>x \<leftarrow> batch_new ?sc. length (snd (fst x))) < 2 ^ 32"
    using room batch_new_sum [of st cs] by linarith
  from batch_write_outcome [OF store_okD(2) [OF ok] room' w] obtain ys where
    ys: "p = pwrite (unat (gs_size st)) ys (gs_pack st)"
    and good: "w = Inr () \<Longrightarrow> unat (gs_size st) \<le> unat off \<and> unat off \<le> length p"
    and same: "\<And>env2. w = Inr () \<Longrightarrow> os_progress (pe_wr env2) \<Longrightarrow>
      batch_write env2 (batch_new ?sc) (gs_pack st, bs_out ?sc, gs_size st) = (Inr (), p, out, off)" by auto
  have okp: "store_ok (st\<lparr>gs_pack := p\<rparr>)" "abs_store (st\<lparr>gs_pack := p\<rparr>) = abs_store st"
    using store_ok_pwrite [OF ok] abs_store_pwrite [OF ok refl] ys by simp_all
  have oks: "store_ok (st\<lparr>gs_pack := p, gs_size := off\<rparr>)" if "w = Inr ()"
    using store_ok_grow [OF okp(1), of off] good [OF that] by simp
  have live: "append_chunks_batch env2 cs st = (r, st')" if "env_live env2" "r = Inr locs" for env2 locs
  proof -
    from that(2) run True w have "w = Inr ()"
      by (auto simp: append_chunks_batch_def Let_def batch_new_def [symmetric] split: sum.splits)
    from same [OF this, of env2] this that run True w show ?thesis
      by (auto simp: append_chunks_batch_def Let_def batch_new_def [symmetric] env_live_def split: if_splits)
  qed
  have seq: "append_all env2 cs st = (Inr locs, st')" if "env_live env2" "r = Inr locs" for env2 locs
    using batch_rel_all [OF that(1) ok room] append_chunks_batch_rel [OF that(1)] live [OF that] that(2)
    by fastforce
  have err: "store_ok st' \<and> abs_store st' = abs_store st \<and> gs_path st' = gs_path st" if "r = Inl e" for e
    using run True w okp oks that
    by (cases w) (auto simp: append_chunks_batch_def Let_def batch_new_def [symmetric] split: if_splits)
  from seq err show ?thesis by blast
qed

end
