(* ===== verification/Pack_Compact.thy ===== *)
theory Pack_Compact
  imports Pack_Store "HOL-Library.Multiset"
begin

text \<open>
  Correctness of the delayed compaction of \<^verbatim>\<open>crates/origin/src/storage.rs\<close> (\<open>compact\<close> of
  \<^theory_text>\<open>Pack_Store\<close>): a completed compaction restricts the abstract store to the live
  hashes and leaves a pack without garbage; one that gives up or fails before the new file
  is opened changes nothing; the order in which the live set is iterated does not matter.
\<close>

section \<open>The live locations\<close>

lemma find_key: "find (\<lambda>(k, _). k = x) es = map_option (Pair x) (tbl_get es x)"
  by (induction es) (auto simp: tbl_get_def)

lemma live_scan_eq:
  "live_scan g es live =
     map (\<lambda>h. (h, unpack (the (tbl_get es (key g h))))) (filter (\<lambda>h. tbl_get es (key g h) \<noteq> None) live)"
  by (induction live) (auto simp: find_key split: option.splits)

lemma game_entries_all: "store_ok st \<Longrightarrow> game_entries st = gs_index st"
  by (auto simp: game_entries_def store_ok_def list_all_iff entry_ok_def intro!: filter_True)

lemma sum_list_sub:
  fixes f :: "'a \<Rightarrow> nat"
  assumes "distinct xs" "set xs \<subseteq> set ys" "distinct ys"
  shows "(\<Sum>x \<leftarrow> xs. f x) \<le> (\<Sum>y \<leftarrow> ys. f y)"
  using assms by (simp add: sum_list_distinct_conv_sum_set sum_mono2)

definition locs_bytes :: "(bytes \<times> u64 \<times> u32) list \<Rightarrow> nat" where
  "locs_bytes locs = (\<Sum>l \<leftarrow> locs. unat (snd (snd l)))"

lemma live_bytes_fold: "fold (\<lambda>(_, _, len) n. n + ucast len) locs (word_of_nat n) = (word_of_nat (n + locs_bytes locs) :: u64)"
proof (induction locs arbitrary: n)
  case (Cons l locs)
  obtain h off len where l: "l = (h, off, len :: u32)" by (cases l)
  have "(word_of_nat n + ucast len :: u64) = word_of_nat (n + unat len)"
    by (simp add: word_unat_eq_iff unat_word_ariths unat_of_nat)
  with Cons l show ?case by (simp add: locs_bytes_def add.assoc del: of_nat_add)
qed (simp add: locs_bytes_def)

lemma live_bytes_eq: "live_bytes locs = word_of_nat (locs_bytes locs)"
  using live_bytes_fold [of locs 0] by (simp add: live_bytes_def)

lemma locs_bytes_sort [simp]: "locs_bytes (sort locs) = locs_bytes locs"
proof -
  have "mset (map (\<lambda>l. unat (snd (snd l))) (sort locs)) = mset (map (\<lambda>l. unat (snd (snd l))) locs)" by simp
  then show ?thesis unfolding locs_bytes_def by (metis sum_mset_sum_list)
qed

lemma live_bytes_sort [simp]: "live_bytes (sort locs) = live_bytes locs"
  by (simp add: live_bytes_eq)

lemma locs_bytes_bound:
  assumes ok: "tbl_ok t" and "distinct live"
  shows "locs_bytes (live_scan g t live) \<le> used_bytes t"
proof -
  let ?es = "map (\<lambda>h. (key g h, the (tbl_get t (key g h)))) (filter (\<lambda>h. tbl_get t (key g h) \<noteq> None) live)"
  have "locs_bytes (live_scan g t live) = used_bytes ?es"
    by (simp add: locs_bytes_def used_bytes_def live_scan_eq o_def)
  also have "\<dots> \<le> used_bytes t"
    unfolding used_bytes_def
  proof (rule sum_list_sub)
    show "distinct ?es" using assms(2) by (auto simp: distinct_map inj_on_def)
    show "set ?es \<subseteq> set t" using ok by (auto simp: tbl_get_iff [symmetric])
    show "distinct t" using tbl_ok_distinct [OF ok] by (simp add: distinct_map)
  qed
  finally show ?thesis .
qed

section \<open>Placing the chunks\<close>

text \<open>Each new location reads in the rewritten file what the old one read in the old file.\<close>

lemma new_locations_slices:
  assumes "length p = unat off" "unat off + locs_bytes locs < 2 ^ 64"
    and "list_all (\<lambda>l. range_fits src (snd l)) locs"
  shows "list_all2 (\<lambda>(h, o', l') (h0, o0, l0). h = h0 \<and> l' = l0 \<and>
      unat o' + unat l' \<le> unat off + locs_bytes locs \<and>
      range_slice (p @ concat (map (range_slice src) (map snd locs)) @ q) (o', l') = range_slice src (o0, l0))
    (new_locations off locs) locs"
  using assms
proof (induction locs arbitrary: off p)
  case Nil
  then show ?case by simp
next
  case (Cons x locs)
  obtain h o0 len where x: "x = (h, o0, len)" by (cases x)
  let ?s = "range_slice src (o0, len)"
  have len: "length ?s = unat len"
    using Cons.prems(3) x range_slice_fits [of src "(o0, len)"] by simp
  have sz: "unat (off + ucast len) = unat off + unat len"
    using Cons.prems(2) x by (simp add: unat_add_u64 locs_bytes_def)
  have "length (p @ ?s) = unat (off + ucast len)" using Cons.prems(1) len sz by simp
  moreover have "unat (off + ucast len) + locs_bytes locs < 2 ^ 64"
    using Cons.prems(2) x sz by (simp add: locs_bytes_def add.assoc)
  moreover have "list_all (\<lambda>l. range_fits src (snd l)) locs" using Cons.prems(3) by simp
  ultimately have IH: "list_all2 (\<lambda>(h, o', l') (h0, o0, l0). h = h0 \<and> l' = l0 \<and>
      unat o' + unat l' \<le> unat (off + ucast len) + locs_bytes locs \<and>
      range_slice ((p @ ?s) @ concat (map (range_slice src) (map snd locs)) @ q) (o', l') = range_slice src (o0, l0))
    (new_locations (off + ucast len) locs) locs"
    by (rule Cons.IH)
  have first: "range_slice (p @ ?s @ r) (off, len) = ?s" for r
    using Cons.prems(1) len by (simp add: range_slice_def [of _ "(off, len)"])
  from IH first sz x show ?case
    by (simp add: locs_bytes_def add.assoc)
qed

text \<open>The index transaction: all old entries go, one entry per new location comes.\<close>

lemma fold_remove: "fold (\<lambda>(k, _) t. tbl_remove k t) es t = filter (\<lambda>e. fst e \<notin> fst ` set es) t"
proof (induction es arbitrary: t)
  case (Cons e es)
  then show ?case by (cases e) (auto simp: tbl_remove_def intro!: filter_cong)
qed simp

lemma compact_index_clear: "compact_index g t locs t = fold (\<lambda>(h, off, len) t. tbl_insert (key g h) (pack off len) t) locs []"
proof -
  have "filter (\<lambda>e. fst e \<notin> fst ` set t) t = []" by (simp add: filter_empty_conv)
  then show ?thesis by (simp add: compact_index_def fold_remove)
qed

lemma fold_insert_laws:
  assumes "tbl_ok t" "distinct (map fst locs)" "list_all (\<lambda>l. tbl_get t (key g (fst l)) = None) locs"
    and "list_all (\<lambda>l. unat (fst (snd l)) < 2 ^ 32) locs"
  shows "let t' = fold (\<lambda>(h, off, len) t. tbl_insert (key g h) (pack off len) t) locs t in
    tbl_ok t' \<and> used_bytes t' = used_bytes t + locs_bytes locs \<and>
    set t' = set t \<union> (\<lambda>(h, off, len). (key g h, pack off len)) ` set locs"
  using assms
proof (induction locs arbitrary: t)
  case Nil
  then show ?case by (simp add: locs_bytes_def)
next
  case (Cons l locs)
  obtain h off len where l: "l = (h, off, len)" by (cases l)
  let ?t = "tbl_insert (key g h) (pack off len) t"
  have new: "tbl_get t (key g h) = None" using Cons.prems l by simp
  have set: "set ?t = insert (key g h, pack off len) (set t)"
    using set_tbl_insert [OF Cons.prems(1)] new by (auto simp: tbl_get_None image_iff)
  have used: "used_bytes ?t = used_bytes t + unat len"
    using used_bytes_insert [OF Cons.prems(1) new] Cons.prems(4) l by (simp add: unpack_pack)
  have "list_all (\<lambda>l. tbl_get ?t (key g (fst l)) = None) locs"
    using Cons.prems(1,2,3) l by (auto simp: list_all_iff tbl_simps image_iff)
  from Cons.IH [OF tbl_ok_insert [OF Cons.prems(1)] _ this] Cons.prems set used l show ?case
    by (auto simp: Let_def locs_bytes_def)
qed

lemma list_all2_split:
  "list_all2 P xs ys \<Longrightarrow> x \<in> set xs \<Longrightarrow> \<exists>y \<in> set ys. P x y"
  "list_all2 P xs ys \<Longrightarrow> y \<in> set ys \<Longrightarrow> \<exists>x \<in> set xs. P x y"
  by (metis list_all2_conv_all_nth in_set_conv_nth)+

lemma map_fst_new_locations [simp]: "map fst (new_locations off locs) = map fst locs"
  by (induction off locs rule: new_locations.induct) auto

lemma locs_bytes_new [simp]: "locs_bytes (new_locations off locs) = locs_bytes locs"
  by (induction off locs rule: new_locations.induct) (auto simp: locs_bytes_def)

lemma live_scan_set:
  "set (live_scan g t live) = {(h, unpack v) | h v. h \<in> set live \<and> tbl_get t (key g h) = Some v}"
  by (auto simp: live_scan_eq)

lemma distinct_live_scan: "distinct live \<Longrightarrow> distinct (map fst (sort (live_scan g t live)))"
proof -
  assume "distinct live"
  then have "distinct (map fst (live_scan g t live))" by (simp add: live_scan_eq o_def)
  moreover have "mset (map fst (sort (live_scan g t live))) = mset (map fst (live_scan g t live))" by simp
  ultimately show ?thesis by (metis mset_eq_imp_distinct_iff)
qed

section \<open>The compacted store\<close>

definition live_locs :: "game_store \<Rightarrow> bytes list \<Rightarrow> (bytes \<times> u64 \<times> u32) list" where
  "live_locs st live = sort (live_scan (gs_game_id st) (gs_index st) live)"

definition packed :: "game_store \<Rightarrow> bytes list \<Rightarrow> bytes" where
  "packed st live = concat (map (range_slice (gs_pack st)) (map snd (live_locs st live)))"

definition switched :: "game_store \<Rightarrow> bytes list \<Rightarrow> game_store" where
  "switched st live = st\<lparr>gs_pack := packed st live, gs_path := None, gs_size := live_bytes (live_locs st live)\<rparr>"

definition compacted :: "game_store \<Rightarrow> bytes list \<Rightarrow> game_store" where
  "compacted st live = (switched st live)\<lparr>gs_index := compact_index (gs_game_id st) (gs_index st)
     (new_locations 0 (live_locs st live)) (gs_index st)\<rparr>"

lemma live_locs_facts:
  assumes ok: "store_ok st" and live: "distinct live"
  shows "list_all (\<lambda>l. range_fits (gs_pack st) (snd l)) (live_locs st live)"
    and "locs_bytes (live_locs st live) \<le> unat (gs_size st)"
    and "unat (live_bytes (live_locs st live)) = locs_bytes (live_locs st live)"
    and "distinct (map fst (live_locs st live))"
    and "(h, off, len) \<in> set (live_locs st live) \<longleftrightarrow>
      h \<in> set live \<and> (\<exists>v. tbl_get (gs_index st) (key (gs_game_id st) h) = Some v \<and> unpack v = (off, len))"
proof -
  show mem: "(h, off, len) \<in> set (live_locs st live) \<longleftrightarrow>
      h \<in> set live \<and> (\<exists>v. tbl_get (gs_index st) (key (gs_game_id st) h) = Some v \<and> unpack v = (off, len))"
    for h off len by (auto simp: live_locs_def live_scan_set)
  have "range_fits (gs_pack st) (off, len)" if "(h, off, len) \<in> set (live_locs st live)" for h off len
  proof -
    from that mem obtain v where v: "tbl_get (gs_index st) (key (gs_game_id st) h) = Some v" "unpack v = (off, len)"
      by blast
    from tbl_get_entry [OF ok v(1)] v(2) store_okD(2) [OF ok] show ?thesis
      by (simp add: entry_end_def range_fits_def)
  qed
  then show "list_all (\<lambda>l. range_fits (gs_pack st) (snd l)) (live_locs st live)"
    by (auto simp: list_all_iff)
  show b: "locs_bytes (live_locs st live) \<le> unat (gs_size st)"
    using locs_bytes_bound [OF store_okD(1) [OF ok] live, of "gs_game_id st"] store_okD(5) [OF ok]
    by (simp add: live_locs_def)
  show "unat (live_bytes (live_locs st live)) = locs_bytes (live_locs st live)"
    using b unat_u64_less [of "gs_size st"] by (simp add: live_bytes_eq unat_of_nat)
  show "distinct (map fst (live_locs st live))"
    using distinct_live_scan [OF live] by (simp add: live_locs_def)
qed

lemma length_packed:
  assumes "store_ok st" "distinct live"
  shows "length (packed st live) = locs_bytes (live_locs st live)"
proof -
  have "length (concat (map (range_slice src) (map snd locs))) = locs_bytes locs"
    if "list_all (\<lambda>l. range_fits src (snd l)) locs" for src and locs :: "(bytes \<times> u64 \<times> u32) list"
    using that by (induction locs) (auto simp: locs_bytes_def range_slice_fits [symmetric])
  with live_locs_facts(1) [OF assms] show ?thesis by (simp add: packed_def)
qed

text \<open>The entries of the new index, and what each of them reads.\<close>

lemma compacted_index:
  assumes ok: "store_ok st" and live: "distinct live" and small: "unat (gs_size st) < 2 ^ 32"
  defines "t \<equiv> gs_index (compacted st live)"
  shows "tbl_ok t" and "used_bytes t = locs_bytes (live_locs st live)"
    and "(k, v) \<in> set t \<longleftrightarrow> (\<exists>h off len. (h, off, len) \<in> set (new_locations 0 (live_locs st live)) \<and>
            k = key (gs_game_id st) h \<and> v = pack off len)"
    and "(h, off, len) \<in> set (new_locations 0 (live_locs st live)) \<Longrightarrow>
      unat off + unat len \<le> locs_bytes (live_locs st live) \<and> unpack (pack off len) = (off, len) \<and>
      (\<exists>o0. (h, o0, len) \<in> set (live_locs st live) \<and>
         range_slice (packed st live) (off, len) = range_slice (gs_pack st) (o0, len))"
proof -
  let ?L = "live_locs st live" and ?N = "new_locations 0 (live_locs st live)"
  note facts = live_locs_facts [OF ok live]
  have "0 + locs_bytes ?L < 2 ^ 64" using facts(2) unat_u64_less [of "gs_size st"] by simp
  from new_locations_slices [OF _ _ facts(1), of "[]" 0 "[]"] this
  have pl: "list_all2 (\<lambda>(h, o', l') (h0, o0, l0). h = h0 \<and> l' = l0 \<and> unat o' + unat l' \<le> locs_bytes ?L \<and>
      range_slice (packed st live) (o', l') = range_slice (gs_pack st) (o0, l0)) ?N ?L"
    by (simp add: packed_def)
  have each: "unat off + unat len \<le> locs_bytes ?L \<and>
      (\<exists>o0. (h, o0, len) \<in> set ?L \<and> range_slice (packed st live) (off, len) = range_slice (gs_pack st) (o0, len))"
    if "(h, off, len) \<in> set ?N" for h off len
    using list_all2_split(1) [OF pl that] by auto
  have off: "unat off < 2 ^ 32" if "(h, off, len) \<in> set ?N" for h off len
    using each [OF that] facts(2) small by simp
  show "(h, off, len) \<in> set ?N \<Longrightarrow> unat off + unat len \<le> locs_bytes ?L \<and> unpack (pack off len) = (off, len) \<and>
      (\<exists>o0. (h, o0, len) \<in> set ?L \<and> range_slice (packed st live) (off, len) = range_slice (gs_pack st) (o0, len))"
    using each off unpack_pack by blast
  have "t = fold (\<lambda>(h, off, len) t. tbl_insert (key (gs_game_id st) h) (pack off len) t) ?N []"
    by (simp add: t_def compacted_def compact_index_clear)
  moreover have "list_all (\<lambda>l. unat (fst (snd l)) < 2 ^ 32) ?N" using off by (auto simp: list_all_iff)
  ultimately have "tbl_ok t \<and> used_bytes t = locs_bytes ?L \<and>
      set t = (\<lambda>(h, off, len). (key (gs_game_id st) h, pack off len)) ` set ?N"
    using fold_insert_laws [of "[]" ?N "gs_game_id st"] facts(4)
    by (simp add: Let_def tbl_ok_simps used_bytes_def list_all_iff)
  then show "tbl_ok t" "used_bytes t = locs_bytes ?L"
    "(k, v) \<in> set t \<longleftrightarrow> (\<exists>h off len. (h, off, len) \<in> set ?N \<and> k = key (gs_game_id st) h \<and> v = pack off len)"
    by force+
qed

lemma compacted_ok:
  assumes ok: "store_ok st" and live: "distinct live" and small: "unat (gs_size st) < 2 ^ 32"
  shows "store_ok (compacted st live)"
proof -
  let ?L = "live_locs st live" and ?N = "new_locations 0 (live_locs st live)" and ?c = "compacted st live"
  note idx = compacted_index [OF ok live small] and facts = live_locs_facts [OF ok live]
  have fld: "gs_pack ?c = packed st live" "unat (gs_size ?c) = locs_bytes ?L" "gs_game_id ?c = gs_game_id st"
    using facts(3) by (simp_all add: compacted_def switched_def)
  have entry: "entry_ok (gs_game_id st) (locs_bytes ?L) e" if "e \<in> set (gs_index ?c)" for e
  proof -
    obtain k v where e: "e = (k, v)" by (cases e)
    with that idx(3) obtain h off len where n: "(h, off, len) \<in> set ?N"
      and kv: "k = key (gs_game_id st) h" "v = pack off len" by blast
    from idx(4) [OF n] e kv show ?thesis by (simp add: entry_ok_def entry_end_def)
  qed
  show "store_ok ?c"
    using idx(1,2) fld length_packed [OF ok live] entry by (simp add: store_ok_def list_all_iff)
qed

lemma compacted_abs:
  assumes ok: "store_ok st" and live: "distinct live" and small: "unat (gs_size st) < 2 ^ 32"
  shows "abs_store (compacted st live) = abs_store st |` set live"
proof
  let ?L = "live_locs st live" and ?N = "new_locations 0 (live_locs st live)" and ?c = "compacted st live"
  note idx = compacted_index [OF ok live small] and facts = live_locs_facts [OF ok live]
  have fld: "gs_pack ?c = packed st live" "gs_game_id ?c = gs_game_id st"
    by (simp_all add: compacted_def switched_def)
  fix h
  let ?k = "key (gs_game_id st) h"
  show "abs_store ?c h = (abs_store st |` set live) h"
  proof (cases "h \<in> set live \<and> tbl_get (gs_index st) ?k \<noteq> None")
    case True
    then obtain v where v: "tbl_get (gs_index st) ?k = Some v" by auto
    have "(h, unpack v) \<in> set ?L"
      using facts(5) [of h "fst (unpack v)" "snd (unpack v)"] v True by simp
    then have "h \<in> fst ` set ?L" by force
    then have "h \<in> fst ` set ?N" using map_fst_new_locations [of 0 ?L] by (metis list.set_map)
    then obtain off len where n: "(h, off, len) \<in> set ?N" by auto
    from idx(4) [OF n] obtain o0 where o0: "(h, o0, len) \<in> set ?L" "unpack (pack off len) = (off, len)"
      "range_slice (packed st live) (off, len) = range_slice (gs_pack st) (o0, len)" by blast
    have "tbl_get (gs_index ?c) ?k = Some (pack off len)"
      using n idx(1,3) by (subst tbl_get_iff) auto
    with o0 facts(5) [of h o0 len] True fld show ?thesis
      by (auto simp: abs_store_def value_bytes_range)
  next
    case False
    have "tbl_get (gs_index ?c) ?k = None"
    proof (rule ccontr)
      assume "tbl_get (gs_index ?c) ?k \<noteq> None"
      then obtain v where "(?k, v) \<in> set (gs_index ?c)" using idx(1) by (auto simp: tbl_get_iff)
      then obtain off len where "(h, off, len) \<in> set ?N" using idx(3) by auto
      with idx(4) obtain o0 where "(h, o0, len) \<in> set ?L" by blast
      with facts(5) False show False by auto
    qed
    with False fld show ?thesis by (auto simp: abs_store_def restrict_map_def)
  qed
qed

section \<open>Runs of the compaction\<close>

text \<open>What a run gives, by its result.\<close>

lemma compact_cases:
  assumes ok: "store_ok st" and live: "distinct live" and path: "gs_path st = None"
    and cx: "compio_ok (pe_cx env)"
    and run: "store_compact rnd env live threshold avail st = (r, st')"
  shows "r = Inr True \<and> st' = compacted st live \<or> r = Inr False \<and> st' = st \<or>
    r = Inl ReopenFailed \<and> st' = st\<lparr>gs_path := Some (packed st live)\<rparr> \<or>
    r = Inl WriteTxnFailed \<and> st' = switched st live \<or>
    (\<exists>e. r = Inl e \<and> e \<noteq> ReopenFailed \<and> e \<noteq> WriteTxnFailed \<and> st' = st)"
proof -
  have es: "game_entries st = gs_index st" by (rule game_entries_all [OF ok])
  have pb: "path_bytes st = gs_pack st" using path by (simp add: path_bytes_def)
  have copy: "fresh = packed st live"
    if "copy_ranges (pe_cx env) (gs_pack st) (map snd (live_locs st live)) = Inr (fresh, n)" for fresh n
    using copy_ranges_Inr [OF cx that] by (simp add: packed_def)
  show ?thesis
    using run copy unfolding store_compact_def es pb Let_def live_locs_def [symmetric]
    by (auto simp: compacted_def switched_def ensure_copy_size_def split: if_splits sum.splits prod.splits)
qed

text \<open>No fault but, possibly, that of the index transaction.\<close>

lemma compact_live_run:
  assumes ok: "store_ok st" and live: "distinct live" and path: "gs_path st = None"
    and env: "env_live (env\<lparr>pe_write_txn := True\<rparr>)"
  shows "store_compact rnd env live threshold avail st =
    (let lb = live_bytes (live_locs st live) in
     if gs_size st = 0 \<or> rnd (1 - rnd (rnd (real (unat lb)) / rnd (real (unat (gs_size st))))) < threshold \<or> avail < lb
     then (Inr False, st)
     else if pe_write_txn env then (Inr True, compacted st live) else (Inl WriteTxnFailed, switched st live))"
proof -
  let ?L = "live_locs st live"
  have es: "game_entries st = gs_index st" by (rule game_entries_all [OF ok])
  have pb: "path_bytes st = gs_pack st" using path by (simp add: path_bytes_def)
  have lb: "live_bytes (live_scan (gs_game_id st) (gs_index st) live) = live_bytes ?L" by (simp add: live_locs_def)
  have "list_all (range_fits (gs_pack st)) (map snd ?L)"
    using live_locs_facts(1) [OF ok live] by (simp add: list_all_iff)
  moreover have "compio_live (pe_cx env)" using env by (simp add: env_live_def)
  ultimately obtain r where r: "copy_ranges (pe_cx env) (gs_pack st) (map snd ?L) = Inr r"
    using copy_ranges_live by blast
  obtain fresh n where "r = (fresh, n)" by (cases r)
  with r have "copy_ranges (pe_cx env) (gs_pack st) (map snd ?L) = Inr (packed st live, live_bytes ?L)"
    using copy_ranges_Inr [of "pe_cx env" "gs_pack st" "map snd ?L" fresh n] env length_packed [OF ok live]
    by (auto simp: env_live_def packed_def live_bytes_eq)
  with env show ?thesis
    unfolding store_compact_def es pb lb Let_def live_locs_def [symmetric]
    by (simp add: env_live_def ensure_copy_size_def compacted_def switched_def)
qed

text \<open>The iteration order of the live set only permutes the locations before they are sorted.\<close>

lemma compact_order:
  assumes "distinct live" "distinct live'" "set live' = set live"
  shows "store_compact rnd env live' threshold avail st = store_compact rnd env live threshold avail st"
proof -
  let ?scan = "live_scan (gs_game_id st) (game_entries st)"
  have "mset live' = mset live" using assms by (simp add: set_eq_iff_mset_eq_distinct)
  then have "mset (?scan live') = mset (?scan live)" by (simp add: live_scan_eq mset_filter)
  then have sort: "sort (?scan live') = sort (?scan live)" by (intro properties_for_sort) simp_all
  then have lb: "live_bytes (?scan live') = live_bytes (?scan live)" by (metis live_bytes_sort)
  show ?thesis unfolding store_compact_def Let_def sort lb ..
qed

end
