(* ===== verification/Pack_Runs.thy ===== *)
theory Pack_Runs
  imports Pack_Compact
begin

text \<open>
  Runs of the block library of \<^verbatim>\<open>crates/origin/src/storage.rs\<close>: sequences of appends,
  batches, compactions and restarts of the process, with any fault of the environment in
  between, as a step relation. The runs refine a specification that is just a map from
  hashes to data (\<open>spec_step\<close>). The two failures of a compaction after the new pack has
  replaced the old one are not steps; what they do is stated separately.
\<close>

section \<open>The steps\<close>

datatype store_op =
    OpAppend bytes bytes "store_error + u64 \<times> u32"
  | OpBatch "(bytes \<times> bytes) list" "store_error + (u64 \<times> u32) list"
  | OpCompact "bytes list" "store_error + bool"
  | OpRestart

text \<open>The pack stays below four GiB: the offsets of the index have 32 bits.\<close>

inductive store_step :: "game_store \<Rightarrow> store_op \<Rightarrow> game_store \<Rightarrow> bool" where
  append: "unat (gs_size st) + length d < 2 ^ 32 \<Longrightarrow> append_chunk env h d st = (r, st') \<Longrightarrow>
    store_step st (OpAppend h d r) st'"
| batch: "unat (gs_size st) + (\<Sum>c \<leftarrow> cs. length (snd c)) < 2 ^ 32 \<Longrightarrow>
    append_chunks_batch env cs st = (r, st') \<Longrightarrow> store_step st (OpBatch cs r) st'"
| compaction: "unat (gs_size st) < 2 ^ 32 \<Longrightarrow> distinct live \<Longrightarrow> compio_ok (pe_cx env) \<Longrightarrow>
    store_compact rnd env live threshold avail st = (r, st') \<Longrightarrow> r \<noteq> Inl ReopenFailed \<Longrightarrow> r \<noteq> Inl WriteTxnFailed \<Longrightarrow>
    store_step st (OpCompact live r) st'"
| restart: "length (gs_pack st) < 2 ^ 64 \<Longrightarrow> store_open env (gs_game_id st) (store_disk st) = Inr st' \<Longrightarrow>
    store_step st OpRestart st'"

inductive_cases store_stepE: "store_step st op st'"

inductive store_runs :: "game_store \<Rightarrow> store_op list \<Rightarrow> game_store \<Rightarrow> bool" where
  start: "store_runs st [] st"
| step: "store_runs st ops st1 \<Longrightarrow> store_step st1 op st2 \<Longrightarrow> store_runs st (ops @ [op]) st2"

section \<open>The specification\<close>

fun spec_step :: "store_op \<Rightarrow> (bytes \<rightharpoonup> bytes) \<Rightarrow> (bytes \<rightharpoonup> bytes)" where
  "spec_step (OpAppend h d (Inr _)) m = (if m h = None then m(h \<mapsto> d) else m)"
| "spec_step (OpBatch cs (Inr _)) m = map_of cs ++ m"
| "spec_step (OpCompact live (Inr True)) m = m |` set live"
| "spec_step _ m = m"

definition store_inv :: "game_store \<Rightarrow> bool" where
  "store_inv st \<longleftrightarrow> store_ok st \<and> gs_path st = None"

section \<open>Refinement\<close>

lemma append_chunk_path:
  "store_ok st \<Longrightarrow> append_chunk env h d st = (r, st') \<Longrightarrow> gs_path st' = gs_path st"
  by (erule append_chunk_cases) (auto simp: indexed_def)

lemma append_all_outcome:
  "store_ok st \<Longrightarrow> unat (gs_size st) + (\<Sum>c \<leftarrow> cs. length (snd c)) < 2 ^ 32 \<Longrightarrow>
   append_all env cs st = (Inr locs, st') \<Longrightarrow>
     store_ok st' \<and> gs_path st' = gs_path st \<and> abs_store st' = map_of cs ++ abs_store st"
proof (induction cs arbitrary: st locs)
  case Nil
  then show ?case by simp
next
  case (Cons c cs)
  obtain h d where c: "c = (h, d)" by (cases c)
  from Cons.prems c obtain loc st1 locs1 where
    one: "append_chunk env h d st = (Inr loc, st1)" and rest: "append_all env cs st1 = (Inr locs1, st')"
    by (auto split: prod.splits sum.splits)
  have room: "unat (gs_size st) + length d < 2 ^ 32" using Cons.prems(2) c by simp
  note o1 = append_chunk_outcome [OF Cons.prems(1) room one]
  have room1: "unat (gs_size st1) + (\<Sum>c \<leftarrow> cs. length (snd c)) < 2 ^ 32"
    using o1 Cons.prems(2) c by simp
  from Cons.IH [OF _ room1 rest] o1 append_chunk_path [OF Cons.prems(1) one] c show ?case
    by (auto simp: map_add_def fun_eq_iff split: option.splits)
qed

definition env_std :: pack_env where
  "env_std = \<lparr>pe_mkdir = True, pe_db = True, pe_open_pack = True, pe_read_txn = True, pe_write_txn = True,
     pe_rd = (\<lambda>n off. Some n), pe_wr = (\<lambda>n off. Some (Suc n)), pe_cx = compio_std,
     pe_rename = True, pe_reopen = True\<rparr>"

lemma env_std_live: "env_live env_std"
  by (simp add: env_live_def env_std_def os_live_def os_progress_def compio_std_ok compio_std_live)

lemma batch_step:
  assumes "store_inv st" "unat (gs_size st) + (\<Sum>c \<leftarrow> cs. length (snd c)) < 2 ^ 32"
    and "append_chunks_batch env cs st = (r, st')"
  shows "store_inv st' \<and> abs_store st' = spec_step (OpBatch cs r) (abs_store st)"
proof -
  have ok: "store_ok st" using assms(1) by (simp add: store_inv_def)
  note out = append_chunks_batch_outcome [OF ok assms(2,3)]
  show ?thesis
  proof (cases r)
    case (Inl e)
    with out assms(1) show ?thesis by (simp add: store_inv_def)
  next
    case (Inr locs)
    with out env_std_live have "append_all env_std cs st = (Inr locs, st')" by blast
    from append_all_outcome [OF ok assms(2) this] Inr assms(1) show ?thesis by (simp add: store_inv_def)
  qed
qed

lemma compact_step:
  assumes inv: "store_inv st" and small: "unat (gs_size st) < 2 ^ 32" and live: "distinct live"
    and cx: "compio_ok (pe_cx env)" and run: "store_compact rnd env live threshold avail st = (r, st')"
    and r: "r \<noteq> Inl ReopenFailed" "r \<noteq> Inl WriteTxnFailed"
  shows "store_inv st' \<and> abs_store st' = spec_step (OpCompact live r) (abs_store st)"
proof -
  have ok: "store_ok st" and path: "gs_path st = None" using inv by (simp_all add: store_inv_def)
  have "gs_path (compacted st live) = None" by (simp add: compacted_def switched_def)
  then show ?thesis
    using compact_cases [OF ok live path cx run] r inv compacted_ok [OF ok live small] compacted_abs [OF ok live small]
    by (auto simp: store_inv_def)
qed

lemma restart_step:
  assumes inv: "store_inv st" and len: "length (gs_pack st) < 2 ^ 64"
    and run: "store_open env (gs_game_id st) (store_disk st) = Inr st'"
  shows "store_inv st' \<and> abs_store st' = abs_store st"
proof -
  have ok: "store_ok st" and path: "gs_path st = None" using inv by (simp_all add: store_inv_def)
  have st': "st' = st\<lparr>gs_size := word_of_nat (length (gs_pack st))\<rparr>"
    using run path by (auto simp: store_open_def store_disk_def path_bytes_def Let_def split: if_splits)
  have n: "unat (word_of_nat (length (gs_pack st)) :: u64) = length (gs_pack st)"
    using len by (simp add: unat_of_nat)
  have "store_ok st'"
    unfolding st' using store_okD(2) [OF ok] n by (intro store_ok_grow ok) simp_all
  with path show ?thesis by (simp add: store_inv_def st')
qed

lemma store_step_refines:
  "store_step st op st' \<Longrightarrow> store_inv st \<Longrightarrow> store_inv st' \<and> abs_store st' = spec_step op (abs_store st)"
proof (induction rule: store_step.induct)
  case (append st d env h r st')
  then have ok: "store_ok st" by (simp add: store_inv_def)
  from append_chunk_outcome [OF ok append.hyps] append_chunk_path [OF ok append.hyps(2)] append.prems
  show ?case by (cases r) (auto simp: store_inv_def)
next
  case (batch st cs env r st')
  then show ?case by (intro batch_step)
next
  case (compaction st live env rnd threshold avail r st')
  then show ?case by (intro compact_step)
next
  case (restart st env st')
  then show ?case using restart_step by simp
qed

lemma store_runs_refine:
  "store_runs st ops st' \<Longrightarrow> store_inv st \<Longrightarrow> store_inv st' \<and> abs_store st' = fold spec_step ops (abs_store st)"
  by (induction rule: store_runs.induct) (auto dest: store_step_refines)

definition empty_disk :: game_disk where
  "empty_disk = \<lparr>gd_index = None, gd_pack = None\<rparr>"

lemma store_open_empty:
  "store_open env g empty_disk = Inr st \<Longrightarrow> store_inv st \<and> abs_store st = Map.empty"
  by (auto simp: store_open_def empty_disk_def store_inv_def store_ok_def tbl_ok_simps used_bytes_def
      abs_store_def fun_eq_iff Let_def split: if_splits)


definition demo_hash :: "u8 \<Rightarrow> bytes" where "demo_hash b = replicate 32 b"

definition demo_store :: "u64 \<Rightarrow> game_store" where
  "demo_store g = \<lparr>gs_game_id = g, gs_index = [], gs_pack = [], gs_path = None, gs_size = 0\<rparr>"

lemma demo_open: "store_open env_std g empty_disk = Inr (demo_store g)"
  by (simp add: store_open_def env_std_def empty_disk_def demo_store_def)


text \<open>
  C10. A batch is the sequence of its appends: when nothing fails, \<open>append_chunks_batch\<close>
  with its single scan, write pass and index transaction returns the same locations and
  leaves the same store, byte for byte, as appending the chunks one after the other,
  duplicates inside the batch and of the store included; and however the environment
  behaves, a batch that reports success has had exactly that effect.
\<close>

theorem batch_equals_sequence:
  assumes "store_ok st" and "unat (gs_size st) + (\<Sum>c \<leftarrow> cs. length (snd c)) < 2 ^ 32" and "env_live env"
  shows "append_chunks_batch env cs st = append_all env cs st \<and>
    (\<exists>locs st'. append_chunks_batch env cs st = (Inr locs, st') \<and> length locs = length cs) \<and>
    (\<forall>env' locs st'. append_chunks_batch env' cs st = (Inr locs, st') \<longrightarrow> append_all env cs st = (Inr locs, st'))"
proof -
  from batch_rel_all [OF assms(3,1,2)] obtain out locs st' where
    "batch_rel env st (batch_scan_all st cs) out locs st'" and seq: "append_all env cs st = (Inr locs, st')"
    and len: "length locs = length cs" by blast
  then have "append_chunks_batch env cs st = (Inr locs, st')"
    using append_chunks_batch_rel [OF assms(3)] by blast
  with seq len append_chunks_batch_outcome [OF assms(1,2)] assms(3) show ?thesis by metis
qed

theorem batch_equals_sequence_witness:
  "append_chunks_batch env_std [(demo_hash 1, [7]), (demo_hash 2, [8, 9]), (demo_hash 1, [7])] (demo_store 5) =
   append_all env_std [(demo_hash 1, [7]), (demo_hash 2, [8, 9]), (demo_hash 1, [7])] (demo_store 5)"
proof -
  have "store_ok (demo_store 5)" using store_open_empty [OF demo_open] by (simp add: store_inv_def)
  moreover have "unat (gs_size (demo_store 5)) + (\<Sum>c \<leftarrow> [(demo_hash 1, [7]), (demo_hash 2, [8, 9]), (demo_hash 1, [7])].
      length (snd c)) < 2 ^ 32" by (simp add: demo_store_def)
  ultimately show ?thesis using batch_equals_sequence [OF _ _ env_std_live] by blast
qed



text \<open>
  C30. The index keeps the low 32 bits of an offset only. A chunk appended to a pack of
  \<open>2 ^ 32\<close> bytes or more is acknowledged with its real offset, but the location stored for
  it, which every later read uses, is that offset modulo \<open>2 ^ 32\<close>: the read returns the bytes
  found there, whatever they are, and no error.
\<close>

theorem offset_truncated:
  assumes "store_ok st" and "env_live env" and "abs_store st h = None" and "length data < 2 ^ 32"
    and "length (gs_pack st) = unat (gs_size st)"
    and "append_chunk env h data st = (r, st')"
  shows "r = Inr (gs_size st, word_of_nat (length data)) \<and>
    store_read_chunk env st' h =
      (let off = unat (gs_size st) mod 2 ^ 32 in
       Inr (Some (take (length data) (drop off (gs_pack st @ data)))))"
proof -
  have new: "tbl_get (gs_index st) (key (gs_game_id st) h) = None"
    using assms(3) by (simp add: abs_store_def)
  let ?len = "word_of_nat (length data) :: u32"
  have run: "r = Inr (gs_size st, ?len)" "st' = indexed st h data"
    using append_chunk_live [OF assms(2,1), of h data] new assms(6) by simp_all
  have up: "unpack (pack (gs_size st) ?len) = (take_bit 32 (gs_size st), ?len)" by (rule unpack_pack_gen)
  have off: "unat (take_bit 32 (gs_size st)) = unat (gs_size st) mod 2 ^ 32"
    by (subst unsigned_take_bit_eq) (rule take_bit_eq_mod)
  have len: "unat ?len = length data" using assms(4) by (simp add: unat_of_nat)
  have p: "gs_pack st' = gs_pack st @ data"
    using run assms(5) pwrite_at_end [of "gs_pack st" data] by (simp add: indexed_def)
  have fits: "unat (gs_size st) mod 2 ^ 32 + length data \<le> length (gs_pack st @ data)"
    using assms(5) mod_less_eq_dividend [of "unat (gs_size st)" "2 ^ 32"] by simp
  have "tbl_get (gs_index st') (key (gs_game_id st') h) = Some (pack (gs_size st) ?len)"
    using run store_okD(1) [OF assms(1)] by (simp add: indexed_def tbl_simps)
  with up off len p fits env_live_read [OF assms(2)] run(1) show ?thesis
    by (simp add: store_read_chunk_def read_exact_at_live Let_def)
qed

definition zero_store :: "nat \<Rightarrow> game_store" where
  "zero_store n = \<lparr>gs_game_id = 5, gs_index = [], gs_pack = replicate n 0, gs_path = None, gs_size = word_of_nat n\<rparr>"

lemma zero_store_ok:
  "n < 2 ^ 64 \<Longrightarrow> store_ok (zero_store n) \<and> abs_store (zero_store n) h = None \<and>
     length (gs_pack (zero_store n)) = unat (gs_size (zero_store n))"
  by (simp add: zero_store_def store_ok_def tbl_ok_simps used_bytes_def abs_store_def unat_of_nat)

theorem offset_truncated_witness:
  "store_read_chunk env_std (snd (append_chunk env_std (demo_hash 1) [7] (zero_store (2 ^ 32)))) (demo_hash 1) =
     Inr (Some [0])"
proof -
  define n where "n = (2 :: nat) ^ 32"
  have n: "n < 2 ^ 64" "n mod 2 ^ 32 = 0" "0 < n" by (simp_all add: n_def)
  obtain r st' where run: "append_chunk env_std (demo_hash 1) [7] (zero_store n) = (r, st')" by fastforce
  have size: "unat (gs_size (zero_store n)) = n" using n(1) by (simp add: zero_store_def unat_of_nat)
  have pack: "gs_pack (zero_store n) = 0 # replicate (n - 1) 0"
    using n(3) by (simp add: zero_store_def replicate_Suc [symmetric] del: replicate_Suc)
  have "store_read_chunk env_std st' (demo_hash 1) = Inr (Some [0])"
    using offset_truncated [of "zero_store n" env_std "demo_hash 1" "[7]", OF _ env_std_live _ _ _ run]
      zero_store_ok [OF n(1)] size n(2) pack by (simp add: Let_def)
  with run show ?thesis by (simp add: n_def)
qed

text \<open>A store that holds two chunks of the same length and nothing else.\<close>

lemma two_chunks:
  assumes h: "h1 \<noteq> h2" and d: "length d1 = length d2" "d1 \<noteq> []" "length d1 + length d2 < 2 ^ 32"
    and st: "st = indexed (indexed (demo_store g) h1 d1) h2 d2"
  shows "store_ok st" "gs_path st = None" "abs_store st h1 = Some d1"
    "unat (gs_size st) = length d1 + length d2" "packed st [h2] = d2"
    "live_bytes (live_locs st [h2]) = word_of_nat (length d2)"
    "\<exists>v. tbl_get (gs_index st) (key (gs_game_id st) h1) = Some v \<and> unpack v = (0, word_of_nat (length d2))"
proof -
  let ?s0 = "demo_store g" and ?n = "word_of_nat (length d1) :: u32"
  let ?s1 = "indexed ?s0 h1 d1"
  have ok0: "store_ok ?s0" using store_open_empty [OF demo_open] by (simp add: store_inv_def)
  have s0: "gs_size ?s0 = 0" "gs_index ?s0 = []" "gs_game_id ?s0 = g" "gs_path ?s0 = None" "gs_pack ?s0 = []"
    by (simp_all add: demo_store_def)
  have s1: "gs_size ?s1 = word_of_nat (length d1)" "gs_game_id ?s1 = g" "gs_path ?s1 = None"
    "gs_index ?s1 = [(key g h1, pack 0 ?n)]"
    using s0 by (simp_all add: indexed_def tbl_insert_simps)
  have ok1: "store_ok ?s1" using indexed_ok(1) [OF ok0] s0 d by simp
  have u1: "unat (word_of_nat (length d1) :: u64) = length d1" using d by (simp add: unat_of_nat)
  have new: "tbl_get (gs_index ?s1) (key (gs_game_id ?s1) h2) = None" using s1 h by (simp add: tbl_get_def)
  have room: "unat (gs_size ?s1) + length d2 < 2 ^ 32" using s1 u1 d by simp
  note ok = indexed_ok [OF ok1 room new, folded st]
  have get: "tbl_get (gs_index st) (key g h1) = Some (pack 0 ?n)" "tbl_get (gs_index st) (key g h2) = Some (pack (word_of_nat (length d1)) ?n)"
  proof -
    have "gs_index st = tbl_insert (key g h2) (pack (word_of_nat (length d1)) ?n) (gs_index ?s1)"
      using s1 d(1) by (simp add: st indexed_def [of ?s1])
    moreover have "tbl_get (gs_index ?s1) (key g h1) = Some (pack 0 ?n)" using s1 by (simp add: tbl_get_def)
    ultimately show "tbl_get (gs_index st) (key g h1) = Some (pack 0 ?n)"
      "tbl_get (gs_index st) (key g h2) = Some (pack (word_of_nat (length d1)) ?n)"
      using h store_okD(1) [OF ok1] by (simp_all add: tbl_laws(1))
  qed
  have f: "gs_game_id st = g" "gs_path st = None" "gs_size st = word_of_nat (length d1) + word_of_nat (length d2)"
    using s1 by (simp_all add: st indexed_def)
  have up: "unpack (pack 0 ?n) = (0, ?n)" "unpack (pack (word_of_nat (length d1)) ?n) = (word_of_nat (length d1), ?n)"
    using d u1 by (simp_all add: unpack_pack)
  have locs: "live_locs st [h2] = [(h2, word_of_nat (length d1), ?n)]"
    using get up f by (simp add: live_locs_def live_scan_eq)
  have lb: "live_bytes (live_locs st [h2]) = word_of_nat (length d2)"
    using d by (simp add: locs live_bytes_eq locs_bytes_def unat_of_nat)
  have sz: "unat (gs_size st) = length d1 + length d2"
    using d f by (simp add: unat_word_ariths unat_of_nat)
  have pk: "packed st [h2] = d2" using ok(3) s1 d(1) by (simp add: packed_def locs)
  show "abs_store st h1 = Some d1"
    using ok(2) indexed_ok(2) [OF ok0, of d1 h1] s0 d h by simp
  show "store_ok st" "gs_path st = None" "unat (gs_size st) = length d1 + length d2" "packed st [h2] = d2"
    "live_bytes (live_locs st [h2]) = word_of_nat (length d2)"
    by (fact ok(1) f(2) sz pk lb)+
  show "\<exists>v. tbl_get (gs_index st) (key (gs_game_id st) h1) = Some v \<and> unpack v = (0, word_of_nat (length d2))"
    using get(1) up(1) f(1) d(1) by simp
qed

text \<open>
  C31. Compaction replaces the pack before it updates the index. If the index transaction
  fails after the rename, the old index describes the new file: with two chunks of equal
  length of which only the second is live, reading the first hash then returns the second
  chunk's data as if it were its own.
\<close>

theorem compact_commit_failure_misreads:
  assumes h: "h1 \<noteq> h2" and d: "length d1 = length d2" "d1 \<noteq> []" "length d1 + length d2 < 2 ^ 32"
    and st: "st = indexed (indexed (demo_store g) h1 d1) h2 d2"
    and env: "env = env_std\<lparr>pe_write_txn := False\<rparr>"
    and run: "store_compact (\<lambda>x. x) env [h2] (1 / 2) (word_of_nat (length d2)) st = (r, st')"
  shows "store_read_chunk env st h1 = Inr (Some d1) \<and> r = Inl WriteTxnFailed \<and>
    store_read_chunk env st' h1 = Inr (Some d2)"
proof -
  note tc = two_chunks [OF h d st]
  have "gs_size st \<noteq> 0" using tc(4) d(2) by (metis add_is_0 length_0_conv unat_0)
  moreover have u2: "unat (word_of_nat (length d2) :: u64) = length d2" using d by (simp add: unat_of_nat)
  have "real (unat (word_of_nat (length d2) :: u64)) / real (unat (gs_size st)) = 1 / 2"
    unfolding u2 tc(4) using d(1,2) by (auto simp: field_simps)
  moreover have "env_live (env\<lparr>pe_write_txn := True\<rparr>)" using env_std_live by (simp add: env env_live_def)
  then have "store_compact (\<lambda>x. x) env [h2] (1 / 2) (word_of_nat (length d2)) st =
    (let lb = live_bytes (live_locs st [h2]) in
     if gs_size st = 0 \<or> 1 - real (unat lb) / real (unat (gs_size st)) < 1 / 2 \<or> word_of_nat (length d2) < lb
     then (Inr False, st)
     else if pe_write_txn env then (Inr True, compacted st [h2]) else (Inl WriteTxnFailed, switched st [h2]))"
    by (intro compact_live_run [OF tc(1) _ tc(2)]) simp_all
  ultimately have r: "r = Inl WriteTxnFailed" "st' = switched st [h2]"
    unfolding Let_def tc(6) using run by (simp_all add: env)
  have live: "pe_read_txn env" "os_live (pe_rd env)" using env_live_read [OF env_std_live] by (simp_all add: env)
  have "store_read_chunk env st' h1 = Inr (Some d2)"
    using live tc(5,7) u2 d(3) unfolding r
    by (auto simp: store_read_chunk_def switched_def read_exact_at_live unat_of_nat)
  then show ?thesis using r tc(3) read_refines [OF tc(1) live] by simp
qed

theorem compact_commit_failure_misreads_witness:
  "store_read_chunk (env_std\<lparr>pe_write_txn := False\<rparr>)
     (snd (store_compact (\<lambda>x. x) (env_std\<lparr>pe_write_txn := False\<rparr>) [demo_hash 2] (1 / 2) 1
       (indexed (indexed (demo_store 5) (demo_hash 1) [7]) (demo_hash 2) [8]))) (demo_hash 1) = Inr (Some [8])"
proof -
  have "demo_hash 1 \<noteq> demo_hash 2" by (simp add: demo_hash_def)
  moreover obtain r st' where "store_compact (\<lambda>x. x) (env_std\<lparr>pe_write_txn := False\<rparr>) [demo_hash 2] (1 / 2) 1
       (indexed (indexed (demo_store 5) (demo_hash 1) [7]) (demo_hash 2) [8]) = (r, st')" by fastforce
  ultimately show ?thesis
    using compact_commit_failure_misreads [of "demo_hash 1" "demo_hash 2" "[7]" "[8]" _ 5 _ r st'] by simp
qed

end
