(* ===== verification/Upload_Service.thy ===== *)
theory Upload_Service
  imports Manifest Pack_Runs
begin

text \<open>
  The upload service of an origin node (\<^verbatim>\<open>crates/origin/src/server.rs\<close>): the query for chunks
  already present, the upload stream, and the commit of a version, which checks that every
  chunk of the manifest is stored before it publishes the manifest on disk and at the
  scheduler.

  The service state maps each game to its open block library; a game not yet open is opened
  from its directory. A stream is the list of its items. The blake3 function and the
  scheduler's \<open>publish_version\<close> call are parameters; \<open>envs i\<close> is the environment of the
  \<open>i\<close>-th call into the block library.
\<close>

section \<open>Data\<close>

record upload_service =
  us_disk :: "u64 \<Rightarrow> game_disk"
  us_stores :: "u64 \<rightharpoonup> game_store"
  us_published :: "u64 \<times> u64 \<rightharpoonup> bytes"
  us_scheduler_addr :: "string option"

record upload_chunk =
  uc_game_id :: u64
  uc_chunk_hash :: bytes
  uc_data :: bytes

datatype ack_error = NoAckError | AckHashMismatch | AckAppendFailed store_error

record upload_ack =
  ua_chunk_hash :: bytes
  ua_ok :: bool
  ua_error :: ack_error

datatype publish_error = ConnectFailed | PublishCallFailed | PublishRejected string

datatype upload_status =
    GameIdZero | GameOrVersionZero | ManifestTooShort | BadHashLen | BadManifestHashLen
  | ManifestHashMismatch | DecodeManifestFailed manifest_error | OpenStoreFailed store_error
  | QueryChunkFailed store_error | CreatePublishDirFailed | WriteManifestFailed | StreamFailed

datatype commit_error = NoCommitError | ChunksMissing "bytes list" | PublishFailed publish_error

record commit_request =
  cr_game_id :: u64
  cr_version :: u64
  cr_manifest :: bytes
  cr_manifest_hash :: bytes

record commit_reply =
  cp_published :: bool
  cp_error :: commit_error

section \<open>Operations\<close>

definition with_stores :: "(u64 \<Rightarrow> game_disk) \<Rightarrow> (u64 \<rightharpoonup> game_store) \<Rightarrow> upload_service" where
  "with_stores disk stores =
     \<lparr>us_disk = disk, us_stores = stores, us_published = Map.empty, us_scheduler_addr = None\<rparr>"

definition with_scheduler :: "string option \<Rightarrow> upload_service \<Rightarrow> upload_service" where
  "with_scheduler addr sv = sv\<lparr>us_scheduler_addr := addr\<rparr>"

text \<open>\<open>stores.entry(game_id)\<close>: the open store, or the one opened from disk and inserted.\<close>

definition store_entry :: "pack_env \<Rightarrow> u64 \<Rightarrow> upload_service \<Rightarrow> upload_status + game_store \<times> upload_service" where
  "store_entry env game_id sv =
     (case us_stores sv game_id of
        Some store \<Rightarrow> Inr (store, sv)
      | None \<Rightarrow>
          (case store_open env game_id (us_disk sv game_id) of
             Inl e \<Rightarrow> Inl (OpenStoreFailed e)
           | Inr store \<Rightarrow> Inr (store, sv\<lparr>us_stores := (us_stores sv)(game_id \<mapsto> store)\<rparr>)))"

definition put_store :: "u64 \<Rightarrow> game_store \<Rightarrow> upload_service \<Rightarrow> upload_service" where
  "put_store game_id store sv = sv\<lparr>us_stores := (us_stores sv)(game_id \<mapsto> store)\<rparr>"

text \<open>\<open>slice.try_into::<[u8; 32]>()\<close>.\<close>

definition to_hash :: "bytes \<Rightarrow> bytes option" where
  "to_hash bs = (if length bs = HASH_LEN then Some bs else None)"

definition append_ack :: "store_error + u64 \<times> u32 \<Rightarrow> bytes \<Rightarrow> upload_ack" where
  "append_ack result hash =
     (case result of
        Inr _ \<Rightarrow> \<lparr>ua_chunk_hash = hash, ua_ok = True, ua_error = NoAckError\<rparr>
      | Inl err \<Rightarrow> \<lparr>ua_chunk_hash = hash, ua_ok = False, ua_error = AckAppendFailed err\<rparr>)"

text \<open>The loop of \<open>process_upload\<close> over the remaining stream items.\<close>

fun upload_loop ::
    "(bytes \<Rightarrow> bytes) \<Rightarrow> (nat \<Rightarrow> pack_env) \<Rightarrow> (upload_status + upload_chunk) list \<Rightarrow> game_store \<Rightarrow>
     (upload_status + unit) \<times> upload_ack list \<times> game_store" where
  "upload_loop blake3 envs [] store = (Inr (), [], store)"
| "upload_loop blake3 envs (Inl err # items) store = (Inl err, [], store)"
| "upload_loop blake3 envs (Inr chunk # items) store =
     (case to_hash (uc_chunk_hash chunk) of
        None \<Rightarrow> (Inl BadHashLen, [], store)
      | Some hash \<Rightarrow>
          let actual = blake3 (uc_data chunk);
              (ack, store1) =
                (if actual \<noteq> hash then (\<lparr>ua_chunk_hash = hash, ua_ok = False, ua_error = AckHashMismatch\<rparr>, store)
                 else case append_chunk (envs 0) hash (uc_data chunk) store of
                   (result, store1) \<Rightarrow> (append_ack result hash, store1));
              (r, acks, store2) = upload_loop blake3 (\<lambda>i. envs (Suc i)) items store1
          in (r, ack # acks, store2))"

text \<open>
  \<open>process_upload\<close>: what the stream sends back (an error status or acknowledgements), the
  result of the task, and the new service state.
\<close>

definition process_upload ::
    "(bytes \<Rightarrow> bytes) \<Rightarrow> (nat \<Rightarrow> pack_env) \<Rightarrow> (upload_status + upload_chunk) list \<Rightarrow> upload_service \<Rightarrow>
     (upload_status + unit) \<times> (upload_status + upload_ack) list \<times> upload_service" where
  "process_upload blake3 envs stream sv =
     (case stream of
        [] \<Rightarrow> (Inr (), [], sv)
      | Inl err # _ \<Rightarrow> (Inl err, [], sv)
      | Inr first # _ \<Rightarrow>
          if uc_game_id first = 0 then (Inr (), [Inl GameIdZero], sv)
          else
            (case store_entry (envs 0) (uc_game_id first) sv of
               Inl e \<Rightarrow> (Inl e, [], sv)
             | Inr (store, sv1) \<Rightarrow>
                 (case upload_loop blake3 (\<lambda>i. envs (Suc i)) stream store of
                    (r, acks, store') \<Rightarrow> (r, map Inr acks, put_store (uc_game_id first) store' sv1))))"

fun query_loop :: "(nat \<Rightarrow> pack_env) \<Rightarrow> game_store \<Rightarrow> bytes list \<Rightarrow> upload_status + bytes list" where
  "query_loop envs store [] = Inr []"
| "query_loop envs store (h # hs) =
     (case to_hash h of
        None \<Rightarrow> Inl BadHashLen
      | Some hash \<Rightarrow>
          (case store_contains (envs 0) store hash of
             Inl e \<Rightarrow> Inl (QueryChunkFailed e)
           | Inr found \<Rightarrow>
               res_bind (query_loop (\<lambda>i. envs (Suc i)) store hs)
                 (\<lambda>existing. Inr (if found then hash # existing else existing))))"

definition query_existing_chunks ::
    "(nat \<Rightarrow> pack_env) \<Rightarrow> u64 \<Rightarrow> bytes list \<Rightarrow> upload_service \<Rightarrow> (upload_status + bytes list) \<times> upload_service" where
  "query_existing_chunks envs game_id hashes sv =
     (if game_id = 0 then (Inl GameIdZero, sv)
      else case store_entry (envs 0) game_id sv of
        Inl e \<Rightarrow> (Inl e, sv)
      | Inr (store, sv1) \<Rightarrow> (query_loop (\<lambda>i. envs (Suc i)) store hashes, sv1))"

text \<open>The scan of the manifest's chunks stops at the fifth missing one.\<close>

fun missing_loop ::
    "(nat \<Rightarrow> pack_env) \<Rightarrow> game_store \<Rightarrow> bytes list \<Rightarrow> bytes list \<Rightarrow> upload_status + bytes list" where
  "missing_loop envs store [] missing = Inr missing"
| "missing_loop envs store (hash # hs) missing =
     (case store_contains (envs 0) store hash of
        Inl e \<Rightarrow> Inl (QueryChunkFailed e)
      | Inr found \<Rightarrow>
          if \<not> found then
            (if 5 \<le> length (missing @ [hash]) then Inr (missing @ [hash])
             else missing_loop (\<lambda>i. envs (Suc i)) store hs (missing @ [hash]))
          else missing_loop (\<lambda>i. envs (Suc i)) store hs missing)"

text \<open>\<open>connect_control\<close>: thirty attempts; \<open>attempt i\<close> says whether the \<open>i\<close>-th succeeds.\<close>

definition connect_control :: "(nat \<Rightarrow> bool) \<Rightarrow> publish_error + unit" where
  "connect_control attempt = (if list_ex attempt [0 ..< 30] then Inr () else Inl ConnectFailed)"

definition ensure_publish_ok :: "bool \<Rightarrow> string \<Rightarrow> publish_error + unit" where
  "ensure_publish_ok ok error = (if \<not> ok then Inl (PublishRejected error) else Inr ())"

text \<open>The scheduler is a state \<open>'s\<close> with its \<open>publish_version\<close> handler; the call may fail.\<close>

record 's sched_link =
  sl_attempt :: "nat \<Rightarrow> bool"
  sl_publish :: "u64 \<Rightarrow> u64 \<Rightarrow> bytes \<Rightarrow> 's \<Rightarrow> (unit + bool \<times> string) \<times> 's"

definition publish_to_scheduler ::
    "'s sched_link \<Rightarrow> u64 \<Rightarrow> u64 \<Rightarrow> bytes \<Rightarrow> 's \<Rightarrow> (publish_error + unit) \<times> 's" where
  "publish_to_scheduler link game_id version manifest sched =
     (case connect_control (sl_attempt link) of
        Inl e \<Rightarrow> (Inl e, sched)
      | Inr _ \<Rightarrow>
          (case sl_publish link game_id version manifest sched of
             (Inl _, sched') \<Rightarrow> (Inl PublishCallFailed, sched')
           | (Inr (ok, error), sched') \<Rightarrow> (ensure_publish_ok ok error, sched')))"

record commit_env =
  ce_mkdir :: bool
  ce_write :: "nat option"

text \<open>
  \<open>commit_version\<close>. \<open>order\<close> lists the chunk set in the iteration order of the hash set. The
  environment says whether the directory is created and whether the write fails, then after
  how many bytes.
\<close>

definition write_manifest_file :: "nat option \<Rightarrow> bytes \<Rightarrow> bytes" where
  "write_manifest_file fault manifest = (case fault of None \<Rightarrow> manifest | Some k \<Rightarrow> take k manifest)"

definition publish_step ::
    "'s sched_link \<Rightarrow> commit_env \<Rightarrow> commit_request \<Rightarrow> upload_service \<Rightarrow> 's \<Rightarrow>
     (upload_status + commit_reply) \<times> upload_service \<times> 's" where
  "publish_step link ce commit sv sched =
     (if \<not> ce_mkdir ce then (Inl CreatePublishDirFailed, sv, sched)
      else
        let sv1 = sv\<lparr>us_published := (us_published sv)
                       ((cr_game_id commit, cr_version commit) \<mapsto> write_manifest_file (ce_write ce) (cr_manifest commit))\<rparr>
        in if ce_write ce \<noteq> None then (Inl WriteManifestFailed, sv1, sched)
           else case us_scheduler_addr sv1 of
             None \<Rightarrow> (Inr \<lparr>cp_published = True, cp_error = NoCommitError\<rparr>, sv1, sched)
           | Some _ \<Rightarrow>
               (case publish_to_scheduler link (cr_game_id commit) (cr_version commit) (cr_manifest commit) sched of
                  (Inl err, sched') \<Rightarrow> (Inr \<lparr>cp_published = False, cp_error = PublishFailed err\<rparr>, sv1, sched')
                | (Inr _, sched') \<Rightarrow> (Inr \<lparr>cp_published = True, cp_error = NoCommitError\<rparr>, sv1, sched')))"

definition commit_version ::
    "(bytes \<Rightarrow> bytes) \<Rightarrow> (bytes list \<Rightarrow> bytes list) \<Rightarrow> 's sched_link \<Rightarrow> (nat \<Rightarrow> pack_env) \<Rightarrow> commit_env \<Rightarrow>
     commit_request \<Rightarrow> upload_service \<Rightarrow> 's \<Rightarrow> (upload_status + commit_reply) \<times> upload_service \<times> 's" where
  "commit_version blake3 order link envs ce commit sv sched =
     (if cr_game_id commit = 0 \<or> cr_version commit = 0 then (Inl GameOrVersionZero, sv, sched)
      else if length (cr_manifest commit) < 32 then (Inl ManifestTooShort, sv, sched)
      else
        let body = take (length (cr_manifest commit) - 32) (cr_manifest commit);
            actual_hash = blake3 body
        in case to_hash (cr_manifest_hash commit) of
          None \<Rightarrow> (Inl BadManifestHashLen, sv, sched)
        | Some expected_hash \<Rightarrow>
            if actual_hash \<noteq> expected_hash then (Inl ManifestHashMismatch, sv, sched)
            else case decode blake3 (cr_manifest commit) of
              Inl e \<Rightarrow> (Inl (DecodeManifestFailed e), sv, sched)
            | Inr index \<Rightarrow>
                (case store_entry (envs 0) (cr_game_id commit) sv of
                   Inl e \<Rightarrow> (Inl e, sv, sched)
                 | Inr (store, sv1) \<Rightarrow>
                     (case missing_loop (\<lambda>i. envs (Suc i)) store (order (remdups (chunk_hashes index))) [] of
                        Inl e \<Rightarrow> (Inl e, sv1, sched)
                      | Inr missing \<Rightarrow>
                          if missing \<noteq> []
                          then (Inr \<lparr>cp_published = False, cp_error = ChunksMissing missing\<rparr>, sv1, sched)
                          else publish_step link ce commit sv1 sched)))"

section \<open>Invariant\<close>

text \<open>Every stored chunk is the data its hash names.\<close>

definition verified :: "(bytes \<Rightarrow> bytes) \<Rightarrow> game_store \<Rightarrow> bool" where
  "verified blake3 st \<longleftrightarrow> (\<forall>h d. abs_store st h = Some d \<longrightarrow> blake3 d = h)"

definition store_good :: "(bytes \<Rightarrow> bytes) \<Rightarrow> u64 \<Rightarrow> game_store \<Rightarrow> bool" where
  "store_good blake3 g st \<longleftrightarrow> store_ok st \<and> gs_game_id st = g \<and> verified blake3 st"

definition svc_ok :: "(bytes \<Rightarrow> bytes) \<Rightarrow> upload_service \<Rightarrow> bool" where
  "svc_ok blake3 sv \<longleftrightarrow>
     (\<forall>g st. us_stores sv g = Some st \<longrightarrow> store_good blake3 g st) \<and>
     (\<forall>g env st. store_open env g (us_disk sv g) = Inr st \<longrightarrow> store_good blake3 g st)"

lemma store_entry_good:
  assumes "svc_ok blake3 sv" "store_entry env g sv = Inr (store, sv1)"
  shows "store_good blake3 g store \<and> svc_ok blake3 sv1 \<and> us_stores sv1 g = Some store \<and>
    us_disk sv1 = us_disk sv \<and> us_published sv1 = us_published sv \<and> us_scheduler_addr sv1 = us_scheduler_addr sv \<and>
    (\<forall>g'. g' \<noteq> g \<longrightarrow> us_stores sv1 g' = us_stores sv g')"
  using assms by (auto simp: store_entry_def svc_ok_def split: option.splits sum.splits if_splits)

lemma put_store_good: "svc_ok blake3 sv \<Longrightarrow> store_good blake3 g st \<Longrightarrow> svc_ok blake3 (put_store g st sv)"
  by (auto simp: svc_ok_def put_store_def)

lemma store_contains_abs:
  "store_contains env st h = (if pe_read_txn env then Inr (abs_store st h \<noteq> None) else Inl ReadTxnFailed)"
  by (auto simp: store_contains_def abs_store_def)

lemma append_chunk_game: "store_ok st \<Longrightarrow> append_chunk env h d st = (r, st') \<Longrightarrow> gs_game_id st' = gs_game_id st"
  by (erule append_chunk_cases) (auto simp: indexed_def)

text \<open>One verified append: it keeps the store good, keeps what was there, and has the data if acknowledged.\<close>

lemma append_good:
  assumes good: "store_good blake3 g st" and h: "blake3 d = h"
    and room: "unat (gs_size st) + length d < 2 ^ 32" and run: "append_chunk env h d st = (r, st')"
  shows "store_good blake3 g st'" "abs_store st \<subseteq>\<^sub>m abs_store st'"
    "unat (gs_size st') \<le> unat (gs_size st) + length d"
    "ua_ok (append_ack r h) \<Longrightarrow> abs_store st' h \<noteq> None"
proof -
  have ok: "store_ok st" using good by (simp add: store_good_def)
  note out = append_chunk_outcome [OF ok room run]
  have abs: "abs_store st' = (if abs_store st h = None \<and> (\<exists>loc. r = Inr loc)
      then (abs_store st)(h \<mapsto> d) else abs_store st)" using out by blast
  have "verified blake3 st'"
    using good h unfolding verified_def abs by (auto simp: store_good_def verified_def)
  then show "store_good blake3 g st'"
    using out append_chunk_game [OF ok run] good by (simp add: store_good_def)
  show "abs_store st \<subseteq>\<^sub>m abs_store st'" unfolding abs by (auto simp: map_le_def)
  show "unat (gs_size st') \<le> unat (gs_size st) + length d" using out by blast
  show "ua_ok (append_ack r h) \<Longrightarrow> abs_store st' h \<noteq> None"
    using out by (cases r) (auto simp: append_ack_def)
qed

definition stream_bytes :: "(upload_status + upload_chunk) list \<Rightarrow> nat" where
  "stream_bytes items = (\<Sum>x \<leftarrow> items. case x of Inl _ \<Rightarrow> 0 | Inr c \<Rightarrow> length (uc_data c))"

text \<open>The acknowledgements answer the first items of the stream, in order.\<close>

definition acks_match :: "upload_ack list \<Rightarrow> (upload_status + upload_chunk) list \<Rightarrow> bool" where
  "acks_match acks items \<longleftrightarrow> length acks \<le> length items \<and>
     list_all2 (\<lambda>ack item. \<exists>c. item = Inr c \<and> ua_chunk_hash ack = uc_chunk_hash c) acks (take (length acks) items)"

lemma upload_loop_good:
  "upload_loop blake3 envs items st = (r, acks, st') \<Longrightarrow> store_good blake3 g st \<Longrightarrow>
   unat (gs_size st) + stream_bytes items < 2 ^ 32 \<Longrightarrow>
     store_good blake3 g st' \<and> abs_store st \<subseteq>\<^sub>m abs_store st' \<and>
     (\<forall>ack \<in> set acks. ua_ok ack \<longrightarrow> abs_store st' (ua_chunk_hash ack) \<noteq> None) \<and>
     acks_match acks items \<and> (r = Inr () \<longrightarrow> length acks = length items)"
proof (induction blake3 envs items st arbitrary: r acks rule: upload_loop.induct)
  case (1 blake3 envs store)
  then show ?case by (auto simp: acks_match_def map_le_def)
next
  case (2 blake3 envs err items store)
  then show ?case by (auto simp: acks_match_def map_le_def)
next
  case (3 blake3 envs chunk items st)
  show ?case
  proof (cases "to_hash (uc_chunk_hash chunk)")
    case None
    with "3.prems" show ?thesis by (auto simp: acks_match_def map_le_def)
  next
    case (Some hash)
    then have hash: "hash = uc_chunk_hash chunk" by (auto simp: to_hash_def split: if_splits)
    define p where "p = (if blake3 (uc_data chunk) \<noteq> hash
      then (\<lparr>ua_chunk_hash = hash, ua_ok = False, ua_error = AckHashMismatch\<rparr>, st)
      else case append_chunk (envs 0) hash (uc_data chunk) st of (result, st1) \<Rightarrow> (append_ack result hash, st1))"
    obtain ack st1 where p: "p = (ack, st1)" by (cases p)
    obtain acks1 where rest: "upload_loop blake3 (\<lambda>i. envs (Suc i)) items st1 = (r, acks1, st')"
      and acks: "acks = ack # acks1"
      using "3.prems"(1) Some p unfolding p_def by (auto simp: Let_def split: prod.splits)
    have room: "unat (gs_size st) + length (uc_data chunk) < 2 ^ 32"
      using "3.prems"(3) by (simp add: stream_bytes_def)
    have one: "store_good blake3 g st1 \<and> abs_store st \<subseteq>\<^sub>m abs_store st1 \<and> ua_chunk_hash ack = hash \<and>
        unat (gs_size st1) \<le> unat (gs_size st) + length (uc_data chunk) \<and>
        (ua_ok ack \<longrightarrow> abs_store st1 hash \<noteq> None)"
    proof (cases "blake3 (uc_data chunk) = hash")
      case True
      obtain result st2 where a: "append_chunk (envs 0) hash (uc_data chunk) st = (result, st2)" by fastforce
      with p True have "ack = append_ack result hash" "st1 = st2" by (simp_all add: p_def)
      with append_good [OF "3.prems"(2) True room a] show ?thesis
        by (auto simp: append_ack_def split: sum.splits)
    next
      case False
      with p "3.prems"(2) show ?thesis by (auto simp: p_def map_le_def)
    qed
    have room1: "unat (gs_size st1) + stream_bytes items < 2 ^ 32"
      using one "3.prems"(3) by (simp add: stream_bytes_def)
    note IH = "3.IH" [OF Some refl _ _ rest _ room1]
    have IH': "store_good blake3 g st' \<and> abs_store st1 \<subseteq>\<^sub>m abs_store st' \<and>
        (\<forall>ack \<in> set acks1. ua_ok ack \<longrightarrow> abs_store st' (ua_chunk_hash ack) \<noteq> None) \<and>
        acks_match acks1 items \<and> (r = Inr () \<longrightarrow> length acks1 = length items)"
      using IH p one unfolding p_def by fastforce
    then show ?thesis
      using one acks hash by (auto simp: acks_match_def map_le_def dom_def)
  qed
qed

section \<open>Uploads\<close>

definition upload_room :: "pack_env \<Rightarrow> (upload_status + upload_chunk) list \<Rightarrow> upload_service \<Rightarrow> bool" where
  "upload_room env stream sv =
     (case stream of
        Inr first # _ \<Rightarrow>
          (case store_entry env (uc_game_id first) sv of
             Inr (store, _) \<Rightarrow> unat (gs_size store) + stream_bytes stream < 2 ^ 32
           | Inl _ \<Rightarrow> True)
      | _ \<Rightarrow> True)"

lemma process_upload_good:
  assumes "svc_ok blake3 sv" and "upload_room (envs 0) stream sv"
    and "process_upload blake3 envs stream sv = (r, out, sv')"
  shows "svc_ok blake3 sv' \<and>
    (\<exists>acks. (out = map Inr acks \<or> out = [Inl GameIdZero] \<and> acks = []) \<and> acks_match acks stream \<and>
      (\<forall>ack \<in> set acks. ua_ok ack \<longrightarrow>
        (\<exists>c rest st. stream = Inr c # rest \<and> us_stores sv' (uc_game_id c) = Some st \<and>
           abs_store st (ua_chunk_hash ack) \<noteq> None))) \<and>
    (\<forall>g st. us_stores sv g = Some st \<longrightarrow> (\<exists>st'. us_stores sv' g = Some st' \<and> abs_store st \<subseteq>\<^sub>m abs_store st'))"
proof (cases "\<exists>c rest store sv1. stream = Inr c # rest \<and> uc_game_id c \<noteq> 0 \<and>
    store_entry (envs 0) (uc_game_id c) sv = Inr (store, sv1)")
  case False
  with assms show ?thesis
    by (auto simp: process_upload_def acks_match_def split: list.splits sum.splits if_splits)
next
  case True
  then obtain c rest store sv1 where stream: "stream = Inr c # rest" "uc_game_id c \<noteq> 0"
    and entry: "store_entry (envs 0) (uc_game_id c) sv = Inr (store, sv1)" by blast
  obtain r' acks store' where loop: "upload_loop blake3 (\<lambda>i. envs (Suc i)) stream store = (r', acks, store')"
    by (metis prod_cases3)
  have out: "out = map Inr acks" "sv' = put_store (uc_game_id c) store' sv1"
    using assms(3) stream entry loop by (auto simp: process_upload_def)
  note good = store_entry_good [OF assms(1) entry]
  have "unat (gs_size store) + stream_bytes stream < 2 ^ 32"
    using assms(2) stream entry by (simp add: upload_room_def)
  note loop_good = upload_loop_good [OF loop _ this, of "uc_game_id c"]
  have "svc_ok blake3 sv'" using put_store_good loop_good good out by blast
  moreover have "us_stores sv' (uc_game_id c) = Some store'" by (simp add: out put_store_def)
  then have "\<forall>ack \<in> set acks. ua_ok ack \<longrightarrow>
      (\<exists>c rest st. stream = Inr c # rest \<and> us_stores sv' (uc_game_id c) = Some st \<and> abs_store st (ua_chunk_hash ack) \<noteq> None)"
    using loop_good good stream(1) by auto
  moreover have "acks_match acks stream" using loop_good good by blast
  moreover have "\<exists>st'. us_stores sv' g = Some st' \<and> abs_store st \<subseteq>\<^sub>m abs_store st'" if "us_stores sv g = Some st" for g st
  proof (cases "g = uc_game_id c")
    case True
    with that entry have "store = st" by (simp add: store_entry_def)
    with True loop_good good out show ?thesis by (simp add: put_store_def)
  next
    case False
    with that good out show ?thesis by (auto simp: put_store_def map_le_def)
  qed
  ultimately show ?thesis using out(1) by (intro conjI allI impI exI [of _ acks]) simp_all
qed


definition demo_service :: upload_service where
  "demo_service = with_stores (\<lambda>g. empty_disk) Map.empty"

lemma demo_service_ok: "svc_ok blake3 demo_service"
proof -
  have "store_good blake3 g st" if "store_open env g empty_disk = Inr st" for env g st
    using store_open_empty [OF that] that
    by (auto simp: store_good_def store_inv_def verified_def store_open_def Let_def split: if_splits)
  then show ?thesis by (simp add: svc_ok_def demo_service_def with_stores_def)
qed


section \<open>Commits\<close>

text \<open>The scan for missing chunks lists the first five of them.\<close>

lemma missing_loop_Inr:
  "missing_loop envs st hs ms = Inr ms' \<Longrightarrow> length ms < 5 \<Longrightarrow>
     ms' = take 5 (ms @ filter (\<lambda>h. abs_store st h = None) hs)"
proof (induction envs st hs ms rule: missing_loop.induct)
  case (2 envs st h hs ms)
  then show ?case
    by (cases "abs_store st h")
      (auto simp: store_contains_abs take_Cons' Suc_le_eq numeral_eq_Suc split: if_splits)
qed auto

lemma missing_loop_live:
  "(\<And>i. pe_read_txn (envs i)) \<Longrightarrow> \<exists>ms'. missing_loop envs st hs ms = Inr ms'"
  by (induction envs st hs ms rule: missing_loop.induct) (auto simp: store_contains_abs)

text \<open>A request that passes every check up to the scan of the chunks.\<close>

definition commit_valid :: "(bytes \<Rightarrow> bytes) \<Rightarrow> commit_request \<Rightarrow> game_index \<Rightarrow> bool" where
  "commit_valid blake3 commit index \<longleftrightarrow>
     cr_game_id commit \<noteq> 0 \<and> cr_version commit \<noteq> 0 \<and> length (cr_manifest_hash commit) = HASH_LEN \<and>
     blake3 (take (length (cr_manifest commit) - 32) (cr_manifest commit)) = cr_manifest_hash commit \<and>
     decode blake3 (cr_manifest commit) = Inr index"

lemma decode_length: "decode blake3 bs = Inr gi \<Longrightarrow> 32 \<le> length bs"
  by (auto simp: decode_def HASH_LEN_def split: if_splits)

lemma commit_version_Inr:
  assumes "commit_version blake3 order link envs ce commit sv sched = (Inr reply, sv', sched')"
  obtains index store sv1 missing where "commit_valid blake3 commit index"
    "store_entry (envs 0) (cr_game_id commit) sv = Inr (store, sv1)"
    "missing_loop (\<lambda>i. envs (Suc i)) store (order (remdups (chunk_hashes index))) [] = Inr missing"
    "if missing = [] then publish_step link ce commit sv1 sched = (Inr reply, sv', sched')
     else reply = \<lparr>cp_published = False, cp_error = ChunksMissing missing\<rparr> \<and> sv' = sv1 \<and> sched' = sched"
  using assms
  by (auto simp: commit_version_def commit_valid_def to_hash_def Let_def
      split: if_splits option.splits sum.splits)

lemma publish_step_Inr:
  assumes "publish_step link ce commit sv sched = (Inr reply, sv', sched')"
  shows "us_published sv' = (us_published sv)((cr_game_id commit, cr_version commit) \<mapsto> cr_manifest commit) \<and>
    us_stores sv' = us_stores sv \<and> us_disk sv' = us_disk sv \<and>
    (cp_published reply \<and> us_scheduler_addr sv \<noteq> None \<longrightarrow>
      (\<exists>err. sl_publish link (cr_game_id commit) (cr_version commit) (cr_manifest commit) sched = (Inr (True, err), sched')))"
  using assms
  by (auto simp: publish_step_def publish_to_scheduler_def ensure_publish_ok_def write_manifest_file_def Let_def
      split: if_splits option.splits sum.splits prod.splits)

lemma commit_version_complete:
  assumes "svc_ok blake3 sv" and "\<And>xs. set (order xs) = set xs"
    and "commit_version blake3 order link envs ce commit sv sched = (Inr reply, sv', sched')"
  shows "\<exists>index store. commit_valid blake3 commit index \<and> us_stores sv' (cr_game_id commit) = Some store \<and>
    svc_ok blake3 sv' \<and>
    (cp_published reply \<longrightarrow>
      (\<forall>h \<in> chunk_set index. \<exists>d. abs_store store h = Some d \<and> blake3 d = h) \<and>
      us_published sv' (cr_game_id commit, cr_version commit) = Some (cr_manifest commit) \<and>
      (us_scheduler_addr sv \<noteq> None \<longrightarrow> (\<exists>err.
         sl_publish link (cr_game_id commit) (cr_version commit) (cr_manifest commit) sched = (Inr (True, err), sched')))) \<and>
    (\<forall>ms. cp_error reply = ChunksMissing ms \<longrightarrow> \<not> cp_published reply \<and> ms \<noteq> [] \<and> length ms \<le> 5 \<and>
      set ms \<subseteq> {h \<in> chunk_set index. abs_store store h = None} \<and> us_published sv' = us_published sv \<and> sched' = sched)"
  using assms(3)
proof (rule commit_version_Inr)
  fix index store sv1 missing
  assume valid: "commit_valid blake3 commit index"
    and entry: "store_entry (envs 0) (cr_game_id commit) sv = Inr (store, sv1)"
    and loop: "missing_loop (\<lambda>i. envs (Suc i)) store (order (remdups (chunk_hashes index))) [] = Inr missing"
    and fin: "if missing = [] then publish_step link ce commit sv1 sched = (Inr reply, sv', sched')
     else reply = \<lparr>cp_published = False, cp_error = ChunksMissing missing\<rparr> \<and> sv' = sv1 \<and> sched' = sched"
  note good = store_entry_good [OF assms(1) entry]
  have missing: "missing = take 5 (filter (\<lambda>h. abs_store store h = None) (order (remdups (chunk_hashes index))))"
    using missing_loop_Inr [OF loop] by simp
  have ord: "set (order (remdups (chunk_hashes index))) = chunk_set index" by (simp add: assms(2) chunk_set_def)
  show ?thesis
  proof (cases "missing = []")
    case True
    with missing ord have all: "\<forall>h \<in> chunk_set index. abs_store store h \<noteq> None"
      by (auto simp: filter_empty_conv)
    from True fin have step: "publish_step link ce commit sv1 sched = (Inr reply, sv', sched')" by simp
    have "\<forall>ms. cp_error reply \<noteq> ChunksMissing ms"
      using step by (auto simp: publish_step_def Let_def split: if_splits option.splits sum.splits prod.splits)
    moreover have "svc_ok blake3 sv'" using publish_step_Inr [OF step] good by (simp add: svc_ok_def)
    moreover have "\<forall>h \<in> chunk_set index. \<exists>d. abs_store store h = Some d \<and> blake3 d = h"
      using all good by (auto simp: store_good_def verified_def)
    moreover have "us_stores sv' (cr_game_id commit) = Some store"
      "us_published sv' (cr_game_id commit, cr_version commit) = Some (cr_manifest commit)"
      "us_scheduler_addr sv1 = us_scheduler_addr sv"
      using publish_step_Inr [OF step] good by simp_all
    moreover have "cp_published reply \<Longrightarrow> us_scheduler_addr sv1 \<noteq> None \<Longrightarrow>
        \<exists>err. sl_publish link (cr_game_id commit) (cr_version commit) (cr_manifest commit) sched = (Inr (True, err), sched')"
      using publish_step_Inr [OF step] by blast
    ultimately show ?thesis
      using valid by (intro exI [of _ index] exI [of _ store] conjI impI allI) simp_all
  next
    case False
    have "set missing \<subseteq> set (filter (\<lambda>h. abs_store store h = None) (order (remdups (chunk_hashes index))))"
      unfolding missing by (rule set_take_subset)
    then have "set missing \<subseteq> {h \<in> chunk_set index. abs_store store h = None}" unfolding set_filter ord .
    moreover have "length missing \<le> 5" unfolding missing by simp
    moreover have "reply = \<lparr>cp_published = False, cp_error = ChunksMissing missing\<rparr>" "sv' = sv1" "sched' = sched"
      using False fin by simp_all
    moreover have "svc_ok blake3 sv1" "us_stores sv1 (cr_game_id commit) = Some store"
      "us_published sv1 = us_published sv" using good by blast+
    ultimately show ?thesis
      using False valid by (intro exI [of _ index] exI [of _ store] conjI impI allI) simp_all
  qed
qed

text \<open>
  A version is published only when it is complete. If \<open>commit_version\<close> answers that it
  published, the manifest decoded, its digest is the announced one, every chunk it refers to
  is in the game's library under its own hash, the manifest is on disk under the version, and
  the scheduler, when one is configured, accepted exactly this manifest. A refusal for missing
  chunks names at most five chunks of the manifest, none of which is stored, and writes
  nothing.
\<close>

theorem commit_published_complete:
  assumes "svc_ok blake3 sv" and "\<And>xs. set (order xs) = set xs"
    and "commit_version blake3 order link envs ce commit sv sched = (Inr reply, sv', sched')"
  shows "\<exists>index store. commit_valid blake3 commit index \<and> us_stores sv' (cr_game_id commit) = Some store \<and>
    svc_ok blake3 sv' \<and>
    (cp_published reply \<longrightarrow>
      (\<forall>h \<in> chunk_set index. \<exists>d. abs_store store h = Some d \<and> blake3 d = h) \<and>
      us_published sv' (cr_game_id commit, cr_version commit) = Some (cr_manifest commit) \<and>
      (us_scheduler_addr sv \<noteq> None \<longrightarrow> (\<exists>err.
         sl_publish link (cr_game_id commit) (cr_version commit) (cr_manifest commit) sched = (Inr (True, err), sched')))) \<and>
    (\<forall>ms. cp_error reply = ChunksMissing ms \<longrightarrow> \<not> cp_published reply \<and> ms \<noteq> [] \<and> length ms \<le> 5 \<and>
      set ms \<subseteq> {h \<in> chunk_set index. abs_store store h = None} \<and> us_published sv' = us_published sv \<and> sched' = sched)"
  using assms by (rule commit_version_complete)

theorem commit_published_complete_witness:
  "\<exists>sv' store. commit_version (\<lambda>_. demo_hash 5) (\<lambda>xs. xs) \<lparr>sl_attempt = (\<lambda>i. True), sl_publish = (\<lambda>g v mf s. (Inr (True, []), s))\<rparr>
      (\<lambda>i. env_std) \<lparr>ce_mkdir = True, ce_write = None\<rparr>
      \<lparr>cr_game_id = 5, cr_version = 1, cr_manifest = encode (build (\<lambda>_. demo_hash 5) []), cr_manifest_hash = demo_hash 5\<rparr>
      demo_service () = (Inr \<lparr>cp_published = True, cp_error = NoCommitError\<rparr>, sv', ()) \<and>
    us_published sv' (5, 1) = Some (encode (build (\<lambda>_. demo_hash 5) [])) \<and> us_stores sv' 5 = Some store"
proof -
  let ?b = "\<lambda>_ :: bytes. demo_hash 5" and ?mf = "encode (build (\<lambda>_. demo_hash 5) [])"
  let ?c = "\<lparr>cr_game_id = 5, cr_version = 1, cr_manifest = ?mf, cr_manifest_hash = demo_hash 5\<rparr>"
  let ?link = "\<lparr>sl_attempt = (\<lambda>i. True), sl_publish = (\<lambda>g v mf s. (Inr (True, []), s))\<rparr> :: unit sched_link"
  let ?ce = "\<lparr>ce_mkdir = True, ce_write = None\<rparr>"
  have hash: "length (demo_hash 5) = HASH_LEN" by (simp add: demo_hash_def HASH_LEN_def)
  have dec: "decode ?b ?mf = Inr (build ?b [])"
    by (rule decode_encode) (simp_all add: build_hash hash wf_files_def)
  have entry: "store_entry env_std 5 demo_service = Inr (demo_store 5, put_store 5 (demo_store 5) demo_service)"
    using demo_open [of 5] by (simp add: store_entry_def demo_service_def with_stores_def put_store_def)
  have addr: "us_scheduler_addr (put_store 5 (demo_store 5) demo_service) = None"
    by (simp add: put_store_def demo_service_def with_stores_def)
  have no_chunks: "chunk_hashes (build ?b []) = []" by (simp add: chunk_hashes_def)
  have "\<exists>sv'. commit_version ?b (\<lambda>xs. xs) ?link (\<lambda>i. env_std) ?ce ?c demo_service () =
      (Inr \<lparr>cp_published = True, cp_error = NoCommitError\<rparr>, sv', ())"
    using decode_length [OF dec] hash dec entry addr no_chunks
    by (simp add: commit_version_def to_hash_def publish_step_def Let_def write_manifest_file_def)
  then obtain sv' where run: "commit_version ?b (\<lambda>xs. xs) ?link (\<lambda>i. env_std) ?ce ?c demo_service () =
      (Inr \<lparr>cp_published = True, cp_error = NoCommitError\<rparr>, sv', ())" by blast
  from commit_published_complete [OF demo_service_ok _ run] run show ?thesis by auto
qed

end
