(* ===== verification/Configs.thy ===== *)
theory Configs
  imports Complex_Main Prelude
begin

text \<open>
  The configuration files of the four programs (\<^verbatim>\<open>config.rs\<close> of scheduler, origin, agent and
  producer): the command line, the defaults that serde fills in for absent keys, and the
  validation that runs before anything starts.

  The TOML parser is the parameter \<open>from_toml\<close>, which yields the keys present in the file;
  \<open>parse_addr\<close> is the parser of socket addresses and \<open>read_file\<close> the file system. Floating-point
  thresholds keep the values that make comparisons false.
\<close>

datatype f64 = Finite rat | PosInf | NegInf | NaN

fun f64_pos :: "f64 \<Rightarrow> bool" where
  "f64_pos (Finite x) = (0 < x)" | "f64_pos PosInf = True" | "f64_pos NegInf = False" | "f64_pos NaN = False"

fun f64_le_one :: "f64 \<Rightarrow> bool" where
  "f64_le_one (Finite x) = (x \<le> 1)" | "f64_le_one PosInf = False" | "f64_le_one NegInf = True" | "f64_le_one NaN = False"

datatype config_error =
    Usage | ReadConfig | ParseConfig | EmptyDataDir | BadBindAddr | BadHttpBindAddr | ZeroHeartbeat | ShortTimeout
  | ZeroKeepalive | EmptyAdmin | ZeroBackup | LowPort | BadExternalAddr | BadSchedulerAddr | BadThreshold | ZeroMinFree
  | ZeroGame | ZeroVersion | SmallChunkMin | BadChunkSizes | BadSourceDir | ZeroConcurrency | ZeroDiskFree | ZeroTtl
  | ZeroRate | OriginHalf | OriginOnCafe | BadOriginAddr | LowKeepalivePort | BadStunAddr | BadControlAddr

text \<open>A sequence of guards: the first that fires is the error.\<close>

fun guards :: "(bool \<times> config_error) list \<Rightarrow> config_error + unit" where
  "guards [] = Inr ()"
| "guards ((b, e) # gs) = (if b then Inl e else guards gs)"

lemma guards_Inr: "guards gs = Inr () \<longleftrightarrow> (\<forall>g \<in> set gs. \<not> fst g)"
  by (induction gs rule: guards.induct) auto

declare guards.simps [simp del]

definition or_default :: "'a option \<Rightarrow> 'a \<Rightarrow> 'a" where
  "or_default x d = (case x of None \<Rightarrow> d | Some v \<Rightarrow> v)"

definition http_scheme :: "string \<Rightarrow> bool" where
  "http_scheme addr \<longleftrightarrow> strip_prefix ''http://'' addr \<noteq> None \<or> strip_prefix ''https://'' addr \<noteq> None"

text \<open>\<open>parse_args\<close> is the same in the scheduler, the origin and the agent.\<close>

definition parse_args :: "string list \<Rightarrow> config_error + string" where
  "parse_args args = (if length args \<noteq> 3 \<or> args ! 1 \<noteq> ''--config'' then Inl Usage else Inr (args ! 2))"

definition load_with ::
    "(string \<Rightarrow> string option) \<Rightarrow> (string \<Rightarrow> 'r option) \<Rightarrow> ('r \<Rightarrow> 'c) \<Rightarrow> ('c \<Rightarrow> config_error + unit) \<Rightarrow> string \<Rightarrow> config_error + 'c" where
  "load_with read_file from_toml fill check path =
     (case read_file path of
        None \<Rightarrow> Inl ReadConfig
      | Some content \<Rightarrow>
          (case from_toml content of
             None \<Rightarrow> Inl ParseConfig
           | Some raw \<Rightarrow> res_bind (check (fill raw)) (\<lambda>_. Inr (fill raw))))"

section \<open>Scheduler\<close>

record sched_config =
  sc_data_dir :: string
  sc_bind_addr :: string
  sc_http_bind_addr :: string
  sc_heartbeat_interval_secs :: u64
  sc_offline_timeout_secs :: u64
  sc_keepalive_interval_secs :: u64
  sc_keepalive_fail_threshold :: u32
  sc_web_dir :: string
  sc_admin_user :: string
  sc_admin_password :: string
  sc_backup_dir :: "string option"
  sc_backup_interval_hours :: u64

record sched_raw =
  sr_data_dir :: string
  sr_bind_addr :: "string option"
  sr_http_bind_addr :: "string option"
  sr_heartbeat_interval_secs :: "u64 option"
  sr_offline_timeout_secs :: "u64 option"
  sr_keepalive_interval_secs :: "u64 option"
  sr_keepalive_fail_threshold :: "u32 option"
  sr_web_dir :: "string option"
  sr_admin_user :: "string option"
  sr_admin_password :: "string option"
  sr_backup_dir :: "string option"
  sr_backup_interval_hours :: "u64 option"

definition sched_fill :: "sched_raw \<Rightarrow> sched_config" where
  "sched_fill r = \<lparr>sc_data_dir = sr_data_dir r, sc_bind_addr = or_default (sr_bind_addr r) ''0.0.0.0:50051'',
     sc_http_bind_addr = or_default (sr_http_bind_addr r) ''0.0.0.0:18080'',
     sc_heartbeat_interval_secs = or_default (sr_heartbeat_interval_secs r) 25,
     sc_offline_timeout_secs = or_default (sr_offline_timeout_secs r) 75,
     sc_keepalive_interval_secs = or_default (sr_keepalive_interval_secs r) 25,
     sc_keepalive_fail_threshold = or_default (sr_keepalive_fail_threshold r) 3,
     sc_web_dir = or_default (sr_web_dir r) ''web'', sc_admin_user = or_default (sr_admin_user r) ''admin'',
     sc_admin_password = or_default (sr_admin_password r) ''admin123'', sc_backup_dir = sr_backup_dir r,
     sc_backup_interval_hours = or_default (sr_backup_interval_hours r) 24\<rparr>"

definition sched_validate :: "(string \<Rightarrow> 'a option) \<Rightarrow> sched_config \<Rightarrow> config_error + unit" where
  "sched_validate parse_addr c = guards
     [(sc_data_dir c = [], EmptyDataDir),
      (parse_addr (sc_bind_addr c) = None, BadBindAddr),
      (parse_addr (sc_http_bind_addr c) = None, BadHttpBindAddr),
      (sc_heartbeat_interval_secs c = 0 \<or> sc_offline_timeout_secs c = 0, ZeroHeartbeat),
      (sc_offline_timeout_secs c < sc_heartbeat_interval_secs c * 2, ShortTimeout),
      (sc_keepalive_interval_secs c = 0 \<or> sc_keepalive_fail_threshold c = 0, ZeroKeepalive),
      (sc_admin_user c = [] \<or> sc_admin_password c = [], EmptyAdmin),
      (sc_backup_interval_hours c = 0, ZeroBackup)]"

definition sched_load :: "(string \<Rightarrow> string option) \<Rightarrow> (string \<Rightarrow> sched_raw option) \<Rightarrow> (string \<Rightarrow> 'a option) \<Rightarrow> string \<Rightarrow> config_error + sched_config" where
  "sched_load read_file from_toml parse_addr = load_with read_file from_toml sched_fill (sched_validate parse_addr)"

definition sched_from_args :: "(string \<Rightarrow> string option) \<Rightarrow> (string \<Rightarrow> sched_raw option) \<Rightarrow> (string \<Rightarrow> 'a option) \<Rightarrow> string list \<Rightarrow> config_error + sched_config" where
  "sched_from_args read_file from_toml parse_addr args =
     res_bind (parse_args args) (sched_load read_file from_toml parse_addr)"

section \<open>Origin\<close>

record origin_config =
  oc_data_dir :: string
  oc_bind_addr :: string
  oc_listen_port :: u16
  oc_external_addr :: "string option"
  oc_relay_url :: "string option"
  oc_scheduler_addr :: "string option"
  oc_compact_threshold :: f64
  oc_min_free_bytes :: u64

record origin_raw =
  or_data_dir :: string
  or_bind_addr :: "string option"
  or_listen_port :: "u16 option"
  or_external_addr :: "string option"
  or_relay_url :: "string option"
  or_scheduler_addr :: "string option"
  or_compact_threshold :: "f64 option"
  or_min_free_bytes :: "u64 option"

definition origin_fill :: "origin_raw \<Rightarrow> origin_config" where
  "origin_fill r = \<lparr>oc_data_dir = or_data_dir r, oc_bind_addr = or_default (or_bind_addr r) ''0.0.0.0:50052'',
     oc_listen_port = or_default (or_listen_port r) 42001, oc_external_addr = or_external_addr r,
     oc_relay_url = or_relay_url r, oc_scheduler_addr = or_scheduler_addr r,
     oc_compact_threshold = or_default (or_compact_threshold r) (Finite (3 / 10)),
     oc_min_free_bytes = or_default (or_min_free_bytes r) (50 * 1024 * 1024 * 1024)\<rparr>"

definition bad_opt :: "('a \<Rightarrow> bool) \<Rightarrow> 'a option \<Rightarrow> bool" where
  "bad_opt ok x \<longleftrightarrow> (case x of None \<Rightarrow> False | Some v \<Rightarrow> \<not> ok v)"

definition origin_validate :: "(string \<Rightarrow> 'a option) \<Rightarrow> origin_config \<Rightarrow> config_error + unit" where
  "origin_validate parse_addr c = guards
     [(oc_data_dir c = [], EmptyDataDir),
      (parse_addr (oc_bind_addr c) = None, BadBindAddr),
      (oc_listen_port c < 10001, LowPort),
      (bad_opt (\<lambda>a. parse_addr a \<noteq> None) (oc_external_addr c), BadExternalAddr),
      (bad_opt http_scheme (oc_scheduler_addr c), BadSchedulerAddr),
      (\<not> (f64_pos (oc_compact_threshold c) \<and> f64_le_one (oc_compact_threshold c)), BadThreshold),
      (oc_min_free_bytes c = 0, ZeroMinFree)]"

definition origin_load :: "(string \<Rightarrow> string option) \<Rightarrow> (string \<Rightarrow> origin_raw option) \<Rightarrow> (string \<Rightarrow> 'a option) \<Rightarrow> string \<Rightarrow> config_error + origin_config" where
  "origin_load read_file from_toml parse_addr = load_with read_file from_toml origin_fill (origin_validate parse_addr)"

section \<open>Producer\<close>

definition DEFAULT_CHUNK_MIN :: nat where "DEFAULT_CHUNK_MIN = 64 * 1024"
definition DEFAULT_CHUNK_AVG :: nat where "DEFAULT_CHUNK_AVG = 1024 * 1024"
definition DEFAULT_CHUNK_MAX :: nat where "DEFAULT_CHUNK_MAX = 4 * 1024 * 1024"

record chunk_params =
  cp_min_size :: nat
  cp_avg_size :: nat
  cp_max_size :: nat

definition chunk_params_default :: chunk_params where
  "chunk_params_default = \<lparr>cp_min_size = DEFAULT_CHUNK_MIN, cp_avg_size = DEFAULT_CHUNK_AVG, cp_max_size = DEFAULT_CHUNK_MAX\<rparr>"

record producer_config =
  pc_game_id :: u64
  pc_version :: u64
  pc_source_dir :: string
  pc_previous_dir :: "string option"
  pc_output_dir :: string
  pc_origin_addr :: "string option"
  pc_origin_token :: "string option"
  pc_chunk :: chunk_params

definition producer_validate :: "(string \<Rightarrow> bool) \<Rightarrow> producer_config \<Rightarrow> config_error + unit" where
  "producer_validate is_dir c = (let p = pc_chunk c in guards
     [(pc_game_id c = 0, ZeroGame),
      (pc_version c = 0, ZeroVersion),
      (cp_min_size p < DEFAULT_CHUNK_MIN, SmallChunkMin),
      (\<not> (cp_min_size p < cp_avg_size p \<and> cp_avg_size p \<le> cp_max_size p), BadChunkSizes),
      (\<not> is_dir (pc_source_dir c), BadSourceDir)])"

section \<open>Agent\<close>

datatype node_type = Idc | Cafe

definition show_node_type :: "node_type \<Rightarrow> string" where
  "show_node_type t = (case t of Idc \<Rightarrow> ''idc'' | Cafe \<Rightarrow> ''cafe'')"

record agent_config =
  ag_node_type :: node_type
  ag_data_dir :: string
  ag_concurrent_games :: u32
  ag_chunk_concurrency :: u32
  ag_disk_free_threshold :: u64
  ag_compact_threshold :: f64
  ag_listen_port :: u16
  ag_temp_ttl_hours :: u64
  ag_download_mbps :: "u64 option"
  ag_origin_endpoint :: "string option"
  ag_origin_addr :: "string option"
  ag_keepalive_port :: "u16 option"
  ag_relay_url :: "string option"
  ag_external_addr :: "string option"
  ag_stun_addr :: "string option"
  ag_control_addr :: "string option"

record agent_raw =
  ar_node_type :: node_type
  ar_data_dir :: string
  ar_concurrent_games :: "u32 option"
  ar_chunk_concurrency :: "u32 option"
  ar_disk_free_threshold :: "u64 option"
  ar_compact_threshold :: "f64 option"
  ar_listen_port :: "u16 option"
  ar_temp_ttl_hours :: "u64 option"
  ar_download_mbps :: "u64 option"
  ar_origin_endpoint :: "string option"
  ar_origin_addr :: "string option"
  ar_keepalive_port :: "u16 option"
  ar_relay_url :: "string option"
  ar_external_addr :: "string option"
  ar_stun_addr :: "string option"
  ar_control_addr :: "string option"

definition agent_fill :: "agent_raw \<Rightarrow> agent_config" where
  "agent_fill r = \<lparr>ag_node_type = ar_node_type r, ag_data_dir = ar_data_dir r,
     ag_concurrent_games = or_default (ar_concurrent_games r) 5,
     ag_chunk_concurrency = or_default (ar_chunk_concurrency r) 4,
     ag_disk_free_threshold = or_default (ar_disk_free_threshold r) (200 * 1024 * 1024 * 1024),
     ag_compact_threshold = or_default (ar_compact_threshold r) (Finite (3 / 10)),
     ag_listen_port = or_default (ar_listen_port r) 42001,
     ag_temp_ttl_hours = or_default (ar_temp_ttl_hours r) 24, ag_download_mbps = ar_download_mbps r,
     ag_origin_endpoint = ar_origin_endpoint r, ag_origin_addr = ar_origin_addr r,
     ag_keepalive_port = ar_keepalive_port r, ag_relay_url = ar_relay_url r, ag_external_addr = ar_external_addr r,
     ag_stun_addr = ar_stun_addr r, ag_control_addr = ar_control_addr r\<rparr>"

definition agent_validate :: "(string \<Rightarrow> 'a option) \<Rightarrow> agent_config \<Rightarrow> config_error + unit" where
  "agent_validate parse_addr c = guards
     [(ag_data_dir c = [], EmptyDataDir),
      (ag_concurrent_games c = 0 \<or> ag_chunk_concurrency c = 0, ZeroConcurrency),
      (ag_disk_free_threshold c = 0, ZeroDiskFree),
      (\<not> (f64_pos (ag_compact_threshold c) \<and> f64_le_one (ag_compact_threshold c)), BadThreshold),
      (ag_listen_port c < 10001, LowPort),
      (ag_temp_ttl_hours c = 0, ZeroTtl),
      (bad_opt (\<lambda>mbps. mbps \<noteq> 0) (ag_download_mbps c), ZeroRate),
      ((ag_origin_endpoint c \<noteq> None) \<noteq> (ag_origin_addr c \<noteq> None), OriginHalf),
      (ag_node_type c = Cafe \<and> (ag_origin_endpoint c \<noteq> None \<or> ag_origin_addr c \<noteq> None), OriginOnCafe),
      (bad_opt (\<lambda>a. parse_addr a \<noteq> None) (ag_origin_addr c), BadOriginAddr),
      (bad_opt (\<lambda>port. \<not> port < 10001) (ag_keepalive_port c), LowKeepalivePort),
      (bad_opt (\<lambda>a. parse_addr a \<noteq> None) (ag_external_addr c), BadExternalAddr),
      (bad_opt (\<lambda>a. parse_addr a \<noteq> None) (ag_stun_addr c), BadStunAddr),
      (bad_opt http_scheme (ag_control_addr c), BadControlAddr)]"

definition agent_load :: "(string \<Rightarrow> string option) \<Rightarrow> (string \<Rightarrow> agent_raw option) \<Rightarrow> (string \<Rightarrow> 'a option) \<Rightarrow> string \<Rightarrow> config_error + agent_config" where
  "agent_load read_file from_toml parse_addr = load_with read_file from_toml agent_fill (agent_validate parse_addr)"

definition agent_resolve :: "(string \<Rightarrow> string option) \<Rightarrow> (string \<Rightarrow> agent_raw option) \<Rightarrow> (string \<Rightarrow> 'a option) \<Rightarrow> string list \<Rightarrow> config_error + agent_config" where
  "agent_resolve read_file from_toml parse_addr args =
     res_bind (parse_args args) (agent_load read_file from_toml parse_addr)"

section \<open>What validation gives\<close>

lemma load_with_checks: "load_with read_file from_toml fill check path = Inr c \<Longrightarrow> check c = Inr ()"
  by (auto simp: load_with_def split: option.splits)

text \<open>
  Scheduler settings. A configuration that loads has non-zero probe settings, so no
  remainder by zero is taken later, and, for a heartbeat interval below \<open>2\<^sup>6\<^sup>3\<close> seconds, an offline
  timeout of at least two intervals. The bound is needed: the check doubles the interval in 64
  bits, and an interval of \<open>2\<^sup>6\<^sup>3\<close> with a timeout of one second passes it.
\<close>

theorem sched_config_sound:
  assumes "sched_load read_file from_toml parse_addr path = Inr c"
  shows "sc_keepalive_interval_secs c \<noteq> 0 \<and> sc_keepalive_fail_threshold c \<noteq> 0 \<and> sc_data_dir c \<noteq> [] \<and>
    parse_addr (sc_bind_addr c) \<noteq> None \<and> parse_addr (sc_http_bind_addr c) \<noteq> None \<and>
    (unat (sc_heartbeat_interval_secs c) < 2 ^ 63 \<longrightarrow>
       2 * unat (sc_heartbeat_interval_secs c) \<le> unat (sc_offline_timeout_secs c)) \<and>
    sched_validate parse_addr (c\<lparr>sc_heartbeat_interval_secs := 2 ^ 63, sc_offline_timeout_secs := 1\<rparr>) = Inr ()"
proof -
  have v: "sched_validate parse_addr c = Inr ()"
    using assms by (auto simp: sched_load_def intro: load_with_checks)
  have "2 * unat (sc_heartbeat_interval_secs c) \<le> unat (sc_offline_timeout_secs c)"
    if "unat (sc_heartbeat_interval_secs c) < 2 ^ 63"
  proof -
    have "unat (sc_heartbeat_interval_secs c * 2) = 2 * unat (sc_heartbeat_interval_secs c)"
      using that by (simp add: unat_word_ariths)
    moreover have "sc_heartbeat_interval_secs c * 2 \<le> sc_offline_timeout_secs c"
      using v by (simp add: sched_validate_def guards_Inr not_less)
    ultimately show ?thesis by (simp add: word_le_nat_alt)
  qed
  moreover have "\<not> (1 :: u64) < 18446744073709551616" by code_simp
  moreover have "(2 :: u64) ^ 63 \<noteq> 0" by code_simp
  ultimately show ?thesis using v by (simp add: sched_validate_def guards_Inr)
qed

definition demo_raw :: sched_raw where
  "demo_raw = \<lparr>sr_data_dir = ''d'', sr_bind_addr = None, sr_http_bind_addr = None, sr_heartbeat_interval_secs = None,
     sr_offline_timeout_secs = None, sr_keepalive_interval_secs = None, sr_keepalive_fail_threshold = None, sr_web_dir = None,
     sr_admin_user = None, sr_admin_password = None, sr_backup_dir = None, sr_backup_interval_hours = None\<rparr>"

theorem sched_config_sound_witness:
  "sched_load (\<lambda>p. Some p) (\<lambda>s. Some demo_raw) (\<lambda>a. Some a) ''x'' = Inr (sched_fill demo_raw) \<and>
   sc_keepalive_interval_secs (sched_fill demo_raw) \<noteq> 0"
proof -
  have run: "sched_load (\<lambda>p. Some p) (\<lambda>s. Some demo_raw) (\<lambda>a. Some a) ''x'' = Inr (sched_fill demo_raw)"
    by (simp add: sched_load_def load_with_def sched_validate_def guards_Inr sched_fill_def demo_raw_def or_default_def)
  with sched_config_sound [OF run] show ?thesis by blast
qed

text \<open>
  Agent settings. A cafe node whose configuration loads has no origin configured, so it can
  only fetch from peers; an IDC node has both parts of the origin address or none; the data
  port and the keepalive port are above 10000, and the control address, if any, is a web address.
\<close>

theorem agent_config_sound:
  assumes "agent_resolve read_file from_toml parse_addr args = Inr c"
  shows "args = [args ! 0, ''--config'', args ! 2] \<and>
    (ag_node_type c = Cafe \<longrightarrow> ag_origin_endpoint c = None \<and> ag_origin_addr c = None) \<and>
    (ag_origin_endpoint c = None \<longleftrightarrow> ag_origin_addr c = None) \<and>
    10000 < ag_listen_port c \<and> ag_concurrent_games c \<noteq> 0 \<and> ag_chunk_concurrency c \<noteq> 0 \<and>
    (\<forall>port. ag_keepalive_port c = Some port \<longrightarrow> 10000 < port) \<and>
    (\<forall>addr. ag_control_addr c = Some addr \<longrightarrow> http_scheme addr) \<and>
    (\<exists>t. ag_compact_threshold c = Finite t \<and> 0 < t \<and> t \<le> 1)"
proof -
  from assms have len: "length args = 3" and arg: "args ! 1 = ''--config''"
    and load: "agent_load read_file from_toml parse_addr (args ! 2) = Inr c"
    by (auto simp: agent_resolve_def parse_args_def split: if_splits)
  have args: "args = [args ! 0, args ! 1, args ! 2]"
    using len by (auto simp: numeral_3_eq_3 length_Suc_conv)
  have v: "agent_validate parse_addr c = Inr ()"
    using load by (auto simp: agent_load_def intro: load_with_checks)
  have port: "10000 < p" if "\<not> p < (10001 :: u16)" for p using that by unat_arith
  have thr: "\<exists>t. ag_compact_threshold c = Finite t \<and> 0 < t \<and> t \<le> 1"
    using v by (cases "ag_compact_threshold c") (simp_all add: agent_validate_def guards_Inr)
  show ?thesis
    using v args arg port thr by (auto simp: agent_validate_def guards_Inr bad_opt_def split: option.splits)
qed

definition demo_agent_raw :: agent_raw where
  "demo_agent_raw = \<lparr>ar_node_type = Cafe, ar_data_dir = ''d'', ar_concurrent_games = None, ar_chunk_concurrency = None,
     ar_disk_free_threshold = None, ar_compact_threshold = None, ar_listen_port = None, ar_temp_ttl_hours = None,
     ar_download_mbps = None, ar_origin_endpoint = None, ar_origin_addr = None, ar_keepalive_port = None, ar_relay_url = None,
     ar_external_addr = None, ar_stun_addr = None, ar_control_addr = Some ''http://c''\<rparr>"

theorem agent_config_sound_witness:
  "agent_resolve (\<lambda>p. Some p) (\<lambda>s. Some demo_agent_raw) (\<lambda>a. Some a) [''agent'', ''--config'', ''f''] = Inr (agent_fill demo_agent_raw) \<and>
   ag_origin_addr (agent_fill demo_agent_raw) = None"
proof -
  have run: "agent_resolve (\<lambda>p. Some p) (\<lambda>s. Some demo_agent_raw) (\<lambda>a. Some a) [''agent'', ''--config'', ''f''] = Inr (agent_fill demo_agent_raw)"
    by (simp add: agent_resolve_def parse_args_def agent_load_def load_with_def agent_validate_def guards_Inr agent_fill_def demo_agent_raw_def
        or_default_def bad_opt_def http_scheme_def strip_prefix_def)
  have "ag_node_type (agent_fill demo_agent_raw) = Cafe" by (simp add: agent_fill_def demo_agent_raw_def)
  with agent_config_sound [OF run] run show ?thesis by blast
qed

end
