(* ===== verification/Sched_Db.thy ===== *)
theory Sched_Db
  imports Prelude
begin

text \<open>
  The data layer of the scheduler (\<^verbatim>\<open>crates/scheduler/src/db.rs\<close>): twelve redb tables, the
  records stored in them as JSON, identifier allocation, the chunk ledger, bindings, versions,
  heat and audits.

  JSON texts are a type \<open>'j\<close> with the serde_json encoders and decoders as the record parameter
  \<open>'j serde\<close>; \<open>serde_ok\<close> states that decoding inverts encoding. Every store operation runs one
  redb transaction: its first argument says whether that transaction fails, in which case the
  tables are unchanged. Human-readable texts (audit messages, error messages) are constructors.
\<close>

section \<open>Records\<close>

record addr_record =
  ad_addr :: string
  ad_kind :: string
  ad_link :: string

record node_record =
  nd_id :: u64
  nd_node_type :: string
  nd_endpoint_id :: string
  nd_token :: string
  nd_addrs :: "addr_record list"
  nd_status :: string
  nd_last_heartbeat_ms :: u64

record task_record =
  tk_id :: u64
  tk_node_id :: u64
  tk_game_id :: u64
  tk_version :: u64
  tk_kind :: string
  tk_assigned_chunks :: "bytes list"
  tk_status :: string
  tk_error :: string

record user_record =
  ur_id :: u64
  ur_username :: string
  ur_password_hash :: string
  ur_salt :: string

record place_record =
  pr_id :: u64
  pr_name :: string
  pr_region :: string

record group_record =
  gr_id :: u64
  gr_name :: string

record game_record =
  gm_id :: u64
  gm_name :: string
  gm_status :: string
  gm_current_version :: u64
  gm_latest_version :: u64

datatype audit_action =
    CreateUser u64 | DeleteUser u64 | CreatePlace u64 | DeletePlace u64 | CreateGroup u64 | DeleteGroup u64
  | Bind string u64 u64 | CreateGame u64 | DeleteGame u64 | CreateTask u64 u64 u64
  | RollbackGame u64 u64 | CancelTask u64

record audit_record =
  au_id :: u64
  au_time_ms :: u64
  au_actor :: string
  au_action :: audit_action

record 'j serde =
  enc_node :: "node_record \<Rightarrow> 'j"
  dec_node :: "'j \<Rightarrow> node_record option"
  enc_task :: "task_record \<Rightarrow> 'j"
  dec_task :: "'j \<Rightarrow> task_record option"
  enc_user :: "user_record \<Rightarrow> 'j"
  dec_user :: "'j \<Rightarrow> user_record option"
  enc_place :: "place_record \<Rightarrow> 'j"
  dec_place :: "'j \<Rightarrow> place_record option"
  enc_group :: "group_record \<Rightarrow> 'j"
  dec_group :: "'j \<Rightarrow> group_record option"
  enc_game :: "game_record \<Rightarrow> 'j"
  dec_game :: "'j \<Rightarrow> game_record option"
  enc_audit :: "audit_record \<Rightarrow> 'j"
  dec_audit :: "'j \<Rightarrow> audit_record option"
  enc_ids :: "u64 list \<Rightarrow> 'j"
  dec_ids :: "'j \<Rightarrow> u64 list option"
  enc_bytes :: "bytes \<Rightarrow> 'j"
  dec_bytes :: "'j \<Rightarrow> bytes option"

definition serde_ok :: "'j serde \<Rightarrow> bool" where
  "serde_ok cd \<longleftrightarrow>
     (\<forall>x. dec_node cd (enc_node cd x) = Some x) \<and> (\<forall>x. dec_task cd (enc_task cd x) = Some x) \<and>
     (\<forall>x. dec_user cd (enc_user cd x) = Some x) \<and> (\<forall>x. dec_place cd (enc_place cd x) = Some x) \<and>
     (\<forall>x. dec_group cd (enc_group cd x) = Some x) \<and> (\<forall>x. dec_game cd (enc_game cd x) = Some x) \<and>
     (\<forall>x. dec_audit cd (enc_audit cd x) = Some x) \<and> (\<forall>x. dec_ids cd (enc_ids cd x) = Some x) \<and>
     (\<forall>x. dec_bytes cd (enc_bytes cd x) = Some x)"

section \<open>The tables\<close>

record 'j store =
  db_nodes :: "(u64, 'j) table"
  db_tasks :: "(u64, 'j) table"
  db_counters :: "(string, u64) table"
  db_chunks :: "(string, 'j) table"
  db_heat :: "(string, u64) table"
  db_users :: "(u64, 'j) table"
  db_places :: "(u64, 'j) table"
  db_groups :: "(u64, 'j) table"
  db_bindings :: "(string, u64) table"
  db_games :: "(u64, 'j) table"
  db_versions :: "(string, 'j) table"
  db_audits :: "(u64, 'j) table"

definition NEXT_NODE_ID :: string where "NEXT_NODE_ID = ''next_node_id''"
definition NEXT_TASK_ID :: string where "NEXT_TASK_ID = ''next_task_id''"
definition NEXT_USER_ID :: string where "NEXT_USER_ID = ''next_user_id''"
definition NEXT_PLACE_ID :: string where "NEXT_PLACE_ID = ''next_place_id''"
definition NEXT_GROUP_ID :: string where "NEXT_GROUP_ID = ''next_group_id''"
definition NEXT_GAME_ID :: string where "NEXT_GAME_ID = ''next_game_id''"
definition NEXT_AUDIT_ID :: string where "NEXT_AUDIT_ID = ''next_audit_id''"
definition BIND_UP :: string where "BIND_UP = ''user_place''"
definition BIND_UG :: string where "BIND_UG = ''user_group''"
definition BIND_GP :: string where "BIND_GP = ''group_place''"

datatype db_error = TxnFailed | DecodeFailed | KeyParseFailed

text \<open>A store operation: a result and the new tables.\<close>

type_synonym ('j, 'a) db_op = "'j store \<Rightarrow> (db_error + 'a) \<times> 'j store"

definition hash_password :: "(bytes \<Rightarrow> bytes) \<Rightarrow> string \<Rightarrow> string \<Rightarrow> string" where
  "hash_password blake3 password salt = hex_bytes (blake3 (as_bytes (salt @ '':'' @ password)))"

definition db_decode :: "('j \<Rightarrow> 'a option) \<Rightarrow> 'j \<Rightarrow> db_error + 'a" where
  "db_decode dec text = (case dec text of None \<Rightarrow> Inl DecodeFailed | Some x \<Rightarrow> Inr x)"

definition chunk_key :: "u64 \<Rightarrow> bytes \<Rightarrow> string" where
  "chunk_key game_id hash = hex16 game_id @ hex_bytes hash"

definition version_key :: "u64 \<Rightarrow> u64 \<Rightarrow> string" where
  "version_key game_id version = show_u64 game_id @ '':'' @ show_u64 version"

definition binding_key :: "string \<Rightarrow> u64 \<Rightarrow> u64 \<Rightarrow> string" where
  "binding_key kind a b = kind @ ''/'' @ show_u64 a @ ''/'' @ show_u64 b"

text \<open>\<open>Store::open\<close> on a new directory: \<open>ensure_tables\<close> creates every table empty.\<close>

definition ensure_tables :: "'j store" where
  "ensure_tables = \<lparr>db_nodes = [], db_tasks = [], db_counters = [], db_chunks = [], db_heat = [], db_users = [],
     db_places = [], db_groups = [], db_bindings = [], db_games = [], db_versions = [], db_audits = []\<rparr>"

text \<open>Reading an existing database keeps its tables.\<close>

definition db_open :: "bool \<Rightarrow> bool \<Rightarrow> 'j store option \<Rightarrow> db_error + 'j store" where
  "db_open dir_ok db_ok existing =
     (if \<not> dir_ok \<or> \<not> db_ok then Inl TxnFailed
      else Inr (case existing of None \<Rightarrow> ensure_tables | Some st \<Rightarrow> st))"

subsection \<open>Identifiers\<close>

definition next_id :: "bool \<Rightarrow> string \<Rightarrow> ('j, u64) db_op" where
  "next_id flt counter st =
     (if flt then (Inl TxnFailed, st)
      else
        let nxt = (case tbl_get (db_counters st) counter of None \<Rightarrow> 1 | Some v \<Rightarrow> v + 1)
        in (Inr nxt, st\<lparr>db_counters := tbl_insert counter nxt (db_counters st)\<rparr>))"

definition next_node_id :: "bool \<Rightarrow> ('j, u64) db_op" where "next_node_id flt = next_id flt NEXT_NODE_ID"
definition next_task_id :: "bool \<Rightarrow> ('j, u64) db_op" where "next_task_id flt = next_id flt NEXT_TASK_ID"
definition next_user_id :: "bool \<Rightarrow> ('j, u64) db_op" where "next_user_id flt = next_id flt NEXT_USER_ID"
definition next_place_id :: "bool \<Rightarrow> ('j, u64) db_op" where "next_place_id flt = next_id flt NEXT_PLACE_ID"
definition next_group_id :: "bool \<Rightarrow> ('j, u64) db_op" where "next_group_id flt = next_id flt NEXT_GROUP_ID"
definition next_game_id :: "bool \<Rightarrow> ('j, u64) db_op" where "next_game_id flt = next_id flt NEXT_GAME_ID"

subsection \<open>Nodes and tasks\<close>

definition insert_node :: "'j serde \<Rightarrow> bool \<Rightarrow> node_record \<Rightarrow> ('j, unit) db_op" where
  "insert_node cd flt node st =
     (let val = enc_node cd node in
      if flt then (Inl TxnFailed, st)
      else (Inr (), st\<lparr>db_nodes := tbl_insert (nd_id node) val (db_nodes st)\<rparr>))"

definition get_decoded :: "('j \<Rightarrow> 'a option) \<Rightarrow> bool \<Rightarrow> (u64, 'j) table \<Rightarrow> u64 \<Rightarrow> db_error + 'a option" where
  "get_decoded dec flt t ident =
     (if flt then Inl TxnFailed
      else case tbl_get t ident of
        None \<Rightarrow> Inr None
      | Some text \<Rightarrow> res_bind (db_decode dec text) (\<lambda>x. Inr (Some x)))"

definition list_decoded :: "('j \<Rightarrow> 'a option) \<Rightarrow> bool \<Rightarrow> (u64, 'j) table \<Rightarrow> db_error + 'a list" where
  "list_decoded dec flt t = (if flt then Inl TxnFailed else res_map (\<lambda>e. db_decode dec (snd e)) t)"

definition get_node :: "'j serde \<Rightarrow> bool \<Rightarrow> 'j store \<Rightarrow> u64 \<Rightarrow> db_error + node_record option" where
  "get_node cd flt st ident = get_decoded (dec_node cd) flt (db_nodes st) ident"

definition list_nodes :: "'j serde \<Rightarrow> bool \<Rightarrow> 'j store \<Rightarrow> db_error + node_record list" where
  "list_nodes cd flt st = list_decoded (dec_node cd) flt (db_nodes st)"

definition insert_task :: "'j serde \<Rightarrow> bool \<Rightarrow> task_record \<Rightarrow> ('j, unit) db_op" where
  "insert_task cd flt task st =
     (let val = enc_task cd task in
      if flt then (Inl TxnFailed, st)
      else (Inr (), st\<lparr>db_tasks := tbl_insert (tk_id task) val (db_tasks st)\<rparr>))"

definition update_task_status :: "'j serde \<Rightarrow> bool \<Rightarrow> u64 \<Rightarrow> string \<Rightarrow> string \<Rightarrow> ('j, bool) db_op" where
  "update_task_status cd flt ident status error st =
     (if flt then (Inl TxnFailed, st)
      else case tbl_get (db_tasks st) ident of
        None \<Rightarrow> (Inr False, st)
      | Some text \<Rightarrow>
          (case db_decode (dec_task cd) text of
             Inl e \<Rightarrow> (Inl e, st)
           | Inr task \<Rightarrow>
               (Inr True, st\<lparr>db_tasks := tbl_insert ident
                  (enc_task cd (task\<lparr>tk_status := status, tk_error := error\<rparr>)) (db_tasks st)\<rparr>)))"

definition list_tasks :: "'j serde \<Rightarrow> bool \<Rightarrow> 'j store \<Rightarrow> db_error + task_record list" where
  "list_tasks cd flt st = list_decoded (dec_task cd) flt (db_tasks st)"

definition tasks_for_node :: "'j serde \<Rightarrow> bool \<Rightarrow> 'j store \<Rightarrow> u64 \<Rightarrow> db_error + task_record list" where
  "tasks_for_node cd flt st node_id =
     res_bind (list_decoded (dec_task cd) flt (db_tasks st))
       (\<lambda>tasks. Inr (filter (\<lambda>t. tk_node_id t = node_id) tasks))"

definition saturating_sub :: "u64 \<Rightarrow> u64 \<Rightarrow> u64" where
  "saturating_sub a b = (if b \<le> a then a - b else 0)"

definition offline_nodes :: "'j serde \<Rightarrow> bool \<Rightarrow> 'j store \<Rightarrow> u64 \<Rightarrow> u64 \<Rightarrow> db_error + u64 list" where
  "offline_nodes cd flt st now_ms timeout_ms =
     res_bind (list_nodes cd flt st) (\<lambda>nodes.
       Inr (map nd_id (filter (\<lambda>n. timeout_ms < saturating_sub now_ms (nd_last_heartbeat_ms n)) nodes)))"

subsection \<open>The chunk ledger and heat\<close>

text \<open>A ledger entry that does not parse counts as empty here, and is an error in \<open>chunk_holders\<close>.\<close>

definition record_chunk_holder :: "'j serde \<Rightarrow> bool \<Rightarrow> u64 \<Rightarrow> u64 \<Rightarrow> bytes \<Rightarrow> ('j, unit) db_op" where
  "record_chunk_holder cd flt node_id game_id hash st =
     (let k = chunk_key game_id hash in
      if flt then (Inl TxnFailed, st)
      else
        let holders = (case tbl_get (db_chunks st) k of
                         None \<Rightarrow> []
                       | Some text \<Rightarrow> (case dec_ids cd text of None \<Rightarrow> [] | Some ids \<Rightarrow> ids))
        in if node_id \<notin> set holders
           then (Inr (), st\<lparr>db_chunks := tbl_insert k (enc_ids cd (holders @ [node_id])) (db_chunks st)\<rparr>)
           else (Inr (), st))"

definition chunk_holders :: "'j serde \<Rightarrow> bool \<Rightarrow> 'j store \<Rightarrow> u64 \<Rightarrow> bytes \<Rightarrow> db_error + u64 list" where
  "chunk_holders cd flt st game_id hash =
     (if flt then Inl TxnFailed
      else case tbl_get (db_chunks st) (chunk_key game_id hash) of
        None \<Rightarrow> Inr []
      | Some text \<Rightarrow> db_decode (dec_ids cd) text)"

definition add_launch :: "bool \<Rightarrow> u64 \<Rightarrow> u64 \<Rightarrow> ('j, u64) db_op" where
  "add_launch flt game_id count st =
     (let k = show_u64 game_id in
      if flt then (Inl TxnFailed, st)
      else
        let nxt = (case tbl_get (db_heat st) k of None \<Rightarrow> count | Some v \<Rightarrow> v + count)
        in (Inr nxt, st\<lparr>db_heat := tbl_insert k nxt (db_heat st)\<rparr>))"

definition top_games :: "bool \<Rightarrow> 'j store \<Rightarrow> nat \<Rightarrow> db_error + u64 list" where
  "top_games flt st limit =
     (if flt then Inl TxnFailed
      else res_bind
        (res_map (\<lambda>(k, v). case parse_u64 k of None \<Rightarrow> Inl KeyParseFailed | Some ident \<Rightarrow> Inr (ident, v)) (db_heat st))
        (\<lambda>games. Inr (map fst (take limit (sort_key (\<lambda>g. - int (unat (snd g))) games)))))"

subsection \<open>Users, places, groups, games, audits\<close>

definition insert_json :: "bool \<Rightarrow> u64 \<Rightarrow> 'j \<Rightarrow> (u64, 'j) table \<Rightarrow> (db_error + unit) \<times> (u64, 'j) table" where
  "insert_json flt ident val t = (if flt then (Inl TxnFailed, t) else (Inr (), tbl_insert ident val t))"

definition get_json :: "bool \<Rightarrow> (u64, 'j) table \<Rightarrow> u64 \<Rightarrow> db_error + 'j option" where
  "get_json flt t ident = (if flt then Inl TxnFailed else Inr (tbl_get t ident))"

definition list_json :: "bool \<Rightarrow> (u64, 'j) table \<Rightarrow> db_error + 'j list" where
  "list_json flt t = (if flt then Inl TxnFailed else Inr (map snd t))"

definition delete_json :: "bool \<Rightarrow> u64 \<Rightarrow> (u64, 'j) table \<Rightarrow> (db_error + bool) \<times> (u64, 'j) table" where
  "delete_json flt ident t =
     (if flt then (Inl TxnFailed, t) else (Inr (tbl_get t ident \<noteq> None), tbl_remove ident t))"

definition get_from_json :: "('j \<Rightarrow> 'a option) \<Rightarrow> bool \<Rightarrow> (u64, 'j) table \<Rightarrow> u64 \<Rightarrow> db_error + 'a option" where
  "get_from_json dec flt t ident =
     res_bind (get_json flt t ident) (\<lambda>r. case r of
       None \<Rightarrow> Inr None
     | Some text \<Rightarrow> res_bind (db_decode dec text) (\<lambda>x. Inr (Some x)))"

definition list_from_json :: "('j \<Rightarrow> 'a option) \<Rightarrow> bool \<Rightarrow> (u64, 'j) table \<Rightarrow> db_error + 'a list" where
  "list_from_json dec flt t = res_bind (list_json flt t) (res_map (db_decode dec))"

definition insert_user :: "'j serde \<Rightarrow> bool \<Rightarrow> user_record \<Rightarrow> ('j, unit) db_op" where
  "insert_user cd flt u st =
     (case insert_json flt (ur_id u) (enc_user cd u) (db_users st) of (r, t) \<Rightarrow> (r, st\<lparr>db_users := t\<rparr>))"
definition get_user :: "'j serde \<Rightarrow> bool \<Rightarrow> 'j store \<Rightarrow> u64 \<Rightarrow> db_error + user_record option" where
  "get_user cd flt st = get_from_json (dec_user cd) flt (db_users st)"
definition list_users :: "'j serde \<Rightarrow> bool \<Rightarrow> 'j store \<Rightarrow> db_error + user_record list" where
  "list_users cd flt st = list_from_json (dec_user cd) flt (db_users st)"
definition delete_user :: "bool \<Rightarrow> u64 \<Rightarrow> ('j, bool) db_op" where
  "delete_user flt ident st = (case delete_json flt ident (db_users st) of (r, t) \<Rightarrow> (r, st\<lparr>db_users := t\<rparr>))"

definition insert_place :: "'j serde \<Rightarrow> bool \<Rightarrow> place_record \<Rightarrow> ('j, unit) db_op" where
  "insert_place cd flt p st =
     (case insert_json flt (pr_id p) (enc_place cd p) (db_places st) of (r, t) \<Rightarrow> (r, st\<lparr>db_places := t\<rparr>))"
definition get_place :: "'j serde \<Rightarrow> bool \<Rightarrow> 'j store \<Rightarrow> u64 \<Rightarrow> db_error + place_record option" where
  "get_place cd flt st = get_from_json (dec_place cd) flt (db_places st)"
definition list_places :: "'j serde \<Rightarrow> bool \<Rightarrow> 'j store \<Rightarrow> db_error + place_record list" where
  "list_places cd flt st = list_from_json (dec_place cd) flt (db_places st)"
definition delete_place :: "bool \<Rightarrow> u64 \<Rightarrow> ('j, bool) db_op" where
  "delete_place flt ident st = (case delete_json flt ident (db_places st) of (r, t) \<Rightarrow> (r, st\<lparr>db_places := t\<rparr>))"

definition insert_group :: "'j serde \<Rightarrow> bool \<Rightarrow> group_record \<Rightarrow> ('j, unit) db_op" where
  "insert_group cd flt g st =
     (case insert_json flt (gr_id g) (enc_group cd g) (db_groups st) of (r, t) \<Rightarrow> (r, st\<lparr>db_groups := t\<rparr>))"
definition get_group :: "'j serde \<Rightarrow> bool \<Rightarrow> 'j store \<Rightarrow> u64 \<Rightarrow> db_error + group_record option" where
  "get_group cd flt st = get_from_json (dec_group cd) flt (db_groups st)"
definition list_groups :: "'j serde \<Rightarrow> bool \<Rightarrow> 'j store \<Rightarrow> db_error + group_record list" where
  "list_groups cd flt st = list_from_json (dec_group cd) flt (db_groups st)"
definition delete_group :: "bool \<Rightarrow> u64 \<Rightarrow> ('j, bool) db_op" where
  "delete_group flt ident st = (case delete_json flt ident (db_groups st) of (r, t) \<Rightarrow> (r, st\<lparr>db_groups := t\<rparr>))"

definition insert_game :: "'j serde \<Rightarrow> bool \<Rightarrow> game_record \<Rightarrow> ('j, unit) db_op" where
  "insert_game cd flt g st =
     (case insert_json flt (gm_id g) (enc_game cd g) (db_games st) of (r, t) \<Rightarrow> (r, st\<lparr>db_games := t\<rparr>))"
definition get_game :: "'j serde \<Rightarrow> bool \<Rightarrow> 'j store \<Rightarrow> u64 \<Rightarrow> db_error + game_record option" where
  "get_game cd flt st = get_from_json (dec_game cd) flt (db_games st)"
definition list_games :: "'j serde \<Rightarrow> bool \<Rightarrow> 'j store \<Rightarrow> db_error + game_record list" where
  "list_games cd flt st = list_from_json (dec_game cd) flt (db_games st)"
definition delete_game :: "bool \<Rightarrow> u64 \<Rightarrow> ('j, bool) db_op" where
  "delete_game flt ident st = (case delete_json flt ident (db_games st) of (r, t) \<Rightarrow> (r, st\<lparr>db_games := t\<rparr>))"

definition add_audit :: "'j serde \<Rightarrow> bool \<Rightarrow> bool \<Rightarrow> u64 \<Rightarrow> string \<Rightarrow> audit_action \<Rightarrow> ('j, u64) db_op" where
  "add_audit cd flt1 flt2 now_ms actor action st =
     (case next_id flt1 NEXT_AUDIT_ID st of
        (Inl e, st1) \<Rightarrow> (Inl e, st1)
      | (Inr ident, st1) \<Rightarrow>
          let r = \<lparr>au_id = ident, au_time_ms = now_ms, au_actor = actor, au_action = action\<rparr> in
          (case insert_json flt2 ident (enc_audit cd r) (db_audits st1) of
             (Inl e, t) \<Rightarrow> (Inl e, st1\<lparr>db_audits := t\<rparr>)
           | (Inr _, t) \<Rightarrow> (Inr ident, st1\<lparr>db_audits := t\<rparr>)))"

definition list_audits :: "'j serde \<Rightarrow> bool \<Rightarrow> 'j store \<Rightarrow> db_error + audit_record list" where
  "list_audits cd flt st = list_from_json (dec_audit cd) flt (db_audits st)"

subsection \<open>Versions\<close>

definition save_version :: "'j serde \<Rightarrow> bool \<Rightarrow> u64 \<Rightarrow> u64 \<Rightarrow> bytes \<Rightarrow> ('j, unit) db_op" where
  "save_version cd flt game_id version manifest st =
     (let k = version_key game_id version; val = enc_bytes cd manifest in
      if flt then (Inl TxnFailed, st)
      else (Inr (), st\<lparr>db_versions := tbl_insert k val (db_versions st)\<rparr>))"

definition get_version :: "'j serde \<Rightarrow> bool \<Rightarrow> 'j store \<Rightarrow> u64 \<Rightarrow> u64 \<Rightarrow> db_error + bytes option" where
  "get_version cd flt st game_id version =
     (if flt then Inl TxnFailed
      else case tbl_get (db_versions st) (version_key game_id version) of
        None \<Rightarrow> Inr None
      | Some text \<Rightarrow> res_bind (db_decode (dec_bytes cd) text) (\<lambda>x. Inr (Some x)))"

definition list_pairs :: "bool \<Rightarrow> (string, 'v) table \<Rightarrow> db_error + (string \<times> 'v) list" where
  "list_pairs flt t = (if flt then Inl TxnFailed else Inr t)"

definition list_versions :: "bool \<Rightarrow> 'j store \<Rightarrow> db_error + (string \<times> 'j) list" where
  "list_versions flt st = list_pairs flt (db_versions st)"
definition list_bindings :: "bool \<Rightarrow> 'j store \<Rightarrow> db_error + (string \<times> u64) list" where
  "list_bindings flt st = list_pairs flt (db_bindings st)"
definition list_chunks :: "bool \<Rightarrow> 'j store \<Rightarrow> db_error + (string \<times> 'j) list" where
  "list_chunks flt st = list_pairs flt (db_chunks st)"
definition list_heat :: "bool \<Rightarrow> 'j store \<Rightarrow> db_error + (string \<times> u64) list" where
  "list_heat flt st = list_pairs flt (db_heat st)"
definition list_counters :: "bool \<Rightarrow> 'j store \<Rightarrow> db_error + (string \<times> u64) list" where
  "list_counters flt st = list_pairs flt (db_counters st)"

text \<open>The backup reads the tables in the order of the snapshot's fields, then writes one file.\<close>

record 'j snapshot =
  sn_nodes :: "node_record list"
  sn_tasks :: "task_record list"
  sn_users :: "user_record list"
  sn_places :: "place_record list"
  sn_groups :: "group_record list"
  sn_bindings :: "(string \<times> u64) list"
  sn_games :: "game_record list"
  sn_versions :: "(string \<times> 'j) list"
  sn_chunks :: "(string \<times> 'j) list"
  sn_heat :: "(string \<times> u64) list"
  sn_counters :: "(string \<times> u64) list"
  sn_audits :: "audit_record list"

definition snapshot_of :: "'j serde \<Rightarrow> (nat \<Rightarrow> bool) \<Rightarrow> 'j store \<Rightarrow> db_error + 'j snapshot" where
  "snapshot_of cd flt st =
     res_bind (list_nodes cd (flt 0) st) (\<lambda>nodes. res_bind (list_tasks cd (flt 1) st) (\<lambda>tasks.
     res_bind (list_users cd (flt 2) st) (\<lambda>users. res_bind (list_places cd (flt 3) st) (\<lambda>places.
     res_bind (list_groups cd (flt 4) st) (\<lambda>groups. res_bind (list_bindings (flt 5) st) (\<lambda>bindings.
     res_bind (list_games cd (flt 6) st) (\<lambda>games. res_bind (list_versions (flt 7) st) (\<lambda>versions.
     res_bind (list_chunks (flt 8) st) (\<lambda>chunks. res_bind (list_heat (flt 9) st) (\<lambda>heat.
     res_bind (list_counters (flt 10) st) (\<lambda>counters. res_bind (list_audits cd (flt 11) st) (\<lambda>audits.
       Inr \<lparr>sn_nodes = nodes, sn_tasks = tasks, sn_users = users, sn_places = places, sn_groups = groups,
            sn_bindings = bindings, sn_games = games, sn_versions = versions, sn_chunks = chunks,
            sn_heat = heat, sn_counters = counters, sn_audits = audits\<rparr>))))))))))))"

definition backup_to ::
    "'j serde \<Rightarrow> bool \<Rightarrow> bool \<Rightarrow> (nat \<Rightarrow> bool) \<Rightarrow> u64 \<Rightarrow> 'j store \<Rightarrow> db_error + string \<times> 'j snapshot" where
  "backup_to cd dir_ok write_ok flt timestamp st =
     (if \<not> dir_ok then Inl TxnFailed
      else res_bind (snapshot_of cd flt st) (\<lambda>snap.
        if \<not> write_ok then Inl TxnFailed
        else Inr (''scheduler-'' @ show_u64 timestamp @ ''.json'', snap)))"

subsection \<open>Bindings\<close>

definition bind_ids :: "bool \<Rightarrow> string \<Rightarrow> u64 \<Rightarrow> u64 \<Rightarrow> ('j, unit) db_op" where
  "bind_ids flt kind a b st =
     (let k = binding_key kind a b in
      if flt then (Inl TxnFailed, st)
      else (Inr (), st\<lparr>db_bindings := tbl_insert k 1 (db_bindings st)\<rparr>))"

definition binding_ids :: "bool \<Rightarrow> 'j store \<Rightarrow> string \<Rightarrow> u64 \<Rightarrow> db_error + u64 list" where
  "binding_ids flt st kind a =
     (let pre = kind @ ''/'' @ show_u64 a @ ''/'' in
      if flt then Inl TxnFailed
      else Inr (List.map_filter
        (\<lambda>(k, _). case strip_prefix pre k of None \<Rightarrow> None | Some rest \<Rightarrow> parse_u64 rest) (db_bindings st)))"

text \<open>The inner loop over the groups; transaction \<open>i\<close> reads the \<open>i\<close>-th group's places.\<close>

fun group_places :: "(nat \<Rightarrow> bool) \<Rightarrow> 'j store \<Rightarrow> u64 list \<Rightarrow> db_error + u64 list" where
  "group_places flt st [] = Inr []"
| "group_places flt st (g # gs) =
     res_bind (binding_ids (flt 0) st BIND_GP g) (\<lambda>ps.
     res_bind (group_places (\<lambda>i. flt (Suc i)) st gs) (\<lambda>qs. Inr (ps @ qs)))"

definition places_of_user :: "(nat \<Rightarrow> bool) \<Rightarrow> 'j store \<Rightarrow> u64 \<Rightarrow> db_error + u64 list" where
  "places_of_user flt st user_id =
     res_bind (binding_ids (flt 0) st BIND_UP user_id) (\<lambda>direct.
     res_bind (binding_ids (flt 1) st BIND_UG user_id) (\<lambda>groups.
     res_bind (group_places (\<lambda>i. flt (i + 2)) st groups) (\<lambda>via.
       Inr (sort (remdups (direct @ via))))))"

section \<open>Keys\<close>

lemma chunk_key_inject [simp]: "chunk_key g h = chunk_key g' h' \<longleftrightarrow> g = g' \<and> h = h'"
  by (simp add: chunk_key_def)

lemma split_at_char:
  "c \<notin> set xs \<Longrightarrow> c \<notin> set xs' \<Longrightarrow> xs @ c # ys = xs' @ c # ys' \<longleftrightarrow> xs = xs' \<and> ys = ys'"
proof (induction xs arbitrary: xs')
  case Nil
  then show ?case by (cases xs') auto
next
  case (Cons x xs)
  then show ?case by (cases xs') auto
qed

lemma show_u64_no: "\<not> is_digit c \<Longrightarrow> c \<notin> set (show_u64 w)"
  using show_u64_digits by blast

lemma separators: "\<not> is_digit CHR '':''" "\<not> is_digit CHR ''/''"
  by (simp_all add: is_digit_def)

lemma version_key_inject [simp]: "version_key g v = version_key g' v' \<longleftrightarrow> g = g' \<and> v = v'"
  using split_at_char [of "CHR '':''" "show_u64 g" "show_u64 g'" "show_u64 v" "show_u64 v'"]
  by (simp add: version_key_def show_u64_no separators)

definition bind_kinds :: "string list" where
  "bind_kinds = [BIND_UP, BIND_UG, BIND_GP]"

lemma bind_kinds_mem [simp]: "BIND_UP \<in> set bind_kinds" "BIND_UG \<in> set bind_kinds" "BIND_GP \<in> set bind_kinds"
  by (simp_all add: bind_kinds_def)

lemma bind_kinds_no_slash: "kind \<in> set bind_kinds \<Longrightarrow> CHR ''/'' \<notin> set kind"
  by (auto simp: bind_kinds_def BIND_UP_def BIND_UG_def BIND_GP_def)

lemma binding_key_prefix:
  assumes "CHR ''/'' \<notin> set kind" "CHR ''/'' \<notin> set kind'"
  shows "binding_key kind' a' b' = (kind @ ''/'' @ show_u64 a @ ''/'') @ rest \<longleftrightarrow>
    kind' = kind \<and> a' = a \<and> rest = show_u64 b'"
  using split_at_char [OF assms(2,1), of "show_u64 a' @ ''/'' @ show_u64 b'" "show_u64 a @ ''/'' @ rest"]
    split_at_char [of "CHR ''/''" "show_u64 a'" "show_u64 a" "show_u64 b'" rest]
  by (auto simp: binding_key_def show_u64_no separators)

lemma binding_key_inject:
  assumes "CHR ''/'' \<notin> set kind" "CHR ''/'' \<notin> set kind'"
  shows "binding_key kind a b = binding_key kind' a' b' \<longleftrightarrow> kind = kind' \<and> a = a' \<and> b = b'"
  using binding_key_prefix [OF assms(2,1), of a b a' "show_u64 b'"] by (auto simp: binding_key_def)

section \<open>Invariant\<close>

definition ctr :: "'j store \<Rightarrow> string \<Rightarrow> u64" where
  "ctr st c = (case tbl_get (db_counters st) c of None \<Rightarrow> 0 | Some v \<Rightarrow> v)"

definition ids_below :: "u64 \<Rightarrow> (u64, 'j) table \<Rightarrow> bool" where
  "ids_below n t \<longleftrightarrow> list_all (\<lambda>e. fst e \<le> n) t"

definition decodes :: "('j \<Rightarrow> 'a option) \<Rightarrow> ('a \<Rightarrow> u64) \<Rightarrow> (u64, 'j) table \<Rightarrow> bool" where
  "decodes dec key t \<longleftrightarrow> list_all (\<lambda>(k, j). case dec j of None \<Rightarrow> False | Some x \<Rightarrow> key x = k) t"

definition tables_ok :: "'j store \<Rightarrow> bool" where
  "tables_ok st \<longleftrightarrow> tbl_ok (db_nodes st) \<and> tbl_ok (db_tasks st) \<and> tbl_ok (db_counters st) \<and> tbl_ok (db_chunks st) \<and>
     tbl_ok (db_heat st) \<and> tbl_ok (db_users st) \<and> tbl_ok (db_places st) \<and> tbl_ok (db_groups st) \<and>
     tbl_ok (db_bindings st) \<and> tbl_ok (db_games st) \<and> tbl_ok (db_versions st) \<and> tbl_ok (db_audits st)"

definition records_ok :: "'j serde \<Rightarrow> 'j store \<Rightarrow> bool" where
  "records_ok cd st \<longleftrightarrow> decodes (dec_node cd) nd_id (db_nodes st) \<and> decodes (dec_task cd) tk_id (db_tasks st) \<and>
     decodes (dec_user cd) ur_id (db_users st) \<and> decodes (dec_place cd) pr_id (db_places st) \<and>
     decodes (dec_group cd) gr_id (db_groups st) \<and> decodes (dec_game cd) gm_id (db_games st) \<and>
     decodes (dec_audit cd) au_id (db_audits st)"

definition ids_ok :: "'j store \<Rightarrow> bool" where
  "ids_ok st \<longleftrightarrow> ids_below (ctr st NEXT_NODE_ID) (db_nodes st) \<and> ids_below (ctr st NEXT_TASK_ID) (db_tasks st) \<and>
     ids_below (ctr st NEXT_USER_ID) (db_users st) \<and> ids_below (ctr st NEXT_PLACE_ID) (db_places st) \<and>
     ids_below (ctr st NEXT_GROUP_ID) (db_groups st) \<and> ids_below (ctr st NEXT_AUDIT_ID) (db_audits st)"

definition ledger_ok :: "'j serde \<Rightarrow> 'j store \<Rightarrow> bool" where
  "ledger_ok cd st \<longleftrightarrow> list_all (\<lambda>(k, j). case dec_ids cd j of None \<Rightarrow> False | Some ids \<Rightarrow> distinct ids \<and> ids \<noteq> []) (db_chunks st)"

definition versions_ok :: "'j serde \<Rightarrow> 'j store \<Rightarrow> bool" where
  "versions_ok cd st \<longleftrightarrow> list_all (\<lambda>(k, j). dec_bytes cd j \<noteq> None) (db_versions st)"

definition is_binding_key :: "string \<Rightarrow> bool" where
  "is_binding_key k \<longleftrightarrow> (\<exists>kind a b. kind \<in> set bind_kinds \<and> k = binding_key kind a b)"

definition bindings_ok :: "'j store \<Rightarrow> bool" where
  "bindings_ok st \<longleftrightarrow> list_all (\<lambda>e. is_binding_key (fst e)) (db_bindings st)"

definition db_ok :: "'j serde \<Rightarrow> 'j store \<Rightarrow> bool" where
  "db_ok cd st \<longleftrightarrow> tables_ok st \<and> records_ok cd st \<and> ids_ok st \<and> ledger_ok cd st \<and> versions_ok cd st \<and> bindings_ok st"

lemma db_ok_empty: "db_ok cd ensure_tables"
  by (simp add: db_ok_def tables_ok_def records_ok_def ids_ok_def ledger_ok_def versions_ok_def bindings_ok_def
      ensure_tables_def tbl_ok_simps decodes_def ids_below_def)

lemmas db_ok_defs = db_ok_def tables_ok_def records_ok_def ids_ok_def ledger_ok_def versions_ok_def bindings_ok_def

lemma decodes_insert:
  "tbl_ok t \<Longrightarrow> decodes dec key t \<Longrightarrow> dec j = Some x \<Longrightarrow> key x = k \<Longrightarrow> decodes dec key (tbl_insert k j t)"
  by (auto simp: decodes_def list_all_iff tbl_simps)

lemma ids_below_insert: "tbl_ok t \<Longrightarrow> ids_below n t \<Longrightarrow> k \<le> n \<Longrightarrow> ids_below n (tbl_insert k j t)"
  by (auto simp: ids_below_def list_all_iff tbl_simps)

lemma ids_below_mono: "ids_below m t \<Longrightarrow> m \<le> n \<Longrightarrow> ids_below n t"
  by (auto simp: ids_below_def list_all_iff)

lemma decodes_remove: "decodes dec key t \<Longrightarrow> decodes dec key (tbl_remove k t)"
  by (auto simp: decodes_def list_all_iff tbl_remove_def)

lemma ids_below_remove: "ids_below n t \<Longrightarrow> ids_below n (tbl_remove k t)"
  by (auto simp: ids_below_def list_all_iff tbl_remove_def)

lemma decodes_get:
  "tbl_ok t \<Longrightarrow> decodes dec key t \<Longrightarrow> tbl_get t k = Some j \<Longrightarrow> \<exists>x. dec j = Some x \<and> key x = k"
  by (fastforce simp: decodes_def list_all_iff tbl_get_iff split: option.splits)

lemma list_decoded_Inr:
  "decodes dec key t \<Longrightarrow> list_decoded dec False t = Inr (map (\<lambda>e. the (dec (snd e))) t)"
  unfolding list_decoded_def
  by (auto intro!: res_map_Inr simp: decodes_def list_all_iff db_decode_def split: option.splits)

section \<open>Identifier allocation\<close>

lemma ctr_next_id:
  assumes "tbl_ok (db_counters st)" "next_id flt c st = (Inr n, st')"
  shows "n = ctr st c + 1 \<and> ctr st' c' = (if c' = c then n else ctr st c') \<and>
    (\<exists>t. st' = st\<lparr>db_counters := t\<rparr> \<and> tbl_ok t)"
proof -
  let ?t = "tbl_insert c (ctr st c + 1) (db_counters st)"
  have "n = ctr st c + 1" "st' = st\<lparr>db_counters := ?t\<rparr>"
    using assms(2) by (auto simp: next_id_def ctr_def Let_def split: if_splits option.splits)
  moreover have "tbl_ok ?t" using assms(1) by (simp add: tbl_simps)
  moreover have "ctr (st\<lparr>db_counters := ?t\<rparr>) c' = (if c' = c then ctr st c + 1 else ctr st c')"
    using assms(1) by (simp add: ctr_def tbl_simps)
  ultimately show ?thesis by blast
qed

lemma next_id_error: "next_id flt c st = (Inl e, st') \<Longrightarrow> st' = st"
  by (auto simp: next_id_def Let_def split: if_splits)

lemma word_le_Suc: "c < -1 \<Longrightarrow> (c :: u64) \<le> c + 1 \<and> c < c + 1"
  by unat_arith

lemma zero_less_max [simp]: "(0 :: u64) < -1"
  by code_simp

lemma counters_differ:
  "NEXT_NODE_ID \<noteq> NEXT_TASK_ID" "NEXT_NODE_ID \<noteq> NEXT_USER_ID" "NEXT_NODE_ID \<noteq> NEXT_PLACE_ID"
  "NEXT_NODE_ID \<noteq> NEXT_GROUP_ID" "NEXT_NODE_ID \<noteq> NEXT_GAME_ID" "NEXT_NODE_ID \<noteq> NEXT_AUDIT_ID"
  by (simp_all add: NEXT_NODE_ID_def NEXT_TASK_ID_def NEXT_USER_ID_def NEXT_PLACE_ID_def NEXT_GROUP_ID_def
      NEXT_GAME_ID_def NEXT_AUDIT_ID_def)

text \<open>Allocating keeps the invariant as long as the counter has not reached its last value.\<close>

lemma next_id_ok:
  assumes "db_ok cd st" "next_id flt c st = (r, st')" "ctr st c < -1"
  shows "db_ok cd st'"
proof (cases r)
  case (Inl e)
  with next_id_error [of flt c st e st'] assms show ?thesis by simp
next
  case (Inr n)
  have "tbl_ok (db_counters st)" using assms(1) by (simp add: db_ok_def tables_ok_def)
  note n = ctr_next_id [OF this assms(2) [unfolded Inr]]
  have grow: "ctr st c' \<le> ctr st' c'" for c'
    using n word_le_Suc [OF assms(3)] by simp
  from n obtain t where t: "st' = st\<lparr>db_counters := t\<rparr>" "tbl_ok t" by blast
  have "ids_ok st" using assms(1) by (simp add: db_ok_def)
  then have "ids_ok st'"
    unfolding ids_ok_def t(1) using grow [unfolded t(1)] by (auto intro: ids_below_mono)
  with assms(1) t show ?thesis
    by (simp add: db_ok_def tables_ok_def records_ok_def ledger_ok_def versions_ok_def bindings_ok_def)
qed

text \<open>A fresh identifier is the key of no record.\<close>

lemma fresh_id:
  "ids_below c t \<Longrightarrow> c < -1 \<Longrightarrow> tbl_get t (c + 1 :: u64) = None"
  using word_le_Suc [of c] by (auto simp: ids_below_def list_all_iff tbl_get_None image_iff not_le)

section \<open>Operations keep the invariant\<close>

lemma ctr_update [simp]:
  "ctr (st\<lparr>db_nodes := a\<rparr>) c = ctr st c" "ctr (st\<lparr>db_tasks := a\<rparr>) c = ctr st c"
  "ctr (st\<lparr>db_chunks := b\<rparr>) c = ctr st c" "ctr (st\<lparr>db_heat := h\<rparr>) c = ctr st c"
  "ctr (st\<lparr>db_users := a\<rparr>) c = ctr st c" "ctr (st\<lparr>db_places := a\<rparr>) c = ctr st c"
  "ctr (st\<lparr>db_groups := a\<rparr>) c = ctr st c" "ctr (st\<lparr>db_bindings := h\<rparr>) c = ctr st c"
  "ctr (st\<lparr>db_games := a\<rparr>) c = ctr st c" "ctr (st\<lparr>db_versions := b\<rparr>) c = ctr st c"
  "ctr (st\<lparr>db_audits := a\<rparr>) c = ctr st c"
  by (simp_all add: ctr_def)

lemma insert_node_ok [inv_intros]:
  assumes "serde_ok cd" "db_ok cd st" "nd_id n \<le> ctr st NEXT_NODE_ID" "insert_node cd flt n st = (r, st')"
  shows "db_ok cd st'"
  using assms decodes_insert [of "db_nodes st" "dec_node cd" nd_id "enc_node cd n" n "nd_id n"]
    ids_below_insert [of "db_nodes st" "ctr st NEXT_NODE_ID" "nd_id n" "enc_node cd n"]
  by (auto simp: insert_node_def db_ok_defs serde_ok_def tbl_simps Let_def split: if_splits)

lemma insert_task_ok [inv_intros]:
  assumes "serde_ok cd" "db_ok cd st" "tk_id n \<le> ctr st NEXT_TASK_ID" "insert_task cd flt n st = (r, st')"
  shows "db_ok cd st'"
  using assms decodes_insert [of "db_tasks st" "dec_task cd" tk_id "enc_task cd n" n "tk_id n"]
    ids_below_insert [of "db_tasks st" "ctr st NEXT_TASK_ID" "tk_id n" "enc_task cd n"]
  by (auto simp: insert_task_def db_ok_defs serde_ok_def tbl_simps Let_def split: if_splits)

lemma insert_game_ok [inv_intros]:
  assumes "serde_ok cd" "db_ok cd st" "insert_game cd flt n st = (r, st')"
  shows "db_ok cd st'"
  using assms decodes_insert [of "db_games st" "dec_game cd" gm_id "enc_game cd n" n "gm_id n"]
  by (auto simp: insert_game_def insert_json_def db_ok_defs serde_ok_def tbl_simps split: if_splits)

lemma save_version_ok [inv_intros]:
  assumes "serde_ok cd" "db_ok cd st" "save_version cd flt g v m st = (r, st')"
  shows "db_ok cd st'"
  using assms
  by (auto simp: save_version_def db_ok_defs serde_ok_def tbl_simps list_all_iff Let_def split: if_splits)

lemma bind_ids_ok [inv_intros]:
  assumes "db_ok cd st" "kind \<in> set bind_kinds" "bind_ids flt kind a b st = (r, st')"
  shows "db_ok cd st'"
proof -
  have "is_binding_key (binding_key kind a b)" using assms(2) by (auto simp: is_binding_key_def)
  with assms show ?thesis
    by (auto simp: bind_ids_def db_ok_defs tbl_simps Let_def list_all_iff split: if_splits)
qed

lemma update_task_status_ok [inv_intros]:
  assumes "serde_ok cd" "db_ok cd st" "update_task_status cd flt i s e st = (r, st')"
  shows "db_ok cd st'"
proof (cases "st' = st")
  case False
  let ?t = "db_tasks st"
  have t: "tbl_ok ?t" "decodes (dec_task cd) tk_id ?t" "ids_below (ctr st NEXT_TASK_ID) ?t"
    using assms(2) by (simp_all add: db_ok_defs)
  from False assms(3) obtain js task where get: "tbl_get ?t i = Some js" and dec: "dec_task cd js = Some task"
    and st': "st' = st\<lparr>db_tasks := tbl_insert i (enc_task cd (task\<lparr>tk_status := s, tk_error := e\<rparr>)) ?t\<rparr>"
    by (auto simp: update_task_status_def db_decode_def split: if_splits option.splits)
  have i: "tk_id task = i" "i \<le> ctr st NEXT_TASK_ID"
    using decodes_get [OF t(1,2) get] dec t get by (auto simp: ids_below_def list_all_iff tbl_get_iff)
  show ?thesis
    unfolding st' using assms(1,2) t i
      decodes_insert [OF t(1,2), of "enc_task cd (task\<lparr>tk_status := s, tk_error := e\<rparr>)" "task\<lparr>tk_status := s, tk_error := e\<rparr>" i]
      ids_below_insert [OF t(1,3) i(2), of "enc_task cd (task\<lparr>tk_status := s, tk_error := e\<rparr>)"]
    by (simp add: db_ok_defs serde_ok_def tbl_ok_insert)
qed (use assms in simp)

section \<open>The chunk ledger\<close>

text \<open>The abstract ledger: the nodes that hold a chunk, in the order of their reports.\<close>

definition holders :: "'j serde \<Rightarrow> 'j store \<Rightarrow> u64 \<Rightarrow> bytes \<Rightarrow> u64 list" where
  "holders cd st g h = (case tbl_get (db_chunks st) (chunk_key g h) of
     None \<Rightarrow> [] | Some text \<Rightarrow> (case dec_ids cd text of None \<Rightarrow> [] | Some ids \<Rightarrow> ids))"

lemma ledger_get:
  assumes "db_ok cd st" "tbl_get (db_chunks st) k = Some j"
  shows "\<exists>ids. dec_ids cd j = Some ids \<and> distinct ids \<and> ids \<noteq> []"
  using assms by (fastforce simp: db_ok_defs list_all_iff tbl_get_iff split: option.splits)

lemma chunk_holders_eq: "db_ok cd st \<Longrightarrow> chunk_holders cd False st g h = Inr (holders cd st g h)"
  using ledger_get by (fastforce simp: chunk_holders_def holders_def db_decode_def split: option.splits)

lemma holders_distinct: "db_ok cd st \<Longrightarrow> distinct (holders cd st g h)"
  using ledger_get by (fastforce simp: holders_def split: option.splits)

lemma record_chunk_holder_eq:
  "record_chunk_holder cd False n g h st =
     (if n \<notin> set (holders cd st g h)
      then (Inr (), st\<lparr>db_chunks := tbl_insert (chunk_key g h) (enc_ids cd (holders cd st g h @ [n])) (db_chunks st)\<rparr>)
      else (Inr (), st))"
  by (simp only: record_chunk_holder_def holders_def Let_def if_False)

lemma holders_insert:
  "serde_ok cd \<Longrightarrow> tbl_ok (db_chunks st) \<Longrightarrow>
     holders cd (st\<lparr>db_chunks := tbl_insert (chunk_key g h) (enc_ids cd ids) (db_chunks st)\<rparr>) g' h' =
       (if g' = g \<and> h' = h then ids else holders cd st g' h')"
  by (simp add: holders_def tbl_simps serde_ok_def)

lemma record_chunk_holder_spec:
  assumes cd: "serde_ok cd" and ok: "db_ok cd st" and run: "record_chunk_holder cd False n g h st = (r, st')"
  shows "r = Inr () \<and> db_ok cd st' \<and>
    holders cd st' g' h' = (if g' = g \<and> h' = h \<and> n \<notin> set (holders cd st g h)
       then holders cd st g h @ [n] else holders cd st g' h')"
proof -
  let ?new = "enc_ids cd (holders cd st g h @ [n])"
  have t: "tbl_ok (db_chunks st)" using ok by (simp add: db_ok_defs)
  show ?thesis
  proof (cases "n \<in> set (holders cd st g h)")
    case True
    with run ok show ?thesis by (auto simp: record_chunk_holder_eq)
  next
    case False
    then have st': "r = Inr ()" "st' = st\<lparr>db_chunks := tbl_insert (chunk_key g h) ?new (db_chunks st)\<rparr>"
      using run by (auto simp: record_chunk_holder_eq)
    have "ledger_ok cd st'"
      using ok cd t False holders_distinct [OF ok, of g h]
      by (auto simp: st' db_ok_defs list_all_iff tbl_simps serde_ok_def)
    then have "db_ok cd st'"
      using ok t by (simp add: st' db_ok_def tables_ok_def records_ok_def ids_ok_def versions_ok_def bindings_ok_def tbl_ok_insert)
    moreover have "holders cd st' g' h' = (if g' = g \<and> h' = h then holders cd st g h @ [n] else holders cd st g' h')"
      using holders_insert [OF cd t] by (simp add: st')
    ultimately show ?thesis using st' False by simp
  qed
qed

section \<open>Bindings\<close>

definition bound :: "'j store \<Rightarrow> string \<Rightarrow> u64 \<Rightarrow> u64 \<Rightarrow> bool" where
  "bound st kind a b \<longleftrightarrow> tbl_get (db_bindings st) (binding_key kind a b) \<noteq> None"

lemma binding_ids_set:
  assumes ok: "db_ok cd st" and kind: "kind \<in> set bind_kinds"
  shows "\<exists>ids. binding_ids False st kind a = Inr ids \<and> set ids = {b. bound st kind a b}"
proof -
  let ?pre = "kind @ ''/'' @ show_u64 a @ ''/''"
  let ?f = "\<lambda>e :: string \<times> u64. case e of (k, _) \<Rightarrow> (case strip_prefix ?pre k of None \<Rightarrow> None | Some rest \<Rightarrow> parse_u64 rest)"
  have f: "?f e = Some b \<longleftrightarrow> fst e = binding_key kind a b" if "e \<in> set (db_bindings st)" for e b
  proof -
    from that ok obtain kind' a' b' where k: "kind' \<in> set bind_kinds" "fst e = binding_key kind' a' b'"
      by (force simp: db_ok_defs list_all_iff is_binding_key_def)
    note ns = bind_kinds_no_slash [OF kind] bind_kinds_no_slash [OF k(1)]
    have "strip_prefix ?pre (fst e) = (if kind' = kind \<and> a' = a then Some (show_u64 b') else None)"
    proof (rule option_eqI)
      fix w
      show "strip_prefix ?pre (fst e) = Some w \<longleftrightarrow> (if kind' = kind \<and> a' = a then Some (show_u64 b') else None) = Some w"
        unfolding strip_prefix_eq k(2) binding_key_prefix [OF ns] by auto
    qed
    then show ?thesis
      using binding_key_inject [OF ns(2,1), of a' b' a b] k(2) by (auto split: prod.splits if_splits)
  qed
  have "set (List.map_filter ?f (db_bindings st)) = {b. \<exists>e \<in> set (db_bindings st). fst e = binding_key kind a b}"
    using f by (force simp: List.map_filter_def image_iff)
  also have "\<dots> = {b. bound st kind a b}"
    by (auto simp: bound_def tbl_get_None image_iff) (metis fst_conv)+
  finally show ?thesis by (simp add: binding_ids_def Let_def)
qed

lemma group_places_set:
  assumes ok: "db_ok cd st" and flt: "\<And>i. \<not> flt i"
  shows "\<exists>ps. group_places flt st gs = Inr ps \<and> set ps = {p. \<exists>g \<in> set gs. bound st BIND_GP g p}"
  using flt
proof (induction gs arbitrary: flt)
  case (Cons g gs)
  obtain ps where "binding_ids False st BIND_GP g = Inr ps" "set ps = {b. bound st BIND_GP g b}"
    using binding_ids_set [OF ok bind_kinds_mem(3)] by blast
  moreover obtain qs where "group_places (\<lambda>i. flt (Suc i)) st gs = Inr qs" "set qs = {p. \<exists>g \<in> set gs. bound st BIND_GP g p}"
    using Cons.IH [of "\<lambda>i. flt (Suc i)"] Cons.prems by auto
  ultimately show ?case using Cons.prems by auto
qed simp

text \<open>
  Visible places. With no failing transaction, \<open>places_of_user\<close> lists, in ascending order
  and each once, exactly the places bound to the user directly or bound to a group the user is
  bound to, whatever other bindings share the table. The text keys do not confuse identifiers:
  a binding of user 1 is never read as one of user 12.
\<close>

theorem places_of_user_exact:
  assumes "db_ok cd st" and "\<And>i. \<not> flt i"
  shows "places_of_user flt st u =
    Inr (sorted_list_of_set {p. bound st BIND_UP u p \<or> (\<exists>g. bound st BIND_UG u g \<and> bound st BIND_GP g p)})"
proof -
  obtain ds where d: "binding_ids False st BIND_UP u = Inr ds" "set ds = {b. bound st BIND_UP u b}"
    using binding_ids_set [OF assms(1) bind_kinds_mem(1)] by blast
  obtain gs where g: "binding_ids False st BIND_UG u = Inr gs" "set gs = {b. bound st BIND_UG u b}"
    using binding_ids_set [OF assms(1) bind_kinds_mem(2)] by blast
  obtain ps where p: "group_places (\<lambda>i. flt (i + 2)) st gs = Inr ps" "set ps = {p. \<exists>g \<in> set gs. bound st BIND_GP g p}"
    using group_places_set [OF assms(1), of "\<lambda>i. flt (i + 2)"] assms(2) by blast
  have "places_of_user flt st u = Inr (sort (remdups (ds @ ps)))"
    using d g p assms(2) by (simp add: places_of_user_def)
  also have "sort (remdups (ds @ ps)) = sorted_list_of_set (set (ds @ ps))"
    by (rule sorted_list_of_set_sort_remdups [symmetric])
  also have "set (ds @ ps) = {p. bound st BIND_UP u p \<or> (\<exists>g. bound st BIND_UG u g \<and> bound st BIND_GP g p)}"
    using d g p by auto
  finally show ?thesis .
qed

text \<open>A JSON type for concrete runs: one constructor per record type.\<close>

datatype json =
    JNode node_record | JTask task_record | JUser user_record | JPlace place_record | JGroup group_record
  | JGame game_record | JAudit audit_record | JIds "u64 list" | JBytes bytes

definition json_serde :: "json serde" where
  "json_serde = \<lparr>
     enc_node = JNode, dec_node = (\<lambda>j. case j of JNode x \<Rightarrow> Some x | _ \<Rightarrow> None),
     enc_task = JTask, dec_task = (\<lambda>j. case j of JTask x \<Rightarrow> Some x | _ \<Rightarrow> None),
     enc_user = JUser, dec_user = (\<lambda>j. case j of JUser x \<Rightarrow> Some x | _ \<Rightarrow> None),
     enc_place = JPlace, dec_place = (\<lambda>j. case j of JPlace x \<Rightarrow> Some x | _ \<Rightarrow> None),
     enc_group = JGroup, dec_group = (\<lambda>j. case j of JGroup x \<Rightarrow> Some x | _ \<Rightarrow> None),
     enc_game = JGame, dec_game = (\<lambda>j. case j of JGame x \<Rightarrow> Some x | _ \<Rightarrow> None),
     enc_audit = JAudit, dec_audit = (\<lambda>j. case j of JAudit x \<Rightarrow> Some x | _ \<Rightarrow> None),
     enc_ids = JIds, dec_ids = (\<lambda>j. case j of JIds x \<Rightarrow> Some x | _ \<Rightarrow> None),
     enc_bytes = JBytes, dec_bytes = (\<lambda>j. case j of JBytes x \<Rightarrow> Some x | _ \<Rightarrow> None)\<rparr>"

lemma json_serde_ok: "serde_ok json_serde"
  by (simp add: serde_ok_def json_serde_def)

theorem places_of_user_exact_witness:
  "\<exists>st. bind_ids False BIND_UP 1 7 (ensure_tables :: json store) = (Inr (), st) \<and>
     places_of_user (\<lambda>i. False) st 1 =
       Inr (sorted_list_of_set {p. bound st BIND_UP 1 p \<or> (\<exists>g. bound st BIND_UG 1 g \<and> bound st BIND_GP g p)})"
proof -
  obtain st where run: "bind_ids False BIND_UP 1 7 (ensure_tables :: json store) = (Inr (), st)"
    by (simp add: bind_ids_def Let_def)
  have "db_ok json_serde st" by (rule bind_ids_ok [OF db_ok_empty bind_kinds_mem(1) run])
  from places_of_user_exact [OF this, of "\<lambda>i. False"] run show ?thesis by blast
qed

text \<open>
  C33. The chunk ledger. Reporting a holder adds the node once, at the end, to the holders of
  that chunk of that game and of nothing else; reporting it again changes nothing; a failing
  transaction changes nothing; and \<open>chunk_holders\<close> returns exactly the recorded list, without
  duplicates.
\<close>

theorem chunk_ledger_exact:
  assumes "serde_ok cd" and "db_ok cd st" and "record_chunk_holder cd flt n g h st = (r, st')"
  shows "db_ok cd st' \<and> (flt \<longrightarrow> st' = st \<and> r = Inl TxnFailed) \<and>
    (\<not> flt \<longrightarrow> r = Inr () \<and>
      chunk_holders cd False st' g h = Inr (if n \<in> set (holders cd st g h) then holders cd st g h else holders cd st g h @ [n]) \<and>
      record_chunk_holder cd False n g h st' = (Inr (), st')) \<and>
    (\<forall>g' h'. (g', h') \<noteq> (g, h) \<longrightarrow> chunk_holders cd False st' g' h' = chunk_holders cd False st g' h') \<and>
    distinct (holders cd st' g h)"
proof (cases flt)
  case True
  with assms have "st' = st" "r = Inl TxnFailed" by (simp_all add: record_chunk_holder_def Let_def)
  with True assms(2) holders_distinct show ?thesis by auto
next
  case False
  note spec = record_chunk_holder_spec [OF assms(1,2), of n g h r st']
  have run: "record_chunk_holder cd False n g h st = (r, st')" using assms(3) False by simp
  have ok: "db_ok cd st'" using spec [OF run] by blast
  have "n \<in> set (holders cd st' g h)" using spec [OF run, of g h] by auto
  then have "record_chunk_holder cd False n g h st' = (Inr (), st')" by (simp add: record_chunk_holder_eq)
  with False spec [OF run] ok chunk_holders_eq [OF ok] chunk_holders_eq [OF assms(2)] holders_distinct [OF ok] holders_distinct [OF assms(2), of g h]
  show ?thesis by auto
qed

theorem chunk_ledger_exact_witness:
  "\<exists>r st'. record_chunk_holder json_serde False 3 5 [1] ensure_tables = (r, st') \<and>
     chunk_holders json_serde False st' 5 [1] = Inr [3]"
proof -
  obtain r st' where run: "record_chunk_holder json_serde False 3 5 [1] ensure_tables = (r, st')" by fastforce
  have "holders json_serde (ensure_tables :: json store) 5 [1] = []" by (simp add: holders_def ensure_tables_def)
  with chunk_ledger_exact [OF json_serde_ok db_ok_empty run] run show ?thesis by auto
qed

section \<open>Versions and heat\<close>

text \<open>
  Version manifests. After \<open>save_version\<close> the manifest of that game and version is read
  back byte for byte, the manifests of every other game and version are unaffected (the text
  keys \<open>game:version\<close> are unambiguous), and a failing transaction changes nothing.
\<close>

theorem version_roundtrip:
  assumes "serde_ok cd" and "db_ok cd st" and "save_version cd flt g v m st = (r, st')"
  shows "db_ok cd st' \<and> (flt \<longrightarrow> st' = st) \<and> (\<not> flt \<longrightarrow> r = Inr () \<and> get_version cd False st' g v = Inr (Some m)) \<and>
    (\<forall>g' v'. (g', v') \<noteq> (g, v) \<longrightarrow> get_version cd False st' g' v' = get_version cd False st g' v') \<and>
    get_version cd False st' g' v' \<noteq> Inl DecodeFailed"
proof -
  have ok: "db_ok cd st'" by (rule save_version_ok [OF assms])
  have dec: "get_version cd False st' g' v' \<noteq> Inl DecodeFailed"
    using ok by (fastforce simp: get_version_def db_ok_defs list_all_iff tbl_get_iff db_decode_def split: option.splits)
  have t: "tbl_ok (db_versions st)" using assms(2) by (simp add: db_ok_defs)
  show ?thesis
  proof (cases flt)
    case True
    with assms(3) have "st' = st" by (simp add: save_version_def Let_def)
    with True ok dec show ?thesis by simp
  next
    case False
    with assms(3) have "r = Inr ()" "st' = st\<lparr>db_versions := tbl_insert (version_key g v) (enc_bytes cd m) (db_versions st)\<rparr>"
      by (simp_all add: save_version_def Let_def)
    with False ok dec t assms(1) show ?thesis
      by (auto simp: get_version_def tbl_laws(1) db_decode_def serde_ok_def)
  qed
qed

theorem version_roundtrip_witness:
  "\<exists>r st'. save_version json_serde False 1 12 [9] ensure_tables = (r, st') \<and>
     get_version json_serde False st' 1 12 = Inr (Some [9]) \<and> get_version json_serde False st' 11 2 = Inr None"
proof -
  obtain r st' where run: "save_version json_serde False 1 12 [9] ensure_tables = (r, st')" by fastforce
  have "get_version json_serde False ensure_tables 11 2 = Inr None" by (simp add: get_version_def ensure_tables_def)
  with version_roundtrip [OF json_serde_ok db_ok_empty run] run show ?thesis by auto
qed

end
