(* ===== verification/Sched_Backup.thy ===== *)
theory Sched_Backup
  imports Sched_Db
begin

text \<open>
  The backups of the scheduler (\<^verbatim>\<open>start_backup\<close> and \<^verbatim>\<open>run_backup_loop\<close> in
  \<^verbatim>\<open>crates/scheduler/src/lib.rs\<close>, over \<open>backup_to\<close> of the store): one at the start, then one per
  interval until the shutdown signal.

  A round gives the store at its time, its clock and its faults; the backup directory maps file
  names to their content. A write that fails can leave a part of the file behind.
\<close>

datatype 'j backup_file = Complete "'j snapshot" | Partial

record 'j backup_round =
  br_dir :: bool
  br_write :: bool
  br_created :: bool
  br_flt :: "nat \<Rightarrow> bool"
  br_time :: u64
  br_store :: "'j store"

definition backup_name :: "u64 \<Rightarrow> string" where
  "backup_name timestamp = ''scheduler-'' @ show_u64 timestamp @ ''.json''"

definition write_backup ::
    "'j serde \<Rightarrow> 'j backup_round \<Rightarrow> (string \<rightharpoonup> 'j backup_file) \<Rightarrow> (db_error + string) \<times> (string \<rightharpoonup> 'j backup_file)" where
  "write_backup cd r files =
     (case backup_to cd (br_dir r) (br_write r) (br_flt r) (br_time r) (br_store r) of
        Inr (name, snap) \<Rightarrow> (Inr name, files(name \<mapsto> Complete snap))
      | Inl e \<Rightarrow>
          (Inl e, if br_created r \<and> backup_to cd (br_dir r) True (br_flt r) (br_time r) (br_store r) \<noteq> Inl e
                  then files(backup_name (br_time r) \<mapsto> Partial) else files))"

text \<open>A failed backup is printed and the loop goes on.\<close>

fun run_backup_loop :: "'j serde \<Rightarrow> 'j backup_round list \<Rightarrow> (string \<rightharpoonup> 'j backup_file) \<Rightarrow> (string \<rightharpoonup> 'j backup_file)" where
  "run_backup_loop cd [] files = files"
| "run_backup_loop cd (r # rs) files = run_backup_loop cd rs (snd (write_backup cd r files))"

text \<open>The start: no directory configured, no backups; otherwise a failed first backup aborts the start.\<close>

definition start_backup ::
    "'j serde \<Rightarrow> string option \<Rightarrow> bool \<Rightarrow> 'j backup_round \<Rightarrow> (string \<rightharpoonup> 'j backup_file) \<Rightarrow>
     (db_error + bool) \<times> (string \<rightharpoonup> 'j backup_file)" where
  "start_backup cd backup_dir create_ok r files =
     (case backup_dir of
        None \<Rightarrow> (Inr False, files)
      | Some _ \<Rightarrow>
          if \<not> create_ok then (Inl TxnFailed, files)
          else case write_backup cd r files of
            (Inl e, files1) \<Rightarrow> (Inl e, files1)
          | (Inr _, files1) \<Rightarrow> (Inr True, files1))"

section \<open>What a backup is good for\<close>

text \<open>The store that holds the records of a snapshot.\<close>

definition rows :: "('a \<Rightarrow> u64) \<Rightarrow> ('a \<Rightarrow> 'j) \<Rightarrow> 'a list \<Rightarrow> (u64, 'j) table" where
  "rows key enc xs = map (\<lambda>x. (key x, enc x)) xs"

definition restore :: "'j serde \<Rightarrow> 'j snapshot \<Rightarrow> 'j store" where
  "restore cd s = ensure_tables\<lparr>
     db_nodes := rows nd_id (enc_node cd) (sn_nodes s), db_tasks := rows tk_id (enc_task cd) (sn_tasks s),
     db_users := rows ur_id (enc_user cd) (sn_users s), db_places := rows pr_id (enc_place cd) (sn_places s),
     db_groups := rows gr_id (enc_group cd) (sn_groups s), db_bindings := sn_bindings s,
     db_games := rows gm_id (enc_game cd) (sn_games s), db_versions := sn_versions s, db_chunks := sn_chunks s,
     db_heat := sn_heat s, db_counters := sn_counters s, db_audits := rows au_id (enc_audit cd) (sn_audits s)\<rparr>"

lemma res_map_decode: "(\<And>x. dec (enc x) = Some x) \<Longrightarrow> list_decoded dec False (rows key enc xs) = Inr xs"
  by (induction xs) (simp_all add: list_decoded_def rows_def db_decode_def)

lemma res_map_fst:
  "res_map (\<lambda>e. db_decode dec (snd e)) t = Inr xs \<Longrightarrow> decodes dec key t \<Longrightarrow> map key xs = map fst t"
proof (induction t arbitrary: xs)
  case (Cons e t)
  then show ?case
    by (cases e) (auto simp: decodes_def db_decode_def split: option.splits)
qed simp

lemma rows_ok:
  assumes "list_decoded dec flt t = Inr xs" "decodes dec key t" "tbl_ok t" "\<And>x. dec (enc x) = Some x"
  shows "tbl_ok (rows key enc xs)" "decodes dec key (rows key enc xs)" "ids_below n t \<Longrightarrow> ids_below n (rows key enc xs)"
proof -
  have keys: "map fst (rows key enc xs) = map fst t"
    using assms(1,2) res_map_fst [of dec t xs key] by (simp add: list_decoded_def rows_def o_def split: if_splits)
  show "tbl_ok (rows key enc xs)" using assms(3) keys by (simp add: tbl_ok_def)
  show "decodes dec key (rows key enc xs)" using assms(4) by (auto simp: decodes_def rows_def list_all_iff)
  have "ids_below n t' \<longleftrightarrow> (\<forall>k \<in> set (map fst t'). k \<le> n)" for t' :: "(u64, 'j) table" by (auto simp: ids_below_def list_all_iff)
  then show "ids_below n (rows key enc xs)" if "ids_below n t" using that keys by metis
qed

lemma list_from_json_decoded: "list_from_json dec flt t = list_decoded dec flt t"
proof -
  have "res_map (db_decode dec) (map snd t) = res_map (\<lambda>e. db_decode dec (snd e)) t" by (induction t) simp_all
  then show ?thesis by (simp add: list_from_json_def list_decoded_def list_json_def)
qed

lemmas list_defs = list_nodes_def list_tasks_def list_users_def list_places_def list_groups_def list_bindings_def list_games_def
  list_versions_def list_chunks_def list_heat_def list_counters_def list_audits_def list_from_json_decoded list_pairs_def

text \<open>A snapshot taken of a sound store restores to a sound store with the same records.\<close>

lemma snapshot_tables:
  assumes "snapshot_of cd flt st = Inr s"
  shows "sn_bindings s = db_bindings st" "sn_versions s = db_versions st" "sn_chunks s = db_chunks st" "sn_heat s = db_heat st"
    "sn_counters s = db_counters st"
    "list_decoded (dec_node cd) False (db_nodes st) = Inr (sn_nodes s)" "list_decoded (dec_task cd) False (db_tasks st) = Inr (sn_tasks s)"
    "list_decoded (dec_user cd) False (db_users st) = Inr (sn_users s)" "list_decoded (dec_place cd) False (db_places st) = Inr (sn_places s)"
    "list_decoded (dec_group cd) False (db_groups st) = Inr (sn_groups s)" "list_decoded (dec_game cd) False (db_games st) = Inr (sn_games s)"
    "list_decoded (dec_audit cd) False (db_audits st) = Inr (sn_audits s)"
  using assms by (auto simp: snapshot_of_def list_defs list_decoded_def split: if_splits)

lemma snapshot_restore:
  assumes "serde_ok cd"
  shows "snapshot_of cd (\<lambda>_. False) (restore cd s) = Inr s"
proof -
  have "list_decoded (dec_node cd) False (rows nd_id (enc_node cd) (sn_nodes s)) = Inr (sn_nodes s)"
    "list_decoded (dec_task cd) False (rows tk_id (enc_task cd) (sn_tasks s)) = Inr (sn_tasks s)"
    "list_decoded (dec_user cd) False (rows ur_id (enc_user cd) (sn_users s)) = Inr (sn_users s)"
    "list_decoded (dec_place cd) False (rows pr_id (enc_place cd) (sn_places s)) = Inr (sn_places s)"
    "list_decoded (dec_group cd) False (rows gr_id (enc_group cd) (sn_groups s)) = Inr (sn_groups s)"
    "list_decoded (dec_game cd) False (rows gm_id (enc_game cd) (sn_games s)) = Inr (sn_games s)"
    "list_decoded (dec_audit cd) False (rows au_id (enc_audit cd) (sn_audits s)) = Inr (sn_audits s)"
    using assms by (auto intro!: res_map_decode simp: serde_ok_def)
  then show ?thesis
    by (cases s) (simp add: snapshot_of_def list_defs list_decoded_def restore_def)
qed

lemma restore_ok:
  assumes "serde_ok cd" "db_ok cd st" "snapshot_of cd flt st = Inr s"
  shows "db_ok cd (restore cd s)"
proof -
  note tb = snapshot_tables [OF assms(3)]
  have ctr: "ctr (restore cd s) = ctr st" by (simp add: ctr_def restore_def tb fun_eq_iff)
  have tables: "db_bindings (restore cd s) = db_bindings st" "db_versions (restore cd s) = db_versions st" "db_chunks (restore cd s) = db_chunks st"
    "db_heat (restore cd s) = db_heat st" "db_counters (restore cd s) = db_counters st"
    by (simp_all add: restore_def tb)
  have "tbl_ok (db_nodes (restore cd s)) \<and> decodes (dec_node cd) nd_id (db_nodes (restore cd s)) \<and> ids_below (ctr st NEXT_NODE_ID) (db_nodes (restore cd s))"
    "tbl_ok (db_tasks (restore cd s)) \<and> decodes (dec_task cd) tk_id (db_tasks (restore cd s)) \<and> ids_below (ctr st NEXT_TASK_ID) (db_tasks (restore cd s))"
    "tbl_ok (db_users (restore cd s)) \<and> decodes (dec_user cd) ur_id (db_users (restore cd s)) \<and> ids_below (ctr st NEXT_USER_ID) (db_users (restore cd s))"
    "tbl_ok (db_places (restore cd s)) \<and> decodes (dec_place cd) pr_id (db_places (restore cd s)) \<and> ids_below (ctr st NEXT_PLACE_ID) (db_places (restore cd s))"
    "tbl_ok (db_groups (restore cd s)) \<and> decodes (dec_group cd) gr_id (db_groups (restore cd s)) \<and> ids_below (ctr st NEXT_GROUP_ID) (db_groups (restore cd s))"
    "tbl_ok (db_games (restore cd s)) \<and> decodes (dec_game cd) gm_id (db_games (restore cd s))"
    "tbl_ok (db_audits (restore cd s)) \<and> decodes (dec_audit cd) au_id (db_audits (restore cd s)) \<and> ids_below (ctr st NEXT_AUDIT_ID) (db_audits (restore cd s))"
    using assms(1,2) rows_ok [OF tb(6)] rows_ok [OF tb(7)] rows_ok [OF tb(8)] rows_ok [OF tb(9)] rows_ok [OF tb(10)] rows_ok [OF tb(11)] rows_ok [OF tb(12)]
    by (simp_all add: restore_def db_ok_defs serde_ok_def)
  with assms(2) ctr tables show ?thesis
    by (simp add: db_ok_def tables_ok_def records_ok_def ids_ok_def ledger_ok_def versions_ok_def bindings_ok_def)
qed

section \<open>The backup directory\<close>

lemma backup_to_Inr:
  "backup_to cd dir_ok write_ok flt ts st = Inr (name, snap) \<Longrightarrow> name = backup_name ts \<and> snapshot_of cd flt st = Inr snap"
  by (auto simp: backup_to_def backup_name_def split: if_splits)

lemma snapshot_total:
  assumes "db_ok cd st" "\<And>i. \<not> flt i"
  shows "\<exists>snap. snapshot_of cd flt st = Inr snap"
  using assms(1) list_decoded_Inr [of "dec_node cd" nd_id "db_nodes st"] list_decoded_Inr [of "dec_task cd" tk_id "db_tasks st"]
    list_decoded_Inr [of "dec_user cd" ur_id "db_users st"] list_decoded_Inr [of "dec_place cd" pr_id "db_places st"]
    list_decoded_Inr [of "dec_group cd" gr_id "db_groups st"] list_decoded_Inr [of "dec_game cd" gm_id "db_games st"]
    list_decoded_Inr [of "dec_audit cd" au_id "db_audits st"]
  by (simp add: assms(2) snapshot_of_def list_defs db_ok_defs)

lemma run_backup_loop_files:
  "run_backup_loop cd rs files name = Some (Complete snap) \<Longrightarrow>
     files name = Some (Complete snap) \<or> (\<exists>r \<in> set rs. name = backup_name (br_time r) \<and> snapshot_of cd (br_flt r) (br_store r) = Inr snap)"
proof (induction rs arbitrary: files)
  case (Cons r rs)
  have "snd (write_backup cd r files) name = Some (Complete snap) \<Longrightarrow>
      files name = Some (Complete snap) \<or> name = backup_name (br_time r) \<and> snapshot_of cd (br_flt r) (br_store r) = Inr snap"
    by (auto simp: write_backup_def dest!: backup_to_Inr split: sum.splits if_splits)
  with Cons.IH [of "snd (write_backup cd r files)"] Cons.prems show ?case by auto
qed simp

lemma run_backup_loop_snoc: "run_backup_loop cd (rs @ [r]) files = snd (write_backup cd r (run_backup_loop cd rs files))"
  by (induction rs arbitrary: files) simp_all


definition demo_round :: "json backup_round" where
  "demo_round = \<lparr>br_dir = True, br_write = True, br_created = False, br_flt = \<lambda>_. False, br_time = 7, br_store = ensure_tables\<rparr>"


end
