(* ===== verification/Data_Path.thy ===== *)
theory Data_Path
  imports Pack_Runs
begin

text \<open>
  The data plane: the block server of every node (\<^verbatim>\<open>crates/origin/src/datapath.rs\<close>) and the
  client that fetches chunks from it (\<^verbatim>\<open>crates/agent/src/fetch.rs\<close>), with the wire format
  between them, and the \<open>ChunkSource\<close> interface of \<^verbatim>\<open>crates/origin/src/storage.rs\<close> as the
  locale \<open>chunk_source\<close>, interpreted on the pack library.

  A connection is the list of request bytes one side sends and the list of reply bytes the
  other receives; a broken connection delivers a prefix. The iroh endpoint, its paths and the
  clock are oracles.
\<close>

section \<open>Chunk sources\<close>

text \<open>
  What the data plane relies on: in a run without I/O faults a valid source answers from one
  map, and membership agrees with reading.
\<close>

locale chunk_source =
  fixes live :: "'env \<Rightarrow> bool"
    and ok :: "'s \<Rightarrow> bool"
    and read_chunk :: "'env \<Rightarrow> 's \<Rightarrow> bytes \<Rightarrow> 'e + bytes option"
    and contains :: "'env \<Rightarrow> 's \<Rightarrow> bytes \<Rightarrow> 'e + bool"
    and abs :: "'s \<Rightarrow> bytes \<Rightarrow> bytes option"
  assumes read_abs: "live env \<Longrightarrow> ok s \<Longrightarrow> read_chunk env s h = Inr (abs s h)"
    and contains_abs: "live env \<Longrightarrow> ok s \<Longrightarrow> contains env s h = Inr (abs s h \<noteq> None)"

definition env_reads :: "pack_env \<Rightarrow> bool" where
  "env_reads env \<longleftrightarrow> pe_read_txn env \<and> os_live (pe_rd env)"

interpretation pack_source: chunk_source env_reads store_ok store_read_chunk store_contains abs_store
  by unfold_locales
    (auto simp: env_reads_def read_refines store_contains_def abs_store_def)

section \<open>The server\<close>

subsection \<open>Path gating\<close>

definition allow_data :: "bool \<Rightarrow> bool \<Rightarrow> bool" where
  "allow_data has_direct has_relay = has_direct"

datatype 'e conn_error =
    AcceptFailed | ReadGameIdFailed | ReadCountFailed | GameNotManaged | OpenPackFailed store_error
  | ReadHashFailed | SourceFailed 'e | ChunkNotFound

text \<open>The message is printed; both branches return \<open>Ok(())\<close>.\<close>

definition reject_relay_only :: "bool \<Rightarrow> bool \<Rightarrow> 'e conn_error + unit" where
  "reject_relay_only has_direct has_relay =
     (if \<not> allow_data has_direct has_relay then Inr () else Inr ())"

definition gate_or_reject :: "bool \<Rightarrow> 'e conn_error + unit" where
  "gate_or_reject ready =
     (if \<not> ready then res_bind (reject_relay_only False True) (\<lambda>_. Inr ()) else Inr ())"

text \<open>
  The polling loop. \<open>check i\<close> is what the \<open>i\<close>-th look at the paths shows and \<open>elapsed i\<close> the
  milliseconds since the start at that time.
\<close>

partial_function (option) wait_for_direct_path ::
    "(nat \<Rightarrow> bool \<times> bool) \<Rightarrow> (nat \<Rightarrow> nat) \<Rightarrow> nat \<Rightarrow> nat \<Rightarrow> bool option" where
  "wait_for_direct_path check elapsed timeout i =
     (case check i of (has_direct, has_relay) \<Rightarrow>
        if has_direct then Some True
        else if \<not> has_relay \<or> timeout \<le> elapsed i then Some False
        else wait_for_direct_path check elapsed timeout (Suc i))"

subsection \<open>Serving a connection\<close>

text \<open>\<open>NodeStore\<close>: the pack library of the game, shared with the upload service, or a cafe's source.\<close>

datatype 'c node_store = PackStore | CafeSource 'c

record 'c data_plane =
  dp_stores :: "u64 \<rightharpoonup> 'c node_store"
  dp_pack_stores :: "u64 \<rightharpoonup> game_store"
  dp_disk :: "u64 \<Rightarrow> game_disk"
  dp_pack_default :: bool

text \<open>One reply: length and data.\<close>

definition reply_frame :: "bytes \<Rightarrow> bytes" where
  "reply_frame data = be_of_u32 (word_of_nat (length data)) @ data"

fun serve_loop ::
    "(bytes \<Rightarrow> 'e + bytes option) \<Rightarrow> nat \<Rightarrow> bytes \<Rightarrow> ('e conn_error + unit) \<times> bytes" where
  "serve_loop rd 0 recv = (Inr (), [])"
| "serve_loop rd (Suc n) recv =
     (case read_exact 32 recv of
        Inl _ \<Rightarrow> (Inl ReadHashFailed, [])
      | Inr (hash, recv') \<Rightarrow>
          (case rd hash of
             Inl e \<Rightarrow> (Inl (SourceFailed e), [])
           | Inr None \<Rightarrow> (Inl ChunkNotFound, [])
           | Inr (Some data) \<Rightarrow>
               (case serve_loop rd n recv' of (r, out) \<Rightarrow> (r, reply_frame data @ out))))"

text \<open>The entry of the store map, opening the pack library where the node may.\<close>

definition node_entry ::
    "pack_env \<Rightarrow> u64 \<Rightarrow> 'c data_plane \<Rightarrow> 'e conn_error + 'c node_store \<times> 'c data_plane" where
  "node_entry env game_id dp =
     (case dp_stores dp game_id of
        Some s \<Rightarrow> Inr (s, dp)
      | None \<Rightarrow>
          if \<not> dp_pack_default dp then Inl GameNotManaged
          else case dp_pack_stores dp game_id of
            Some _ \<Rightarrow> Inr (PackStore, dp\<lparr>dp_stores := (dp_stores dp)(game_id \<mapsto> PackStore)\<rparr>)
          | None \<Rightarrow>
              (case store_open env game_id (dp_disk dp game_id) of
                 Inl e \<Rightarrow> Inl (OpenPackFailed e)
               | Inr st \<Rightarrow>
                   Inr (PackStore, dp\<lparr>dp_pack_stores := (dp_pack_stores dp)(game_id \<mapsto> st),
                                     dp_stores := (dp_stores dp)(game_id \<mapsto> PackStore)\<rparr>)))"

text \<open>\<open>NodeStore::read_chunk\<close>; \<open>cafe\<close> reads a cafe source.\<close>

definition node_read_chunk ::
    "('c \<Rightarrow> bytes \<Rightarrow> store_error + bytes option) \<Rightarrow> pack_env \<Rightarrow> 'c data_plane \<Rightarrow> u64 \<Rightarrow> 'c node_store \<Rightarrow>
     bytes \<Rightarrow> store_error + bytes option" where
  "node_read_chunk cafe env dp game_id s hash =
     (case s of
        PackStore \<Rightarrow>
          (case dp_pack_stores dp game_id of
             Some st \<Rightarrow> store_read_chunk env st hash
           | None \<Rightarrow> Inr None)
      | CafeSource c \<Rightarrow> cafe c hash)"

definition node_contains ::
    "('c \<Rightarrow> bytes \<Rightarrow> store_error + bool) \<Rightarrow> pack_env \<Rightarrow> 'c data_plane \<Rightarrow> u64 \<Rightarrow> 'c node_store \<Rightarrow>
     bytes \<Rightarrow> store_error + bool" where
  "node_contains cafe env dp game_id s hash =
     (case s of
        PackStore \<Rightarrow>
          (case dp_pack_stores dp game_id of
             Some st \<Rightarrow> store_contains env st hash
           | None \<Rightarrow> Inr False)
      | CafeSource c \<Rightarrow> cafe c hash)"

text \<open>
  \<open>handle_conn\<close> after the wait: the result, the bytes sent and the new maps. \<open>accepted\<close> says
  whether \<open>accept_bi\<close> succeeds.
\<close>

definition handle_conn ::
    "('c \<Rightarrow> bytes \<Rightarrow> store_error + bytes option) \<Rightarrow> pack_env \<Rightarrow> bool \<Rightarrow> bool \<Rightarrow> bytes \<Rightarrow> 'c data_plane \<Rightarrow>
     (store_error conn_error + unit) \<times> bytes \<times> 'c data_plane" where
  "handle_conn cafe env ready accepted recv dp =
     (case gate_or_reject ready of
        Inl e \<Rightarrow> (Inl e, [], dp)
      | Inr _ \<Rightarrow>
          if \<not> accepted then (Inl AcceptFailed, [], dp)
          else case read_exact 8 recv of
            Inl _ \<Rightarrow> (Inl ReadGameIdFailed, [], dp)
          | Inr (gb, recv1) \<Rightarrow>
              (case read_exact 4 recv1 of
                 Inl _ \<Rightarrow> (Inl ReadCountFailed, [], dp)
               | Inr (cb, recv2) \<Rightarrow>
                   let game_id = u64_of_be gb; count = u32_of_be cb in
                   (case node_entry env game_id dp of
                      Inl e \<Rightarrow> (Inl e, [], dp)
                    | Inr (s, dp1) \<Rightarrow>
                        (case serve_loop (node_read_chunk cafe env dp1 game_id s) (unat count) recv2 of
                           (r, out) \<Rightarrow> (r, out, dp1)))))"

section \<open>The client\<close>

record fetch_stats =
  fs_downloaded :: nat
  fs_bytes :: u64
  fs_failed :: "bytes list"

datatype 'e fetch_error = ConnectFailed | NoAddress | BadRelayUrl | OpenBiFailed | ReadDataFailed | SinkFailed 'e

record peer_target =
  pt_endpoint_id :: string
  pt_addr :: "string option"
  pt_relay_url :: "string option"
  pt_direct_only :: bool

text \<open>
  \<open>connect_peer\<close>: the direct address first, then the relay unless the target is direct only.
  \<open>direct\<close> and \<open>relay\<close> say whether the connection attempts succeed, \<open>parses\<close> whether the relay
  address is a URL.
\<close>

definition connect_peer ::
    "(string \<Rightarrow> bool) \<Rightarrow> (string \<Rightarrow> bool) \<Rightarrow> (string \<Rightarrow> bool) \<Rightarrow> peer_target \<Rightarrow> 'e fetch_error + unit" where
  "connect_peer direct relay parses target =
     (let (done1, err1) =
        (case pt_addr target of
           Some a \<Rightarrow> if direct a then (True, None) else (False, Some ConnectFailed)
         | None \<Rightarrow> (False, None))
      in if done1 then Inr ()
         else case (pt_direct_only target, pt_relay_url target) of
           (False, Some url) \<Rightarrow>
             if \<not> parses url then Inl BadRelayUrl else if relay url then Inr () else Inl ConnectFailed
         | _ \<Rightarrow> Inl (case err1 of Some e \<Rightarrow> e | None \<Rightarrow> NoAddress))"

definition store_chunk ::
    "(bytes \<Rightarrow> bytes) \<Rightarrow> (bytes \<Rightarrow> bytes \<Rightarrow> 's \<Rightarrow> ('e + unit) \<times> 's) \<Rightarrow> bytes \<Rightarrow> bytes \<Rightarrow> 's \<Rightarrow>
     ('e fetch_error + bool) \<times> 's" where
  "store_chunk blake3 sink hash data s =
     (if blake3 data \<noteq> hash then (Inr False, s)
      else case sink hash data s of
        (Inl e, s') \<Rightarrow> (Inl (SinkFailed e), s')
      | (Inr _, s') \<Rightarrow> (Inr True, s'))"

definition fetch_request :: "u64 \<Rightarrow> bytes list \<Rightarrow> bytes" where
  "fetch_request game_id hashes = be_of_u64 game_id @ be_of_u32 (word_of_nat (length hashes)) @ concat hashes"

text \<open>The reply loop; a failed read of a length has consumed what was left of the stream.\<close>

fun fetch_loop ::
    "(bytes \<Rightarrow> bytes) \<Rightarrow> (bytes \<Rightarrow> bytes \<Rightarrow> 's \<Rightarrow> ('e + unit) \<times> 's) \<Rightarrow> bytes list \<Rightarrow> bytes \<Rightarrow> fetch_stats \<Rightarrow> 's \<Rightarrow>
     ('e fetch_error + fetch_stats) \<times> 's" where
  "fetch_loop blake3 sink [] recv stats s = (Inr stats, s)"
| "fetch_loop blake3 sink (hash # hashes) recv stats s =
     (case read_exact 4 recv of
        Inl _ \<Rightarrow> fetch_loop blake3 sink hashes [] (stats\<lparr>fs_failed := fs_failed stats @ [hash]\<rparr>) s
      | Inr (lb, recv1) \<Rightarrow>
          let len = u32_of_be lb in
          (case read_exact (unat len) recv1 of
             Inl _ \<Rightarrow> (Inl ReadDataFailed, s)
           | Inr (data, recv2) \<Rightarrow>
               (case store_chunk blake3 sink hash data s of
                  (Inl e, s') \<Rightarrow> (Inl e, s')
                | (Inr stored, s') \<Rightarrow>
                    if \<not> stored
                    then fetch_loop blake3 sink hashes recv2 (stats\<lparr>fs_failed := fs_failed stats @ [hash]\<rparr>) s'
                    else fetch_loop blake3 sink hashes recv2
                      (stats\<lparr>fs_downloaded := fs_downloaded stats + 1, fs_bytes := fs_bytes stats + ucast len\<rparr>) s')))"

definition stats_default :: fetch_stats where
  "stats_default = \<lparr>fs_downloaded = 0, fs_bytes = 0, fs_failed = []\<rparr>"

text \<open>\<open>fetch_chunks\<close>; \<open>exchange\<close> maps the request bytes to the reply bytes that arrive.\<close>

definition fetch_chunks ::
    "(bytes \<Rightarrow> bytes) \<Rightarrow> ('e fetch_error + unit) \<Rightarrow> bool \<Rightarrow> (bytes \<Rightarrow> bytes) \<Rightarrow>
     (bytes \<Rightarrow> bytes \<Rightarrow> 's \<Rightarrow> ('e + unit) \<times> 's) \<Rightarrow> u64 \<Rightarrow> bytes list \<Rightarrow> 's \<Rightarrow> ('e fetch_error + fetch_stats) \<times> 's" where
  "fetch_chunks blake3 conn opened exchange sink game_id hashes s =
     (if hashes = [] then (Inr stats_default, s)
      else case conn of
        Inl e \<Rightarrow> (Inl e, s)
      | Inr _ \<Rightarrow>
          if \<not> opened then (Inl OpenBiFailed, s)
          else fetch_loop blake3 sink hashes (exchange (fetch_request game_id hashes)) stats_default s)"

section \<open>Waiting for a direct path\<close>

definition direct_found :: "(nat \<Rightarrow> bool \<times> bool) \<Rightarrow> (nat \<Rightarrow> nat) \<Rightarrow> nat \<Rightarrow> nat \<Rightarrow> bool" where
  "direct_found check elapsed timeout i \<longleftrightarrow>
     (\<exists>n \<ge> i. fst (check n) \<and> (\<forall>j. i \<le> j \<and> j < n \<longrightarrow> snd (check j) \<and> elapsed j < timeout))"

lemma direct_found_step:
  "direct_found check elapsed timeout i \<longleftrightarrow>
     fst (check i) \<or> snd (check i) \<and> elapsed i < timeout \<and> direct_found check elapsed timeout (Suc i)"
proof -
  have split: "(\<forall>j. i \<le> j \<and> j < n \<longrightarrow> P j) \<longleftrightarrow> (i < n \<longrightarrow> P i) \<and> (\<forall>j. Suc i \<le> j \<and> j < n \<longrightarrow> P j)" for P and n
  proof (intro iffI allI impI; (elim conjE)?)
    fix j
    assume "i < n \<longrightarrow> P i" "\<forall>j. Suc i \<le> j \<and> j < n \<longrightarrow> P j" "i \<le> j" "j < n"
    then show "P j" by (cases "j = i") auto
  qed auto
  let ?P = "\<lambda>j. snd (check j) \<and> elapsed j < timeout"
  show ?thesis
  proof
    assume "direct_found check elapsed timeout i"
    then obtain n where n: "n \<ge> i" "fst (check n)" "i < n \<longrightarrow> ?P i" "\<forall>j. Suc i \<le> j \<and> j < n \<longrightarrow> ?P j"
      unfolding direct_found_def split [of _ ?P] by blast
    then show "fst (check i) \<or> snd (check i) \<and> elapsed i < timeout \<and> direct_found check elapsed timeout (Suc i)"
    proof (cases "n = i")
      case False
      with n have "Suc i \<le> n" "?P i" by auto
      with n show ?thesis unfolding direct_found_def by blast
    qed simp
  next
    assume "fst (check i) \<or> snd (check i) \<and> elapsed i < timeout \<and> direct_found check elapsed timeout (Suc i)"
    then consider "fst (check i)" | n where "?P i" "n \<ge> Suc i" "fst (check n)" "\<forall>j. Suc i \<le> j \<and> j < n \<longrightarrow> ?P j"
      unfolding direct_found_def by blast
    then show "direct_found check elapsed timeout i"
    proof cases
      case 1
      then show ?thesis by (auto simp: direct_found_def intro!: exI [of _ i])
    next
      case (2 n)
      then have "\<forall>j. i \<le> j \<and> j < n \<longrightarrow> ?P j" unfolding split [of _ ?P] by blast
      with 2 show ?thesis unfolding direct_found_def by (intro exI [of _ n]) auto
    qed
  qed
qed

lemma wait_result:
  assumes clock: "\<And>j. 500 * j \<le> elapsed j"
  shows "wait_for_direct_path check elapsed timeout i = Some (direct_found check elapsed timeout i)"
proof (induction "timeout - 500 * i" arbitrary: i rule: less_induct)
  case less
  show ?case
  proof (cases "fst (check i) \<or> \<not> snd (check i) \<or> timeout \<le> elapsed i")
    case True
    then show ?thesis
      by (subst wait_for_direct_path.simps, subst direct_found_step) (auto split: prod.splits)
  next
    case False
    with clock [of i] have "timeout - 500 * Suc i < timeout - 500 * i" by auto
    from less [OF this] False show ?thesis
      by (subst wait_for_direct_path.simps, subst direct_found_step) (auto split: prod.splits)
  qed
qed

section \<open>The protocol\<close>

lemma read_exact_4 [simp]: "read_exact 4 (be_of_u32 w @ r) = Inr (be_of_u32 w, r)"
  by simp

context chunk_source
begin

text \<open>The server answers the requested hashes up to the first one it does not have.\<close>

lemma serve_loop_abs:
  assumes "live env" "ok s" "list_all (\<lambda>h. length h = 32) hs"
  shows "serve_loop (read_chunk env s) (length hs) (concat hs @ rest) =
    (if list_all (\<lambda>h. abs s h \<noteq> None) hs then Inr () else Inl ChunkNotFound,
     concat (map (\<lambda>h. reply_frame (the (abs s h))) (takeWhile (\<lambda>h. abs s h \<noteq> None) hs)))"
  using assms(3)
proof (induction hs)
  case (Cons h hs)
  then show ?case
    by (cases "abs s h") (auto simp: read_abs [OF assms(1,2)])
qed simp

end

text \<open>The client's loop on a stream of well-formed replies that then ends.\<close>

definition record_sink :: "(bytes \<Rightarrow> bytes \<Rightarrow> bool) \<Rightarrow> bytes \<Rightarrow> bytes \<Rightarrow> (bytes \<times> bytes) list \<Rightarrow> (unit + unit) \<times> (bytes \<times> bytes) list" where
  "record_sink accepts h d got = (if accepts h d then Inr () else Inl (), got @ [(h, d)])"

lemma fetch_loop_end:
  "fetch_loop blake3 sink hs [] stats s = (Inr (stats\<lparr>fs_failed := fs_failed stats @ hs\<rparr>), s)"
  by (induction hs arbitrary: stats) (auto simp: read_exact_def)

lemma fetch_loop_frames:
  assumes "list_all (\<lambda>h. \<exists>d. m h = Some d \<and> blake3 d = h \<and> length d < 2 ^ 32) hs"
  shows "fetch_loop blake3 (record_sink (\<lambda>h d. True)) (hs @ hs') (concat (map (\<lambda>h. reply_frame (the (m h))) hs)) stats got =
    (Inr (stats\<lparr>fs_downloaded := fs_downloaded stats + length hs,
       fs_bytes := fs_bytes stats + (\<Sum>h \<leftarrow> hs. word_of_nat (length (the (m h)))),
       fs_failed := fs_failed stats @ hs'\<rparr>),
     got @ map (\<lambda>h. (h, the (m h))) hs)"
  using assms
proof (induction hs arbitrary: stats got)
  case Nil
  then show ?case by (simp add: fetch_loop_end)
next
  case (Cons h hs)
  then obtain d where d: "m h = Some d" "blake3 d = h" "length d < 2 ^ 32" by auto
  have len: "unat (word_of_nat (length d) :: u32) = length d"
    "ucast (word_of_nat (length d) :: u32) = (word_of_nat (length d) :: u64)"
    using d(3) by (simp_all add: unat_of_nat word_unat_eq_iff)
  from Cons d len show ?case
    by (simp add: reply_frame_def Let_def store_chunk_def record_sink_def add.assoc)
qed

text \<open>What the client hands to its sink, on any reply bytes.\<close>

definition fetch_outcome ::
    "(bytes \<Rightarrow> bytes) \<Rightarrow> bytes list \<Rightarrow> (bytes \<times> bytes) list \<Rightarrow> fetch_stats \<Rightarrow> 'e fetch_error + fetch_stats \<Rightarrow> bool" where
  "fetch_outcome blake3 hs new stats r \<longleftrightarrow>
     subseq (map fst new) hs \<and> list_all (\<lambda>(h, d). blake3 d = h) new \<and>
     (case r of Inl _ \<Rightarrow> True
      | Inr stats' \<Rightarrow> fs_downloaded stats' = fs_downloaded stats + length new \<and>
          mset (fs_failed stats') + mset (map fst new) = mset (fs_failed stats) + mset hs)"

lemma fetch_outcome_end: "fetch_outcome blake3 [] [] stats (Inr stats)" "fetch_outcome blake3 hs [] stats (Inl e)"
  by (auto simp: fetch_outcome_def)

lemma fetch_outcome_skip:
  assumes "fetch_outcome blake3 hs new (stats\<lparr>fs_failed := fs_failed stats @ [h]\<rparr>) r"
  shows "fetch_outcome blake3 (h # hs) new stats r"
  using assms list_emb_Cons [of "(=)" "map fst new" hs h] by (cases r) (simp_all add: fetch_outcome_def)

lemma fetch_outcome_take:
  assumes "fetch_outcome blake3 hs new (stats\<lparr>fs_downloaded := fs_downloaded stats + 1, fs_bytes := b\<rparr>) r" "blake3 d = h"
  shows "fetch_outcome blake3 (h # hs) ((h, d) # new) stats r"
  using assms by (cases r) (simp_all add: fetch_outcome_def)

lemma fetch_loop_safe:
  "fetch_loop blake3 (record_sink accepts) hs recv stats got = (r, got') \<Longrightarrow>
     \<exists>new. got' = got @ new \<and> fetch_outcome blake3 hs new stats r"
proof (induction hs arbitrary: recv stats got)
  case Nil
  then show ?case by (auto simp: fetch_outcome_end)
next
  case (Cons h hs)
  have skip: ?case if "fetch_loop blake3 (record_sink accepts) hs recv' (stats\<lparr>fs_failed := fs_failed stats @ [h]\<rparr>) got = (r, got')" for recv'
    using Cons.IH [OF that] fetch_outcome_skip by blast
  consider e where "read_exact 4 recv = Inl e"
    | lb recv1 e where "read_exact 4 recv = Inr (lb, recv1)" "read_exact (unat (u32_of_be lb)) recv1 = Inl e"
    | lb recv1 d recv2 where "read_exact 4 recv = Inr (lb, recv1)" "read_exact (unat (u32_of_be lb)) recv1 = Inr (d, recv2)"
    by (metis sum.exhaust surj_pair)
  then show ?case
  proof cases
    case (1 e)
    with Cons.prems show ?thesis by (intro skip) simp
  next
    case (2 lb recv1 e)
    with Cons.prems show ?thesis by (auto simp: Let_def fetch_outcome_end)
  next
    case (3 lb recv1 d recv2)
    show ?thesis
    proof (cases "blake3 d = h")
      case False
      with Cons.prems 3 show ?thesis by (intro skip [of recv2]) (simp add: Let_def store_chunk_def)
    next
      case eq: True
      show ?thesis
      proof (cases "accepts h d")
        case False
        with Cons.prems 3 eq show ?thesis
          by (auto simp: Let_def store_chunk_def record_sink_def fetch_outcome_def intro!: exI [of _ "[(h, d)]"])
      next
        case True
        with Cons.prems 3 eq
        have "fetch_loop blake3 (record_sink accepts) hs recv2
            (stats\<lparr>fs_downloaded := fs_downloaded stats + 1, fs_bytes := fs_bytes stats + ucast (u32_of_be lb)\<rparr>)
            (got @ [(h, d)]) = (r, got')"
          by (simp add: Let_def store_chunk_def record_sink_def [of _ h])
        from Cons.IH [OF this] obtain new where "got' = (got @ [(h, d)]) @ new" and
          "fetch_outcome blake3 hs new (stats\<lparr>fs_downloaded := fs_downloaded stats + 1,
             fs_bytes := fs_bytes stats + ucast (u32_of_be lb)\<rparr>) r" by blast
        with eq show ?thesis
          by (intro exI [of _ "(h, d) # new"] conjI) (simp, rule fetch_outcome_take)
      qed
    qed
  qed
qed

text \<open>
  C18. A client never accepts wrong data. Whatever bytes the peer sends or the network
  delivers, the chunks \<open>fetch_chunks\<close> hands to its sink are requested chunks in request order,
  each hashing to the hash it was requested under; and when the call returns statistics, every
  requested hash is either counted as downloaded or listed as failed.
\<close>

theorem fetch_only_verified:
  assumes "fetch_chunks blake3 conn opened exchange (record_sink accepts) game_id hashes [] = (r, got)"
  shows "subseq (map fst got) hashes \<and> list_all (\<lambda>(h, d). blake3 d = h) got \<and>
    (\<forall>stats. r = Inr stats \<longrightarrow> fs_downloaded stats = length got \<and>
       fs_downloaded stats + length (fs_failed stats) = length hashes \<and>
       mset (map fst got @ fs_failed stats) = mset hashes)"
proof (cases "hashes = [] \<or> (\<exists>e. conn = Inl e) \<or> \<not> opened")
  case True
  with assms show ?thesis by (auto simp: fetch_chunks_def stats_default_def split: if_splits sum.splits)
next
  case False
  then have "fetch_loop blake3 (record_sink accepts) hashes (exchange (fetch_request game_id hashes)) stats_default [] = (r, got)"
    using assms by (auto simp: fetch_chunks_def split: sum.splits)
  from fetch_loop_safe [OF this] have out: "fetch_outcome blake3 hashes got stats_default r" by simp
  have "length got + length lost = length hashes" if "mset lost + image_mset fst (mset got) = mset hashes" for lost
    using arg_cong [OF that, of size] by simp
  note len = this
  show ?thesis
  proof (cases r)
    case (Inr b)
    with out len [of "fs_failed b"] show ?thesis
      by (simp add: stats_default_def fetch_outcome_def union_commute)
  qed (use out in \<open>simp add: fetch_outcome_def\<close>)
qed

theorem fetch_only_verified_witness:
  "\<exists>r got. fetch_chunks (\<lambda>d. demo_hash 1) (Inr ()) True (\<lambda>req. reply_frame [7, 8]) (record_sink (\<lambda>h d. True)) 5
      [demo_hash 1, demo_hash 2] [] = (r, got) \<and> list_all (\<lambda>(h, d). demo_hash 1 = h) got"
proof -
  obtain r got where run: "fetch_chunks (\<lambda>d. demo_hash 1) (Inr ()) True (\<lambda>req. reply_frame [7, 8])
      (record_sink (\<lambda>h d. True)) 5 [demo_hash 1, demo_hash 2] [] = (r, got)" by fastforce
  from fetch_only_verified [OF this] run show ?thesis by blast
qed

lemma handle_conn_request:
  assumes "length hashes < 2 ^ 32"
  shows "handle_conn cafe env ready True (fetch_request g hashes) dp =
    (case node_entry env g dp of
       Inl e \<Rightarrow> (Inl e, [], dp)
     | Inr (s, dp1) \<Rightarrow>
         (case serve_loop (node_read_chunk cafe env dp1 g s) (length hashes) (concat hashes) of
            (r, out) \<Rightarrow> (r, out, dp1)))"
proof -
  have gate: "gate_or_reject ready = (Inr () :: store_error conn_error + unit)"
    by (simp add: gate_or_reject_def reject_relay_only_def)
  have "unat (word_of_nat (length hashes) :: u32) = length hashes"
    using assms by (simp add: unat_of_nat)
  then show ?thesis by (simp add: handle_conn_def gate fetch_request_def Let_def split: sum.split prod.split)
qed

text \<open>
  C19. The two ends of the data plane agree. A client that requests 32-byte hashes from a node
  serving a pack library, over a connection that delivers everything, receives exactly the
  requested chunks up to the first one the node does not have, each with the stored data, in
  order; the hashes from there on are reported as failed, and the server reports the missing
  chunk. When the node has them all, the fetch is complete.
\<close>

theorem transfer_delivers:
  assumes "store_ok st" and "env_reads env" and "dp_stores dp g = Some PackStore" and "dp_pack_stores dp g = Some st"
    and "list_all (\<lambda>h. length h = 32) hashes" and "length hashes < 2 ^ 32"
    and "\<And>h d. abs_store st h = Some d \<Longrightarrow> blake3 d = h \<and> length d < 2 ^ 32"
    and "handle_conn cafe env ready True (fetch_request g hashes) dp = (r, sent, dp')"
    and "has = (\<lambda>h. abs_store st h \<noteq> None)"
  shows "fetch_chunks blake3 (Inr ()) True (\<lambda>_. sent) (record_sink (\<lambda>h d. True)) g hashes [] =
      (Inr \<lparr>fs_downloaded = length (takeWhile has hashes),
            fs_bytes = (\<Sum>h \<leftarrow> takeWhile has hashes. word_of_nat (length (the (abs_store st h)))),
            fs_failed = dropWhile has hashes\<rparr>,
       map (\<lambda>h. (h, the (abs_store st h))) (takeWhile has hashes)) \<and>
    r = (if list_all has hashes then Inr () else Inl ChunkNotFound) \<and> dp' = dp"
proof -
  have rd: "node_read_chunk cafe env dp g PackStore = store_read_chunk env st"
    using assms(4) by (simp add: node_read_chunk_def fun_eq_iff)
  have served: "r = (if list_all has hashes then Inr () else Inl ChunkNotFound)" "dp' = dp"
    "sent = concat (map (\<lambda>h. reply_frame (the (abs_store st h))) (takeWhile has hashes))"
    using assms(8) pack_source.serve_loop_abs [OF assms(2,1,5), of "[]"] assms(3) rd
    by (auto simp: handle_conn_request [OF assms(6)] node_entry_def assms(9))
  have "list_all (\<lambda>h. \<exists>d. abs_store st h = Some d \<and> blake3 d = h \<and> length d < 2 ^ 32) (takeWhile has hashes)"
    using assms(7,9) by (fastforce simp: list_all_iff dest: set_takeWhileD)
  from fetch_loop_frames [OF this, of "dropWhile has hashes" stats_default "[]"] served
  have "fetch_loop blake3 (record_sink (\<lambda>h d. True)) hashes sent stats_default [] =
     (Inr \<lparr>fs_downloaded = length (takeWhile has hashes),
            fs_bytes = (\<Sum>h \<leftarrow> takeWhile has hashes. word_of_nat (length (the (abs_store st h)))),
            fs_failed = dropWhile has hashes\<rparr>,
       map (\<lambda>h. (h, the (abs_store st h))) (takeWhile has hashes))"
    by (simp add: stats_default_def)
  with served show ?thesis by (auto simp: fetch_chunks_def stats_default_def)
qed

theorem transfer_delivers_witness:
  "\<exists>r sent dp'. handle_conn (\<lambda>c h. Inr None) env_std True True (fetch_request 5 [demo_hash 1])
       \<lparr>dp_stores = [5 \<mapsto> PackStore], dp_pack_stores = [5 \<mapsto> indexed (demo_store 5) (demo_hash 1) [7]],
        dp_disk = (\<lambda>g. empty_disk), dp_pack_default = True\<rparr> = (r, sent, dp' :: unit data_plane) \<and>
     snd (fetch_chunks (\<lambda>d. demo_hash 1) (Inr ()) True (\<lambda>_. sent) (record_sink (\<lambda>h d. True)) 5 [demo_hash 1] []) =
       [(demo_hash 1, [7])]"
proof -
  let ?st = "indexed (demo_store 5) (demo_hash 1) [7]"
  let ?dp = "\<lparr>dp_stores = [5 \<mapsto> PackStore], dp_pack_stores = [5 \<mapsto> ?st], dp_disk = (\<lambda>g. empty_disk),
    dp_pack_default = True\<rparr> :: unit data_plane"
  have ok0: "store_ok (demo_store 5)" using store_open_empty [OF demo_open] by (simp add: store_inv_def)
  have ok: "store_ok ?st" and abs: "abs_store ?st = [demo_hash 1 \<mapsto> [7]]"
    using indexed_ok(1,2) [OF ok0, of "[7]" "demo_hash 1"] store_open_empty [OF demo_open, of 5]
    by (simp_all add: demo_store_def)
  have len: "list_all (\<lambda>h. length h = 32) [demo_hash 1]" by (simp add: demo_hash_def)
  have data: "(\<lambda>d. demo_hash 1) d = h \<and> length d < 2 ^ 32" if "abs_store ?st h = Some d" for h d
    using that by (auto simp: abs split: if_splits)
  have env: "env_reads env_std" using env_live_read [OF env_std_live] by (simp add: env_reads_def)
  obtain r sent dp' where run: "handle_conn (\<lambda>c h. Inr None) env_std True True (fetch_request 5 [demo_hash 1]) ?dp = (r, sent, dp')"
    by (metis prod_cases3)
  have "snd (fetch_chunks (\<lambda>d. demo_hash 1) (Inr ()) True (\<lambda>_. sent) (record_sink (\<lambda>h d. True)) 5 [demo_hash 1] []) =
       [(demo_hash 1, [7])]"
    using transfer_delivers [OF ok env _ _ len _ data run refl] by (simp add: abs)
  with run show ?thesis by blast
qed

text \<open>
  C32. The wait for a direct path ends. Each round sleeps 500 ms, so whatever the paths do the
  loop returns, and it returns true exactly when some look at the paths shows a direct one
  while all looks before it showed a relay path and fell before the deadline.
\<close>

theorem wait_for_direct_path_ends:
  assumes "\<And>j. 500 * j \<le> elapsed j"
  shows "wait_for_direct_path check elapsed timeout 0 =
    Some (\<exists>n. fst (check n) \<and> (\<forall>j < n. snd (check j) \<and> elapsed j < timeout))"
  using wait_result [OF assms, where i = 0] by (simp add: direct_found_def)

theorem wait_for_direct_path_ends_witness:
  "wait_for_direct_path (\<lambda>i. (i = 2, True)) (\<lambda>i. 500 * i) 30000 0 =
    Some (\<exists>n. n = 2 \<and> (\<forall>j < n. 500 * j < (30000 :: nat)))"
  using wait_for_direct_path_ends [of "\<lambda>i. 500 * i" "\<lambda>i. (i = 2, True)" 30000] by simp

text \<open>
  The gate for relay-only connections lets everything through. \<open>gate_or_reject\<close> returns
  \<open>Ok\<close> whether or not a direct path is ready, so \<open>handle_conn\<close> serves a connection without one
  exactly as it serves any other, although the module's contract is to refuse it.
\<close>

theorem relay_only_not_rejected:
  "gate_or_reject False = (Inr () :: store_error conn_error + unit) \<and> \<not> allow_data False True \<and>
   handle_conn cafe env False accepted recv dp = handle_conn cafe env True accepted recv dp"
  by (simp add: handle_conn_def gate_or_reject_def reject_relay_only_def allow_data_def)

end
