(* ===== verification/Plane_System.thy ===== *)
theory Plane_System
  imports Data_Path
begin

text \<open>
  A storing node under parallel connections and uploads (\<^verbatim>\<open>accept_loop\<close> and \<^verbatim>\<open>handle_conn\<close> in
  \<^verbatim>\<open>crates/origin/src/datapath.rs\<close>, \<^verbatim>\<open>upload_chunks\<close> and \<^verbatim>\<open>process_upload\<close> in
  \<^verbatim>\<open>crates/origin/src/server.rs\<close>). Every accepted connection and every upload stream is a job of its own;
  the jobs share the map of chunk sources and the map of open block libraries, each behind a
  lock that is held while a job works with an entry of it: a connection holds the lock of the sources
  until it has answered and lingered, an upload holds the lock of the libraries until its stream ends.

  A job is cut where it waits: for bytes of its peer, for a lock, or between two chunks. Which job moves
  next, what the peers send and when they close, and which calls fail is the choice of the
  sequence of events. An item of an upload stream is \<open>None\<close> where the stream fails.
  \<open>jb_sent\<close> collects the frames written completely; the fragment of a frame whose write fails is not recorded.
\<close>

section \<open>Jobs\<close>

datatype plane_error = ConnFailed "store_error conn_error" | SendFailed

datatype 'c phase =
    Idle
  | Header
  | WantStores u64 nat
  | Opening u64 nat
  | Serving u64 nat "'c node_store"
  | Lingering
  | ConnEnd "plane_error + unit"
  | UpFirst
  | WantPacks u64
  | Uploading u64
  | UpEnd

record 'c job =
  jb_phase :: "'c phase"
  jb_recv :: bytes
  jb_items :: "(u64 \<times> bytes \<times> bytes) option list"
  jb_closed :: bool
  jb_game :: u64
  jb_count :: nat
  jb_asked :: "bytes list"
  jb_sent :: bytes
  jb_acks :: "(bytes \<times> bool) list"

definition new_job :: "'c phase \<Rightarrow> 'c job" where
  "new_job ph = \<lparr>jb_phase = ph, jb_recv = [], jb_items = [], jb_closed = False, jb_game = 0, jb_count = 0, jb_asked = [], jb_sent = [], jb_acks = []\<rparr>"

text \<open>The guards: \<open>pl_data\<close> is the job that holds the lock of the sources, \<open>pl_packs\<close> that of the libraries.\<close>

record 'c plane_system =
  pl_plane :: "'c data_plane"
  pl_data :: "nat option"
  pl_packs :: "nat option"
  pl_jobs :: "nat \<Rightarrow> 'c job"
  pl_open :: bool

definition plane_start :: "'c data_plane \<Rightarrow> 'c plane_system" where
  "plane_start dp = \<lparr>pl_plane = dp, pl_data = None, pl_packs = None, pl_jobs = (\<lambda>_. new_job Idle), pl_open = True\<rparr>"

definition put_job :: "nat \<Rightarrow> 'c job \<Rightarrow> 'c plane_system \<Rightarrow> 'c plane_system" where
  "put_job j b s = s\<lparr>pl_jobs := (pl_jobs s)(j := b)\<rparr>"

text \<open>The end of a job drops the guards it holds.\<close>

definition drop_guards :: "nat \<Rightarrow> 'c plane_system \<Rightarrow> 'c plane_system" where
  "drop_guards j s = s\<lparr>pl_data := (if pl_data s = Some j then None else pl_data s),
                       pl_packs := (if pl_packs s = Some j then None else pl_packs s)\<rparr>"

definition end_job :: "nat \<Rightarrow> 'c job \<Rightarrow> 'c phase \<Rightarrow> 'c plane_system \<Rightarrow> 'c plane_system" where
  "end_job j b ph s = drop_guards j (put_job j (b\<lparr>jb_phase := ph\<rparr>) s)"

abbreviation conn_err :: "store_error conn_error \<Rightarrow> 'c phase" where
  "conn_err e \<equiv> ConnEnd (Inl (ConnFailed e))"

section \<open>Steps of a connection\<close>

record go_env =
  ge_pack :: pack_env
  ge_ready :: bool
  ge_accepted :: bool
  ge_send :: bool

text \<open>A read that lacks bytes fails when the peer has closed, and waits otherwise.\<close>

definition header_step :: "go_env \<Rightarrow> nat \<Rightarrow> 'c job \<Rightarrow> 'c plane_system \<Rightarrow> 'c plane_system option" where
  "header_step env j b s =
     (case gate_or_reject (ge_ready env) of
        Inl e \<Rightarrow> Some (end_job j b (conn_err e) s)
      | Inr _ \<Rightarrow>
          if \<not> ge_accepted env then Some (end_job j b (conn_err AcceptFailed) s)
          else case read_exact 8 (jb_recv b) of
            Inl _ \<Rightarrow> if jb_closed b then Some (end_job j b (conn_err ReadGameIdFailed) s) else None
          | Inr (gb, recv1) \<Rightarrow>
              (case read_exact 4 recv1 of
                 Inl _ \<Rightarrow> if jb_closed b then Some (end_job j b (conn_err ReadCountFailed) s) else None
               | Inr (cb, recv2) \<Rightarrow>
                   Some (put_job j (b\<lparr>jb_phase := WantStores (u64_of_be gb) (unat (u32_of_be cb)),
                     jb_game := u64_of_be gb, jb_count := unat (u32_of_be cb), jb_recv := recv2\<rparr>) s)))"

text \<open>The lock of the sources; where the game has no source yet, the lock of the libraries is taken as well.\<close>

definition stores_step :: "nat \<Rightarrow> 'c job \<Rightarrow> u64 \<Rightarrow> nat \<Rightarrow> 'c plane_system \<Rightarrow> 'c plane_system option" where
  "stores_step j b g n s =
     (if pl_data s \<noteq> None then None
      else case dp_stores (pl_plane s) g of
        Some src \<Rightarrow> Some (put_job j (b\<lparr>jb_phase := Serving g n src\<rparr>) (s\<lparr>pl_data := Some j\<rparr>))
      | None \<Rightarrow>
          if \<not> dp_pack_default (pl_plane s) then Some (end_job j b (conn_err GameNotManaged) s)
          else Some (put_job j (b\<lparr>jb_phase := Opening g n\<rparr>) (s\<lparr>pl_data := Some j\<rparr>)))"

definition opening_step :: "go_env \<Rightarrow> nat \<Rightarrow> 'c job \<Rightarrow> u64 \<Rightarrow> nat \<Rightarrow> 'c plane_system \<Rightarrow> 'c plane_system option" where
  "opening_step env j b g n s =
     (if pl_packs s \<noteq> None then None
      else case node_entry (ge_pack env) g (pl_plane s) of
        Inl e \<Rightarrow> Some (end_job j b (conn_err e) s)
      | Inr (src, dp) \<Rightarrow> Some (put_job j (b\<lparr>jb_phase := Serving g n src\<rparr>) (s\<lparr>pl_plane := dp\<rparr>)))"

fun serving_step ::
    "('c \<Rightarrow> bytes \<Rightarrow> store_error + bytes option) \<Rightarrow> go_env \<Rightarrow> nat \<Rightarrow> 'c job \<Rightarrow> u64 \<Rightarrow> nat \<Rightarrow> 'c node_store \<Rightarrow>
     'c plane_system \<Rightarrow> 'c plane_system option" where
  "serving_step cafe env j b g 0 src s =
     (if ge_send env then Some (put_job j (b\<lparr>jb_phase := Lingering\<rparr>) s) else Some (end_job j b (ConnEnd (Inl SendFailed)) s))"
| "serving_step cafe env j b g (Suc n) src s =
     (case read_exact 32 (jb_recv b) of
        Inl _ \<Rightarrow> if jb_closed b then Some (end_job j b (conn_err ReadHashFailed) s) else None
      | Inr (hash, recv) \<Rightarrow>
          (case node_read_chunk cafe (ge_pack env) (pl_plane s) g src hash of
             Inl e \<Rightarrow> Some (end_job j b (conn_err (SourceFailed e)) s)
           | Inr None \<Rightarrow> Some (end_job j b (conn_err ChunkNotFound) s)
           | Inr (Some x) \<Rightarrow>
               if \<not> ge_send env then Some (end_job j b (ConnEnd (Inl SendFailed)) s)
               else Some (put_job j (b\<lparr>jb_phase := Serving g n src, jb_recv := recv,
                      jb_asked := jb_asked b @ [hash], jb_sent := jb_sent b @ reply_frame x\<rparr>) s)))"

section \<open>Steps of an upload\<close>

definition first_step :: "nat \<Rightarrow> 'c job \<Rightarrow> 'c plane_system \<Rightarrow> 'c plane_system option" where
  "first_step j b s =
     (case jb_items b of
        [] \<Rightarrow> if jb_closed b then Some (end_job j b UpEnd s) else None
      | None # _ \<Rightarrow> Some (end_job j b UpEnd s)
      | Some (g, _, _) # _ \<Rightarrow> if g = 0 then Some (end_job j b UpEnd s) else Some (put_job j (b\<lparr>jb_phase := WantPacks g, jb_game := g\<rparr>) s))"

definition packs_step :: "go_env \<Rightarrow> nat \<Rightarrow> 'c job \<Rightarrow> u64 \<Rightarrow> 'c plane_system \<Rightarrow> 'c plane_system option" where
  "packs_step env j b g s =
     (if pl_packs s \<noteq> None then None
      else case dp_pack_stores (pl_plane s) g of
        Some _ \<Rightarrow> Some (put_job j (b\<lparr>jb_phase := Uploading g\<rparr>) (s\<lparr>pl_packs := Some j\<rparr>))
      | None \<Rightarrow>
          (case store_open (ge_pack env) g (dp_disk (pl_plane s) g) of
             Inl _ \<Rightarrow> Some (end_job j b UpEnd s)
           | Inr st \<Rightarrow> Some (put_job j (b\<lparr>jb_phase := Uploading g\<rparr>)
               (s\<lparr>pl_packs := Some j, pl_plane := (pl_plane s)\<lparr>dp_pack_stores := (dp_pack_stores (pl_plane s))(g \<mapsto> st)\<rparr>\<rparr>))))"

definition upload_step :: "(bytes \<Rightarrow> bytes) \<Rightarrow> go_env \<Rightarrow> nat \<Rightarrow> 'c job \<Rightarrow> u64 \<Rightarrow> 'c plane_system \<Rightarrow> 'c plane_system option" where
  "upload_step blake3 env j b g s =
     (case jb_items b of
        [] \<Rightarrow> if jb_closed b then Some (end_job j b UpEnd s) else None
      | None # _ \<Rightarrow> Some (end_job j b UpEnd s)
      | Some (_, hash, x) # items \<Rightarrow>
          if length hash \<noteq> 32 then Some (end_job j b UpEnd s)
          else if blake3 x \<noteq> hash then Some (put_job j (b\<lparr>jb_items := items, jb_acks := jb_acks b @ [(hash, False)]\<rparr>) s)
          else case dp_pack_stores (pl_plane s) g of
            None \<Rightarrow> None
          | Some st \<Rightarrow>
              (case append_chunk (ge_pack env) hash x st of
                 (r, st1) \<Rightarrow>
                   Some (put_job j (b\<lparr>jb_items := items, jb_acks := jb_acks b @ [(hash, \<not> isl r)]\<rparr>)
                     (s\<lparr>pl_plane := (pl_plane s)\<lparr>dp_pack_stores := (dp_pack_stores (pl_plane s))(g \<mapsto> st1)\<rparr>\<rparr>))))"

section \<open>The system\<close>

definition go ::
    "(bytes \<Rightarrow> bytes) \<Rightarrow> ('c \<Rightarrow> bytes \<Rightarrow> store_error + bytes option) \<Rightarrow> go_env \<Rightarrow> nat \<Rightarrow> 'c plane_system \<Rightarrow> 'c plane_system option" where
  "go blake3 cafe env j s =
     (let b = pl_jobs s j in
      case jb_phase b of
        Header \<Rightarrow> header_step env j b s
      | WantStores g n \<Rightarrow> stores_step j b g n s
      | Opening g n \<Rightarrow> opening_step env j b g n s
      | Serving g n src \<Rightarrow> serving_step cafe env j b g n src s
      | Lingering \<Rightarrow> Some (end_job j b (ConnEnd (Inr ())) s)
      | UpFirst \<Rightarrow> first_step j b s
      | WantPacks g \<Rightarrow> packs_step env j b g s
      | Uploading g \<Rightarrow> upload_step blake3 env j b g s
      | _ \<Rightarrow> None)"

text \<open>The accept loop spawns a connection until the shutdown signal; the peers send and close; a job moves.\<close>

datatype plane_event =
    Incoming nat
  | Shutdown
  | UploadArrives nat
  | PeerBytes nat bytes
  | PeerItem nat "(u64 \<times> bytes \<times> bytes) option"
  | PeerCloses nat
  | Go go_env nat

fun plane_step ::
    "(bytes \<Rightarrow> bytes) \<Rightarrow> ('c \<Rightarrow> bytes \<Rightarrow> store_error + bytes option) \<Rightarrow> plane_event \<Rightarrow> 'c plane_system \<Rightarrow> 'c plane_system option" where
  "plane_step blake3 cafe (Incoming j) s =
     (if pl_open s \<and> jb_phase (pl_jobs s j) = Idle then Some (put_job j (new_job Header) s) else None)"
| "plane_step blake3 cafe Shutdown s = Some (s\<lparr>pl_open := False\<rparr>)"
| "plane_step blake3 cafe (UploadArrives j) s =
     (if jb_phase (pl_jobs s j) = Idle then Some (put_job j (new_job UpFirst) s) else None)"
| "plane_step blake3 cafe (PeerBytes j bs) s =
     (let b = pl_jobs s j in if jb_closed b then None else Some (put_job j (b\<lparr>jb_recv := jb_recv b @ bs\<rparr>) s))"
| "plane_step blake3 cafe (PeerItem j it) s =
     (let b = pl_jobs s j in if jb_closed b then None else Some (put_job j (b\<lparr>jb_items := jb_items b @ [it]\<rparr>) s))"
| "plane_step blake3 cafe (PeerCloses j) s = Some (put_job j ((pl_jobs s j)\<lparr>jb_closed := True\<rparr>) s)"
| "plane_step blake3 cafe (Go env j) s = go blake3 cafe env j s"

fun plane_run ::
    "(bytes \<Rightarrow> bytes) \<Rightarrow> ('c \<Rightarrow> bytes \<Rightarrow> store_error + bytes option) \<Rightarrow> plane_event list \<Rightarrow> 'c plane_system \<Rightarrow> 'c plane_system option" where
  "plane_run blake3 cafe [] s = Some s"
| "plane_run blake3 cafe (e # es) s = Option.bind (plane_step blake3 cafe e s) (plane_run blake3 cafe es)"

section \<open>Invariant\<close>

text \<open>What a node that serves block libraries holds for a game.\<close>

definition held :: "'c data_plane \<Rightarrow> u64 \<Rightarrow> bytes \<rightharpoonup> bytes" where
  "held dp g = (case dp_pack_stores dp g of None \<Rightarrow> Map.empty | Some st \<Rightarrow> abs_store st)"

definition pack_node :: "'c data_plane \<Rightarrow> bool" where
  "pack_node dp \<longleftrightarrow> dp_pack_default dp \<and> (\<forall>g src. dp_stores dp g = Some src \<longrightarrow> src = PackStore \<and> dp_pack_stores dp g \<noteq> None) \<and>
     (\<forall>g st. dp_pack_stores dp g = Some st \<longrightarrow> store_ok st) \<and> (\<forall>env g st. store_open env g (dp_disk dp g) = Inr st \<longrightarrow> store_ok st)"

definition grows :: "'c data_plane \<Rightarrow> 'c data_plane \<Rightarrow> bool" where
  "grows dp dp' \<longleftrightarrow> (\<forall>g h x. held dp g h = Some x \<longrightarrow> held dp' g h = Some x) \<and>
     (\<forall>g. dp_pack_stores dp g \<noteq> None \<longrightarrow> dp_pack_stores dp' g \<noteq> None)"

definition answered :: "'c data_plane \<Rightarrow> 'c job \<Rightarrow> bool" where
  "answered dp b \<longleftrightarrow> (\<exists>xs. jb_sent b = concat (map reply_frame xs) \<and> list_all2 (\<lambda>h x. held dp (jb_game b) h = Some x) (jb_asked b) xs)"

definition phase_ok :: "'c data_plane \<Rightarrow> 'c job \<Rightarrow> bool" where
  "phase_ok dp b = (case jb_phase b of
     Idle \<Rightarrow> jb_asked b = [] \<and> jb_acks b = []
   | Header \<Rightarrow> jb_asked b = [] \<and> jb_acks b = []
   | WantStores g n \<Rightarrow> g = jb_game b \<and> jb_asked b = [] \<and> n = jb_count b
   | Opening g n \<Rightarrow> g = jb_game b \<and> jb_asked b = [] \<and> n = jb_count b
   | Serving g n src \<Rightarrow> g = jb_game b \<and> src = PackStore \<and> dp_pack_stores dp g \<noteq> None \<and> length (jb_asked b) + n = jb_count b
   | Lingering \<Rightarrow> length (jb_asked b) = jb_count b
   | ConnEnd r \<Rightarrow> (r = Inr () \<longrightarrow> length (jb_asked b) = jb_count b)
   | UpFirst \<Rightarrow> jb_asked b = [] \<and> jb_acks b = []
   | WantPacks g \<Rightarrow> g = jb_game b
   | Uploading g \<Rightarrow> g = jb_game b \<and> dp_pack_stores dp g \<noteq> None
   | UpEnd \<Rightarrow> True)"

definition acked :: "'c data_plane \<Rightarrow> 'c job \<Rightarrow> bool" where
  "acked dp b \<longleftrightarrow> (\<forall>h. (h, True) \<in> set (jb_acks b) \<longrightarrow> held dp (jb_game b) h \<noteq> None)"

definition job_ok :: "'c data_plane \<Rightarrow> 'c job \<Rightarrow> bool" where
  "job_ok dp b \<longleftrightarrow> answered dp b \<and> phase_ok dp b \<and> acked dp b"

fun holds_data :: "'c phase \<Rightarrow> bool" where
  "holds_data (Opening g n) = True"
| "holds_data (Serving g n src) = True"
| "holds_data Lingering = True"
| "holds_data ph = False"

fun holds_packs :: "'c phase \<Rightarrow> bool" where
  "holds_packs (Uploading g) = True"
| "holds_packs ph = False"

definition plane_inv :: "'c plane_system \<Rightarrow> bool" where
  "plane_inv s \<longleftrightarrow> pack_node (pl_plane s) \<and> (\<forall>j. job_ok (pl_plane s) (pl_jobs s j)) \<and>
     (\<forall>j. pl_data s = Some j \<longleftrightarrow> holds_data (jb_phase (pl_jobs s j))) \<and>
     (\<forall>j. pl_packs s = Some j \<longleftrightarrow> holds_packs (jb_phase (pl_jobs s j)))"

lemma grows_refl: "grows dp dp"
  by (simp add: grows_def)

lemma grows_trans: "grows a b \<Longrightarrow> grows b c \<Longrightarrow> grows a c"
  unfolding grows_def by blast

lemma job_ok_grows:
  assumes "job_ok dp b" "grows dp dp'"
  shows "job_ok dp' b"
proof -
  obtain xs where xs: "jb_sent b = concat (map reply_frame xs)" "list_all2 (\<lambda>h x. held dp (jb_game b) h = Some x) (jb_asked b) xs"
    using assms(1) by (auto simp: job_ok_def answered_def)
  have "list_all2 (\<lambda>h x. held dp' (jb_game b) h = Some x) (jb_asked b) xs"
    by (rule list_all2_mono [OF xs(2)]) (use assms(2) in \<open>simp add: grows_def\<close>)
  with xs(1) have "answered dp' b" by (auto simp: answered_def)
  moreover have "phase_ok dp' b" using assms by (auto simp: job_ok_def phase_ok_def grows_def split: phase.splits)
  moreover have "acked dp' b" using assms unfolding job_ok_def acked_def grows_def by (metis not_Some_eq)
  ultimately show ?thesis by (simp add: job_ok_def)
qed

lemma job_ok_cong:
  "jb_phase b' = jb_phase b \<Longrightarrow> jb_game b' = jb_game b \<Longrightarrow> jb_count b' = jb_count b \<Longrightarrow> jb_asked b' = jb_asked b \<Longrightarrow>
     jb_sent b' = jb_sent b \<Longrightarrow> jb_acks b' = jb_acks b \<Longrightarrow> job_ok dp b \<Longrightarrow> job_ok dp b'"
  by (cases "jb_phase b") (auto simp: job_ok_def answered_def phase_ok_def acked_def)

text \<open>Replacing one job, with the guards that follow from its phase.\<close>

definition guard :: "bool \<Rightarrow> nat \<Rightarrow> nat option \<Rightarrow> nat option" where
  "guard hold j l = (if hold then Some j else if l = Some j then None else l)"

definition moved :: "nat \<Rightarrow> 'c job \<Rightarrow> 'c data_plane \<Rightarrow> 'c plane_system \<Rightarrow> 'c plane_system" where
  "moved j b dp s = s\<lparr>pl_plane := dp, pl_jobs := (pl_jobs s)(j := b), pl_data := guard (holds_data (jb_phase b)) j (pl_data s),
     pl_packs := guard (holds_packs (jb_phase b)) j (pl_packs s)\<rparr>"

lemma guard_iff:
  assumes "\<forall>i. l = Some i \<longleftrightarrow> P i" "hold \<longrightarrow> l = None \<or> l = Some j"
  shows "(guard hold j l = Some i) = (if i = j then hold else P i)"
  using assms(2) unfolding guard_def assms(1) [rule_format, symmetric] by auto

lemma moved_inv:
  assumes "plane_inv s" "pack_node dp" "grows (pl_plane s) dp" "job_ok dp b"
    and "holds_data (jb_phase b) \<longrightarrow> pl_data s = None \<or> pl_data s = Some j"
    and "holds_packs (jb_phase b) \<longrightarrow> pl_packs s = None \<or> pl_packs s = Some j"
  shows "plane_inv (moved j b dp s)"
proof -
  have inv: "\<forall>i. pl_data s = Some i \<longleftrightarrow> holds_data (jb_phase (pl_jobs s i))" "\<forall>i. pl_packs s = Some i \<longleftrightarrow> holds_packs (jb_phase (pl_jobs s i))"
    and ok: "job_ok (pl_plane s) (pl_jobs s i)" for i
    using assms(1) by (auto simp: plane_inv_def)
  show ?thesis
    using assms(2,4) job_ok_grows [OF ok assms(3)] guard_iff [OF inv(1) assms(5)] guard_iff [OF inv(2) assms(6)]
    by (auto simp: plane_inv_def moved_def)
qed

lemma end_job_moved:
  "\<not> holds_data ph \<Longrightarrow> \<not> holds_packs ph \<Longrightarrow> end_job j b ph s = moved j (b\<lparr>jb_phase := ph\<rparr>) (pl_plane s) s"
  by (simp add: end_job_def drop_guards_def put_job_def moved_def guard_def)

lemma put_job_moved:
  assumes "guard (holds_data (jb_phase b)) j (pl_data s) = pl_data s" "guard (holds_packs (jb_phase b)) j (pl_packs s) = pl_packs s"
  shows "put_job j b s = moved j b (pl_plane s) s"
  using assms by (simp add: put_job_def moved_def)

text \<open>A good move: one job is replaced by a good one, and the node only grows.\<close>

definition good_move :: "nat \<Rightarrow> 'c plane_system \<Rightarrow> 'c plane_system \<Rightarrow> bool" where
  "good_move j s s' \<longleftrightarrow> (\<exists>b dp. s' = moved j b dp s \<and> pack_node dp \<and> grows (pl_plane s) dp \<and> job_ok dp b \<and>
     (holds_data (jb_phase b) \<longrightarrow> pl_data s = None \<or> pl_data s = Some j) \<and>
     (holds_packs (jb_phase b) \<longrightarrow> pl_packs s = None \<or> pl_packs s = Some j))"

lemma good_moveI:
  assumes "plane_inv s" "s' = moved j b dp s" "pack_node dp" "grows (pl_plane s) dp" "job_ok dp b"
    and "holds_data (jb_phase b) \<longrightarrow> pl_data s = None \<or> pl_data s = Some j"
    and "holds_packs (jb_phase b) \<longrightarrow> pl_packs s = None \<or> pl_packs s = Some j"
  shows "good_move j s s'"
  using assms by (auto simp: good_move_def)

lemma good_move_inv: "plane_inv s \<Longrightarrow> good_move j s s' \<Longrightarrow> plane_inv s' \<and> grows (pl_plane s) (pl_plane s')"
  using moved_inv by (fastforce simp: good_move_def moved_def)

lemma inv_jobD:
  assumes "plane_inv s"
  shows "pack_node (pl_plane s)" "job_ok (pl_plane s) (pl_jobs s j)"
    "holds_data (jb_phase (pl_jobs s j)) \<longleftrightarrow> pl_data s = Some j" "holds_packs (jb_phase (pl_jobs s j)) \<longleftrightarrow> pl_packs s = Some j"
  using assms by (simp_all add: plane_inv_def)

lemma good_end:
  assumes "plane_inv s" "b = pl_jobs s j" "ph \<in> range ConnEnd \<union> {UpEnd}" "ph = ConnEnd (Inr ()) \<longrightarrow> jb_phase b = Lingering"
  shows "good_move j s (end_job j b ph s)"
proof (rule good_moveI [OF assms(1)])
  have ph: "\<not> holds_data ph" "\<not> holds_packs ph" using assms(3) by auto
  then show "end_job j b ph s = moved j (b\<lparr>jb_phase := ph\<rparr>) (pl_plane s) s" by (rule end_job_moved)
  show "job_ok (pl_plane s) (b\<lparr>jb_phase := ph\<rparr>)"
    using inv_jobD(2) [OF assms(1), of j] assms(2-4)
    by (auto simp: job_ok_def answered_def acked_def phase_ok_def)
qed (use inv_jobD [OF assms(1)] assms(3) grows_refl in \<open>auto simp: holds_data.simps\<close>)

lemma good_put:
  assumes "plane_inv s" "job_ok (pl_plane s) b"
    and "holds_data (jb_phase b) = holds_data (jb_phase (pl_jobs s j))" "holds_packs (jb_phase b) = holds_packs (jb_phase (pl_jobs s j))"
  shows "good_move j s (put_job j b s)"
proof (rule good_moveI [OF assms(1)])
  show "put_job j b s = moved j b (pl_plane s) s"
    by (rule put_job_moved) (use inv_jobD(3,4) [OF assms(1), of j] assms(3,4) in \<open>auto simp: guard_def\<close>)
qed (use assms inv_jobD [OF assms(1)] grows_refl in auto)

lemma header_step_good:
  assumes "plane_inv s" "b = pl_jobs s j" "jb_phase b = Header" "header_step env j b s = Some s'"
  shows "good_move j s s'"
proof -
  have b: "job_ok (pl_plane s) b" "jb_asked b = []" "jb_acks b = []" "jb_sent b = []"
    using inv_jobD(2) [OF assms(1), of j] assms(2,3) by (auto simp: job_ok_def phase_ok_def answered_def)
  have put: "good_move j s (put_job j (b\<lparr>jb_phase := WantStores g n, jb_game := g, jb_count := n, jb_recv := r\<rparr>) s)" for g n r
    by (rule good_put [OF assms(1)])
      (use b assms(2,3) in \<open>auto simp: job_ok_def answered_def phase_ok_def acked_def\<close>)
  have stop: "good_move j s (end_job j b (conn_err e) s)" for e
    by (rule good_end [OF assms(1,2)]) auto
  show ?thesis
    using assms(4) put stop by (auto simp: header_step_def split: sum.splits if_splits prod.splits)
qed

lemma stores_step_good:
  assumes "plane_inv s" "b = pl_jobs s j" "jb_phase b = WantStores g n" "stores_step j b g n s = Some s'"
  shows "good_move j s s'"
proof -
  have b: "job_ok (pl_plane s) b" "jb_asked b = []" "g = jb_game b" "n = jb_count b" "\<not> holds_packs (jb_phase b)"
    using inv_jobD(2) [OF assms(1), of j] assms(2,3) by (auto simp: job_ok_def phase_ok_def)
  have free: "pl_data s = None" using assms(4) by (auto simp: stores_step_def split: if_splits)
  have packs: "pl_packs s \<noteq> Some j" using inv_jobD(4) [OF assms(1), of j] b(5) assms(2) by simp
  have take: "good_move j s (put_job j (b\<lparr>jb_phase := ph\<rparr>) (s\<lparr>pl_data := Some j\<rparr>))"
    if "ph = Opening g n \<or> ph = Serving g n PackStore \<and> dp_pack_stores (pl_plane s) g \<noteq> None" for ph
  proof (rule good_moveI [OF assms(1)])
    show "put_job j (b\<lparr>jb_phase := ph\<rparr>) (s\<lparr>pl_data := Some j\<rparr>) = moved j (b\<lparr>jb_phase := ph\<rparr>) (pl_plane s) s"
      using that packs by (auto simp: put_job_def moved_def guard_def)
    show "job_ok (pl_plane s) (b\<lparr>jb_phase := ph\<rparr>)"
      using that b by (auto simp: job_ok_def answered_def acked_def phase_ok_def)
  qed (use that free inv_jobD(1) [OF assms(1)] grows_refl in auto)
  have node: "dp_pack_default (pl_plane s)" "dp_stores (pl_plane s) g = Some src \<Longrightarrow> src = PackStore \<and> dp_pack_stores (pl_plane s) g \<noteq> None" for src
    using inv_jobD(1) [OF assms(1)] by (auto simp: pack_node_def)
  show ?thesis
    using assms(4) free node take by (auto simp: stores_step_def split: option.splits)
qed

lemma held_insert:
  "dp_pack_stores dp' = (dp_pack_stores dp)(g \<mapsto> st) \<Longrightarrow> held dp' g' = (if g' = g then abs_store st else held dp g')"
  by (auto simp: held_def)

lemma open_grows:
  assumes "dp_pack_stores dp g = None" "dp_pack_stores dp' = (dp_pack_stores dp)(g \<mapsto> st)"
  shows "grows dp dp'"
  using assms held_insert [OF assms(2)] by (auto simp: grows_def held_def)

lemma opening_step_good:
  assumes "plane_inv s" "b = pl_jobs s j" "jb_phase b = Opening g n" "opening_step env j b g n s = Some s'"
  shows "good_move j s s'"
proof -
  let ?dp = "pl_plane s"
  have b: "job_ok ?dp b" "jb_asked b = []" "g = jb_game b" "n = jb_count b"
    using inv_jobD(2) [OF assms(1), of j] assms(2,3) by (auto simp: job_ok_def phase_ok_def)
  have lock: "pl_data s = Some j" "pl_packs s = None"
    using inv_jobD(3) [OF assms(1), of j] assms(2-4) by (auto simp: opening_step_def split: if_splits)
  have node: "pack_node ?dp" by (rule inv_jobD(1) [OF assms(1)])
  show ?thesis
  proof (cases "node_entry (ge_pack env) g ?dp :: store_error conn_error + 'a node_store \<times> 'a data_plane")
    case (Inl e)
    with assms(4) lock(2) have "s' = end_job j b (conn_err e) s" by (simp add: opening_step_def)
    with good_end [OF assms(1,2)] show ?thesis by auto
  next
    case (Inr p)
    obtain src dp where p: "p = (src, dp)" by fastforce
    have s': "s' = put_job j (b\<lparr>jb_phase := Serving g n src\<rparr>) (s\<lparr>pl_plane := dp\<rparr>)"
      using assms(4) lock(2) Inr p by (simp add: opening_step_def)
    have entry: "src = PackStore \<and> dp_pack_stores dp g \<noteq> None \<and> pack_node dp \<and> grows ?dp dp"
    proof (cases "dp_stores ?dp g")
      case (Some x)
      with Inr p node show ?thesis by (auto simp: node_entry_def pack_node_def grows_refl)
    next
      case None
      show ?thesis
      proof (cases "dp_pack_stores ?dp g")
        case (Some st)
        with None Inr p node have "src = PackStore" "dp = ?dp\<lparr>dp_stores := (dp_stores ?dp)(g \<mapsto> PackStore)\<rparr>"
          by (auto simp: node_entry_def pack_node_def)
        with node Some show ?thesis by (auto simp: pack_node_def grows_def held_def)
      next
        case vacant: None
        with None Inr p node obtain st where st: "store_open (ge_pack env) g (dp_disk ?dp g) = Inr st" "src = PackStore"
            "dp = ?dp\<lparr>dp_pack_stores := (dp_pack_stores ?dp)(g \<mapsto> st), dp_stores := (dp_stores ?dp)(g \<mapsto> PackStore)\<rparr>"
          by (auto simp: node_entry_def pack_node_def split: sum.splits)
        have "store_ok st" using node st(1) by (auto simp: pack_node_def)
        with node st vacant open_grows [OF vacant, of dp st] show ?thesis by (auto simp: pack_node_def)
      qed
    qed
    show ?thesis
    proof (rule good_moveI [OF assms(1)])
      show "s' = moved j (b\<lparr>jb_phase := Serving g n src\<rparr>) dp s" using s' lock by (auto simp: put_job_def moved_def guard_def)
      show "job_ok dp (b\<lparr>jb_phase := Serving g n src\<rparr>)"
        using job_ok_grows [OF b(1), of dp] b entry by (auto simp: job_ok_def answered_def acked_def phase_ok_def)
    qed (use entry lock in auto)
  qed
qed

lemma read_is_held:
  assumes "node_read_chunk cafe env dp g PackStore h = Inr (Some x)"
  shows "held dp g h = Some x"
  using assms
  by (auto simp: node_read_chunk_def held_def store_read_chunk_def abs_store_def value_bytes_def dest!: read_exact_at_Inr
      split: option.splits if_splits sum.splits prod.splits)

lemma serving_step_good:
  assumes "plane_inv s" "b = pl_jobs s j" "jb_phase b = Serving g n src" "serving_step cafe env j b g n src s = Some s'"
  shows "good_move j s s'"
proof -
  have b: "job_ok (pl_plane s) b" "g = jb_game b" "src = PackStore" "dp_pack_stores (pl_plane s) g \<noteq> None" "length (jb_asked b) + n = jb_count b"
    using inv_jobD(2) [OF assms(1), of j] assms(2,3) by (auto simp: job_ok_def phase_ok_def)
  have stop: "good_move j s (end_job j b (ConnEnd (Inl e)) s)" for e
    by (rule good_end [OF assms(1,2)]) auto
  show ?thesis
  proof (cases n)
    case 0
    have "good_move j s (put_job j (b\<lparr>jb_phase := Lingering\<rparr>) s)"
      by (rule good_put [OF assms(1)]) (use b 0 assms(2,3) in \<open>auto simp: job_ok_def answered_def phase_ok_def acked_def\<close>)
    with 0 assms(4) stop show ?thesis by (auto split: if_splits)
  next
    case (Suc m)
    have "good_move j s (put_job j (b\<lparr>jb_phase := Serving g m src, jb_recv := r, jb_asked := jb_asked b @ [h], jb_sent := jb_sent b @ reply_frame x\<rparr>) s)"
      if "node_read_chunk cafe (ge_pack env) (pl_plane s) g src h = Inr (Some x)" for r h x
    proof (rule good_put [OF assms(1)])
      obtain xs where "jb_sent b = concat (map reply_frame xs)" "list_all2 (\<lambda>h x. held (pl_plane s) (jb_game b) h = Some x) (jb_asked b) xs"
        using b(1) by (auto simp: job_ok_def answered_def)
      moreover have "held (pl_plane s) g h = Some x" using read_is_held that b(3) by blast
      ultimately have "answered (pl_plane s) (b\<lparr>jb_phase := Serving g m src, jb_recv := r, jb_asked := jb_asked b @ [h], jb_sent := jb_sent b @ reply_frame x\<rparr>)"
        unfolding answered_def using b(2) by (intro exI [of _ "xs @ [x]"]) (simp add: list_all2_appendI)
      then show "job_ok (pl_plane s) (b\<lparr>jb_phase := Serving g m src, jb_recv := r, jb_asked := jb_asked b @ [h], jb_sent := jb_sent b @ reply_frame x\<rparr>)"
        using b Suc by (simp add: job_ok_def phase_ok_def acked_def)
    qed (use assms(2,3) in auto)
    with Suc assms(4) stop show ?thesis by (auto split: sum.splits if_splits prod.splits option.splits)
  qed
qed

lemma first_step_good:
  assumes "plane_inv s" "b = pl_jobs s j" "jb_phase b = UpFirst" "first_step j b s = Some s'"
  shows "good_move j s s'"
proof -
  have b: "job_ok (pl_plane s) b" "jb_asked b = []" "jb_acks b = []" "jb_sent b = []"
    using inv_jobD(2) [OF assms(1), of j] assms(2,3) by (auto simp: job_ok_def phase_ok_def answered_def)
  have "good_move j s (put_job j (b\<lparr>jb_phase := WantPacks g, jb_game := g\<rparr>) s)" for g
    by (rule good_put [OF assms(1)]) (use b assms(2,3) in \<open>auto simp: job_ok_def answered_def phase_ok_def acked_def\<close>)
  moreover have "good_move j s (end_job j b UpEnd s)" by (rule good_end [OF assms(1,2)]) auto
  ultimately show ?thesis using assms(4) by (auto simp: first_step_def split: list.splits option.splits if_splits)
qed

lemma packs_step_good:
  assumes "plane_inv s" "b = pl_jobs s j" "jb_phase b = WantPacks g" "packs_step env j b g s = Some s'"
  shows "good_move j s s'"
proof -
  let ?dp = "pl_plane s"
  have b: "job_ok ?dp b" "g = jb_game b" "\<not> holds_data (jb_phase b)"
    using inv_jobD(2) [OF assms(1), of j] assms(2,3) by (auto simp: job_ok_def phase_ok_def)
  have free: "pl_packs s = None" "pl_data s \<noteq> Some j"
    using assms(4) inv_jobD(3) [OF assms(1), of j] b(3) assms(2) by (auto simp: packs_step_def split: if_splits)
  have take: "good_move j s (put_job j (b\<lparr>jb_phase := Uploading g\<rparr>) (s\<lparr>pl_packs := Some j, pl_plane := dp\<rparr>))"
    if "pack_node dp" "grows ?dp dp" "dp_pack_stores dp g \<noteq> None" for dp
  proof (rule good_moveI [OF assms(1) _ that(1,2)])
    show "put_job j (b\<lparr>jb_phase := Uploading g\<rparr>) (s\<lparr>pl_packs := Some j, pl_plane := dp\<rparr>) = moved j (b\<lparr>jb_phase := Uploading g\<rparr>) dp s"
      using free by (auto simp: put_job_def moved_def guard_def)
    show "job_ok dp (b\<lparr>jb_phase := Uploading g\<rparr>)"
      using job_ok_grows [OF b(1) that(2)] that(3) b(2) by (auto simp: job_ok_def answered_def acked_def phase_ok_def)
  qed (use free in auto)
  have node: "pack_node ?dp" by (rule inv_jobD(1) [OF assms(1)])
  show ?thesis
  proof (cases "dp_pack_stores ?dp g")
    case (Some st)
    then show ?thesis using assms(4) free(1) take [OF node grows_refl] by (simp add: packs_step_def)
  next
    case None
    have opened: "pack_node (?dp\<lparr>dp_pack_stores := (dp_pack_stores ?dp)(g \<mapsto> st)\<rparr>) \<and> grows ?dp (?dp\<lparr>dp_pack_stores := (dp_pack_stores ?dp)(g \<mapsto> st)\<rparr>)"
      if "store_open (ge_pack env) g (dp_disk ?dp g) = Inr st" for st
    proof -
      have "store_ok st" using node that by (auto simp: pack_node_def)
      with node open_grows [OF None, of "?dp\<lparr>dp_pack_stores := (dp_pack_stores ?dp)(g \<mapsto> st)\<rparr>" st] show ?thesis by (auto simp: pack_node_def)
    qed
    have "good_move j s (end_job j b UpEnd s)" by (rule good_end [OF assms(1,2)]) auto
    with assms(4) free(1) None take opened show ?thesis by (auto simp: packs_step_def split: sum.splits)
  qed
qed

text \<open>The next append of the events fits into a pack file of four GiB.\<close>

definition room :: "plane_event \<Rightarrow> 'c plane_system \<Rightarrow> bool" where
  "room e s = (case e of
     Go env j \<Rightarrow> (case jb_phase (pl_jobs s j) of
        Uploading g \<Rightarrow> (case (jb_items (pl_jobs s j), dp_pack_stores (pl_plane s) g) of
           (Some (_, _, x) # _, Some st) \<Rightarrow> unat (gs_size st) + length x < 2 ^ 32
         | _ \<Rightarrow> True)
      | _ \<Rightarrow> True)
   | _ \<Rightarrow> True)"

lemma upload_step_good:
  assumes "plane_inv s" "b = pl_jobs s j" "jb_phase b = Uploading g" "upload_step blake3 env j b g s = Some s'" "room (Go env j) s"
  shows "good_move j s s'"
proof -
  let ?dp = "pl_plane s"
  have b: "job_ok ?dp b" "g = jb_game b" and node: "pack_node ?dp"
    using inv_jobD(1) [OF assms(1)] inv_jobD(2) [OF assms(1), of j] assms(2,3) by (auto simp: job_ok_def phase_ok_def)
  have lock: "pl_packs s = Some j" "pl_data s \<noteq> Some j" using inv_jobD(3,4) [OF assms(1), of j] assms(2,3) by auto
  have stop: "good_move j s (end_job j b UpEnd s)" by (rule good_end [OF assms(1,2)]) auto
  show ?thesis
  proof (cases "\<exists>g' h x its. jb_items b = Some (g', h, x) # its \<and> length h = 32")
    case False
    with assms(4) stop show ?thesis by (auto simp: upload_step_def split: list.splits option.splits if_splits)
  next
    case True
    then obtain g' h x its where it: "jb_items b = Some (g', h, x) # its" "length h = 32" by blast
    obtain st where st: "dp_pack_stores ?dp g = Some st" using inv_jobD(2) [OF assms(1), of j] assms(2,3) by (auto simp: job_ok_def phase_ok_def)
    show ?thesis
    proof (cases "blake3 x = h")
      case False
      have "good_move j s (put_job j (b\<lparr>jb_items := its, jb_acks := jb_acks b @ [(h, False)]\<rparr>) s)"
        by (rule good_put [OF assms(1)]) (use b assms(2,3) in \<open>auto simp: job_ok_def answered_def phase_ok_def acked_def\<close>)
      with assms(4) it False show ?thesis by (simp add: upload_step_def)
    next
      case True
      obtain r st1 where app: "append_chunk (ge_pack env) h x st = (r, st1)" by fastforce
      let ?dp1 = "?dp\<lparr>dp_pack_stores := (dp_pack_stores ?dp)(g \<mapsto> st1)\<rparr>" and ?b = "b\<lparr>jb_items := its, jb_acks := jb_acks b @ [(h, \<not> isl r)]\<rparr>"
      have ok: "store_ok st" using node st by (auto simp: pack_node_def)
      have "unat (gs_size st) + length x < 2 ^ 32" using assms(2,3,5) it st by (simp add: room_def)
      note out = append_chunk_outcome [OF ok this app]
      have g1: "grows ?dp ?dp1" using out st held_insert [of ?dp1 ?dp g st1] by (auto simp: grows_def held_def)
      have held1: "held ?dp1 g = abs_store st1" by (simp add: held_def)
      show ?thesis
      proof (rule good_moveI [OF assms(1) _ _ g1])
        show "s' = moved j ?b ?dp1 s"
          using assms(4) it True st app lock by (auto simp: upload_step_def put_job_def moved_def guard_def assms(3))
        show "pack_node ?dp1" using node out by (auto simp: pack_node_def)
        show "job_ok ?dp1 ?b"
          using job_ok_grows [OF b(1) g1] b(2) out held1
          by (cases r) (auto simp: job_ok_def answered_def acked_def phase_ok_def assms(3))
      qed (use lock assms(3) in auto)
    qed
  qed
qed

lemmas steps_good = header_step_good stores_step_good opening_step_good serving_step_good first_step_good packs_step_good upload_step_good

lemma go_good:
  assumes "plane_inv s" "go blake3 cafe env j s = Some s'" "room (Go env j) s"
  shows "good_move j s s'"
proof (cases "jb_phase (pl_jobs s j)")
  case Lingering
  with assms(2) have "s' = end_job j (pl_jobs s j) (ConnEnd (Inr ())) s" by (simp add: go_def)
  with good_end [OF assms(1) refl, of "ConnEnd (Inr ())" j] Lingering show ?thesis by auto
qed (use assms steps_good [OF assms(1) refl] in \<open>simp_all add: go_def Let_def\<close>)

lemma plane_step_inv:
  assumes "plane_inv s" "plane_step blake3 cafe e s = Some s'" "room e s"
  shows "plane_inv s' \<and> grows (pl_plane s) (pl_plane s')"
proof -
  have ok: "job_ok (pl_plane s) (pl_jobs s j)" for j using assms(1) by (rule inv_jobD)
  have fresh: "job_ok (pl_plane s) (new_job Header)" "job_ok (pl_plane s) (new_job UpFirst)"
    by (simp_all add: job_ok_def answered_def phase_ok_def acked_def new_job_def)
  show ?thesis
  proof (cases e)
    case (Incoming j)
    with assms(2) good_move_inv [OF assms(1) good_put [OF assms(1) fresh(1)], of j] show ?thesis
      by (auto simp: new_job_def split: if_splits)
  next
    case (UploadArrives j)
    with assms(2) good_move_inv [OF assms(1) good_put [OF assms(1) fresh(2)], of j] show ?thesis
      by (auto simp: new_job_def split: if_splits)
  next
    case Shutdown
    with assms(1,2) show ?thesis by (auto simp: plane_inv_def grows_refl)
  next
    case (Go env j)
    with assms have "good_move j s s'" by (auto intro: go_good)
    with good_move_inv [OF assms(1)] show ?thesis by blast
  next
    case (PeerBytes j bs)
    have "job_ok (pl_plane s) ((pl_jobs s j)\<lparr>jb_recv := jb_recv (pl_jobs s j) @ bs\<rparr>)"
      by (rule job_ok_cong [OF _ _ _ _ _ _ ok]) simp_all
    with PeerBytes assms(2) good_move_inv [OF assms(1) good_put [OF assms(1)]] show ?thesis by (auto simp: Let_def split: if_splits)
  next
    case (PeerItem j it)
    have "job_ok (pl_plane s) ((pl_jobs s j)\<lparr>jb_items := jb_items (pl_jobs s j) @ [it]\<rparr>)"
      by (rule job_ok_cong [OF _ _ _ _ _ _ ok]) simp_all
    with PeerItem assms(2) good_move_inv [OF assms(1) good_put [OF assms(1)]] show ?thesis by (auto simp: Let_def split: if_splits)
  next
    case (PeerCloses j)
    have "job_ok (pl_plane s) ((pl_jobs s j)\<lparr>jb_closed := True\<rparr>)"
      by (rule job_ok_cong [OF _ _ _ _ _ _ ok]) simp_all
    with PeerCloses assms(2) good_move_inv [OF assms(1) good_put [OF assms(1)]] show ?thesis by auto
  qed
qed

fun roomy :: "(bytes \<Rightarrow> bytes) \<Rightarrow> ('c \<Rightarrow> bytes \<Rightarrow> store_error + bytes option) \<Rightarrow> plane_event list \<Rightarrow> 'c plane_system \<Rightarrow> bool" where
  "roomy blake3 cafe [] s = True"
| "roomy blake3 cafe (e # es) s = (room e s \<and> (case plane_step blake3 cafe e s of None \<Rightarrow> True | Some s1 \<Rightarrow> roomy blake3 cafe es s1))"

lemma plane_run_inv:
  "plane_inv s \<Longrightarrow> plane_run blake3 cafe es s = Some s' \<Longrightarrow> roomy blake3 cafe es s \<Longrightarrow> plane_inv s' \<and> grows (pl_plane s) (pl_plane s')"
proof (induction es arbitrary: s)
  case (Cons e es)
  then obtain s1 where s1: "plane_step blake3 cafe e s = Some s1" "plane_run blake3 cafe es s1 = Some s'" by (auto simp: bind_eq_Some_conv)
  with Cons plane_step_inv [OF Cons.prems(1) s1(1)] show ?case by (auto intro: grows_trans)
qed (auto simp: grows_refl)

text \<open>Verified data: every chunk the node holds, or opens from its disk, has the digest under which it is kept.\<close>

definition digests :: "(bytes \<Rightarrow> bytes) \<Rightarrow> (bytes \<rightharpoonup> bytes) \<Rightarrow> bool" where
  "digests blake3 m \<longleftrightarrow> (\<forall>h x. m h = Some x \<longrightarrow> blake3 x = h)"

definition verified :: "(bytes \<Rightarrow> bytes) \<Rightarrow> 'c data_plane \<Rightarrow> bool" where
  "verified blake3 dp \<longleftrightarrow> (\<forall>g. digests blake3 (held dp g)) \<and>
     (\<forall>env g st. store_open env g (dp_disk dp g) = Inr st \<longrightarrow> digests blake3 (abs_store st))"

lemma verified_insert:
  assumes "verified blake3 dp" "digests blake3 (abs_store st)" "dp_pack_stores dp' = (dp_pack_stores dp)(g \<mapsto> st)" "dp_disk dp' = dp_disk dp"
  shows "verified blake3 dp'"
  using assms held_insert [OF assms(3)] by (auto simp: verified_def)

lemma verified_node_entry:
  assumes "verified blake3 dp" "(node_entry env g dp :: 'e conn_error + _) = Inr (src, dp')"
  shows "verified blake3 dp'"
proof (cases "dp_stores dp g = None \<and> dp_pack_stores dp g = None")
  case True
  with assms(2) obtain st where "store_open env g (dp_disk dp g) = Inr st" "dp_pack_stores dp' = (dp_pack_stores dp)(g \<mapsto> st)" "dp_disk dp' = dp_disk dp"
    by (auto simp: node_entry_def split: if_splits sum.splits)
  moreover from this(1) have "digests blake3 (abs_store st)" using assms(1) by (auto simp: verified_def)
  ultimately show ?thesis by (intro verified_insert [OF assms(1)])
next
  case False
  with assms(2) have "dp_pack_stores dp' = dp_pack_stores dp \<and> dp_disk dp' = dp_disk dp" by (auto simp: node_entry_def split: if_splits option.splits)
  with assms(1) show ?thesis by (simp add: verified_def held_def)
qed

lemma verified_go:
  assumes "plane_inv s" "verified blake3 (pl_plane s)" "go blake3 cafe env j s = Some s'" "room (Go env j) s"
  shows "verified blake3 (pl_plane s')"
proof -
  let ?b = "pl_jobs s j" and ?dp = "pl_plane s"
  note plain = go_def Let_def end_job_def drop_guards_def put_job_def
  show ?thesis
  proof (cases "jb_phase ?b")
    case Header
    with assms(2,3) show ?thesis by (auto simp: plain header_step_def split: sum.splits if_splits prod.splits)
  next
    case (WantStores g n)
    with assms(2,3) show ?thesis by (auto simp: plain stores_step_def split: if_splits option.splits)
  next
    case (Opening g n)
    with assms(2,3) verified_node_entry [OF assms(2), of "ge_pack env" g] show ?thesis
      by (auto simp: plain opening_step_def split: if_splits sum.splits prod.splits)
  next
    case (Serving g n src)
    with assms(2,3) show ?thesis by (cases n) (auto simp: plain split: sum.splits if_splits option.splits prod.splits)
  next
    case UpFirst
    with assms(2,3) show ?thesis by (auto simp: plain first_step_def split: list.splits option.splits if_splits)
  next
    case (WantPacks g)
    have "verified blake3 (?dp\<lparr>dp_pack_stores := (dp_pack_stores ?dp)(g \<mapsto> st)\<rparr>)" if "store_open (ge_pack env) g (dp_disk ?dp g) = Inr st" for st
      by (rule verified_insert [OF assms(2), of st]) (use that assms(2) in \<open>auto simp: verified_def\<close>)
    with WantPacks assms(2,3) show ?thesis by (auto simp: plain packs_step_def split: sum.splits if_splits option.splits)
  next
    case (Uploading g)
    have grown: "verified blake3 (?dp\<lparr>dp_pack_stores := (dp_pack_stores ?dp)(g \<mapsto> st1)\<rparr>)"
      if "jb_items ?b = Some (g', blake3 x, x) # its" "dp_pack_stores ?dp g = Some st" "append_chunk (ge_pack env) (blake3 x) x st = (r, st1)" for g' x its st r st1
    proof (rule verified_insert [OF assms(2), of st1])
      have "store_ok st" using inv_jobD(1) [OF assms(1)] that(2) by (auto simp: pack_node_def)
      moreover have "unat (gs_size st) + length x < 2 ^ 32" using assms(4) Uploading that(1,2) by (simp add: room_def)
      moreover have "digests blake3 (abs_store st)" using assms(2) that(2) by (auto simp: verified_def held_def dest: spec [of _ g])
      ultimately show "digests blake3 (abs_store st1)" using append_chunk_outcome [OF _ _ that(3)]
        by (auto simp: digests_def split: if_splits)
    qed simp_all
    with Uploading assms(2,3) show ?thesis
      by (auto simp: plain upload_step_def split: list.splits option.splits if_splits prod.splits)
  qed (use assms(2,3) in \<open>auto simp: plain\<close>)
qed

lemma verified_run:
  "plane_inv s \<Longrightarrow> verified blake3 (pl_plane s) \<Longrightarrow> plane_run blake3 cafe es s = Some s' \<Longrightarrow> roomy blake3 cafe es s \<Longrightarrow> verified blake3 (pl_plane s')"
proof (induction es arbitrary: s)
  case (Cons e es)
  then obtain s1 where s1: "plane_step blake3 cafe e s = Some s1" "plane_run blake3 cafe es s1 = Some s'" by (auto simp: bind_eq_Some_conv)
  have "verified blake3 (pl_plane s1)"
    using s1(1) Cons.prems(1,2,4) verified_go by (cases e) (auto simp: put_job_def Let_def split: if_splits)
  with Cons s1 plane_step_inv [OF Cons.prems(1) s1(1)] show ?case by auto
qed simp

lemma plane_inv_start: "pack_node dp \<Longrightarrow> plane_inv (plane_start dp)"
  by (simp add: plane_inv_def plane_start_def new_job_def job_ok_def answered_def phase_ok_def acked_def)

text \<open>
  C20. Connections and uploads in parallel. Let a node that serves block libraries run any connections and
  uploads at once, interleaved in any way, with any failure of transactions, files, reads and sends and with peers
  that send what they like, while the packs stay below four GiB. Then what a connection has been sent is, frame by frame, the data
  the node holds for the hashes it asked for, also after everything that was uploaded meanwhile; a connection that
  ended without an error got all it asked for; every chunk acknowledged to an uploader is held;
  nothing the node held is lost; and each of the two locks is held by at most one job.
\<close>

theorem parallel_jobs_consistent:
  assumes "pack_node dp" and "plane_run blake3 cafe es (plane_start dp) = Some s" and "roomy blake3 cafe es (plane_start dp)"
    and "b = pl_jobs s j"
  shows "(\<exists>xs. jb_sent b = concat (map reply_frame xs) \<and> list_all2 (\<lambda>h x. held (pl_plane s) (jb_game b) h = Some x) (jb_asked b) xs \<and>
      (jb_phase b = ConnEnd (Inr ()) \<longrightarrow> length xs = jb_count b)) \<and>
    (\<forall>h. (h, True) \<in> set (jb_acks b) \<longrightarrow> held (pl_plane s) (jb_game b) h \<noteq> None) \<and>
    (\<forall>g h x. held dp g h = Some x \<longrightarrow> held (pl_plane s) g h = Some x) \<and>
    (\<forall>i. holds_data (jb_phase b) \<and> holds_data (jb_phase (pl_jobs s i)) \<longrightarrow> i = j) \<and>
    (\<forall>i. holds_packs (jb_phase b) \<and> holds_packs (jb_phase (pl_jobs s i)) \<longrightarrow> i = j)"
proof -
  have inv: "plane_inv s" and grow: "grows dp (pl_plane s)"
    using plane_run_inv [OF plane_inv_start [OF assms(1)] assms(2,3)] by (simp_all add: plane_start_def)
  have ok: "job_ok (pl_plane s) b" using inv_jobD(2) [OF inv] assms(4) by simp
  then obtain xs where "jb_sent b = concat (map reply_frame xs)" "list_all2 (\<lambda>h x. held (pl_plane s) (jb_game b) h = Some x) (jb_asked b) xs"
    by (auto simp: job_ok_def answered_def)
  moreover from this(2) ok have "jb_phase b = ConnEnd (Inr ()) \<longrightarrow> length xs = jb_count b"
    by (auto simp: job_ok_def phase_ok_def dest!: list_all2_lengthD)
  ultimately show ?thesis
    using ok grow inv_jobD(3,4) [OF inv] assms(4) by (auto simp: job_ok_def acked_def grows_def)
qed

section \<open>One connection alone\<close>

definition outcome :: "store_error conn_error + unit \<Rightarrow> plane_error + unit" where
  "outcome r = (case r of Inl e \<Rightarrow> Inl (ConnFailed e) | Inr _ \<Rightarrow> Inr ())"

lemma plane_run_Go:
  assumes "go blake3 cafe env j s = Some s1" "plane_run blake3 cafe (replicate k (Go env j)) s1 = Some s2"
  shows "plane_run blake3 cafe (replicate (Suc k) (Go env j)) s = Some s2"
  using assms by simp

text \<open>What the job has become: its phase, what was sent, the node and the lock of the sources.\<close>

definition reaches ::
    "(bytes \<Rightarrow> bytes) \<Rightarrow> ('c \<Rightarrow> bytes \<Rightarrow> store_error + bytes option) \<Rightarrow> go_env \<Rightarrow> nat \<Rightarrow> 'c plane_system \<Rightarrow> plane_error + unit \<Rightarrow> bytes \<Rightarrow>
     'c data_plane \<Rightarrow> bool" where
  "reaches blake3 cafe env j s r out dp \<longleftrightarrow> (\<exists>k s'. plane_run blake3 cafe (replicate k (Go env j)) s = Some s' \<and>
     jb_phase (pl_jobs s' j) = ConnEnd r \<and> jb_sent (pl_jobs s' j) = out \<and> pl_plane s' = dp \<and> pl_data s' = None)"

lemma reaches_end:
  assumes "go blake3 cafe env j s = Some (end_job j b (ConnEnd r) s)" "pl_data s = None \<or> pl_data s = Some j" "out = jb_sent b" "dp = pl_plane s"
  shows "reaches blake3 cafe env j s r out dp"
proof -
  let ?s = "end_job j b (ConnEnd r) s"
  have "plane_run blake3 cafe (replicate (Suc 0) (Go env j)) s = Some ?s" using assms(1) by simp
  moreover have "jb_phase (pl_jobs ?s j) = ConnEnd r" "jb_sent (pl_jobs ?s j) = out" "pl_plane ?s = dp" "pl_data ?s = None"
    using assms(2-4) by (auto simp: end_job_def drop_guards_def put_job_def)
  ultimately show ?thesis unfolding reaches_def by blast
qed

lemma reaches_go:
  assumes "go blake3 cafe env j s = Some s1" "reaches blake3 cafe env j s1 r out dp"
  shows "reaches blake3 cafe env j s r out dp"
  using assms plane_run_Go unfolding reaches_def by blast

lemma serving_reaches:
  assumes "serve_loop (node_read_chunk cafe (ge_pack env) (pl_plane s) g src) n (jb_recv (pl_jobs s j)) = (r, out)"
    and "jb_phase (pl_jobs s j) = Serving g n src" "jb_closed (pl_jobs s j)" "pl_data s = Some j" "ge_send env"
  shows "reaches blake3 cafe env j s (outcome r) (jb_sent (pl_jobs s j) @ out) (pl_plane s)"
  using assms
proof (induction n arbitrary: s r out)
  case 0
  let ?b = "pl_jobs s j" and ?s = "put_job j ((pl_jobs s j)\<lparr>jb_phase := Lingering\<rparr>) s"
  have "go blake3 cafe env j s = Some ?s" using 0 by (simp add: go_def Let_def)
  moreover have "reaches blake3 cafe env j ?s (outcome r) (jb_sent ?b @ out) (pl_plane s)"
    by (rule reaches_end [where b = "?b\<lparr>jb_phase := Lingering\<rparr>"]) (use 0 in \<open>auto simp: go_def put_job_def outcome_def Let_def\<close>)
  ultimately show ?case by (rule reaches_go)
next
  case (Suc n)
  let ?b = "pl_jobs s j"
  have go: "go blake3 cafe env j s = serving_step cafe env j ?b g (Suc n) src s" using Suc.prems(2) by (simp add: go_def Let_def)
  have stop: "reaches blake3 cafe env j s (outcome (Inl e)) (jb_sent ?b) (pl_plane s)"
    if "go blake3 cafe env j s = Some (end_job j ?b (conn_err e) s)" for e
    by (rule reaches_end [OF _ _ refl refl]) (use that Suc.prems(4) in \<open>simp_all add: outcome_def\<close>)
  show ?case
  proof (cases "read_exact 32 (jb_recv ?b)")
    case (Inl e)
    with Suc.prems go stop show ?thesis by (auto simp: outcome_def)
  next
    case (Inr p)
    obtain h recv where p: "p = (h, recv)" by fastforce
    show ?thesis
    proof (cases "\<exists>x. node_read_chunk cafe (ge_pack env) (pl_plane s) g src h = Inr (Some x)")
      case False
      with Inr p Suc.prems go stop show ?thesis by (auto split: sum.splits option.splits)
    next
      case True
      then obtain x where x: "node_read_chunk cafe (ge_pack env) (pl_plane s) g src h = Inr (Some x)" by blast
      let ?s = "put_job j (?b\<lparr>jb_phase := Serving g n src, jb_recv := recv, jb_asked := jb_asked ?b @ [h], jb_sent := jb_sent ?b @ reply_frame x\<rparr>) s"
      obtain out' where out: "serve_loop (node_read_chunk cafe (ge_pack env) (pl_plane s) g src) n recv = (r, out')" "out = reply_frame x @ out'"
        using Suc.prems(1) Inr p x by (auto split: prod.splits)
      have "go blake3 cafe env j s = Some ?s" using go Inr p x Suc.prems(5) by simp
      moreover have "reaches blake3 cafe env j ?s (outcome r) (jb_sent ?b @ out) (pl_plane s)"
        using Suc.IH [of ?s r out'] out Suc.prems(3-5) by (simp add: put_job_def)
      ultimately show ?thesis by (rule reaches_go)
    qed
  qed
qed

text \<open>
  C23. The cut into steps loses nothing. A connection whose peer has sent its request and closed, and which moves
  while the locks are free, comes by its own steps to the end that \<open>handle_conn\<close> computes: the same result, the same bytes sent
  and the same node, and the lock is free again.
\<close>

theorem connection_runs_handle_conn:
  assumes "jb_phase (pl_jobs s j) = Header" and "jb_closed (pl_jobs s j)" and "jb_sent (pl_jobs s j) = []" and "pl_data s = None" and "pl_packs s = None"
    and "handle_conn cafe penv ready accepted (jb_recv (pl_jobs s j)) (pl_plane s) = (r, out, dp)"
  shows "\<exists>k s'. plane_run blake3 cafe (replicate k (Go \<lparr>ge_pack = penv, ge_ready = ready, ge_accepted = accepted, ge_send = True\<rparr> j)) s = Some s' \<and>
    jb_phase (pl_jobs s' j) = ConnEnd (outcome r) \<and> jb_sent (pl_jobs s' j) = out \<and> pl_plane s' = dp \<and> pl_data s' = None"
proof -
  let ?env = "\<lparr>ge_pack = penv, ge_ready = ready, ge_accepted = accepted, ge_send = True\<rparr>" and ?b = "pl_jobs s j"
  have go: "go blake3 cafe ?env j s = header_step ?env j ?b s" using assms(1) by (simp add: go_def Let_def)
  have gate: "gate_or_reject b = Inr ()" for b by (simp add: gate_or_reject_def reject_relay_only_def)
  have stop: "reaches blake3 cafe ?env j s (outcome (Inl e)) [] (pl_plane s)" if "header_step ?env j ?b s = Some (end_job j ?b (conn_err e) s)" for e
    by (rule reaches_end [OF _ _ assms(3) [symmetric] refl]) (use that go assms(4) in \<open>simp_all add: outcome_def\<close>)
  have "reaches blake3 cafe ?env j s (outcome r) out dp"
  proof (cases "accepted \<and> 12 \<le> length (jb_recv ?b)")
    case False
    then consider "\<not> accepted" | "accepted" "length (jb_recv ?b) < 8" | "accepted" "8 \<le> length (jb_recv ?b)" "length (jb_recv ?b) < 12" by linarith
    then show ?thesis
    proof cases
      case 1
      with assms(6) stop show ?thesis by (auto simp: handle_conn_def header_step_def gate)
    next
      case 2
      with assms(2,6) stop show ?thesis by (auto simp: handle_conn_def header_step_def gate read_exact_def)
    next
      case 3
      then have "read_exact 8 (jb_recv ?b) = Inr (take 8 (jb_recv ?b), drop 8 (jb_recv ?b))" "\<exists>e. read_exact 4 (drop 8 (jb_recv ?b)) = Inl e"
        by (simp_all add: read_exact_def)
      with 3(1) assms(2,6) stop show ?thesis by (auto simp: handle_conn_def header_step_def gate)
    qed
  next
    case True
    define g where "g = u64_of_be (take 8 (jb_recv ?b))"
    define n where "n = unat (u32_of_be (take 4 (drop 8 (jb_recv ?b))))"
    define recv where "recv = drop 4 (drop 8 (jb_recv ?b))"
    let ?s1 = "put_job j (?b\<lparr>jb_phase := WantStores g n, jb_game := g, jb_count := n, jb_recv := recv\<rparr>) s"
    have split: "read_exact 8 (jb_recv ?b) = Inr (take 8 (jb_recv ?b), drop 8 (jb_recv ?b))"
      "read_exact 4 (drop 8 (jb_recv ?b)) = Inr (take 4 (drop 8 (jb_recv ?b)), recv)"
      using True by (auto simp: read_exact_def recv_def)
    have one: "go blake3 cafe ?env j s = Some ?s1"
      using True go by (simp add: header_step_def gate split g_def n_def)
    have hc: "(case node_entry penv g (pl_plane s) of
        Inl e \<Rightarrow> (Inl e, [], pl_plane s)
      | Inr (src, dp1) \<Rightarrow> (case serve_loop (node_read_chunk cafe penv dp1 g src) n recv of (r, out) \<Rightarrow> (r, out, dp1))) = (r, out, dp)"
      unfolding g_def n_def using assms(6) True by (simp add: handle_conn_def gate split Let_def)
    have serve: "reaches blake3 cafe ?env j t (outcome r) out dp"
      if "node_entry penv g (pl_plane s) = (Inr (src, dp1) :: store_error conn_error + _)" "jb_phase (pl_jobs t j) = Serving g n src" "jb_recv (pl_jobs t j) = recv"
        "jb_closed (pl_jobs t j)" "jb_sent (pl_jobs t j) = []" "pl_plane t = dp1" "pl_data t = Some j" for src dp1 t
      using serving_reaches [of cafe ?env t g src n j r out] that hc by (simp split: prod.splits)
    have "reaches blake3 cafe ?env j ?s1 (outcome r) out dp"
    proof (cases "dp_stores (pl_plane s) g")
      case (Some src)
      then have entry: "node_entry penv g (pl_plane s) = (Inr (src, pl_plane s) :: store_error conn_error + _)" by (simp add: node_entry_def)
      let ?s2 = "put_job j ((pl_jobs ?s1 j)\<lparr>jb_phase := Serving g n src\<rparr>) (?s1\<lparr>pl_data := Some j\<rparr>)"
      have "reaches blake3 cafe ?env j ?s2 (outcome r) out dp"
        by (rule serve [OF entry]) (use assms(2,3) in \<open>simp_all add: put_job_def\<close>)
      moreover have "go blake3 cafe ?env j ?s1 = Some ?s2" using Some assms(4) by (simp add: go_def Let_def stores_step_def put_job_def)
      ultimately show ?thesis by (rule reaches_go [rotated])
    next
      case None
      let ?s2 = "put_job j ((pl_jobs ?s1 j)\<lparr>jb_phase := Opening g n\<rparr>) (?s1\<lparr>pl_data := Some j\<rparr>)"
      show ?thesis
      proof (cases "dp_pack_default (pl_plane s)")
        case False
        with None hc have "r = Inl GameNotManaged" "out = []" "dp = pl_plane s" by (auto simp: node_entry_def)
        with None False assms(3,4) show ?thesis
          by (intro reaches_end [where b = "pl_jobs ?s1 j"]) (auto simp: go_def Let_def stores_step_def put_job_def outcome_def)
      next
        case True
        with None assms(4) have two: "go blake3 cafe ?env j ?s1 = Some ?s2" by (auto simp: go_def Let_def stores_step_def put_job_def)
        have three: "go blake3 cafe ?env j ?s2 = opening_step ?env j (pl_jobs ?s2 j) g n ?s2" by (simp add: go_def put_job_def Let_def)
        have "reaches blake3 cafe ?env j ?s2 (outcome r) out dp"
        proof (cases "node_entry penv g (pl_plane s) :: store_error conn_error + 'a node_store \<times> 'a data_plane")
          case (Inl e)
          with hc three assms(3,5) show ?thesis
            by (intro reaches_end [where b = "pl_jobs ?s2 j"]) (auto simp: opening_step_def put_job_def outcome_def)
        next
          case (Inr p)
          obtain src dp1 where p: "p = (src, dp1)" by fastforce
          let ?s3 = "put_job j ((pl_jobs ?s2 j)\<lparr>jb_phase := Serving g n src\<rparr>) (?s2\<lparr>pl_plane := dp1\<rparr>)"
          have "go blake3 cafe ?env j ?s2 = Some ?s3" using three Inr p assms(5) by (simp add: opening_step_def put_job_def)
          moreover have "reaches blake3 cafe ?env j ?s3 (outcome r) out dp"
            by (rule serve [OF Inr [unfolded p]]) (use assms(2,3) in \<open>simp_all add: put_job_def\<close>)
          ultimately show ?thesis by (rule reaches_go)
        qed
        with two show ?thesis by (rule reaches_go)
      qed
    qed
    with one show ?thesis by (rule reaches_go)
  qed
  then show ?thesis by (simp add: reaches_def)
qed

section \<open>A silent peer\<close>

text \<open>The events of the peer of a job.\<close>

fun peer_of :: "plane_event \<Rightarrow> nat option" where
  "peer_of (PeerBytes j bs) = Some j"
| "peer_of (PeerItem j it) = Some j"
| "peer_of (PeerCloses j) = Some j"
| "peer_of e = None"

text \<open>While job \<open>j\<close> holds the lock of the sources and does not move, no other connection gets anything.\<close>

definition stalled :: "nat \<Rightarrow> 'c plane_system \<Rightarrow> 'c plane_system \<Rightarrow> bool" where
  "stalled j s0 s \<longleftrightarrow> pl_data s = Some j \<and> pl_jobs s j = pl_jobs s0 j \<and>
     (\<forall>i. i \<noteq> j \<longrightarrow> \<not> holds_data (jb_phase (pl_jobs s i)) \<and> jb_sent (pl_jobs s i) = jb_sent (pl_jobs s0 i) \<and>
        (jb_phase (pl_jobs s i) = ConnEnd (Inr ()) \<longrightarrow> jb_phase (pl_jobs s0 i) = ConnEnd (Inr ())) \<and>
        (jb_phase (pl_jobs s i) = Idle \<longrightarrow> jb_sent (pl_jobs s i) = []))"

lemma stalled_put:
  assumes "stalled j s0 s" "i \<noteq> j" "pl_data s' = pl_data s" "pl_jobs s' = (pl_jobs s)(i := b)"
    and "\<not> holds_data (jb_phase b)" "jb_sent b = jb_sent (pl_jobs s i)" "jb_phase b \<noteq> Idle \<or> jb_phase b = jb_phase (pl_jobs s i)"
    and "jb_phase b = ConnEnd (Inr ()) \<Longrightarrow> jb_phase (pl_jobs s i) = ConnEnd (Inr ())"
  shows "stalled j s0 s'"
  using assms unfolding stalled_def by (auto simp: fun_upd_def)

lemma stalled_go:
  assumes "stalled j s0 s" "i \<noteq> j" "go blake3 cafe env i s = Some s'"
  shows "stalled j s0 s'"
proof -
  let ?b = "pl_jobs s i"
  have lock: "pl_data s = Some j" and no: "\<not> holds_data (jb_phase ?b)" using assms(1,2) by (auto simp: stalled_def)
  have stop: "stalled j s0 (end_job i ?b ph s)" if "ph = UpEnd \<or> (\<exists>e. ph = ConnEnd (Inl e))" for ph
    by (rule stalled_put [OF assms(1,2), of _ "?b\<lparr>jb_phase := ph\<rparr>"])
      (use that lock assms(2) in \<open>auto simp: end_job_def drop_guards_def put_job_def\<close>)
  have put: "stalled j s0 (put_job i b (s\<lparr>pl_packs := l, pl_plane := dp\<rparr>))"
    if "jb_sent b = jb_sent ?b" "\<not> holds_data (jb_phase b)" "jb_phase b \<noteq> Idle" "jb_phase b \<noteq> ConnEnd (Inr ())" for b l dp
    by (rule stalled_put [OF assms(1,2), of _ b]) (use that in \<open>auto simp: put_job_def\<close>)
  have put1: "stalled j s0 (put_job i b s)" if "jb_sent b = jb_sent ?b" "\<not> holds_data (jb_phase b)" "jb_phase b \<noteq> Idle" "jb_phase b \<noteq> ConnEnd (Inr ())" for b
    using put [OF that, where l = "pl_packs s" and dp = "pl_plane s"] by simp
  have put2: "stalled j s0 (put_job i b (s\<lparr>pl_packs := l\<rparr>))" if "jb_sent b = jb_sent ?b" "\<not> holds_data (jb_phase b)" "jb_phase b \<noteq> Idle" "jb_phase b \<noteq> ConnEnd (Inr ())" for b l
    using put [OF that, where l = l and dp = "pl_plane s"] by simp
  have put3: "stalled j s0 (put_job i b (s\<lparr>pl_plane := dp\<rparr>))" if "jb_sent b = jb_sent ?b" "\<not> holds_data (jb_phase b)" "jb_phase b \<noteq> Idle" "jb_phase b \<noteq> ConnEnd (Inr ())" for b dp
    using put [OF that, where l = "pl_packs s" and dp = dp] by simp
  show ?thesis
  proof (cases "jb_phase ?b")
    case Header
    with assms(3) stop put1 show ?thesis by (auto simp: go_def Let_def header_step_def split: sum.splits if_splits prod.splits)
  next
    case (WantStores g n)
    with assms(3) lock show ?thesis by (simp add: go_def Let_def stores_step_def)
  next
    case UpFirst
    with assms(3) stop put1 show ?thesis by (auto simp: go_def Let_def first_step_def split: list.splits option.splits if_splits)
  next
    case (WantPacks g)
    with assms(3) stop put put2 show ?thesis by (auto simp: go_def Let_def packs_step_def split: sum.splits if_splits option.splits)
  next
    case (Uploading g)
    with assms(3) stop put1 put3 show ?thesis
      by (auto simp: go_def Let_def upload_step_def split: list.splits option.splits if_splits prod.splits)
  qed (use assms(3) no in \<open>auto simp: go_def Let_def\<close>)
qed

lemma stalled_step:
  assumes "stalled j s0 s" "plane_step blake3 cafe e s = Some s'" "peer_of e \<noteq> Some j" "\<And>env. go blake3 cafe env j s = None" "jb_phase (pl_jobs s j) \<noteq> Idle"
  shows "stalled j s0 s'"
proof (cases e)
  case (Go env i)
  with assms stalled_go show ?thesis by (cases "i = j") auto
next
  case (Incoming i)
  with assms(2,5) have i: "i \<noteq> j" "jb_phase (pl_jobs s i) = Idle" "s' = put_job i (new_job Header) s" by (auto split: if_splits)
  show ?thesis
    by (rule stalled_put [OF assms(1) i(1), of _ "new_job Header"]) (use i assms(1) in \<open>auto simp: put_job_def new_job_def stalled_def\<close>)
next
  case (UploadArrives i)
  with assms(2,5) have i: "i \<noteq> j" "jb_phase (pl_jobs s i) = Idle" "s' = put_job i (new_job UpFirst) s" by (auto split: if_splits)
  show ?thesis
    by (rule stalled_put [OF assms(1) i(1), of _ "new_job UpFirst"]) (use i assms(1) in \<open>auto simp: put_job_def new_job_def stalled_def\<close>)
next
  case Shutdown
  with assms(1,2) show ?thesis by (auto simp: stalled_def)
next
  case (PeerBytes i bs)
  with assms(2,3) have i: "i \<noteq> j" "s' = put_job i ((pl_jobs s i)\<lparr>jb_recv := jb_recv (pl_jobs s i) @ bs\<rparr>) s" by (auto simp: Let_def split: if_splits)
  show ?thesis
    by (rule stalled_put [OF assms(1) i(1), of _ "(pl_jobs s i)\<lparr>jb_recv := jb_recv (pl_jobs s i) @ bs\<rparr>"])
      (use i assms(1) in \<open>auto simp: put_job_def stalled_def\<close>)
next
  case (PeerItem i it)
  with assms(2,3) have i: "i \<noteq> j" "s' = put_job i ((pl_jobs s i)\<lparr>jb_items := jb_items (pl_jobs s i) @ [it]\<rparr>) s" by (auto simp: Let_def split: if_splits)
  show ?thesis
    by (rule stalled_put [OF assms(1) i(1), of _ "(pl_jobs s i)\<lparr>jb_items := jb_items (pl_jobs s i) @ [it]\<rparr>"])
      (use i assms(1) in \<open>auto simp: put_job_def stalled_def\<close>)
next
  case (PeerCloses i)
  with assms(2,3) have i: "i \<noteq> j" "s' = put_job i ((pl_jobs s i)\<lparr>jb_closed := True\<rparr>) s" by auto
  show ?thesis
    by (rule stalled_put [OF assms(1) i(1), of _ "(pl_jobs s i)\<lparr>jb_closed := True\<rparr>"])
      (use i assms(1) in \<open>auto simp: put_job_def stalled_def\<close>)
qed

lemma stalled_run:
  assumes "jb_phase (pl_jobs s0 j) = Serving g (Suc n) src" "length (jb_recv (pl_jobs s0 j)) < 32" "\<not> jb_closed (pl_jobs s0 j)"
  shows "stalled j s0 s \<Longrightarrow> plane_run blake3 cafe es s = Some s' \<Longrightarrow> \<forall>e \<in> set es. peer_of e \<noteq> Some j \<Longrightarrow> stalled j s0 s'"
proof (induction es arbitrary: s)
  case (Cons e es)
  then obtain s1 where s1: "plane_step blake3 cafe e s = Some s1" "plane_run blake3 cafe es s1 = Some s'" by (auto simp: bind_eq_Some_conv)
  have job: "pl_jobs s j = pl_jobs s0 j" using Cons.prems(1) by (simp add: stalled_def)
  have "go blake3 cafe env j s = None" for env
    using assms by (simp add: go_def Let_def job read_exact_def)
  with stalled_step [OF Cons.prems(1) s1(1)] job assms(1) Cons.prems(3) have "stalled j s0 s1" by simp
  with Cons.IH s1(2) Cons.prems(3) show ?case by simp
qed simp

text \<open>
  C24. A silent peer stops the node. When a connection has announced a chunk and its peer then sends
  nothing and does not close, the connection keeps the lock of the sources: whatever all others do, for however long, no
  other connection of the node gets another byte, and none completes.
\<close>

theorem silent_peer_blocks:
  assumes "pack_node dp" and "plane_run blake3 cafe es (plane_start dp) = Some s" and "roomy blake3 cafe es (plane_start dp)"
    and "jb_phase (pl_jobs s j) = Serving g (Suc n) src" and "length (jb_recv (pl_jobs s j)) < 32" and "\<not> jb_closed (pl_jobs s j)"
    and "plane_run blake3 cafe es' s = Some s'" and "\<forall>e \<in> set es'. peer_of e \<noteq> Some j" and "i \<noteq> j"
  shows "pl_jobs s' j = pl_jobs s j \<and> jb_sent (pl_jobs s' i) = jb_sent (pl_jobs s i) \<and>
    (jb_phase (pl_jobs s' i) = ConnEnd (Inr ()) \<longrightarrow> jb_phase (pl_jobs s i) = ConnEnd (Inr ()))"
proof -
  have inv: "plane_inv s" using plane_run_inv [OF plane_inv_start [OF assms(1)] assms(2,3)] by simp
  have lock: "pl_data s = Some j" using inv_jobD(3) [OF inv, of j] assms(4) by simp
  then have no: "\<not> holds_data (jb_phase (pl_jobs s k))" if "k \<noteq> j" for k using inv_jobD(3) [OF inv, of k] that by simp
  have "jb_sent (pl_jobs s k) = []" if "jb_phase (pl_jobs s k) = Idle" for k
    using inv_jobD(2) [OF inv, of k] that by (auto simp: job_ok_def phase_ok_def answered_def)
  with lock no have "stalled j s s" by (simp add: stalled_def)
  from stalled_run [OF assms(4-6) this assms(7,8)] assms(9) show ?thesis by (simp add: stalled_def)
qed

section \<open>Examples\<close>

definition demo_plane :: "unit data_plane" where
  "demo_plane = \<lparr>dp_stores = [5 \<mapsto> PackStore], dp_pack_stores = [5 \<mapsto> indexed (demo_store 5) (demo_hash 1) [7]],
     dp_disk = (\<lambda>g. empty_disk), dp_pack_default = True\<rparr>"

definition demo_go :: go_env where
  "demo_go = \<lparr>ge_pack = env_std, ge_ready = True, ge_accepted = True, ge_send = True\<rparr>"

lemma demo_plane_ok: "pack_node demo_plane" "dp_stores demo_plane 5 = Some PackStore"
  and demo_plane_reads: "node_read_chunk cafe env_std demo_plane 5 PackStore (demo_hash 1) = Inr (Some [7])"
proof -
  have ok0: "store_ok (demo_store 5)" using store_open_empty [OF demo_open] by (simp add: store_inv_def)
  have ok: "store_ok (indexed (demo_store 5) (demo_hash 1) [7])" and abs: "abs_store (indexed (demo_store 5) (demo_hash 1) [7]) (demo_hash 1) = Some [7]"
    using indexed_ok(1,2) [OF ok0, of "[7]" "demo_hash 1"] by (simp_all add: demo_store_def)
  then show "pack_node demo_plane" using store_open_empty by (auto simp: pack_node_def demo_plane_def store_inv_def split: if_splits)
  have "env_reads env_std" using env_live_read [OF env_std_live] by (simp add: env_reads_def)
  with ok abs show "node_read_chunk cafe env_std demo_plane 5 PackStore (demo_hash 1) = Inr (Some [7])"
    by (simp add: node_read_chunk_def demo_plane_def env_reads_def read_refines demo_hash_def)
qed (simp add: demo_plane_def)

definition demo_events :: "plane_event list" where
  "demo_events = [Incoming 0, PeerBytes 0 (be_of_u64 5 @ be_of_u32 1), Go demo_go 0, Go demo_go 0]"

definition demo_later :: "plane_event list" where
  "demo_later = [Incoming 1, PeerBytes 1 (fetch_request 5 [demo_hash 1]), PeerCloses 1, Go demo_go 1]"

definition demo_stalled :: "unit plane_system" where
  "demo_stalled = (plane_start demo_plane)\<lparr>pl_data := Some 0, pl_jobs := (\<lambda>_. new_job Idle)(0 :=
     (new_job Idle)\<lparr>jb_phase := Serving 5 1 PackStore, jb_game := 5, jb_count := 1\<rparr>)\<rparr>"

definition demo_ending :: "plane_event list" where
  "demo_ending = [PeerBytes 0 (demo_hash 1), Go demo_go 0, Go demo_go 0, Go demo_go 0]"

definition demo_ended :: "unit plane_system" where
  "demo_ended = (plane_start demo_plane)\<lparr>pl_jobs := (\<lambda>_. new_job Idle)(0 := (new_job Idle)\<lparr>jb_phase := ConnEnd (Inr ()), jb_game := 5, jb_count := 1,
     jb_asked := [demo_hash 1], jb_sent := reply_frame [7]\<rparr>)\<rparr>"

lemmas demo_plane_simps = plane_start_def put_job_def new_job_def go_def demo_go_def header_step_def gate_or_reject_def reject_relay_only_def
  stores_step_def room_def demo_stalled_def Let_def read_exact_4 [of 1 "[]", simplified]

lemma demo_events_run:
  "plane_run blake3 cafe demo_events (plane_start demo_plane) = Some demo_stalled \<and> roomy blake3 cafe demo_events (plane_start demo_plane)"
  using demo_plane_ok(2) by (simp add: demo_events_def demo_plane_simps)

lemma demo_ending_run:
  "plane_run blake3 cafe demo_ending demo_stalled = Some demo_ended \<and> roomy blake3 cafe demo_ending demo_stalled"
proof -
  have "read_exact 32 (demo_hash 1) = Inr (demo_hash 1, [])" by (simp add: read_exact_def demo_hash_def)
  with demo_plane_reads show ?thesis
    by (simp add: demo_ending_def demo_ended_def demo_plane_simps end_job_def drop_guards_def)
qed

lemma plane_run_append: "plane_run blake3 cafe (es @ es') s = Option.bind (plane_run blake3 cafe es s) (plane_run blake3 cafe es')"
  by (induction es arbitrary: s) (auto split: option.splits bind_splits)

lemma roomy_append:
  "plane_run blake3 cafe es s = Some s' \<Longrightarrow> roomy blake3 cafe (es @ es') s \<longleftrightarrow> roomy blake3 cafe es s \<and> roomy blake3 cafe es' s'"
  by (induction es arbitrary: s) (auto simp: bind_eq_Some_conv)

theorem parallel_jobs_consistent_witness:
  "\<exists>xs. reply_frame [7] = concat (map reply_frame xs) \<and> list_all2 (\<lambda>h x. held demo_plane 5 h = Some x) [demo_hash 1] xs \<and> length xs = 1"
proof -
  have run: "plane_run (\<lambda>d. d) (\<lambda>c h. Inr None) (demo_events @ demo_ending) (plane_start demo_plane) = Some demo_ended"
    "roomy (\<lambda>d. d) (\<lambda>c h. Inr None) (demo_events @ demo_ending) (plane_start demo_plane)"
    using demo_events_run demo_ending_run by (simp_all add: plane_run_append roomy_append)
  from parallel_jobs_consistent [OF demo_plane_ok(1) run refl, of 0] show ?thesis
    by (simp add: demo_ended_def plane_start_def new_job_def)
qed

theorem silent_peer_blocks_witness:
  "\<exists>s'. plane_run (\<lambda>d. d) (\<lambda>c h. Inr None) demo_later demo_stalled = Some s' \<and> jb_phase (pl_jobs s' 1) = WantStores 5 1 \<and>
     go (\<lambda>d. d) (\<lambda>c h. Inr None) demo_go 1 s' = None \<and> jb_sent (pl_jobs s' 1) = []"
proof -
  have "read_exact 8 (be_of_u64 5 @ be_of_u32 1 @ demo_hash 1) = Inr (be_of_u64 5, be_of_u32 1 @ demo_hash 1)" by simp
  then obtain s' where run: "plane_run (\<lambda>d. d) (\<lambda>c h. Inr None) demo_later demo_stalled = Some s'"
    and ph: "jb_phase (pl_jobs s' 1) = WantStores 5 1" and lock: "pl_data s' = Some 0"
    by (simp add: demo_later_def demo_plane_simps fetch_request_def)
  have "jb_sent (pl_jobs s' 1) = jb_sent (pl_jobs demo_stalled 1)"
    using silent_peer_blocks [OF demo_plane_ok(1) conjunct1 [OF demo_events_run] conjunct2 [OF demo_events_run],
        where j = 0 and g = 5 and n = 0 and src = PackStore and es' = demo_later and s' = s' and i = 1, OF _ _ _ run]
    by (simp add: demo_stalled_def demo_later_def new_job_def)
  then have "jb_sent (pl_jobs s' 1) = []" by (simp add: demo_stalled_def new_job_def)
  with run ph lock show ?thesis by (auto simp: go_def stores_step_def)
qed

definition demo_asked :: "unit plane_system" where
  "demo_asked = (plane_start demo_plane)\<lparr>pl_jobs := (\<lambda>_. new_job Idle)(0 := (new_job Header)\<lparr>jb_recv := fetch_request 5 [demo_hash 1], jb_closed := True\<rparr>)\<rparr>"

theorem connection_runs_handle_conn_witness:
  "\<exists>k s'. plane_run (\<lambda>d. d) (\<lambda>c h. Inr None) (replicate k (Go demo_go 0)) demo_asked = Some s' \<and>
    jb_phase (pl_jobs s' 0) = ConnEnd (outcome (Inr ())) \<and> jb_sent (pl_jobs s' 0) = reply_frame [7] \<and> pl_plane s' = demo_plane \<and> pl_data s' = None"
proof -
  have "read_exact 32 (demo_hash 1) = Inr (demo_hash 1, [])" by (simp add: read_exact_def demo_hash_def)
  then have "handle_conn (\<lambda>c h. Inr None) env_std True True (fetch_request 5 [demo_hash 1]) demo_plane = (Inr (), reply_frame [7], demo_plane)"
    using demo_plane_reads demo_plane_ok(2) by (simp add: handle_conn_request node_entry_def)
  then show ?thesis
    unfolding demo_go_def
    by (intro connection_runs_handle_conn) (simp_all add: demo_asked_def plane_start_def new_job_def)
qed

end
