(* ===== verification/Services.thy ===== *)
theory Services
  imports Configs Sched_Backup Upload_Service Plane_System
begin

text \<open>
  The programs as a whole: \<^verbatim>\<open>main\<close> and \<^verbatim>\<open>run\<close> of scheduler, origin and relay (\<^verbatim>\<open>crates/scheduler/src/lib.rs\<close>,
  \<^verbatim>\<open>crates/origin/src/lib.rs\<close>, \<^verbatim>\<open>crates/relay/src/lib.rs\<close> and their \<^verbatim>\<open>main.rs\<close>), with \<^verbatim>\<open>serve\<close> of the control plane, the
  upload service and the data plane. A start spawns services one after the other and fails at the first error; the end
  tells them to stop.

  Every service listens on a channel whose sender the run owns. Sending on it and dropping it both end the service, so
  what a run does with its services is a log of events: \<open>Started\<close>, \<open>Told\<close> (sent), \<open>Dropped\<close> (the sender went out of
  scope) and \<open>Ended\<close> (waited for). Which binds succeed, whether the stop signal comes and whether the open HTTP connections
  end are outcomes of the environment.
\<close>

section \<open>Services and their log\<close>

datatype 'a service =
    EchoLoop 'a
  | RelayServer 'a 'a 'a
  | QuicServer 'a
  | BackupLoop string u64
  | GrpcServer 'a
  | KeepaliveLoop u64 u32 u64
  | HttpServer 'a string string string
  | UploadServer 'a
  | AcceptLoop u16

datatype 'a life_event = Started "'a service" | Told "'a service" | Dropped "'a service" | Ended "'a service"

text \<open>\<open>lf_held\<close> are the senders the run still owns, the youngest first.\<close>

record 'a life =
  lf_log :: "'a life_event list"
  lf_held :: "'a service list"

definition no_life :: "'a life" where
  "no_life = \<lparr>lf_log = [], lf_held = []\<rparr>"

definition spawn :: "'a service \<Rightarrow> 'a life \<Rightarrow> 'a life" where
  "spawn sv l = \<lparr>lf_log = lf_log l @ [Started sv], lf_held = sv # lf_held l\<rparr>"

definition tell :: "'a service \<Rightarrow> 'a life \<Rightarrow> 'a life" where
  "tell sv l = \<lparr>lf_log = lf_log l @ [Told sv], lf_held = remove1 sv (lf_held l)\<rparr>"

definition wait_for :: "'a service \<Rightarrow> 'a life \<Rightarrow> 'a life" where
  "wait_for sv l = l\<lparr>lf_log := lf_log l @ [Ended sv]\<rparr>"

text \<open>The return of a function drops what it owns, the youngest first.\<close>

definition leave :: "'a life \<Rightarrow> 'a life" where
  "leave l = \<lparr>lf_log = lf_log l @ map Dropped (lf_held l), lf_held = []\<rparr>"

datatype run_fault =
    DbFault db_error | NodesFault db_error | BackupFault db_error | BadAddress | BindFailed | MkdirFailed | RelayUrlInvalid | EndpointFailed
  | LocalAddrFailed | RelaySpawnFailed | RelayShutdownFailed

text \<open>A run serves until the stop signal, fails, returns, or waits for ever.\<close>

datatype ending = Serves | Failed run_fault | Stopped | Waits

section \<open>The scheduler\<close>

record ('a, 'j) sched_env =
  sn_parse_addr :: "string \<Rightarrow> 'a option"
  sn_dir_ok :: bool
  sn_db_ok :: bool
  sn_existing :: "'j store option"
  sn_list :: bool
  sn_backup_dir_ok :: bool
  sn_backup :: "'j backup_round"
  sn_files :: "string \<rightharpoonup> 'j backup_file"
  sn_grpc_bind :: bool
  sn_udp_bind :: bool
  sn_http_bind :: bool
  sn_stop :: bool
  sn_http_ends :: bool

text \<open>\<open>server::serve\<close>: bind, then spawn; the handle owns the sender.\<close>

definition control_serve :: "bool \<Rightarrow> 'a \<Rightarrow> 'a life \<Rightarrow> run_fault + 'a life" where
  "control_serve bind_ok addr l = (if bind_ok then Inr (spawn (GrpcServer addr) l) else Inl BindFailed)"

text \<open>After the stop signal. The HTTP server ends when all its connections have ended; only then the handle of the control plane is dropped.\<close>

definition sched_wind_down :: "bool \<Rightarrow> 'a service \<Rightarrow> 'a service list \<Rightarrow> 'a service \<Rightarrow> 'a life \<Rightarrow> ending \<times> 'a life" where
  "sched_wind_down http_ends keep backups http l =
     (let l1 = wait_for keep (tell keep l);
          l2 = fold wait_for backups (fold tell backups l1);
          l3 = tell http l2
      in if http_ends then (Stopped, leave (wait_for http l3)) else (Waits, l3))"

definition sched_run :: "'j serde \<Rightarrow> ('a, 'j) sched_env \<Rightarrow> sched_config \<Rightarrow> ending \<times> 'a life" where
  "sched_run cd env config =
     (case db_open (sn_dir_ok env) (sn_db_ok env) (sn_existing env) of
        Inl e \<Rightarrow> (Failed (DbFault e), no_life)
      | Inr store \<Rightarrow>
     (case list_nodes cd (sn_list env) store of
        Inl e \<Rightarrow> (Failed (NodesFault e), no_life)
      | Inr _ \<Rightarrow>
     (case fst (start_backup cd (sc_backup_dir config) (sn_backup_dir_ok env) ((sn_backup env)\<lparr>br_store := store\<rparr>) (sn_files env)) of
        Inl e \<Rightarrow> (Failed (BackupFault e), no_life)
      | Inr looping \<Rightarrow>
          let backups = (case sc_backup_dir config of Some dir \<Rightarrow> [BackupLoop dir (sc_backup_interval_hours config * 3600)] | None \<Rightarrow> []);
              l1 = fold spawn backups no_life in
     (case sn_parse_addr env (sc_bind_addr config) of
        None \<Rightarrow> (Failed BadAddress, leave l1)
      | Some grpc \<Rightarrow>
     (case control_serve (sn_grpc_bind env) grpc l1 of
        Inl e \<Rightarrow> (Failed e, leave l1)
      | Inr l2 \<Rightarrow>
          if \<not> sn_udp_bind env then (Failed BindFailed, leave l2)
          else let keep = KeepaliveLoop (sc_keepalive_interval_secs config) (sc_keepalive_fail_threshold config) (sc_offline_timeout_secs config * 1000);
                   l3 = spawn keep l2 in
     (case sn_parse_addr env (sc_http_bind_addr config) of
        None \<Rightarrow> (Failed BadAddress, leave l3)
      | Some http \<Rightarrow>
          if \<not> sn_http_bind env then (Failed BindFailed, leave l3)
          else let web = HttpServer http (sc_web_dir config) (sc_admin_user config) (sc_admin_password config);
                   l4 = spawn web l3
               in if sn_stop env then sched_wind_down (sn_http_ends env) keep backups web l4 else (Serves, l4)))))))"

definition sched_main ::
    "'j serde \<Rightarrow> (string \<Rightarrow> string option) \<Rightarrow> (string \<Rightarrow> sched_raw option) \<Rightarrow> ('a, 'j) sched_env \<Rightarrow> string list \<Rightarrow>
     config_error + ending \<times> 'a life" where
  "sched_main cd read_file from_toml env args =
     (case sched_from_args read_file from_toml (sn_parse_addr env) args of
        Inl e \<Rightarrow> Inl e
      | Inr config \<Rightarrow> Inr (sched_run cd env config))"

section \<open>The origin\<close>

text \<open>What the data plane asks of its endpoint, and the handle it returns.\<close>

record 'a endpoint_config =
  ec_listen :: u16
  ec_external :: "'a option"
  ec_relay :: "string option"

record data_handle =
  dh_port :: u16
  dh_endpoint :: string

record 'a origin_env =
  on_parse_addr :: "string \<Rightarrow> 'a option"
  on_mkdir :: bool
  on_upload_bind :: bool
  on_relay_url :: "string \<Rightarrow> bool"
  on_builder :: bool
  on_endpoint :: "'a endpoint_config \<Rightarrow> (u16 list \<times> string) option"
  on_stop :: bool
  on_disk :: "u64 \<Rightarrow> game_disk"

definition upload_serve :: "bool \<Rightarrow> 'a \<Rightarrow> 'a life \<Rightarrow> run_fault + 'a life" where
  "upload_serve bind_ok addr l = (if bind_ok then Inr (spawn (UploadServer addr) l) else Inl BindFailed)"

text \<open>\<open>datapath::serve\<close>: without a relay URL the endpoint uses no relay; the port is that of the first bound socket.\<close>

definition data_serve :: "'a origin_env \<Rightarrow> u16 \<Rightarrow> string option \<Rightarrow> 'a option \<Rightarrow> 'a life \<Rightarrow> run_fault + data_handle \<times> 'a life" where
  "data_serve env listen_port relay_url external_addr l =
     (if \<not> on_builder env then Inl EndpointFailed
      else if bad_opt (on_relay_url env) relay_url then Inl RelayUrlInvalid
      else case on_endpoint env \<lparr>ec_listen = listen_port, ec_external = external_addr, ec_relay = relay_url\<rparr> of
        None \<Rightarrow> Inl EndpointFailed
      | Some (sockets, ident) \<Rightarrow>
          let port = (case sockets of [] \<Rightarrow> listen_port | p # _ \<Rightarrow> p)
          in Inr (\<lparr>dh_port = port, dh_endpoint = ident\<rparr>, spawn (AcceptLoop port) l))"

text \<open>The upload service and the data plane work on one map of libraries, empty at the start.\<close>

definition origin_services :: "'a origin_env \<Rightarrow> origin_config \<Rightarrow> upload_service \<times> 'c data_plane" where
  "origin_services env config =
     (let pack_stores = Map.empty
      in (with_scheduler (oc_scheduler_addr config) (with_stores (on_disk env) pack_stores),
          \<lparr>dp_stores = Map.empty, dp_pack_stores = pack_stores, dp_disk = on_disk env, dp_pack_default = True\<rparr>))"

definition origin_run :: "'a origin_env \<Rightarrow> origin_config \<Rightarrow> ending \<times> 'a life" where
  "origin_run env config =
     (if \<not> on_mkdir env then (Failed MkdirFailed, no_life)
      else case on_parse_addr env (oc_bind_addr config) of
        None \<Rightarrow> (Failed BadAddress, no_life)
      | Some addr \<Rightarrow>
     (case upload_serve (on_upload_bind env) addr no_life of
        Inl e \<Rightarrow> (Failed e, no_life)
      | Inr l1 \<Rightarrow>
     (case (case oc_external_addr config of None \<Rightarrow> Inr None | Some t \<Rightarrow> (case on_parse_addr env t of None \<Rightarrow> Inl BadAddress | Some a \<Rightarrow> Inr (Some a))) of
        Inl e \<Rightarrow> (Failed e, leave l1)
      | Inr external_addr \<Rightarrow>
     (case data_serve env (oc_listen_port config) (oc_relay_url config) external_addr l1 of
        Inl e \<Rightarrow> (Failed e, leave l1)
      | Inr (handle, l2) \<Rightarrow>
          if on_stop env then (Stopped, leave (tell (AcceptLoop (dh_port handle)) l2)) else (Serves, l2)))))"

definition origin_main ::
    "(string \<Rightarrow> string option) \<Rightarrow> (string \<Rightarrow> origin_raw option) \<Rightarrow> 'a origin_env \<Rightarrow> string list \<Rightarrow> config_error + ending \<times> 'a life" where
  "origin_main read_file from_toml env args =
     (case res_bind (parse_args args) (origin_load read_file from_toml (on_parse_addr env)) of
        Inl e \<Rightarrow> Inl e
      | Inr config \<Rightarrow> Inr (origin_run env config))"

section \<open>The relay\<close>

record 'a relay_config =
  rc_udp_echo_addr :: 'a
  rc_data_relay_enabled :: bool
  rc_http_bind_addr :: 'a
  rc_https_bind_addr :: 'a
  rc_quic_bind_addr :: 'a

text \<open>The configuration of the iroh server: the relay endpoint with its HTTP and HTTPS addresses and the size of its key cache, and the QUIC address.\<close>

record 'a iroh_config =
  ic_relay :: "('a \<times> 'a \<times> nat) option"
  ic_quic :: "'a option"

record 'a relay_env =
  rn_echo_bind :: bool
  rn_echo_local :: "'a \<Rightarrow> 'a option"
  rn_server :: "'a iroh_config \<Rightarrow> bool"
  rn_stop :: bool
  rn_shutdown :: bool

definition relay_from_file :: "(string \<Rightarrow> string option) \<Rightarrow> (string \<Rightarrow> 'a relay_config option) \<Rightarrow> string \<Rightarrow> config_error + 'a relay_config" where
  "relay_from_file read_file from_toml path =
     (case read_file path of None \<Rightarrow> Inl ReadConfig
      | Some content \<Rightarrow> (case from_toml content of None \<Rightarrow> Inl ParseConfig | Some config \<Rightarrow> Inr config))"

definition spawn_echo :: "'a relay_env \<Rightarrow> 'a \<Rightarrow> 'a life \<Rightarrow> run_fault + 'a \<times> 'a life" where
  "spawn_echo env addr l =
     (if \<not> rn_echo_bind env then Inl BindFailed
      else case rn_echo_local env addr of None \<Rightarrow> Inl LocalAddrFailed | Some local \<Rightarrow> Inr (local, spawn (EchoLoop local) l))"

definition spawn_iroh :: "'a relay_env \<Rightarrow> 'a relay_config \<Rightarrow> 'a life \<Rightarrow> run_fault + 'a service \<times> 'a life" where
  "spawn_iroh env config l =
     (let server = \<lparr>ic_relay = Some (rc_http_bind_addr config, rc_https_bind_addr config, 1024), ic_quic = Some (rc_quic_bind_addr config)\<rparr>;
          sv = RelayServer (rc_http_bind_addr config) (rc_https_bind_addr config) (rc_quic_bind_addr config)
      in if rn_server env server then Inr (sv, spawn sv l) else Inl RelaySpawnFailed)"

definition spawn_quic_only :: "'a relay_env \<Rightarrow> 'a relay_config \<Rightarrow> 'a life \<Rightarrow> run_fault + 'a service \<times> 'a life" where
  "spawn_quic_only env config l =
     (let server = \<lparr>ic_relay = None, ic_quic = Some (rc_quic_bind_addr config)\<rparr>; sv = QuicServer (rc_quic_bind_addr config)
      in if rn_server env server then Inr (sv, spawn sv l) else Inl RelaySpawnFailed)"

definition relay_run :: "'a relay_env \<Rightarrow> 'a relay_config \<Rightarrow> ending \<times> 'a life" where
  "relay_run env config =
     (case spawn_echo env (rc_udp_echo_addr config) no_life of
        Inl e \<Rightarrow> (Failed e, no_life)
      | Inr (echo_addr, l1) \<Rightarrow>
     (case (if rc_data_relay_enabled config then spawn_iroh env config l1 else spawn_quic_only env config l1) of
        Inl e \<Rightarrow> (Failed e, leave l1)
      | Inr (server, l2) \<Rightarrow>
          if \<not> rn_stop env then (Serves, l2)
          else let l3 = tell server l2
               in if rn_shutdown env then (Stopped, leave (wait_for (EchoLoop echo_addr) (tell (EchoLoop echo_addr) (wait_for server l3))))
                  else (Failed RelayShutdownFailed, leave l3)))"

text \<open>The relay has its own reading of the command line: the program name, then exactly two arguments.\<close>

definition relay_main ::
    "(string \<Rightarrow> string option) \<Rightarrow> (string \<Rightarrow> 'a relay_config option) \<Rightarrow> 'a relay_env \<Rightarrow> string list \<Rightarrow> config_error + ending \<times> 'a life" where
  "relay_main read_file from_toml env args =
     (case drop 1 args of
        [] \<Rightarrow> Inl Usage
      | [config_arg] \<Rightarrow> Inl Usage
      | config_arg # path # rest \<Rightarrow>
          if config_arg \<noteq> ''--config'' \<or> rest \<noteq> [] then Inl Usage
          else case relay_from_file read_file from_toml path of
            Inl e \<Rightarrow> Inl e
          | Inr config \<Rightarrow> Inr (relay_run env config))"


section \<open>What is running\<close>

text \<open>The services that a log leaves running: started and neither told to stop nor dropped.\<close>

fun live_step :: "'a life_event \<Rightarrow> 'a service multiset \<Rightarrow> 'a service multiset" where
  "live_step (Started sv) m = add_mset sv m"
| "live_step (Told sv) m = m - {#sv#}"
| "live_step (Dropped sv) m = m - {#sv#}"
| "live_step (Ended sv) m = m"

definition live :: "'a life_event list \<Rightarrow> 'a service multiset" where
  "live evs = fold live_step evs {#}"

definition life_ok :: "'a life \<Rightarrow> bool" where
  "life_ok l \<longleftrightarrow> live (lf_log l) = mset (lf_held l)"

lemma live_drops: "fold live_step (map Dropped xs) m = m - mset xs"
  by (induction xs arbitrary: m) simp_all

lemma life_ok_simps [simp]:
  "life_ok no_life"
  "life_ok (wait_for sv l) \<longleftrightarrow> life_ok l"
  "lf_held (spawn sv l) = sv # lf_held l" "lf_held (tell sv l) = remove1 sv (lf_held l)" "lf_held (wait_for sv l) = lf_held l"
  "lf_held (leave l) = []" "lf_held no_life = []"
  by (simp_all add: life_ok_def live_def no_life_def spawn_def wait_for_def tell_def leave_def)

lemma life_ok_tell [simp]: "life_ok l \<Longrightarrow> life_ok (tell sv l)"
  by (simp add: life_ok_def live_def tell_def)

lemma life_ok_spawn [simp]: "life_ok l \<Longrightarrow> life_ok (spawn sv l)"
  by (simp add: life_ok_def live_def spawn_def)

lemma life_ok_leave [simp]: "life_ok l \<Longrightarrow> life_ok (leave l)"
  by (simp add: life_ok_def live_def leave_def live_drops)

lemma ended_simps [simp]:
  "Ended x \<in> set (lf_log (tell sv l)) \<longleftrightarrow> Ended x \<in> set (lf_log l)" "Ended x \<in> set (lf_log (leave l)) \<longleftrightarrow> Ended x \<in> set (lf_log l)"
  "Ended x \<in> set (lf_log (wait_for sv l)) \<longleftrightarrow> x = sv \<or> Ended x \<in> set (lf_log l)"
  by (auto simp: tell_def leave_def wait_for_def)

lemma life_ok_fold: "(\<And>sv l. life_ok l \<Longrightarrow> life_ok (f sv l)) \<Longrightarrow> life_ok l \<Longrightarrow> life_ok (fold f svs l)"
  by (induction svs arbitrary: l) simp_all

lemma held_fold [simp]:
  "lf_held (fold wait_for svs l) = lf_held l" "lf_held (fold spawn svs l) = rev svs @ lf_held l"
  by (induction svs arbitrary: l) simp_all

text \<open>A run has returned or failed.\<close>

definition returned :: "ending \<Rightarrow> bool" where
  "returned r \<longleftrightarrow> r = Stopped \<or> (\<exists>e. r = Failed e)"

text \<open>The services of a scheduler, the youngest first.\<close>

definition backup_loops :: "sched_config \<Rightarrow> 'a service list" where
  "backup_loops config = (case sc_backup_dir config of Some dir \<Rightarrow> [BackupLoop dir (sc_backup_interval_hours config * 3600)] | None \<Rightarrow> [])"

definition keep_loop :: "sched_config \<Rightarrow> 'a service" where
  "keep_loop config = KeepaliveLoop (sc_keepalive_interval_secs config) (sc_keepalive_fail_threshold config) (sc_offline_timeout_secs config * 1000)"

definition web_server :: "sched_config \<Rightarrow> 'a \<Rightarrow> 'a service" where
  "web_server config http = HttpServer http (sc_web_dir config) (sc_admin_user config) (sc_admin_password config)"

definition serving :: "sched_config \<Rightarrow> 'a \<Rightarrow> 'a \<Rightarrow> 'a life \<Rightarrow> bool" where
  "serving config grpc http l \<longleftrightarrow> life_ok l \<and> lf_held l = [web_server config http, keep_loop config, GrpcServer grpc] @ backup_loops config"

lemma wind_down_outcome:
  assumes "serving config grpc http l"
    and "sched_wind_down http_ends (keep_loop config) (backup_loops config) (web_server config http) l = (r, l')"
  shows "r = (if http_ends then Stopped else Waits) \<and> life_ok l' \<and> lf_held l' = (if http_ends then [] else [GrpcServer grpc]) \<and>
    Ended (keep_loop config) \<in> set (lf_log l')"
proof -
  have ok: "life_ok l" and own: "lf_held l = [web_server config http, keep_loop config, GrpcServer grpc] @ backup_loops config"
    using assms(1) by (simp_all add: serving_def)
  let ?l1 = "wait_for (keep_loop config) (tell (keep_loop config) l)"
  let ?l2 = "fold wait_for (backup_loops config) (fold tell (backup_loops config) ?l1)"
  have "life_ok ?l2" by (intro life_ok_fold) (use ok in simp_all)
  moreover have "lf_held ?l2 = [web_server config http, GrpcServer grpc]"
    using own by (auto simp: backup_loops_def keep_loop_def web_server_def split: option.splits)
  moreover have "Ended (keep_loop config) \<in> set (lf_log ?l2)" by (auto simp: backup_loops_def split: option.splits)
  ultimately show ?thesis
    using assms(2) by (auto simp: sched_wind_down_def Let_def web_server_def split: if_splits)
qed

text \<open>A run of the scheduler fails with nothing left running, or comes to the stop signal with everything running.\<close>

lemma sched_run_cases:
  assumes "sched_run cd (env\<lparr>sn_stop := False\<rparr>) config = (r, l)"
  shows "(\<exists>e. r = Failed e \<and> sched_run cd (env\<lparr>sn_stop := True\<rparr>) config = (r, l) \<and> life_ok l \<and> lf_held l = [] \<and>
      (e = BadAddress \<longrightarrow> sn_parse_addr env (sc_bind_addr config) = None \<or> sn_parse_addr env (sc_http_bind_addr config) = None)) \<or>
    (\<exists>grpc http. r = Serves \<and> serving config grpc http l \<and>
      sn_parse_addr env (sc_bind_addr config) = Some grpc \<and> sn_parse_addr env (sc_http_bind_addr config) = Some http \<and>
      sched_run cd (env\<lparr>sn_stop := True\<rparr>) config =
        sched_wind_down (sn_http_ends env) (keep_loop config) (backup_loops config) (web_server config http) l)"
proof -
  let ?l1 = "fold spawn (backup_loops config) no_life"
  have l1: "life_ok ?l1" by (rule life_ok_fold) simp_all
  have rev: "rev (backup_loops config) = backup_loops config" by (simp add: backup_loops_def split: option.split)
  note run = sched_run_def backup_loops_def [symmetric] keep_loop_def [symmetric] web_server_def [symmetric] Let_def control_serve_def
  show ?thesis
  proof (cases "db_open (sn_dir_ok env) (sn_db_ok env) (sn_existing env)")
    case (Inl e)
    with assms show ?thesis by (auto simp: run)
  next
    case db: (Inr store)
    show ?thesis
    proof (cases "list_nodes cd (sn_list env) store")
      case (Inl e)
      with db assms show ?thesis by (auto simp: run)
    next
      case nodes: (Inr nodes)
      show ?thesis
      proof (cases "fst (start_backup cd (sc_backup_dir config) (sn_backup_dir_ok env) ((sn_backup env)\<lparr>br_store := store\<rparr>) (sn_files env))")
        case (Inl e)
        with db nodes assms show ?thesis by (auto simp: run)
      next
        case backup: (Inr looping)
        show ?thesis
          using assms db nodes backup
          by (cases "sn_parse_addr env (sc_bind_addr config)"; cases "sn_parse_addr env (sc_http_bind_addr config)";
              cases "sn_grpc_bind env"; cases "sn_udp_bind env"; cases "sn_http_bind env")
            (auto simp: run l1 rev serving_def)
      qed
    qed
  qed
qed


lemma sched_run_ok:
  assumes "sched_run cd env config = (r, l)"
  shows "life_ok l \<and> (returned r \<longleftrightarrow> lf_held l = [])"
proof -
  obtain r0 l0 where run: "sched_run cd (env\<lparr>sn_stop := False\<rparr>) config = (r0, l0)" by fastforce
  from sched_run_cases [OF run] show ?thesis
  proof (elim disjE exE conjE)
    fix e
    assume e: "r0 = Failed e" "sched_run cd (env\<lparr>sn_stop := True\<rparr>) config = (r0, l0)" "life_ok l0" "lf_held l0 = []"
    have "sched_run cd (env\<lparr>sn_stop := b\<rparr>) config = (r0, l0)" for b using e(2) run by (cases b) simp_all
    from this [of "sn_stop env"] have "sched_run cd env config = (r0, l0)" by simp
    with assms e show ?thesis by (auto simp: returned_def)
  next
    fix grpc http
    assume r: "r0 = Serves" and serving: "serving config grpc http l0" and stop: "sched_run cd (env\<lparr>sn_stop := True\<rparr>) config =
      sched_wind_down (sn_http_ends env) (keep_loop config) (backup_loops config) (web_server config http) l0"
    show ?thesis
    proof (cases "sn_stop env")
      case True
      then have "env\<lparr>sn_stop := True\<rparr> = env" by simp
      with stop assms have "sched_wind_down (sn_http_ends env) (keep_loop config) (backup_loops config) (web_server config http) l0 = (r, l)" by simp
      from wind_down_outcome [OF serving this] show ?thesis by (simp add: returned_def)
    next
      case False
      then have "env\<lparr>sn_stop := False\<rparr> = env" by simp
      with run assms r serving show ?thesis by (auto simp: returned_def serving_def)
    qed
  qed
qed

lemma origin_run_ok: "origin_run env config = (r, l) \<Longrightarrow> life_ok l \<and> (returned r \<longleftrightarrow> lf_held l = [])"
  unfolding origin_run_def upload_serve_def data_serve_def Let_def
  by (auto simp: returned_def split: sum.splits option.splits if_splits prod.splits)

lemma relay_run_ok: "relay_run env config = (r, l) \<Longrightarrow> life_ok l \<and> (returned r \<longleftrightarrow> lf_held l = [])"
  unfolding relay_run_def spawn_echo_def spawn_iroh_def spawn_quic_only_def Let_def
  by (auto simp: returned_def split: sum.splits option.splits if_splits prod.splits)

text \<open>
  Nothing is left behind. Whatever binds, opens or parses or fails to, a run of the scheduler, the origin or the relay
  has returned, with success or with an error, exactly when none of the services it started is left without the
  order to stop.
\<close>

theorem services_are_stopped:
  "(case sched_run cd senv sconfig of (r, l) \<Rightarrow> returned r \<longleftrightarrow> live (lf_log l) = {#}) \<and>
   (case origin_run oenv oconfig of (r, l) \<Rightarrow> returned r \<longleftrightarrow> live (lf_log l) = {#}) \<and>
   (case relay_run renv rconfig of (r, l) \<Rightarrow> returned r \<longleftrightarrow> live (lf_log l) = {#})"
  using sched_run_ok [of cd senv sconfig] origin_run_ok [of oenv oconfig] relay_run_ok [of renv rconfig]
  by (simp add: life_ok_def split: prod.split)

text \<open>The relay: echo always, the relay endpoint only when the configuration enables it.\<close>

lemma relay_serves:
  assumes "relay_run env config = (Serves, l)"
  shows "\<exists>a. live (lf_log l) = {#EchoLoop a, if rc_data_relay_enabled config
      then RelayServer (rc_http_bind_addr config) (rc_https_bind_addr config) (rc_quic_bind_addr config) else QuicServer (rc_quic_bind_addr config)#}"
proof -
  obtain a where "rev (lf_held l) = [EchoLoop a, if rc_data_relay_enabled config
      then RelayServer (rc_http_bind_addr config) (rc_https_bind_addr config) (rc_quic_bind_addr config) else QuicServer (rc_quic_bind_addr config)]"
    using assms by (auto simp: relay_run_def spawn_echo_def spawn_iroh_def spawn_quic_only_def Let_def split: sum.splits option.splits if_splits prod.splits)
  then have "mset (lf_held l) = mset [EchoLoop a, if rc_data_relay_enabled config
      then RelayServer (rc_http_bind_addr config) (rc_https_bind_addr config) (rc_quic_bind_addr config) else QuicServer (rc_quic_bind_addr config)]"
    by (metis mset_rev)
  with relay_run_ok [OF assms] show ?thesis by (auto simp: life_ok_def intro: exI [of _ a])
qed

section \<open>The end of the scheduler\<close>


definition demo_env :: "(string, json) sched_env" where
  "demo_env = \<lparr>sn_parse_addr = (\<lambda>a. Some a), sn_dir_ok = True, sn_db_ok = True, sn_existing = None, sn_list = False, sn_backup_dir_ok = True,
     sn_backup = demo_round, sn_files = Map.empty, sn_grpc_bind = True, sn_udp_bind = True, sn_http_bind = True, sn_stop = False, sn_http_ends = False\<rparr>"


section \<open>An origin from its start\<close>

text \<open>
  C21. What an origin sends is verified. Take an origin that has started, on a data directory whose libraries hold under every
  hash data with that digest (an empty one, say). Its upload service and its data plane work on the same map of libraries; and
  whatever connections and uploads it then serves in parallel, with any faults and peers, each connection has
  been sent, frame by frame, data with the digests it asked for, and what was acknowledged to an uploader is held with its digest.
\<close>

theorem origin_serves_verified:
  assumes "origin_run env config = (Serves, l)" and "origin_services env config = (up, dp)"
    and "\<And>penv g st. store_open penv g (on_disk env g) = Inr st \<Longrightarrow> store_ok st \<and> digests blake3 (abs_store st)"
    and "plane_run blake3 cafe es (plane_start dp) = Some s" and "roomy blake3 cafe es (plane_start dp)"
  shows "(\<exists>a port. live (lf_log l) = {#UploadServer a, AcceptLoop port#}) \<and> us_stores up = dp_pack_stores dp \<and>
    (\<exists>xs. jb_sent (pl_jobs s j) = concat (map reply_frame xs) \<and> map blake3 xs = jb_asked (pl_jobs s j)) \<and>
    (\<forall>h. (h, True) \<in> set (jb_acks (pl_jobs s j)) \<longrightarrow> (\<exists>x. held (pl_plane s) (jb_game (pl_jobs s j)) h = Some x \<and> blake3 x = h))"
proof -
  have dp: "dp = \<lparr>dp_stores = Map.empty, dp_pack_stores = Map.empty, dp_disk = on_disk env, dp_pack_default = True\<rparr>" and up: "us_stores up = dp_pack_stores dp"
    using assms(2) by (auto simp: origin_services_def with_scheduler_def with_stores_def Let_def)
  have node: "pack_node dp" and start: "verified blake3 (pl_plane (plane_start dp))"
    using assms(3) by (auto simp: dp pack_node_def verified_def plane_start_def held_def digests_def)
  note inv = plane_inv_start [OF node]
  have ok: "job_ok (pl_plane s) (pl_jobs s j)" using plane_run_inv [OF inv assms(4,5)] inv_jobD(2) by blast
  have data: "blake3 x = h" if "held (pl_plane s) g h = Some x" for g h x
    using verified_run [OF inv start assms(4,5)] that by (auto simp: verified_def digests_def)
  obtain xs where xs: "jb_sent (pl_jobs s j) = concat (map reply_frame xs)"
      "list_all2 (\<lambda>h x. held (pl_plane s) (jb_game (pl_jobs s j)) h = Some x) (jb_asked (pl_jobs s j)) xs"
    using ok by (auto simp: job_ok_def answered_def)
  have "map blake3 xs = jb_asked (pl_jobs s j)" using xs(2) data by (auto simp: list_all2_conv_all_nth intro!: nth_equalityI)
  moreover obtain a port where "lf_held l = [AcceptLoop port, UploadServer a]"
    using assms(1) by (auto simp: origin_run_def upload_serve_def data_serve_def Let_def split: sum.splits option.splits if_splits prod.splits)
  then have "live (lf_log l) = {#UploadServer a, AcceptLoop port#}"
    using origin_run_ok [OF assms(1)] by (simp add: life_ok_def add_mset_commute)
  ultimately show ?thesis using xs(1) up ok data by (auto simp: job_ok_def acked_def)
qed

definition demo_origin_env :: "string origin_env" where
  "demo_origin_env = \<lparr>on_parse_addr = (\<lambda>a. Some a), on_mkdir = True, on_upload_bind = True, on_relay_url = (\<lambda>u. True), on_builder = True,
     on_endpoint = (\<lambda>c. Some ([ec_listen c], ''id'')), on_stop = False, on_disk = (\<lambda>g. empty_disk)\<rparr>"

definition demo_origin_config :: origin_config where
  "demo_origin_config = origin_fill \<lparr>or_data_dir = ''d'', or_bind_addr = None, or_listen_port = None, or_external_addr = None, or_relay_url = None,
     or_scheduler_addr = None, or_compact_threshold = None, or_min_free_bytes = None\<rparr>"

definition demo_upload :: "plane_event list" where
  "demo_upload = [UploadArrives 0, PeerItem 0 (Some (5, demo_hash 1, [7])), Go demo_go 0, Go demo_go 0, Go demo_go 0]"

theorem origin_serves_verified_witness:
  "\<exists>s :: unit plane_system. plane_run (\<lambda>d. demo_hash 1) (\<lambda>c h. Inr None) demo_upload (plane_start (snd (origin_services demo_origin_env demo_origin_config))) = Some s \<and>
     jb_acks (pl_jobs s 0) = [(demo_hash 1, True)] \<and> held (pl_plane s) 5 (demo_hash 1) \<noteq> None"
proof -
  let ?start = "plane_start (snd (origin_services demo_origin_env demo_origin_config)) :: unit plane_system"
  obtain l where run: "origin_run demo_origin_env demo_origin_config = (Serves, l)"
    by (simp add: origin_run_def demo_origin_env_def demo_origin_config_def origin_fill_def or_default_def upload_serve_def data_serve_def bad_opt_def Let_def)
  have disk: "store_ok st \<and> digests (\<lambda>d. demo_hash 1) (abs_store st)" if "store_open penv g (on_disk demo_origin_env g) = Inr st" for penv g st
    using store_open_empty that by (auto simp: demo_origin_env_def store_inv_def digests_def)
  have ok: "store_ok (demo_store 5)" using store_open_empty [OF demo_open] by (simp add: store_inv_def)
  have append: "append_chunk env_std (demo_hash 1) [7] (demo_store 5) = (Inr (0, 1), indexed (demo_store 5) (demo_hash 1) [7])"
    by (simp add: append_chunk_live [OF env_std_live ok]) (simp add: demo_store_def)
  have len: "length (demo_hash 1) = 32" by (simp add: demo_hash_def)
  obtain s where s: "plane_run (\<lambda>d. demo_hash 1) (\<lambda>c h. Inr None) demo_upload ?start = Some s"
    "roomy (\<lambda>d. demo_hash 1) (\<lambda>c h. Inr None) demo_upload ?start" "jb_acks (pl_jobs s 0) = [(demo_hash 1, True)]" "jb_game (pl_jobs s 0) = 5"
    by (simp add: demo_upload_def demo_plane_simps origin_services_def demo_origin_env_def first_step_def packs_step_def upload_step_def
        demo_open append len) (simp add: demo_store_def)
  have "\<forall>h. (h, True) \<in> set (jb_acks (pl_jobs s 0)) \<longrightarrow> (\<exists>x. held (pl_plane s) (jb_game (pl_jobs s 0)) h = Some x \<and> demo_hash 1 = h)"
    by (intro conjunct2 [OF conjunct2 [OF conjunct2 [OF origin_serves_verified [OF run prod.collapse [symmetric] _ s(1,2)]]]])
      (use disk in blast)
  with s show ?thesis by auto
qed

end
