(* ===== verification/Sched_Control.thy ===== *)
theory Sched_Control
  imports Sched_Db
begin

text \<open>
  The control plane of the scheduler (\<^verbatim>\<open>crates/scheduler/src/server.rs\<close>): registration,
  heartbeats, the task queues pushed to watching nodes, task and chunk reports, peer queries
  and published versions.

  The service state is the store, the pending event queue of each node, and the list of
  events broadcast to the HTTP event stream. Each handler takes \<open>flt\<close>, which says for its
  \<open>i\<close>-th store transaction whether it fails, and the clock readings it makes.
\<close>

section \<open>Data\<close>

record proto_task =
  pt_id :: u64
  pt_game_id :: u64
  pt_version :: u64
  pt_kind :: nat
  pt_assigned_chunks :: "bytes list"

datatype task_event = TaskPushed proto_task

datatype bus_event = TaskCreated u64 u64 u64 | TaskStatus u64 string

record 'j control_service =
  cv_store :: "'j store"
  cv_pending :: "u64 \<Rightarrow> task_event list"
  cv_events :: "bus_event list"

datatype status =
    BadNodeType | NodeNotFound | AllocNodeId db_error | WriteNode db_error | QueryTasks db_error
  | QueryNode db_error | UpdateNode db_error | UpdateTask db_error | ChunkLedger db_error
  | VersionQueryFailed db_error | VersionSaveFailed db_error | WriteTask db_error
  | VersionIdsZero | EmptyManifest

text \<open>A handler: a reply or a status, and the new service state.\<close>

type_synonym ('j, 'a) handler = "'j control_service \<Rightarrow> (status + 'a) \<times> 'j control_service"

definition with_events :: "'j store \<Rightarrow> 'j control_service" where
  "with_events st = \<lparr>cv_store = st, cv_pending = (\<lambda>_. []), cv_events = []\<rparr>"

definition valid_node_type :: "string \<Rightarrow> bool" where
  "valid_node_type t \<longleftrightarrow> t = ''origin'' \<or> t = ''idc'' \<or> t = ''cafe''"

definition task_kind :: "string \<Rightarrow> nat" where
  "task_kind kind =
     (if kind = ''DOWNLOAD'' then 0 else if kind = ''UPDATE'' then 1 else if kind = ''ROLLBACK'' then 2 else 0)"

definition to_proto_task :: "task_record \<Rightarrow> proto_task" where
  "to_proto_task t = \<lparr>pt_id = tk_id t, pt_game_id = tk_game_id t, pt_version = tk_version t,
     pt_kind = task_kind (tk_kind t), pt_assigned_chunks = tk_assigned_chunks t\<rparr>"

section \<open>Pushing tasks\<close>

definition push_task :: "'j serde \<Rightarrow> bool \<Rightarrow> task_record \<Rightarrow> ('j, unit) handler" where
  "push_task cd flt task sv =
     (case insert_task cd flt task (cv_store sv) of
        (Inl e, st) \<Rightarrow> (Inl (WriteTask e), sv\<lparr>cv_store := st\<rparr>)
      | (Inr _, st) \<Rightarrow>
          (Inr (), sv\<lparr>cv_store := st,
             cv_pending := (cv_pending sv)(tk_node_id task :=
               cv_pending sv (tk_node_id task) @ [TaskPushed (to_proto_task task)]),
             cv_events := cv_events sv @ [TaskCreated (tk_id task) (tk_node_id task) (tk_game_id task)]\<rparr>))"

text \<open>
  One round of \<open>watch_loop\<close>: the queue is drained, then the events are sent one by one until a
  send fails (\<open>sends i\<close> tells whether the \<open>i\<close>-th send succeeds); the flag says whether the loop
  goes on.
\<close>

fun send_all :: "(nat \<Rightarrow> bool) \<Rightarrow> task_event list \<Rightarrow> task_event list \<times> bool" where
  "send_all sends [] = ([], True)"
| "send_all sends (e # es) =
     (if sends 0 then (case send_all (\<lambda>i. sends (Suc i)) es of (out, go) \<Rightarrow> (e # out, go)) else ([], False))"

definition watch_round :: "(nat \<Rightarrow> bool) \<Rightarrow> u64 \<Rightarrow> 'j control_service \<Rightarrow> task_event list \<times> bool \<times> 'j control_service" where
  "watch_round sends node_id sv =
     (case send_all sends (cv_pending sv node_id) of
        (out, go) \<Rightarrow> (out, go, sv\<lparr>cv_pending := (cv_pending sv)(node_id := [])\<rparr>))"

text \<open>The stream a watching node receives: rounds, between which other handlers change the queue.\<close>

fun watch_loop ::
    "(nat \<Rightarrow> nat \<Rightarrow> bool) \<Rightarrow> u64 \<Rightarrow> ('j control_service \<Rightarrow> 'j control_service) list \<Rightarrow> 'j control_service \<Rightarrow>
     task_event list \<times> 'j control_service" where
  "watch_loop sends node_id [] sv = ([], sv)"
| "watch_loop sends node_id (other # rounds) sv =
     (case watch_round (sends 0) node_id (other sv) of
        (out, go, sv1) \<Rightarrow>
          if go then (case watch_loop (\<lambda>r. sends (Suc r)) node_id rounds sv1 of (out', sv2) \<Rightarrow> (out @ out', sv2))
          else (out, sv1))"

section \<open>Handlers\<close>

record register_request =
  rq_node_type :: string
  rq_endpoint_id :: string
  rq_addrs :: "addr_record list"

record register_reply =
  rr_node_id :: u64
  rr_token :: string
  rr_initial_tasks :: "proto_task list"

definition queued :: "task_record \<Rightarrow> bool" where
  "queued t \<longleftrightarrow> tk_status t = ''queued''"

definition register :: "'j serde \<Rightarrow> (nat \<Rightarrow> bool) \<Rightarrow> (nat \<Rightarrow> u64) \<Rightarrow> register_request \<Rightarrow> ('j, register_reply) handler" where
  "register cd flt now req sv =
     (if \<not> valid_node_type (rq_node_type req) then (Inl BadNodeType, sv)
      else case next_node_id (flt 0) (cv_store sv) of
        (Inl e, st) \<Rightarrow> (Inl (AllocNodeId e), sv\<lparr>cv_store := st\<rparr>)
      | (Inr nid, st) \<Rightarrow>
          let token = show_u64 (now 0) @ ''-'' @ show_u64 nid;
              node = \<lparr>nd_id = nid, nd_node_type = rq_node_type req, nd_endpoint_id = rq_endpoint_id req,
                      nd_token = token, nd_addrs = rq_addrs req, nd_status = ''online'',
                      nd_last_heartbeat_ms = now 1\<rparr>
          in case insert_node cd (flt 1) node st of
            (Inl e, st1) \<Rightarrow> (Inl (WriteNode e), sv\<lparr>cv_store := st1\<rparr>)
          | (Inr _, st1) \<Rightarrow>
              (case tasks_for_node cd (flt 2) st1 nid of
                 Inl e \<Rightarrow> (Inl (QueryTasks e), sv\<lparr>cv_store := st1\<rparr>)
               | Inr tasks \<Rightarrow>
                   (Inr \<lparr>rr_node_id = nid, rr_token = token,
                         rr_initial_tasks = map to_proto_task (filter queued tasks)\<rparr>,
                    sv\<lparr>cv_store := st1\<rparr>)))"

record heartbeat_reply =
  hr_server_time :: u64
  hr_task_ids :: "u64 list"

definition heartbeat :: "'j serde \<Rightarrow> (nat \<Rightarrow> bool) \<Rightarrow> (nat \<Rightarrow> u64) \<Rightarrow> u64 \<Rightarrow> ('j, heartbeat_reply) handler" where
  "heartbeat cd flt now node_id sv =
     (case get_node cd (flt 0) (cv_store sv) node_id of
        Inl e \<Rightarrow> (Inl (QueryNode e), sv)
      | Inr None \<Rightarrow> (Inl NodeNotFound, sv)
      | Inr (Some node) \<Rightarrow>
          let node' = node\<lparr>nd_last_heartbeat_ms := now 0, nd_status := ''online''\<rparr> in
          (case insert_node cd (flt 1) node' (cv_store sv) of
             (Inl e, st) \<Rightarrow> (Inl (UpdateNode e), sv\<lparr>cv_store := st\<rparr>)
           | (Inr _, st) \<Rightarrow>
               (case tasks_for_node cd (flt 2) st node_id of
                  Inl e \<Rightarrow> (Inl (QueryTasks e), sv\<lparr>cv_store := st\<rparr>)
                | Inr tasks \<Rightarrow>
                    (Inr \<lparr>hr_server_time = now 1, hr_task_ids = map tk_id (filter queued tasks)\<rparr>,
                     sv\<lparr>cv_store := st\<rparr>))))"

definition report_task :: "'j serde \<Rightarrow> bool \<Rightarrow> u64 \<Rightarrow> string \<Rightarrow> string \<Rightarrow> ('j, unit) handler" where
  "report_task cd flt task_id stat err sv =
     (case update_task_status cd flt task_id stat err (cv_store sv) of
        (Inl e, st) \<Rightarrow> (Inl (UpdateTask e), sv\<lparr>cv_store := st\<rparr>)
      | (Inr _, st) \<Rightarrow> (Inr (), sv\<lparr>cv_store := st, cv_events := cv_events sv @ [TaskStatus task_id stat]\<rparr>))"

definition report_chunk :: "'j serde \<Rightarrow> bool \<Rightarrow> u64 \<Rightarrow> u64 \<Rightarrow> bytes \<Rightarrow> ('j, unit) handler" where
  "report_chunk cd flt node_id game_id hash sv =
     (case record_chunk_holder cd flt node_id game_id hash (cv_store sv) of
        (Inl e, st) \<Rightarrow> (Inl (ChunkLedger e), sv\<lparr>cv_store := st\<rparr>)
      | (Inr _, st) \<Rightarrow> (Inr (), sv\<lparr>cv_store := st\<rparr>))"

record peer =
  pe_node_id :: u64
  pe_endpoint_id :: string
  pe_addrs :: "addr_record list"
  pe_direct_only :: bool

definition to_peer :: "node_record \<Rightarrow> peer" where
  "to_peer node = \<lparr>pe_node_id = nd_id node, pe_endpoint_id = nd_endpoint_id node, pe_addrs = nd_addrs node,
     pe_direct_only = (nd_node_type node = ''cafe'')\<rparr>"

fun peers_of :: "'j serde \<Rightarrow> (nat \<Rightarrow> bool) \<Rightarrow> 'j store \<Rightarrow> u64 list \<Rightarrow> status + peer list" where
  "peers_of cd flt st [] = Inr []"
| "peers_of cd flt st (i # ids) =
     (case get_node cd (flt 0) st i of
        Inl e \<Rightarrow> Inl (QueryNode e)
      | Inr None \<Rightarrow> peers_of cd (\<lambda>k. flt (Suc k)) st ids
      | Inr (Some node) \<Rightarrow>
          if nd_status node \<noteq> ''online'' then peers_of cd (\<lambda>k. flt (Suc k)) st ids
          else res_bind (peers_of cd (\<lambda>k. flt (Suc k)) st ids) (\<lambda>ps. Inr (to_peer node # ps)))"

definition query_peers :: "'j serde \<Rightarrow> (nat \<Rightarrow> bool) \<Rightarrow> u64 \<Rightarrow> bytes \<Rightarrow> u32 \<Rightarrow> 'j control_service \<Rightarrow> status + peer list" where
  "query_peers cd flt game_id hash limit sv =
     (case chunk_holders cd (flt 0) (cv_store sv) game_id hash of
        Inl e \<Rightarrow> Inl (ChunkLedger e)
      | Inr hs \<Rightarrow>
          let lim = (if limit = 0 then 2 ^ 64 - 1 else unat limit) in
          peers_of cd (\<lambda>k. flt (Suc k)) (cv_store sv) (take lim hs))"

record version_info =
  vi_found :: bool
  vi_version :: u64
  vi_manifest :: bytes

definition get_version_info :: "'j serde \<Rightarrow> bool \<Rightarrow> u64 \<Rightarrow> u64 \<Rightarrow> 'j control_service \<Rightarrow> status + version_info" where
  "get_version_info cd flt game_id version sv =
     (case get_version cd flt (cv_store sv) game_id version of
        Inl e \<Rightarrow> Inl (VersionQueryFailed e)
      | Inr None \<Rightarrow> Inr \<lparr>vi_found = False, vi_version = version, vi_manifest = []\<rparr>
      | Inr (Some m) \<Rightarrow> Inr \<lparr>vi_found = True, vi_version = version, vi_manifest = m\<rparr>)"

text \<open>A failure to update the game record is ignored.\<close>

definition publish_version :: "'j serde \<Rightarrow> (nat \<Rightarrow> bool) \<Rightarrow> u64 \<Rightarrow> u64 \<Rightarrow> bytes \<Rightarrow> ('j, bool) handler" where
  "publish_version cd flt game_id version manifest sv =
     (if game_id = 0 \<or> version = 0 then (Inl VersionIdsZero, sv)
      else if manifest = [] then (Inl EmptyManifest, sv)
      else case save_version cd (flt 0) game_id version manifest (cv_store sv) of
        (Inl e, st) \<Rightarrow> (Inl (VersionSaveFailed e), sv\<lparr>cv_store := st\<rparr>)
      | (Inr _, st) \<Rightarrow>
          let st2 = (case get_game cd (flt 1) st game_id of
                       Inr (Some game) \<Rightarrow>
                         if gm_latest_version game < version
                         then snd (insert_game cd (flt 2) (game\<lparr>gm_latest_version := version\<rparr>) st)
                         else st
                     | _ \<Rightarrow> st)
          in (Inr True, sv\<lparr>cv_store := st2\<rparr>))"

section \<open>Views of the tables\<close>

definition node_of :: "'j serde \<Rightarrow> 'j store \<Rightarrow> u64 \<Rightarrow> node_record option" where
  "node_of cd st i = (case tbl_get (db_nodes st) i of None \<Rightarrow> None | Some j \<Rightarrow> dec_node cd j)"

definition task_of :: "'j serde \<Rightarrow> 'j store \<Rightarrow> u64 \<Rightarrow> task_record option" where
  "task_of cd st i = (case tbl_get (db_tasks st) i of None \<Rightarrow> None | Some j \<Rightarrow> dec_task cd j)"

definition game_of :: "'j serde \<Rightarrow> 'j store \<Rightarrow> u64 \<Rightarrow> game_record option" where
  "game_of cd st i = (case tbl_get (db_games st) i of None \<Rightarrow> None | Some j \<Rightarrow> dec_game cd j)"

definition all_tasks :: "'j serde \<Rightarrow> 'j store \<Rightarrow> task_record list" where
  "all_tasks cd st = map (\<lambda>e. the (dec_task cd (snd e))) (db_tasks st)"

lemma get_node_eq: "db_ok cd st \<Longrightarrow> get_node cd False st i = Inr (node_of cd st i)"
  using decodes_get [of "db_nodes st" "dec_node cd" nd_id i]
  by (auto simp: get_node_def get_decoded_def node_of_def db_decode_def db_ok_defs split: option.splits)

lemma get_game_eq: "db_ok cd st \<Longrightarrow> get_game cd False st i = Inr (game_of cd st i)"
  using decodes_get [of "db_games st" "dec_game cd" gm_id i]
  by (auto simp: get_game_def get_from_json_def get_json_def game_of_def db_decode_def db_ok_defs split: option.splits)

lemma node_of_id: "db_ok cd st \<Longrightarrow> node_of cd st i = Some n \<Longrightarrow> nd_id n = i"
  using decodes_get [of "db_nodes st" "dec_node cd" nd_id i]
  by (auto simp: node_of_def db_ok_defs split: option.splits)

lemma node_of_le: "db_ok cd st \<Longrightarrow> node_of cd st i = Some n \<Longrightarrow> i \<le> ctr st NEXT_NODE_ID"
  by (fastforce simp: node_of_def db_ok_defs ids_below_def list_all_iff tbl_get_iff split: option.splits)

lemma tasks_for_node_eq:
  "db_ok cd st \<Longrightarrow> tasks_for_node cd False st n = Inr (filter (\<lambda>t. tk_node_id t = n) (all_tasks cd st))"
  by (simp add: tasks_for_node_def all_tasks_def list_decoded_Inr [of "dec_task cd" tk_id] db_ok_defs)

lemma list_tasks_eq: "db_ok cd st \<Longrightarrow> list_tasks cd False st = Inr (all_tasks cd st)"
  by (simp add: list_tasks_def all_tasks_def list_decoded_Inr [of "dec_task cd" tk_id] db_ok_defs)

lemma node_of_insert:
  "serde_ok cd \<Longrightarrow> tbl_ok (db_nodes st) \<Longrightarrow>
     node_of cd (st\<lparr>db_nodes := tbl_insert i (enc_node cd n) (db_nodes st)\<rparr>) k = (if k = i then Some n else node_of cd st k)"
  by (simp add: node_of_def tbl_simps serde_ok_def)

lemma insert_node_view:
  assumes "serde_ok cd" "db_ok cd st" "insert_node cd False n st = (r, st')"
  shows "r = Inr () \<and> node_of cd st' k = (if k = nd_id n then Some n else node_of cd st k) \<and>
    all_tasks cd st' = all_tasks cd st \<and> ctr st' c = ctr st c"
  using assms node_of_insert [of cd st "nd_id n" n k]
  by (auto simp: insert_node_def Let_def db_ok_defs all_tasks_def)

lemma next_id_views:
  assumes "next_id flt c st = (r, st')"
  shows "node_of cd st' = node_of cd st" "task_of cd st' = task_of cd st" "game_of cd st' = game_of cd st"
    "all_tasks cd st' = all_tasks cd st" "holders cd st' = holders cd st"
    "get_version cd False st' = get_version cd False st"
  using assms by (auto simp: next_id_def Let_def node_of_def task_of_def game_of_def all_tasks_def holders_def
      get_version_def fun_eq_iff split: if_splits)

text \<open>Tasks are created for existing nodes only, so they name allocated node identifiers.\<close>

definition tasks_named :: "'j serde \<Rightarrow> 'j store \<Rightarrow> bool" where
  "tasks_named cd st \<longleftrightarrow> list_all (\<lambda>t. tk_node_id t \<le> ctr st NEXT_NODE_ID) (all_tasks cd st)"

section \<open>Registration and heartbeats\<close>

text \<open>
  Registration. A valid request, with no failing transaction and node numbers left,
  creates one node under a number no node had, online and with the request's data, leaves all
  other nodes and all tasks alone, and preserves the database invariant. Because the number is
  new and tasks are only created for existing nodes, the list of initial tasks in the reply is
  always empty: a restarted node, which registers again, gets none of its queued tasks back.
\<close>

theorem register_creates_node:
  assumes "serde_ok cd" and "db_ok cd (cv_store sv)" and "tasks_named cd (cv_store sv)"
    and "ctr (cv_store sv) NEXT_NODE_ID < -1" and "valid_node_type (rq_node_type req)" and "\<And>i. \<not> flt i"
    and "register cd flt now req sv = (r, sv')"
  shows "\<exists>reply node. r = Inr reply \<and> node_of cd (cv_store sv) (rr_node_id reply) = None \<and>
    node_of cd (cv_store sv') = (node_of cd (cv_store sv))(rr_node_id reply \<mapsto> node) \<and>
    nd_status node = ''online'' \<and> nd_node_type node = rq_node_type req \<and> nd_endpoint_id node = rq_endpoint_id req \<and>
    nd_addrs node = rq_addrs req \<and> nd_last_heartbeat_ms node = now 1 \<and>
    all_tasks cd (cv_store sv') = all_tasks cd (cv_store sv) \<and> rr_initial_tasks reply = [] \<and>
    cv_pending sv' = cv_pending sv \<and> db_ok cd (cv_store sv') \<and> tasks_named cd (cv_store sv')"
proof -
  let ?st = "cv_store sv" and ?c = "ctr (cv_store sv) NEXT_NODE_ID"
  have ok: "tbl_ok (db_counters ?st)" using assms(2) by (simp add: db_ok_defs)
  obtain nid st1 where n: "next_node_id False ?st = (Inr nid, st1)"
    by (simp add: next_node_id_def next_id_def Let_def)
  note ctr = ctr_next_id [OF ok n [unfolded next_node_id_def]]
  have ok1: "db_ok cd st1" by (rule next_id_ok [OF assms(2) n [unfolded next_node_id_def] assms(4)])
  have view1: "node_of cd st1 = node_of cd ?st" "all_tasks cd st1 = all_tasks cd ?st"
    by (fact next_id_views [OF n [unfolded next_node_id_def]])+
  have nid: "nid = ?c + 1" "ctr st1 NEXT_NODE_ID = nid" using ctr by auto
  define node where "node = \<lparr>nd_id = nid, nd_node_type = rq_node_type req, nd_endpoint_id = rq_endpoint_id req,
    nd_token = show_u64 (now 0) @ ''-'' @ show_u64 nid, nd_addrs = rq_addrs req, nd_status = ''online'',
    nd_last_heartbeat_ms = now 1\<rparr>"
  obtain r2 st2 where i: "insert_node cd False node st1 = (r2, st2)" by fastforce
  note view2 = insert_node_view [OF assms(1) ok1 i]
  have ok2: "db_ok cd st2"
    by (rule insert_node_ok [OF assms(1) ok1 _ i]) (simp add: node_def nid)
  have c2: "ctr st2 NEXT_NODE_ID = nid" using view2 nid by simp
  have tasks: "all_tasks cd st2 = all_tasks cd ?st" using view2 view1 by auto
  have named: "list_all (\<lambda>t. tk_node_id t \<le> ?c) (all_tasks cd ?st)" using assms(3) by (simp add: tasks_named_def)
  then have none: "filter (\<lambda>t. tk_node_id t = nid) (all_tasks cd ?st) = []"
    using word_le_Suc [OF assms(4)] nid(1) by (auto simp: list_all_iff filter_empty_conv not_le)
  have fresh: "node_of cd ?st nid = None"
    using fresh_id [of ?c "db_nodes ?st"] assms(2,4) nid by (simp add: db_ok_defs node_of_def)
  have run: "r = Inr \<lparr>rr_node_id = nid, rr_token = nd_token node, rr_initial_tasks = []\<rparr>"
    "sv' = sv\<lparr>cv_store := st2\<rparr>"
    using assms(5,6,7) n i view2 tasks_for_node_eq [OF ok2, of nid] tasks none
    by (auto simp: register_def Let_def node_def)
  have "tasks_named cd st2"
    using named tasks c2 nid word_le_Suc [OF assms(4)] by (auto simp: tasks_named_def list_all_iff)
  moreover have "node_of cd st2 = (node_of cd ?st)(nid \<mapsto> node)"
    using view2 view1 by (auto simp: fun_eq_iff node_def)
  ultimately show ?thesis using run fresh tasks ok2
    by (intro exI [of _ "\<lparr>rr_node_id = nid, rr_token = nd_token node, rr_initial_tasks = []\<rparr>"] exI [of _ node])
      (simp add: node_def)
qed

definition demo_control :: "json control_service" where
  "demo_control = with_events ensure_tables"

definition demo_register :: register_request where
  "demo_register = \<lparr>rq_node_type = ''idc'', rq_endpoint_id = ''e1'', rq_addrs = []\<rparr>"

lemma demo_control_ok:
  "db_ok json_serde (cv_store demo_control)" "tasks_named json_serde (cv_store demo_control)"
  "ctr (cv_store demo_control) c = 0"
  using db_ok_empty [of json_serde]
  by (simp_all add: demo_control_def with_events_def tasks_named_def all_tasks_def ensure_tables_def ctr_def)

theorem register_creates_node_witness:
  "\<exists>reply sv'. register json_serde (\<lambda>i. False) (\<lambda>i. 1000) demo_register demo_control = (Inr reply, sv') \<and>
     rr_initial_tasks reply = [] \<and> db_ok json_serde (cv_store sv')"
proof -
  obtain r sv' where run: "register json_serde (\<lambda>i. False) (\<lambda>i. 1000) demo_register demo_control = (r, sv')" by fastforce
  have "valid_node_type (rq_node_type demo_register)" by (simp add: demo_register_def valid_node_type_def)
  moreover have "ctr (cv_store demo_control) NEXT_NODE_ID < -1" by (simp add: demo_control_ok(3))
  ultimately show ?thesis
    using register_creates_node [OF json_serde_ok demo_control_ok(1,2) _ _ _ run] run by blast
qed

text \<open>
  Heartbeats. With no failing transaction, a heartbeat of a registered node marks exactly
  that node online at the current time, keeps its other data and every other node, and answers
  with the numbers of the node's queued tasks in ascending order; an unknown node is refused
  and nothing changes.
\<close>

theorem heartbeat_updates_node:
  assumes "serde_ok cd" and "db_ok cd (cv_store sv)" and "\<And>i. \<not> flt i"
    and "heartbeat cd flt now n sv = (r, sv')"
  shows "(case node_of cd (cv_store sv) n of
      None \<Rightarrow> r = Inl NodeNotFound \<and> sv' = sv
    | Some node \<Rightarrow>
        r = Inr \<lparr>hr_server_time = now 1,
                 hr_task_ids = map tk_id (filter (\<lambda>t. tk_node_id t = n \<and> queued t) (all_tasks cd (cv_store sv)))\<rparr> \<and>
        node_of cd (cv_store sv') =
          (node_of cd (cv_store sv))(n \<mapsto> node\<lparr>nd_last_heartbeat_ms := now 0, nd_status := ''online''\<rparr>) \<and>
        cv_pending sv' = cv_pending sv) \<and>
    all_tasks cd (cv_store sv') = all_tasks cd (cv_store sv) \<and> db_ok cd (cv_store sv')"
proof (cases "node_of cd (cv_store sv) n")
  case None
  with assms get_node_eq [OF assms(2), of n] show ?thesis by (simp add: heartbeat_def)
next
  case (Some node)
  let ?n = "node\<lparr>nd_last_heartbeat_ms := now 0, nd_status := ''online''\<rparr>"
  obtain r2 st2 where i: "insert_node cd False ?n (cv_store sv) = (r2, st2)" by fastforce
  have id: "nd_id ?n = n" using node_of_id [OF assms(2) Some] by simp
  note view = insert_node_view [OF assms(1,2) i]
  have ok: "db_ok cd st2"
    using insert_node_ok [OF assms(1,2) _ i] node_of_le [OF assms(2) Some] id by simp
  have "filter queued (filter (\<lambda>t. tk_node_id t = n) xs) = filter (\<lambda>t. tk_node_id t = n \<and> queued t) xs" for xs
    by (simp add: filter_filter conj_commute)
  then have "r = Inr \<lparr>hr_server_time = now 1,
      hr_task_ids = map tk_id (filter (\<lambda>t. tk_node_id t = n \<and> queued t) (all_tasks cd (cv_store sv)))\<rparr>"
    "sv' = sv\<lparr>cv_store := st2\<rparr>"
    using assms(3,4) Some get_node_eq [OF assms(2), of n] i view tasks_for_node_eq [OF ok, of n]
    by (auto simp: heartbeat_def Let_def)
  with view id ok Some show ?thesis by (auto simp: fun_eq_iff)
qed

theorem heartbeat_updates_node_witness:
  "fst (heartbeat json_serde (\<lambda>i. False) (\<lambda>i. 5) 3 demo_control) = Inl NodeNotFound"
proof -
  obtain r sv' where run: "heartbeat json_serde (\<lambda>i. False) (\<lambda>i. 5) 3 demo_control = (r, sv')" by fastforce
  have "node_of json_serde (cv_store demo_control) 3 = None"
    by (simp add: node_of_def demo_control_def with_events_def ensure_tables_def)
  with heartbeat_updates_node [OF json_serde_ok demo_control_ok(1) _ run] run show ?thesis by simp
qed

section \<open>Pushing and watching\<close>

lemma send_all_split:
  "\<exists>k \<le> length es. fst (send_all sends es) = take k es \<and> (snd (send_all sends es) \<longleftrightarrow> k = length es) \<and>
     (\<forall>i < k. sends i) \<and> (k < length es \<longrightarrow> \<not> sends k)"
proof (induction es arbitrary: sends)
  case (Cons e es)
  show ?case
  proof (cases "sends 0")
    case True
    obtain k where k: "k \<le> length es" "fst (send_all (\<lambda>i. sends (Suc i)) es) = take k es"
      "snd (send_all (\<lambda>i. sends (Suc i)) es) \<longleftrightarrow> k = length es" "\<forall>i < k. sends (Suc i)" "k < length es \<longrightarrow> \<not> sends (Suc k)"
      using Cons.IH [of "\<lambda>i. sends (Suc i)"] by blast
    have "\<forall>i < Suc k. sends i" using k(4) True by (metis less_Suc_eq_0_disj)
    with k True show ?thesis by (intro exI [of _ "Suc k"]) (auto split: prod.splits)
  qed (auto intro!: exI [of _ 0])
qed simp

text \<open>
  C34. Task delivery. A pushed task is stored and appended to its node's queue and no other;
  a round of the watch loop takes the whole queue and sends it in order. If a send fails, the
  loop ends: what was sent is a prefix of the queue, and the rest is no longer pending, so a
  node that reconnects does not get it from the queue.
\<close>

theorem push_and_watch:
  assumes "serde_ok cd" and "db_ok cd (cv_store sv)" and "tk_id task \<le> ctr (cv_store sv) NEXT_TASK_ID"
    and "push_task cd flt task sv = (r, sv1)"
    and "watch_round sends n sv1 = (out, go, sv2)"
  shows "db_ok cd (cv_store sv1) \<and>
    (flt \<longrightarrow> r = Inl (WriteTask TxnFailed) \<and> cv_pending sv1 = cv_pending sv \<and> cv_store sv1 = cv_store sv) \<and>
    (\<not> flt \<longrightarrow> r = Inr () \<and> task_of cd (cv_store sv1) (tk_id task) = Some task \<and>
       cv_pending sv1 = (cv_pending sv)(tk_node_id task := cv_pending sv (tk_node_id task) @ [TaskPushed (to_proto_task task)])) \<and>
    (\<exists>lost. cv_pending sv1 n = out @ lost \<and> (go \<longleftrightarrow> lost = []) \<and> ((\<forall>i. sends i) \<longrightarrow> lost = [])) \<and>
    cv_pending sv2 = (cv_pending sv1)(n := []) \<and> cv_store sv2 = cv_store sv1"
proof -
  obtain r' st where ins: "insert_task cd flt task (cv_store sv) = (r', st)" by fastforce
  have ok: "db_ok cd st" by (rule insert_task_ok [OF assms(1,2,3) ins])
  have sv1: "cv_store sv1 = st" using assms(4) ins by (auto simp: push_task_def split: sum.splits)
  have t: "tbl_ok (db_tasks (cv_store sv))" using assms(2) by (simp add: db_ok_defs)
  have push: "(flt \<longrightarrow> r = Inl (WriteTask TxnFailed) \<and> cv_pending sv1 = cv_pending sv \<and> cv_store sv1 = cv_store sv) \<and>
    (\<not> flt \<longrightarrow> r = Inr () \<and> task_of cd (cv_store sv1) (tk_id task) = Some task \<and>
       cv_pending sv1 = (cv_pending sv)(tk_node_id task := cv_pending sv (tk_node_id task) @ [TaskPushed (to_proto_task task)]))"
    using assms(1,4) ins t
    by (auto simp: push_task_def insert_task_def Let_def task_of_def tbl_simps serde_ok_def split: if_splits)
  obtain k where k: "fst (send_all sends (cv_pending sv1 n)) = take k (cv_pending sv1 n)" "k \<le> length (cv_pending sv1 n)"
    "snd (send_all sends (cv_pending sv1 n)) \<longleftrightarrow> k = length (cv_pending sv1 n)"
    "k < length (cv_pending sv1 n) \<longrightarrow> \<not> sends k"
    using send_all_split [of "cv_pending sv1 n" sends] by blast
  have w: "out = take k (cv_pending sv1 n)" "go \<longleftrightarrow> k = length (cv_pending sv1 n)"
    "sv2 = sv1\<lparr>cv_pending := (cv_pending sv1)(n := [])\<rparr>"
    using assms(5) k by (auto simp: watch_round_def split: prod.splits)
  have "\<exists>lost. cv_pending sv1 n = out @ lost \<and> (go \<longleftrightarrow> lost = []) \<and> ((\<forall>i. sends i) \<longrightarrow> lost = [])"
    using k(2,4) w(1,2) by (intro exI [of _ "drop k (cv_pending sv1 n)"]) auto
  with ok push sv1 w(3) show ?thesis by simp
qed

definition demo_task :: task_record where
  "demo_task = \<lparr>tk_id = 0, tk_node_id = 3, tk_game_id = 5, tk_version = 1, tk_kind = ''UPDATE'',
     tk_assigned_chunks = [], tk_status = ''queued'', tk_error = []\<rparr>"

theorem push_and_watch_witness:
  "\<exists>sv1 sv2. push_task json_serde False demo_task demo_control = (Inr (), sv1) \<and>
     watch_round (\<lambda>i. True) 3 sv1 = ([TaskPushed (to_proto_task demo_task)], True, sv2)"
proof -
  obtain r sv1 where push: "push_task json_serde False demo_task demo_control = (r, sv1)" by fastforce
  obtain out go sv2 where watch: "watch_round (\<lambda>i. True) 3 sv1 = (out, go, sv2)" by (metis prod_cases3)
  have "tk_id demo_task \<le> ctr (cv_store demo_control) NEXT_TASK_ID" by (simp add: demo_task_def demo_control_ok)
  from push_and_watch [OF json_serde_ok demo_control_ok(1) this push watch]
  have "r = Inr ()" "cv_pending sv1 3 = out" "go"
    "cv_pending sv1 = (cv_pending demo_control)(3 := cv_pending demo_control 3 @ [TaskPushed (to_proto_task demo_task)])"
    by (auto simp: demo_task_def)
  with push watch show ?thesis by (simp add: demo_control_def with_events_def)
qed

section \<open>Peers\<close>

definition online_nodes :: "'j serde \<Rightarrow> 'j store \<Rightarrow> u64 list \<Rightarrow> node_record list" where
  "online_nodes cd st ids = filter (\<lambda>n. nd_status n = ''online'') (List.map_filter (node_of cd st) ids)"

lemma peers_of_eq:
  assumes ok: "db_ok cd st"
  shows "(\<And>i. \<not> flt i) \<Longrightarrow> peers_of cd flt st ids = Inr (map to_peer (online_nodes cd st ids))"
proof (induction ids arbitrary: flt)
  case (Cons i ids)
  from Cons.IH [of "\<lambda>k. flt (Suc k)"] Cons.prems get_node_eq [OF ok, of i] show ?case
    by (auto simp: online_nodes_def List.map_filter_simps split: option.splits)
qed (simp add: online_nodes_def List.map_filter_simps)

text \<open>
  C35. Peer queries. With no failing transaction the answer consists of the online nodes among
  the recorded holders of the chunk, in ledger order, a cafe marked direct-only, out of at most
  \<open>limit\<close> holders (all of them for the limit 0). The limit is applied to the holders before the
  offline ones are dropped: when the first holder is offline, a query for one peer answers with
  none although another holder is online.
\<close>

theorem query_peers_exact:
  assumes "db_ok cd (cv_store sv)" and "\<And>i. \<not> flt i" and "length (holders cd (cv_store sv) g h) < 2 ^ 64"
  shows "query_peers cd flt g h 0 sv = Inr (map to_peer (online_nodes cd (cv_store sv) (holders cd (cv_store sv) g h))) \<and>
    (limit \<noteq> 0 \<longrightarrow> query_peers cd flt g h limit sv =
       Inr (map to_peer (online_nodes cd (cv_store sv) (take (unat limit) (holders cd (cv_store sv) g h))))) \<and>
    (\<forall>a b rest x y. holders cd (cv_store sv) g h = a # b # rest \<and> node_of cd (cv_store sv) a = Some x \<and>
       node_of cd (cv_store sv) b = Some y \<and> nd_status x = ''offline'' \<and> nd_status y = ''online'' \<longrightarrow>
       query_peers cd flt g h 1 sv = Inr [] \<and> query_peers cd flt g h 2 sv = Inr [to_peer y])"
proof -
  have len: "length (holders cd (cv_store sv) g h) \<le> 2 ^ 64 - 1" using assms(3) by simp
  have q: "query_peers cd flt g h lim sv = Inr (map to_peer (online_nodes cd (cv_store sv)
      (take (if lim = 0 then 2 ^ 64 - 1 else unat lim) (holders cd (cv_store sv) g h))))" for lim
    using chunk_holders_eq [OF assms(1), of g h] assms(2) peers_of_eq [OF assms(1), of "\<lambda>k. flt (Suc k)"]
    by (simp add: query_peers_def Let_def)
  have "unat (2 :: u32) = 2" by simp
  then show ?thesis
    using q [of 0] q [of limit] q [of 1] q [of 2] len
    by (auto simp: online_nodes_def List.map_filter_simps numeral_2_eq_2)
qed

theorem query_peers_exact_witness:
  "query_peers json_serde (\<lambda>i. False) 5 [1] 0 demo_control = Inr []"
proof -
  have "holders json_serde (cv_store demo_control) 5 [1] = []"
    by (simp add: holders_def demo_control_def with_events_def ensure_tables_def)
  with query_peers_exact [OF demo_control_ok(1), of "\<lambda>i. False" 5 "[1]"] show ?thesis
    by (simp add: online_nodes_def List.map_filter_simps)
qed

section \<open>Versions\<close>

lemma game_of_insert:
  "serde_ok cd \<Longrightarrow> db_ok cd st \<Longrightarrow> insert_game cd False gm st = (r, st') \<Longrightarrow>
     game_of cd st' k = (if k = gm_id gm then Some gm else game_of cd st k) \<and>
     get_version cd False st' = get_version cd False st"
  by (auto simp: insert_game_def insert_json_def game_of_def tbl_simps serde_ok_def db_ok_defs get_version_def fun_eq_iff)

lemma game_of_id: "db_ok cd st \<Longrightarrow> game_of cd st i = Some n \<Longrightarrow> gm_id n = i"
  using decodes_get [of "db_games st" "dec_game cd" gm_id i]
  by (auto simp: game_of_def db_ok_defs split: option.splits)

text \<open>
  Publishing a version. The handler refuses zero identifiers and an empty manifest without
  effect. Otherwise, with no failing transaction, the manifest is what every later query of that
  game and version returns, other versions are untouched, and the latest version of a known
  game becomes the maximum of the old one and the published one.
\<close>

theorem publish_version_spec:
  assumes "serde_ok cd" and "db_ok cd (cv_store sv)" and "\<And>i. \<not> flt i"
    and "publish_version cd flt g v m sv = (r, sv')"
  shows "db_ok cd (cv_store sv') \<and>
    (g = 0 \<or> v = 0 \<longrightarrow> r = Inl VersionIdsZero \<and> sv' = sv) \<and>
    (g \<noteq> 0 \<and> v \<noteq> 0 \<and> m = [] \<longrightarrow> r = Inl EmptyManifest \<and> sv' = sv) \<and>
    (g \<noteq> 0 \<and> v \<noteq> 0 \<and> m \<noteq> [] \<longrightarrow> r = Inr True \<and>
      get_version_info cd False g v sv' = Inr \<lparr>vi_found = True, vi_version = v, vi_manifest = m\<rparr> \<and>
      (\<forall>g' v'. (g', v') \<noteq> (g, v) \<longrightarrow> get_version_info cd False g' v' sv' = get_version_info cd False g' v' sv) \<and>
      game_of cd (cv_store sv') = (case game_of cd (cv_store sv) g of None \<Rightarrow> game_of cd (cv_store sv)
        | Some gm \<Rightarrow> (game_of cd (cv_store sv))(g \<mapsto> gm\<lparr>gm_latest_version := max (gm_latest_version gm) v\<rparr>)))"
proof (cases "g = 0 \<or> v = 0 \<or> m = []")
  case True
  with assms show ?thesis by (auto simp: publish_version_def split: if_splits)
next
  case False
  let ?st = "cv_store sv"
  obtain r1 st1 where save: "save_version cd False g v m ?st = (r1, st1)" by fastforce
  have ok1: "db_ok cd st1" by (rule save_version_ok [OF assms(1,2) save])
  have view1: "r1 = Inr ()" "game_of cd st1 = game_of cd ?st"
    using save by (auto simp: save_version_def Let_def game_of_def fun_eq_iff)
  have t: "tbl_ok (db_versions ?st)" using assms(2) by (simp add: db_ok_defs)
  have ver1: "get_version cd False st1 g' v' = (if g' = g \<and> v' = v then Inr (Some m) else get_version cd False ?st g' v')" for g' v'
    using save t assms(1) by (auto simp: save_version_def Let_def get_version_def tbl_laws(1) db_decode_def serde_ok_def)
  define st2 where "st2 = (case game_of cd st1 g of
      Some game \<Rightarrow> if gm_latest_version game < v then snd (insert_game cd False (game\<lparr>gm_latest_version := v\<rparr>) st1) else st1
    | None \<Rightarrow> st1)"
  have run: "r = Inr True" "sv' = sv\<lparr>cv_store := st2\<rparr>"
    using assms(3,4) False save view1 get_game_eq [OF ok1, of g]
    by (auto simp: publish_version_def Let_def st2_def split: option.splits)
  have "db_ok cd st2 \<and> get_version cd False st2 = get_version cd False st1 \<and>
    game_of cd st2 = (case game_of cd ?st g of None \<Rightarrow> game_of cd ?st
        | Some gm \<Rightarrow> (game_of cd ?st)(g \<mapsto> gm\<lparr>gm_latest_version := max (gm_latest_version gm) v\<rparr>))"
  proof (cases "game_of cd st1 g")
    case None
    with ok1 view1 show ?thesis by (simp add: st2_def)
  next
    case (Some gm)
    let ?gm = "gm\<lparr>gm_latest_version := v\<rparr>"
    obtain r3 st3 where ins: "insert_game cd False ?gm st1 = (r3, st3)" by fastforce
    have id: "gm_id ?gm = g" using game_of_id [OF ok1 Some] by simp
    have upd: "(game_of cd st1)(g \<mapsto> gm) = game_of cd st1" using Some by (simp add: fun_upd_idem)
    show ?thesis
      using Some view1 ok1 ins id game_of_insert [OF assms(1) ok1 ins] insert_game_ok [OF assms(1) ok1 ins] upd
      by (auto simp: st2_def max_def fun_eq_iff not_less)
  qed
  with run False ver1 view1 show ?thesis by (auto simp: get_version_info_def)
qed

theorem publish_version_spec_witness:
  "\<exists>sv'. publish_version json_serde (\<lambda>i. False) 5 1 [9] demo_control = (Inr True, sv') \<and>
     get_version_info json_serde False 5 1 sv' = Inr \<lparr>vi_found = True, vi_version = 1, vi_manifest = [9]\<rparr>"
proof -
  obtain r sv' where run: "publish_version json_serde (\<lambda>i. False) 5 1 [9] demo_control = (r, sv')" by fastforce
  from publish_version_spec [OF json_serde_ok demo_control_ok(1) _ run] run show ?thesis by simp
qed

end
