(* ===== verification/Keepalive_Packet.thy ===== *)
theory Keepalive_Packet
  imports Prelude
begin

text \<open>
  The keepalive datagrams shared by the scheduler and the agents
  (\<^verbatim>\<open>crates/blaze-common/src/keepalive.rs\<close>): fixed-size ping and pong packets, written
  into a zeroed buffer slice by slice and parsed back by length and magic number.
\<close>

definition PING_MAGIC :: bytes where "PING_MAGIC = as_bytes ''BLZPNG''"
definition PONG_MAGIC :: bytes where "PONG_MAGIC = as_bytes ''BLZPONG''"
definition PING_LEN :: nat where "PING_LEN = 22"
definition PONG_LEN :: nat where "PONG_LEN = 11"

text \<open>\<open>packet[i..i + n].copy_from_slice(xs)\<close> with \<open>n = xs.len()\<close>; \<open>packet[i..j]\<close>.\<close>

definition copy_at :: "nat \<Rightarrow> bytes \<Rightarrow> bytes \<Rightarrow> bytes" where
  "copy_at i xs buf = take i buf @ xs @ drop (i + length xs) buf"

definition slice :: "nat \<Rightarrow> nat \<Rightarrow> bytes \<Rightarrow> bytes" where
  "slice i j buf = take (j - i) (drop i buf)"

definition build_ping :: "u32 \<Rightarrow> u64 \<Rightarrow> u32 \<Rightarrow> bytes" where
  "build_ping seq node_id addr_index =
     (let packet = replicate PING_LEN 0;
          packet = copy_at 0 PING_MAGIC packet;
          packet = copy_at 6 (le_of_u32 seq) packet;
          packet = copy_at 10 (le_of_u64 node_id) packet
      in copy_at 18 (le_of_u32 addr_index) packet)"

definition build_pong :: "u32 \<Rightarrow> bytes" where
  "build_pong seq =
     (let packet = replicate PONG_LEN 0;
          packet = copy_at 0 PONG_MAGIC packet
      in copy_at 7 (le_of_u32 seq) packet)"

definition parse_ping :: "bytes \<Rightarrow> (u32 \<times> u64 \<times> u32) option" where
  "parse_ping packet =
     (if length packet \<noteq> PING_LEN \<or> slice 0 6 packet \<noteq> PING_MAGIC then None
      else Some (u32_of_le (slice 6 10 packet), u64_of_le (slice 10 18 packet),
                 u32_of_le (slice 18 22 packet)))"

definition parse_pong :: "bytes \<Rightarrow> u32 option" where
  "parse_pong packet =
     (if length packet \<noteq> PONG_LEN \<or> slice 0 7 packet \<noteq> PONG_MAGIC then None
      else Some (u32_of_le (slice 7 11 packet)))"

lemma length_magics [simp]: "length PING_MAGIC = 6" "length PONG_MAGIC = 7"
  by (simp_all add: PING_MAGIC_def PONG_MAGIC_def)

lemma copy_at_pad:
  "length done_part = i \<Longrightarrow>
     copy_at i xs (done_part @ replicate n 0) = done_part @ xs @ replicate (n - length xs) 0"
  by (simp add: copy_at_def)

lemma build_ping_eq:
  "build_ping s n a = PING_MAGIC @ le_of_u32 s @ le_of_u64 n @ le_of_u32 a"
  using copy_at_pad [of "[]" 0 PING_MAGIC 22] copy_at_pad [of PING_MAGIC 6 "le_of_u32 s" 16]
    copy_at_pad [of "PING_MAGIC @ le_of_u32 s" 10 "le_of_u64 n" 12]
    copy_at_pad [of "PING_MAGIC @ le_of_u32 s @ le_of_u64 n" 18 "le_of_u32 a" 4]
  by (simp add: build_ping_def PING_LEN_def Let_def)

lemma build_pong_eq: "build_pong s = PONG_MAGIC @ le_of_u32 s"
  using copy_at_pad [of "[]" 0 PONG_MAGIC 11] copy_at_pad [of PONG_MAGIC 7 "le_of_u32 s" 4]
  by (simp add: build_pong_def PONG_LEN_def Let_def)

lemma slice_partition:
  "i \<le> j \<Longrightarrow> j \<le> k \<Longrightarrow> slice i j buf @ slice j k buf = slice i k buf"
  using take_add [of "j - i" "k - j" "drop i buf"] by (simp add: slice_def)

lemma slice_all: "length buf = n \<Longrightarrow> slice 0 n buf = buf"
  by (simp add: slice_def)

lemma length_slice: "j \<le> length buf \<Longrightarrow> length (slice i j buf) = j - i"
  by (simp add: slice_def)

text \<open>
  A received datagram parses as the ping \<open>(seq, node_id, addr_index)\<close> exactly when
  it is the packet the scheduler builds for these values: the parser inverts the builder
  and accepts no other byte string.
\<close>

theorem parse_ping_iff:
  "parse_ping p = Some (s, n, a) \<longleftrightarrow> p = build_ping s n a"
proof
  assume "parse_ping p = Some (s, n, a)"
  then have len: "length p = 22" and magic: "slice 0 6 p = PING_MAGIC"
    and s: "s = u32_of_le (slice 6 10 p)" and n: "n = u64_of_le (slice 10 18 p)"
    and a: "a = u32_of_le (slice 18 22 p)"
    by (auto simp: parse_ping_def PING_LEN_def split: if_splits)
  have "p = slice 0 6 p @ slice 6 10 p @ slice 10 18 p @ slice 18 22 p"
    using len by (simp add: slice_partition slice_all)
  then show "p = build_ping s n a"
    using len magic s n a by (simp add: build_ping_eq codec_simps length_slice)
next
  assume "p = build_ping s n a"
  then show "parse_ping p = Some (s, n, a)"
    by (simp add: parse_ping_def build_ping_eq slice_def PING_LEN_def)
qed

text \<open>
  The same for the pong packets, and a packet is never accepted as both: pings and
  pongs cannot be confused on the shared socket.
\<close>

theorem parse_pong_iff:
  "(parse_pong p = Some s \<longleftrightarrow> p = build_pong s) \<and> (parse_ping p = None \<or> parse_pong p = None)"
proof
  have "parse_pong p = Some s" if "p = build_pong s"
    using that by (simp add: parse_pong_def build_pong_eq slice_def PONG_LEN_def)
  moreover have "p = build_pong s" if "parse_pong p = Some s"
  proof -
    from that have len: "length p = 11" and magic: "slice 0 7 p = PONG_MAGIC"
      and s: "s = u32_of_le (slice 7 11 p)"
      by (auto simp: parse_pong_def PONG_LEN_def split: if_splits)
    have "p = slice 0 7 p @ slice 7 11 p"
      using len by (simp add: slice_partition slice_all)
    then show ?thesis
      using len magic s by (simp add: build_pong_eq codec_simps length_slice)
  qed
  ultimately show "parse_pong p = Some s \<longleftrightarrow> p = build_pong s" by blast
  show "parse_ping p = None \<or> parse_pong p = None"
    by (simp add: parse_ping_def parse_pong_def PING_LEN_def PONG_LEN_def)
qed

end
