(* ===== verification/Sched_Keepalive.thy ===== *)
theory Sched_Keepalive
  imports Sched_Control Keepalive_Packet
begin

text \<open>
  Keepalive probing (\<^verbatim>\<open>crates/scheduler/src/keepalive.rs\<close>, and the answering side
  \<^verbatim>\<open>crates/agent/src/keepalive.rs\<close>): the availability bookkeeping of addresses, and one tick of
  the service loop, which marks nodes with old heartbeats offline, collects the keepalive
  addresses of all nodes, pings those whose slot is due, reads pongs, expires unanswered pings and
  writes the nodes' status.

  Addresses are a type \<open>'a\<close>; \<open>ke_parse\<close> is the parser of socket addresses, \<open>ke_hash\<close> the default
  hasher, \<open>ke_order\<close> and \<open>ke_order_seq\<close> the iteration orders of the hash maps. The
  loop is the iteration of \<open>tick\<close>; what the outside world decides in one tick (clock readings,
  received datagrams, failing transactions) is the record \<open>tick_in\<close>.
\<close>

section \<open>Availability of addresses\<close>

record addr_state =
  as_failures :: u32
  as_available :: bool

definition addr_state_default :: addr_state where
  "addr_state_default = \<lparr>as_failures = 0, as_available = True\<rparr>"

type_synonym 'a keepalive = "('a, addr_state) table"

definition entry_or_default :: "'a \<Rightarrow> 'a keepalive \<Rightarrow> addr_state" where
  "entry_or_default addr k = (case tbl_get k addr of None \<Rightarrow> addr_state_default | Some s \<Rightarrow> s)"

definition ka_register :: "'a::linorder \<Rightarrow> 'a keepalive \<Rightarrow> 'a keepalive" where
  "ka_register addr k = tbl_insert addr (entry_or_default addr k) k"

definition addr_slot :: "('a \<Rightarrow> u64) \<Rightarrow> 'a \<Rightarrow> u64 \<Rightarrow> u64" where
  "addr_slot hash addr interval_secs = hash addr mod interval_secs"

text \<open>The remainder by an interval of zero panics: no result.\<close>

definition probe_due :: "('a \<Rightarrow> u64) \<Rightarrow> ('a list \<Rightarrow> 'a list) \<Rightarrow> u64 \<Rightarrow> u64 \<Rightarrow> 'a keepalive \<Rightarrow> 'a list option" where
  "probe_due hash order now_secs interval_secs k =
     (if interval_secs = 0 then None
      else
        let slot = now_secs mod interval_secs
        in Some (filter (\<lambda>addr. addr_slot hash addr interval_secs = slot) (order (map fst k))))"

definition ka_record :: "u32 \<Rightarrow> 'a::linorder \<Rightarrow> bool \<Rightarrow> 'a keepalive \<Rightarrow> 'a keepalive" where
  "ka_record fail_threshold addr ok k =
     (let state = entry_or_default addr k in
      if ok then tbl_insert addr (state\<lparr>as_failures := 0, as_available := True\<rparr>) k
      else
        let f = as_failures state + 1
        in tbl_insert addr (state\<lparr>as_failures := f,
             as_available := (if fail_threshold \<le> f then False else as_available state)\<rparr>) k)"

definition unavailable :: "('a list \<Rightarrow> 'a list) \<Rightarrow> 'a keepalive \<Rightarrow> 'a list" where
  "unavailable order k = filter (\<lambda>addr. \<not> as_available (entry_or_default addr k)) (order (map fst k))"

section \<open>One tick of the service loop\<close>

record 'a ka_env =
  ke_parse :: "string \<Rightarrow> 'a option"
  ke_hash :: "'a \<Rightarrow> u64"
  ke_order :: "'a list \<Rightarrow> 'a list"
  ke_order_seq :: "u32 list \<Rightarrow> u32 list"

record 'a ka_run =
  kr_keep :: "'a keepalive"
  kr_seq :: u32
  kr_outstanding :: "(u32, 'a \<times> nat) table"
  kr_meta :: "('a, u64 \<times> u32) table"

text \<open>
  Clock readings are nanoseconds of a monotonic clock: \<open>ti_sent s\<close> when ping \<open>s\<close> was recorded,
  \<open>ti_check s\<close> when its age is tested. \<open>ti_recvd\<close> are the datagrams of this tick as they lie in
  the receive buffer. \<open>ti_flt p i\<close> tells whether transaction \<open>i\<close> of phase \<open>p\<close> fails.
\<close>

record tick_in =
  ti_now_secs :: u64
  ti_now_ms :: u64
  ti_sent :: "u32 \<Rightarrow> nat"
  ti_check :: "u32 \<Rightarrow> nat"
  ti_recvd :: "bytes list"
  ti_flt :: "nat \<Rightarrow> nat \<Rightarrow> bool"

definition set_status :: "'j serde \<Rightarrow> bool \<Rightarrow> bool \<Rightarrow> string \<Rightarrow> u64 \<Rightarrow> 'j store \<Rightarrow> 'j store" where
  "set_status cd f1 f2 want i st =
     (case get_node cd f1 st i of
        Inr (Some node) \<Rightarrow>
          if nd_status node \<noteq> want then snd (insert_node cd f2 (node\<lparr>nd_status := want\<rparr>) st) else st
      | _ \<Rightarrow> st)"

fun set_all :: "'j serde \<Rightarrow> (nat \<Rightarrow> bool) \<Rightarrow> (string \<times> u64) list \<Rightarrow> 'j store \<Rightarrow> 'j store" where
  "set_all cd flt [] st = st"
| "set_all cd flt ((want, i) # xs) st = set_all cd (\<lambda>k. flt (k + 2)) xs (set_status cd (flt 0) (flt 1) want i st)"

definition mark_offline :: "'j serde \<Rightarrow> (nat \<Rightarrow> bool) \<Rightarrow> u64 \<Rightarrow> u64 \<Rightarrow> 'j store \<Rightarrow> 'j store" where
  "mark_offline cd flt now_ms timeout_ms st =
     (let offline = (case offline_nodes cd (flt 0) st now_ms timeout_ms of Inl _ \<Rightarrow> [] | Inr ids \<Rightarrow> ids)
      in set_all cd (\<lambda>k. flt (Suc k)) (map (Pair ''offline'') offline) st)"

definition node_addrs :: "(string \<Rightarrow> 'a option) \<Rightarrow> node_record \<Rightarrow> ('a \<times> u64 \<times> u32) list" where
  "node_addrs parse node = List.map_filter
     (\<lambda>(index, addr). if ad_kind addr = ''keepalive''
        then map_option (\<lambda>parsed. (parsed, nd_id node, word_of_nat index)) (parse (ad_addr addr)) else None)
     (List.enumerate 0 (nd_addrs node))"

definition sync_addrs :: "'j serde \<Rightarrow> ('a::linorder) ka_env \<Rightarrow> bool \<Rightarrow> 'j store \<Rightarrow> 'a ka_run \<Rightarrow> 'a ka_run" where
  "sync_addrs cd env flt st kr =
     (let nodes = (case list_nodes cd flt st of Inl _ \<Rightarrow> [] | Inr ns \<Rightarrow> ns);
          found = concat (map (node_addrs (ke_parse env)) nodes)
      in kr\<lparr>kr_meta := fold (\<lambda>(a, m). tbl_insert a m) found [],
            kr_keep := fold (\<lambda>(a, _). ka_register a) found (kr_keep kr)\<rparr>)"

text \<open>A ping is a packet and its destination; a failure to send it is ignored.\<close>

fun send_pings ::
    "('a::linorder \<Rightarrow> u64) \<Rightarrow> u64 \<Rightarrow> tick_in \<Rightarrow> 'a list \<Rightarrow> 'a ka_run \<Rightarrow> ('a \<times> bytes) list \<times> 'a ka_run" where
  "send_pings hash interval ti [] kr = ([], kr)"
| "send_pings hash interval ti (addr # addrs) kr =
     (case tbl_get (kr_meta kr) addr of
        None \<Rightarrow> send_pings hash interval ti addrs kr
      | Some (node_id, addr_index) \<Rightarrow>
          if addr_slot hash addr interval = ti_now_secs ti mod interval
          then
            let seq = kr_seq kr + 1;
                ping = build_ping seq node_id addr_index;
                kr1 = kr\<lparr>kr_seq := seq, kr_outstanding := tbl_insert seq (addr, ti_sent ti seq) (kr_outstanding kr)\<rparr>
            in (case send_pings hash interval ti addrs kr1 of (ps, kr2) \<Rightarrow> ((addr, ping) # ps, kr2))
          else send_pings hash interval ti addrs kr)"

fun recv_pongs :: "u32 \<Rightarrow> bytes list \<Rightarrow> ('a::linorder) ka_run \<Rightarrow> 'a ka_run" where
  "recv_pongs thr [] kr = kr"
| "recv_pongs thr (d # ds) kr =
     (case parse_pong d of
        None \<Rightarrow> recv_pongs thr ds kr
      | Some s \<Rightarrow>
          (case tbl_get (kr_outstanding kr) s of
             None \<Rightarrow> recv_pongs thr ds kr
           | Some (addr, _) \<Rightarrow>
               recv_pongs thr ds (kr\<lparr>kr_outstanding := tbl_remove s (kr_outstanding kr),
                 kr_keep := ka_record thr addr True (kr_keep kr)\<rparr>)))"

definition expired :: "('a::linorder) ka_env \<Rightarrow> u64 \<Rightarrow> tick_in \<Rightarrow> 'a ka_run \<Rightarrow> (u32 \<times> 'a) list" where
  "expired env interval ti kr = List.map_filter
     (\<lambda>s. case tbl_get (kr_outstanding kr) s of
        None \<Rightarrow> None
      | Some (addr, sent) \<Rightarrow> if unat interval * 10 ^ 9 \<le> ti_check ti s - sent then Some (s, addr) else None)
     (ke_order_seq env (map fst (kr_outstanding kr)))"

definition expire_pings :: "('a::linorder) ka_env \<Rightarrow> u64 \<Rightarrow> u32 \<Rightarrow> tick_in \<Rightarrow> 'a ka_run \<Rightarrow> 'a ka_run" where
  "expire_pings env interval thr ti kr =
     fold (\<lambda>(s, addr) kr. kr\<lparr>kr_outstanding := tbl_remove s (kr_outstanding kr),
             kr_keep := ka_record thr addr False (kr_keep kr)\<rparr>)
       (expired env interval ti kr) kr"

definition want_status :: "('a::linorder) ka_run \<Rightarrow> 'a \<Rightarrow> string" where
  "want_status kr addr = (if as_available (entry_or_default addr (kr_keep kr)) then ''online'' else ''offline'')"

definition sync_status :: "'j serde \<Rightarrow> ('a::linorder) ka_env \<Rightarrow> (nat \<Rightarrow> bool) \<Rightarrow> 'a ka_run \<Rightarrow> 'j store \<Rightarrow> 'j store" where
  "sync_status cd env flt kr st =
     set_all cd flt (List.map_filter
       (\<lambda>addr. map_option (\<lambda>(node_id, _). (want_status kr addr, node_id)) (tbl_get (kr_meta kr) addr))
       (ke_order env (map fst (kr_meta kr)))) st"

definition tick ::
    "'j serde \<Rightarrow> ('a::linorder) ka_env \<Rightarrow> u64 \<Rightarrow> u32 \<Rightarrow> u64 \<Rightarrow> tick_in \<Rightarrow> 'a ka_run \<times> 'j store \<Rightarrow>
     (('a \<times> bytes) list \<times> 'a ka_run \<times> 'j store) option" where
  "tick cd env interval thr timeout_ms ti s =
     (case s of (kr, st) \<Rightarrow>
        let st1 = mark_offline cd (ti_flt ti 0) (ti_now_ms ti) timeout_ms st;
            kr1 = sync_addrs cd env (ti_flt ti 1 0) st1 kr
        in if interval = 0 \<and> kr_meta kr1 \<noteq> [] then None
           else
             (case send_pings (ke_hash env) interval ti (ke_order env (map fst (kr_meta kr1))) kr1 of
                (pings, kr2) \<Rightarrow>
                  let kr3 = recv_pongs thr (ti_recvd ti) kr2;
                      kr4 = expire_pings env interval thr ti kr3;
                      st2 = sync_status cd env (ti_flt ti 2) kr4 st1
                  in Some (pings, kr4, st2)))"

text \<open>\<open>Keepalive::new\<close> and the loop's other variables.\<close>

definition ka_start :: "'a ka_run" where
  "ka_start = \<lparr>kr_keep = [], kr_seq = 0, kr_outstanding = [], kr_meta = []\<rparr>"

text \<open>The answering side: a datagram is answered to its sender iff it is a ping.\<close>

definition serve_pong :: "bytes \<Rightarrow> bytes option" where
  "serve_pong buf = (case parse_ping buf of None \<Rightarrow> None | Some (seq, _, _) \<Rightarrow> Some (build_pong seq))"

section \<open>Counting failures\<close>

definition recent_failures :: "bool list \<Rightarrow> nat" where
  "recent_failures oks = length (takeWhile Not (rev oks))"

lemma recent_failures_snoc [simp]:
  "recent_failures [] = 0"
  "recent_failures (oks @ [ok]) = (if ok then 0 else Suc (recent_failures oks))"
  by (simp_all add: recent_failures_def)

lemma recent_failures_le: "recent_failures oks \<le> length oks"
  unfolding recent_failures_def by (metis length_rev length_takeWhile_le)

definition results_of :: "'a \<Rightarrow> ('a \<times> bool) list \<Rightarrow> bool list" where
  "results_of a es = map snd (filter (\<lambda>e. fst e = a) es)"

lemma ka_record_ok: "tbl_ok k \<Longrightarrow> tbl_ok (ka_record thr a ok k)"
  by (simp add: ka_record_def Let_def tbl_ok_insert)

lemma ka_record_entry:
  "tbl_ok k \<Longrightarrow> entry_or_default b (ka_record thr a ok k) =
     (if b \<noteq> a then entry_or_default b k
      else if ok then \<lparr>as_failures = 0, as_available = True\<rparr>
      else \<lparr>as_failures = as_failures (entry_or_default a k) + 1,
            as_available = (as_failures (entry_or_default a k) + 1 < thr \<and> as_available (entry_or_default a k))\<rparr>)"
proof -
  have get: "tbl_ok k \<Longrightarrow> entry_or_default c (tbl_insert a s k) = (if c \<noteq> a then entry_or_default c k else s)" for s c
    by (simp add: entry_or_default_def tbl_simps)
  assume "tbl_ok k"
  then show ?thesis
    by (cases "entry_or_default a k") (auto simp: ka_record_def Let_def get not_le)
qed

text \<open>
  Availability. Start from no recorded addresses and record any sequence of probe results,
  interleaved over addresses, with fewer than \<open>2\<^sup>3\<^sup>2\<close> results. The failure counter of an address
  is the number of failures after its last success, and the address is available iff that number
  is below the threshold, so one success restores it and the other addresses never matter.
\<close>

theorem record_history:
  assumes "thr \<noteq> 0" and "length es < 2 ^ 32"
  shows "entry_or_default a (fold (\<lambda>(b, ok). ka_record thr b ok) es []) =
    \<lparr>as_failures = word_of_nat (recent_failures (results_of a es)),
     as_available = (recent_failures (results_of a es) < unat thr)\<rparr>"
proof -
  have "tbl_ok (fold (\<lambda>(b, ok). ka_record thr b ok) es []) \<and>
    entry_or_default a (fold (\<lambda>(b, ok). ka_record thr b ok) es []) =
    \<lparr>as_failures = word_of_nat (recent_failures (results_of a es)),
     as_available = (recent_failures (results_of a es) < unat thr)\<rparr>"
    using assms(2)
  proof (induction es rule: rev_induct)
    case Nil
    have "0 < unat thr" using assms(1) by (simp add: unat_gt_0)
    then show ?case by (simp add: tbl_ok_simps entry_or_default_def addr_state_default_def results_of_def)
  next
    case (snoc e es)
    obtain b ok where e: "e = (b, ok)" by fastforce
    let ?k = "fold (\<lambda>(b, ok). ka_record thr b ok) es []"
    let ?n = "recent_failures (results_of a es)"
    have "?n \<le> length es"
      using recent_failures_le [of "results_of a es"] length_filter_le [of "\<lambda>e. fst e = a" es]
      unfolding results_of_def length_map by linarith
    with snoc.prems have n: "Suc ?n < 2 ^ 32" by simp
    from snoc have IH: "tbl_ok ?k" "entry_or_default a ?k = \<lparr>as_failures = word_of_nat ?n, as_available = (?n < unat thr)\<rparr>" by simp_all
    have "unat (word_of_nat ?n + 1 :: u32) = Suc ?n"
      using n by (simp add: unat_word_ariths unat_of_nat)
    moreover have "0 < unat thr" using assms(1) by (simp add: unat_gt_0)
    ultimately show ?case
      using IH ka_record_ok [OF IH(1), of thr b ok] ka_record_entry [OF IH(1), of a thr b ok]
      by (auto simp: e results_of_def word_less_nat_alt)
  qed
  then show ?thesis by blast
qed

theorem record_history_witness:
  "entry_or_default (7 :: nat) (fold (\<lambda>(b, ok). ka_record 3 b ok)
     [(7, False), (7, False), (8, True), (7, False)] []) = \<lparr>as_failures = 3, as_available = False\<rparr>"
  using record_history [of 3 "[(7, False), (7, False), (8, True), (7, False)]" "7 :: nat"]
  by (simp add: results_of_def recent_failures_def)

section \<open>Probing windows\<close>

lemma unique_slot:
  assumes "0 < n" "r < n"
  shows "\<exists>!d. d < n \<and> (t + d) mod n = (r :: nat)"
proof -
  let ?d = "(r + n - t mod n) mod n"
  have "(t + ?d) mod n = (t mod n + (r + n - t mod n)) mod n" by (simp add: mod_add_eq mod_add_right_eq mod_add_left_eq)
  also have "t mod n + (r + n - t mod n) = r + n" using mod_less_divisor [OF assms(1), of t] by linarith
  also have "(r + n) mod n = r" using assms by simp
  finally have ex: "?d < n \<and> (t + ?d) mod n = r" using assms by simp
  moreover have "d = e" if "d < n" "e < n" "(t + d) mod n = (t + e) mod n" for d e
  proof -
    have "x = y" if "x \<le> y" "y < n" "(t + x) mod n = (t + y) mod n" for x y
    proof -
      have "n dvd (t + y) - (t + x)" using that by (metis add_le_cancel_left mod_eq_dvd_iff_nat)
      then have "y - x = 0" using that by (metis add_diff_cancel_left dvd_imp_le leD less_imp_diff_less not_gr_zero)
      with that show ?thesis by simp
    qed
    with that show ?thesis by (metis nat_le_linear)
  qed
  ultimately show ?thesis by (intro ex1I [of _ ?d]) auto
qed

text \<open>
  Even probing. For a non-zero interval, every recorded address is due in exactly one
  second of every window of that many consecutive seconds.
\<close>

theorem probe_once_per_window:
  assumes "interval \<noteq> 0" and "unat t + unat interval \<le> 2 ^ 64" and "lists_sets order" and "distinct (map fst k)"
    and "addr \<in> fst ` set k"
  shows "\<exists>!d. d < unat interval \<and> (\<exists>due. probe_due hash order (t + word_of_nat d) interval k = Some due \<and> addr \<in> set due)"
proof -
  have mem: "addr \<in> set (order (map fst k))" using assms(3-5) by (simp add: lists_sets_def)
  have slot: "(\<exists>due. probe_due hash order (t + word_of_nat d) interval k = Some due \<and> addr \<in> set due) \<longleftrightarrow>
      (unat t + d) mod unat interval = unat (hash addr mod interval)" if "d < unat interval" for d
  proof -
    have "unat (t + word_of_nat d) = unat t + d"
      using that assms(2) by (simp add: unat_word_ariths unat_of_nat)
    then have "hash addr mod interval = (t + word_of_nat d) mod interval \<longleftrightarrow> (unat t + d) mod unat interval = unat (hash addr mod interval)"
      by (simp add: word_unat_eq_iff unat_mod eq_commute)
    with assms(1) mem show ?thesis by (simp add: probe_due_def addr_slot_def)
  qed
  have "0 < unat interval" using assms(1) by (simp add: unat_gt_0)
  moreover have "unat (hash addr mod interval) < unat interval" using assms(1) by (simp add: unat_mod unat_gt_0)
  ultimately have "\<exists>!d. d < unat interval \<and> (unat t + d) mod unat interval = unat (hash addr mod interval)"
    by (rule unique_slot)
  with slot show ?thesis by (simp cong: conj_cong)
qed

theorem probe_once_per_window_witness:
  "\<exists>!d. d < unat (25 :: u64) \<and> (\<exists>due. probe_due (\<lambda>a. 77) (\<lambda>xs. xs) (1000 + word_of_nat d) 25 [(4 :: nat, addr_state_default)] = Some due \<and> 4 \<in> set due)"
  by (rule probe_once_per_window) (simp_all add: lists_sets_def)

section \<open>Probes and their answers\<close>

text \<open>Without a pong, the sequence numbers of one tick are consecutive from the first.\<close>

lemma send_pings_meta: "kr_meta (snd (send_pings hash interval ti addrs kr)) = kr_meta kr"
  by (induction hash interval ti addrs kr rule: send_pings.induct)
    (auto simp: Let_def split: option.splits prod.splits)

lemma send_pings_keep: "kr_keep (snd (send_pings hash interval ti addrs kr)) = kr_keep kr"
  by (induction hash interval ti addrs kr rule: send_pings.induct)
    (auto simp: Let_def split: option.splits prod.splits)

lemma send_pings_outstanding:
  assumes "tbl_ok (kr_outstanding kr)" "length addrs < 2 ^ 32" "send_pings hash interval ti addrs kr = (ps, kr')"
  shows "tbl_ok (kr_outstanding kr') \<and> length ps \<le> length addrs \<and>
    (\<forall>j < length ps. \<exists>n i. snd (ps ! j) = build_ping (kr_seq kr + word_of_nat (Suc j)) n i \<and>
       tbl_get (kr_meta kr) (fst (ps ! j)) = Some (n, i) \<and>
       tbl_get (kr_outstanding kr') (kr_seq kr + word_of_nat (Suc j)) =
         Some (fst (ps ! j), ti_sent ti (kr_seq kr + word_of_nat (Suc j)))) \<and>
    (\<forall>s. (\<forall>j < length ps. s \<noteq> kr_seq kr + word_of_nat (Suc j)) \<longrightarrow> tbl_get (kr_outstanding kr') s = tbl_get (kr_outstanding kr) s)"
  using assms
proof (induction addrs arbitrary: kr ps)
  case (Cons addr addrs)
  show ?case
  proof (cases "\<exists>n i. tbl_get (kr_meta kr) addr = Some (n, i) \<and> addr_slot hash addr interval = ti_now_secs ti mod interval")
    case False
    then have "send_pings hash interval ti addrs kr = (ps, kr')" using Cons.prems(3) by (auto split: option.splits)
    with Cons.IH [of kr ps] Cons.prems(1,2) show ?thesis by auto
  next
    case True
    then obtain n i where ni: "tbl_get (kr_meta kr) addr = Some (n, i)" "addr_slot hash addr interval = ti_now_secs ti mod interval" by blast
    let ?s = "kr_seq kr + 1"
    let ?kr = "kr\<lparr>kr_seq := ?s, kr_outstanding := tbl_insert ?s (addr, ti_sent ti ?s) (kr_outstanding kr)\<rparr>"
    obtain qs where rec: "send_pings hash interval ti addrs ?kr = (qs, kr')" "ps = (addr, build_ping ?s n i) # qs"
      using Cons.prems(3) ni by (auto simp: Let_def split: prod.splits)
    have IH: "tbl_ok (kr_outstanding kr') \<and> length qs \<le> length addrs \<and>
      (\<forall>j < length qs. \<exists>n i. snd (qs ! j) = build_ping (?s + word_of_nat (Suc j)) n i \<and>
         tbl_get (kr_meta kr) (fst (qs ! j)) = Some (n, i) \<and>
         tbl_get (kr_outstanding kr') (?s + word_of_nat (Suc j)) = Some (fst (qs ! j), ti_sent ti (?s + word_of_nat (Suc j)))) \<and>
      (\<forall>s. (\<forall>j < length qs. s \<noteq> ?s + word_of_nat (Suc j)) \<longrightarrow> tbl_get (kr_outstanding kr') s = tbl_get (kr_outstanding ?kr) s)"
      using Cons.IH [of ?kr qs] Cons.prems(1,2) rec(1) by (simp add: tbl_ok_insert)
    have ne: "?s + word_of_nat (Suc j) \<noteq> ?s" if "j < length qs" for j
    proof -
      have "unat (word_of_nat (Suc j) :: u32) = Suc j"
        using that IH Cons.prems(2) by (simp add: unat_of_nat del: of_nat_Suc)
      then have "(word_of_nat (Suc j) :: u32) \<noteq> 0" by (metis Zero_not_Suc unat_0)
      then show ?thesis by (metis add_cancel_right_right)
    qed
    have shift: "kr_seq kr + word_of_nat (Suc (Suc j)) = ?s + word_of_nat (Suc j)" for j by simp
    have first: "tbl_get (kr_outstanding kr') ?s = Some (addr, ti_sent ti ?s)"
      using IH ne Cons.prems(1) by (simp add: tbl_simps)
    have each: "\<exists>n i. snd (ps ! j) = build_ping (kr_seq kr + word_of_nat (Suc j)) n i \<and>
       tbl_get (kr_meta kr) (fst (ps ! j)) = Some (n, i) \<and>
       tbl_get (kr_outstanding kr') (kr_seq kr + word_of_nat (Suc j)) =
         Some (fst (ps ! j), ti_sent ti (kr_seq kr + word_of_nat (Suc j)))" if "j < length ps" for j
    proof (cases j)
      case 0
      with first ni rec(2) show ?thesis by (intro exI [of _ n] exI [of _ i]) simp
    next
      case (Suc m)
      with that rec(2) have m: "m < length qs" and e: "ps ! Suc m = qs ! m" by simp_all
      from IH m show ?thesis unfolding Suc shift e by blast
    qed
    have rest: "tbl_get (kr_outstanding kr') s = tbl_get (kr_outstanding kr) s"
      if "\<forall>j < length ps. s \<noteq> kr_seq kr + word_of_nat (Suc j)" for s
    proof -
      have "s \<noteq> ?s" using that rec(2) by (metis length_greater_0_conv list.distinct(1) of_nat_1 One_nat_def)
      moreover have "\<forall>j < length qs. s \<noteq> ?s + word_of_nat (Suc j)"
        using that rec(2) shift by (metis Suc_less_eq length_Cons)
      ultimately show ?thesis using IH Cons.prems(1) by (simp add: tbl_simps)
    qed
    from IH each rest rec(2) show ?thesis by simp
  qed
qed simp

text \<open>The parser inverts the builder, as used by both sides.\<close>

lemma parse_built: "parse_ping (build_ping s n i) = Some (s, n, i)" "parse_pong (build_pong s) = Some s"
  by (simp_all add: parse_ping_def parse_pong_def build_ping_eq build_pong_eq slice_def PING_LEN_def PONG_LEN_def)

text \<open>
  Probe and answer. Every ping of a round, handed to the agent's answering side, is answered
  by a pong that matches the outstanding probe of exactly that address: receiving it makes the
  address available again, whatever its failures, and changes no other address. (Fewer than
  \<open>2\<^sup>3\<^sup>2\<close> addresses: sequence numbers wrap.)
\<close>

theorem probe_answered:
  assumes "tbl_ok (kr_outstanding kr)" and "tbl_ok (kr_keep kr)" and "length addrs < 2 ^ 32"
    and "send_pings hash interval ti addrs kr = (pings, kr')" and "(addr, ping) \<in> set pings"
  shows "\<exists>pong. serve_pong ping = Some pong \<and>
    entry_or_default addr (kr_keep (recv_pongs thr [pong] kr')) = addr_state_default \<and>
    (\<forall>b. b \<noteq> addr \<longrightarrow> entry_or_default b (kr_keep (recv_pongs thr [pong] kr')) = entry_or_default b (kr_keep kr))"
proof -
  from assms(5) obtain j where j: "j < length pings" "pings ! j = (addr, ping)" by (meson in_set_conv_nth)
  let ?s = "kr_seq kr + word_of_nat (Suc j)"
  have "\<exists>n i. snd (pings ! j) = build_ping ?s n i \<and> tbl_get (kr_meta kr) (fst (pings ! j)) = Some (n, i) \<and>
      tbl_get (kr_outstanding kr') ?s = Some (fst (pings ! j), ti_sent ti ?s)"
    using send_pings_outstanding [OF assms(1,3,4)] j(1) by blast
  then obtain n i where ping: "ping = build_ping ?s n i" and out: "tbl_get (kr_outstanding kr') ?s = Some (addr, ti_sent ti ?s)"
    using j(2) by auto
  have keep: "kr_keep kr' = kr_keep kr" using send_pings_keep [of hash interval ti addrs kr] assms(4) by simp
  show ?thesis
    using ping out keep ka_record_entry [OF assms(2), of _ thr addr True]
    by (intro exI [of _ "build_pong ?s"]) (simp add: serve_pong_def parse_built addr_state_default_def del: of_nat_Suc)
qed

theorem probe_answered_witness:
  "\<exists>kr' pong. send_pings (\<lambda>a. 0) 1 \<lparr>ti_now_secs = 0, ti_now_ms = 0, ti_sent = (\<lambda>s. 0), ti_check = (\<lambda>s. 0), ti_recvd = [], ti_flt = (\<lambda>p i. False)\<rparr>
       [4 :: nat] (ka_start\<lparr>kr_meta := [(4, 1, 0)]\<rparr>) = ([(4, build_ping 1 1 0)], kr') \<and>
     serve_pong (build_ping 1 1 0) = Some pong \<and> entry_or_default 4 (kr_keep (recv_pongs 3 [pong] kr')) = addr_state_default"
proof -
  let ?ti = "\<lparr>ti_now_secs = 0, ti_now_ms = 0, ti_sent = (\<lambda>s. 0), ti_check = (\<lambda>s. 0), ti_recvd = [], ti_flt = (\<lambda>p i. False)\<rparr>"
  let ?kr = "ka_start\<lparr>kr_meta := [(4 :: nat, 1, 0)]\<rparr>"
  obtain kr' where run: "send_pings (\<lambda>a. 0) 1 ?ti [4] ?kr = ([(4, build_ping 1 1 0)], kr')"
    by (simp add: tbl_get_def ka_start_def addr_slot_def Let_def)
  have ok: "tbl_ok (kr_outstanding ?kr)" "tbl_ok (kr_keep ?kr)" by (simp_all add: ka_start_def tbl_ok_simps)
  show ?thesis using probe_answered [OF ok _ run, of 4 "build_ping 1 1 0" 3] run by auto
qed

section \<open>The status a tick writes\<close>

lemma set_status_view:
  assumes "serde_ok cd" "db_ok cd st"
  shows "db_ok cd (set_status cd False False want i st) \<and>
    node_of cd (set_status cd False False want i st) n =
      map_option (\<lambda>nd. if n = i then nd\<lparr>nd_status := want\<rparr> else nd) (node_of cd st n)"
proof (cases "node_of cd st i")
  case None
  with get_node_eq [OF assms(2), of i] assms show ?thesis
    by (cases "node_of cd st n") (auto simp: set_status_def)
next
  case (Some nd)
  let ?nd = "nd\<lparr>nd_status := want\<rparr>"
  obtain r st' where ins: "insert_node cd False ?nd st = (r, st')" by fastforce
  have i: "nd_id ?nd = i" "i \<le> ctr st NEXT_NODE_ID" using node_of_id [OF assms(2) Some] node_of_le [OF assms(2) Some] by simp_all
  have set: "set_status cd False False want i st = (if nd_status nd \<noteq> want then st' else st)"
    using get_node_eq [OF assms(2), of i] Some ins by (simp add: set_status_def)
  have view: "node_of cd st' n = (if n = i then Some ?nd else node_of cd st n)"
    using insert_node_view [OF assms ins, of n] i(1) by simp
  have "db_ok cd st'" using insert_node_ok [OF assms _ ins] i by simp
  moreover have "nd_status nd = want \<Longrightarrow> ?nd = nd" by simp
  ultimately show ?thesis
    using set view Some assms(2) by (cases "node_of cd st n") auto
qed

definition final_want :: "(string \<times> u64) list \<Rightarrow> u64 \<Rightarrow> string option" where
  "final_want xs n = map_of (rev (map prod.swap xs)) n"

lemma final_want_Cons:
  "final_want ((w, i) # xs) n = (case final_want xs n of None \<Rightarrow> if n = i then Some w else None | Some w' \<Rightarrow> Some w')"
  by (simp add: final_want_def map_add_def split: option.splits)

lemma final_want_mem: "final_want xs n = Some w \<Longrightarrow> (w, n) \<in> set xs"
  unfolding final_want_def by (force dest: map_of_SomeD)

lemma final_want_None: "final_want xs n = None \<longleftrightarrow> n \<notin> snd ` set xs"
  by (auto simp: final_want_def map_of_eq_None_iff image_image)

lemma set_all_view:
  assumes "serde_ok cd" "db_ok cd st" "\<And>i. \<not> flt i"
  shows "db_ok cd (set_all cd flt xs st) \<and>
    node_of cd (set_all cd flt xs st) n =
      map_option (\<lambda>nd. case final_want xs n of None \<Rightarrow> nd | Some w \<Rightarrow> nd\<lparr>nd_status := w\<rparr>) (node_of cd st n)"
  using assms(2,3)
proof (induction xs arbitrary: flt st)
  case Nil
  then show ?case by (simp add: final_want_def option.map_ident)
next
  case (Cons x xs)
  obtain w i where x: "x = (w, i)" by fastforce
  note one = set_status_view [OF assms(1) Cons.prems(1), of w i]
  have "db_ok cd (set_status cd False False w i st)" using one by blast
  from Cons.IH [OF this, of "\<lambda>k. flt (k + 2)"] Cons.prems(2) one [of n] show ?case
    by (cases "node_of cd st n") (auto simp: x final_want_Cons split: option.splits)
qed

lemma list_nodes_mem:
  assumes "db_ok cd st"
  shows "\<exists>ns. list_nodes cd False st = Inr ns \<and> (\<forall>nd. nd \<in> set ns \<longleftrightarrow> node_of cd st (nd_id nd) = Some nd)"
proof -
  have t: "tbl_ok (db_nodes st)" "decodes (dec_node cd) nd_id (db_nodes st)" using assms by (simp_all add: db_ok_defs)
  let ?ns = "map (\<lambda>e. the (dec_node cd (snd e))) (db_nodes st)"
  have "nd \<in> set ?ns \<longleftrightarrow> node_of cd st (nd_id nd) = Some nd" for nd
  proof
    assume "nd \<in> set ?ns"
    then obtain k j where e: "(k, j) \<in> set (db_nodes st)" "nd = the (dec_node cd j)" by auto
    with t(2) have "dec_node cd j = Some nd" "nd_id nd = k" by (auto simp: decodes_def list_all_iff split: option.splits)
    with e(1) t(1) show "node_of cd st (nd_id nd) = Some nd" by (simp add: node_of_def tbl_get_iff [THEN iffD2])
  next
    assume "node_of cd st (nd_id nd) = Some nd"
    then obtain j where "tbl_get (db_nodes st) (nd_id nd) = Some j" "dec_node cd j = Some nd"
      by (auto simp: node_of_def split: option.splits)
    with t(1) show "nd \<in> set ?ns" by (force simp: tbl_get_iff)
  qed
  then show ?thesis
    using list_decoded_Inr [of "dec_node cd" nd_id "db_nodes st"] t by (simp add: list_nodes_def)
qed

definition timed_out :: "u64 \<Rightarrow> u64 \<Rightarrow> node_record \<Rightarrow> bool" where
  "timed_out now_ms timeout_ms nd \<longleftrightarrow> timeout_ms < saturating_sub now_ms (nd_last_heartbeat_ms nd)"

lemma mark_offline_view:
  assumes "serde_ok cd" "db_ok cd st" "\<And>i. \<not> flt i"
  shows "db_ok cd (mark_offline cd flt now tmo st) \<and>
    node_of cd (mark_offline cd flt now tmo st) n =
      map_option (\<lambda>nd. if timed_out now tmo nd then nd\<lparr>nd_status := ''offline''\<rparr> else nd) (node_of cd st n)"
proof -
  obtain ns where ns: "list_nodes cd False st = Inr ns" "\<And>nd. nd \<in> set ns \<longleftrightarrow> node_of cd st (nd_id nd) = Some nd"
    using list_nodes_mem [OF assms(2)] by blast
  let ?ids = "map nd_id (filter (timed_out now tmo) ns)"
  let ?xs = "map (Pair ''offline'') ?ids"
  have run: "mark_offline cd flt now tmo st = set_all cd (\<lambda>k. flt (Suc k)) ?xs st"
    using assms(3) ns(1) by (simp add: mark_offline_def offline_nodes_def timed_out_def [abs_def])
  have mem: "n \<in> set ?ids \<longleftrightarrow> (\<exists>nd. node_of cd st n = Some nd \<and> timed_out now tmo nd)"
    using ns(2) node_of_id [OF assms(2)] by (auto simp: image_iff)
  have fw: "final_want ?xs n = (if n \<in> set ?ids then Some ''offline'' else None)"
  proof (cases "final_want ?xs n")
    case None
    then show ?thesis by (auto simp: final_want_None image_image)
  next
    case (Some w)
    with final_want_mem [OF Some] show ?thesis by auto
  qed
  show ?thesis
    using set_all_view [OF assms(1,2), of "\<lambda>k. flt (Suc k)" ?xs n] assms(3) fw mem
    by (cases "node_of cd st n") (auto simp: run)
qed

lemma recv_pongs_meta: "kr_meta (recv_pongs thr ds kr) = kr_meta kr"
  by (induction thr ds kr rule: recv_pongs.induct) (auto split: option.splits)

lemma expire_pings_meta: "kr_meta (expire_pings env interval thr ti kr) = kr_meta kr"
proof -
  have "kr_meta (fold (\<lambda>(s, addr) kr. kr\<lparr>kr_outstanding := tbl_remove s (kr_outstanding kr),
      kr_keep := ka_record thr addr False (kr_keep kr)\<rparr>) xs kr) = kr_meta kr" for xs and kr :: "'a ka_run"
    by (induction xs arbitrary: kr) auto
  then show ?thesis by (simp add: expire_pings_def)
qed

lemma sync_addrs_meta_ok: "tbl_ok (kr_meta (sync_addrs cd env flt st kr))"
proof -
  have "tbl_ok t \<Longrightarrow> tbl_ok (fold (\<lambda>(a, m). tbl_insert a m) xs t)" for xs and t :: "('a, u64 \<times> u32) table"
    by (induction xs arbitrary: t) (auto simp: tbl_ok_insert)
  from this [of "[]"] show ?thesis by (simp add: sync_addrs_def Let_def tbl_ok_simps)
qed

lemma tick_meta:
  "tick cd env interval thr timeout_ms ti (kr, st) = Some (pings, kr', st') \<Longrightarrow>
     kr_meta kr' = kr_meta (sync_addrs cd env (ti_flt ti 1 0) (mark_offline cd (ti_flt ti 0) (ti_now_ms ti) timeout_ms st) kr)"
  using send_pings_meta [of "ke_hash env" interval ti]
  by (auto simp: tick_def Let_def expire_pings_meta recv_pongs_meta split: if_splits prod.splits) (metis snd_conv)+

text \<open>
  C38. Node status. With no failing transaction, a tick changes of every node at most the status
  and keeps the database invariant. A node with keepalive addresses ends with the status of one
  of them: online when all of them are available and offline when none is; with mixed addresses
  the iteration order of the hash map decides. A node without keepalive addresses becomes offline
  when its last heartbeat is too old and keeps its status otherwise. In particular the mark set
  for an old heartbeat is overwritten in the same tick for a node whose addresses count as
  available, as a new address does: such a dead node stays online.
\<close>

theorem tick_node_status:
  assumes "serde_ok cd" and "db_ok cd st" and "\<And>p i. \<not> ti_flt ti p i" and "lists_sets (ke_order env)"
    and "tick cd env interval thr timeout_ms ti (kr, st) = Some (pings, kr', st')"
    and "node_of cd st n = Some nd"
  shows "db_ok cd st' \<and> (\<exists>s. node_of cd st' n = Some (nd\<lparr>nd_status := s\<rparr>) \<and>
    ((\<forall>a i. tbl_get (kr_meta kr') a \<noteq> Some (n, i)) \<longrightarrow>
       s = (if timed_out (ti_now_ms ti) timeout_ms nd then ''offline'' else nd_status nd)) \<and>
    ((\<exists>a i. tbl_get (kr_meta kr') a = Some (n, i)) \<longrightarrow>
       (\<exists>a i. tbl_get (kr_meta kr') a = Some (n, i) \<and> s = want_status kr' a)))"
proof -
  let ?st1 = "mark_offline cd (ti_flt ti 0) (ti_now_ms ti) timeout_ms st"
  let ?xs = "List.map_filter (\<lambda>addr. map_option (\<lambda>(node_id, _). (want_status kr' addr, node_id)) (tbl_get (kr_meta kr') addr))
       (ke_order env (map fst (kr_meta kr')))"
  have st': "st' = set_all cd (ti_flt ti 2) ?xs ?st1"
    using assms(5) by (auto simp: tick_def Let_def sync_status_def split: if_splits prod.splits)
  have meta_ok: "tbl_ok (kr_meta kr')" using tick_meta [OF assms(5)] sync_addrs_meta_ok by simp
  have mem: "set (ke_order env (map fst (kr_meta kr'))) = fst ` set (kr_meta kr')"
    using assms(4) tbl_ok_distinct [OF meta_ok] by (simp add: lists_sets_def)
  have xs: "(w, m) \<in> set ?xs \<longleftrightarrow> (\<exists>a i. tbl_get (kr_meta kr') a = Some (m, i) \<and> w = want_status kr' a)" for w m
  proof -
    have "tbl_get (kr_meta kr') a = Some x \<Longrightarrow> a \<in> fst ` set (kr_meta kr')" for a x
      by (metis option.distinct(1) tbl_get_None)
    then show ?thesis by (fastforce simp: List.map_filter_def mem image_iff)
  qed
  let ?nd = "if timed_out (ti_now_ms ti) timeout_ms nd then nd\<lparr>nd_status := ''offline''\<rparr> else nd"
  have one: "db_ok cd ?st1" "node_of cd ?st1 n = Some ?nd"
    using mark_offline_view [OF assms(1,2), of "ti_flt ti 0"] assms(3,6) by simp_all
  have two: "db_ok cd st'" "node_of cd st' n = Some (case final_want ?xs n of None \<Rightarrow> ?nd | Some w \<Rightarrow> ?nd\<lparr>nd_status := w\<rparr>)"
    using set_all_view [OF assms(1) one(1), of "ti_flt ti 2" ?xs n] assms(3) one(2) by (simp_all add: st')
  show ?thesis
  proof (cases "final_want ?xs n")
    case None
    then have "(w, n) \<notin> set ?xs" for w by (force simp: final_want_None)
    then have "\<forall>a i. tbl_get (kr_meta kr') a \<noteq> Some (n, i)" unfolding xs by blast
    with None two show ?thesis by (intro conjI exI [of _ "nd_status ?nd"]) auto
  next
    case (Some w)
    from final_want_mem [OF Some] xs have "\<exists>a i. tbl_get (kr_meta kr') a = Some (n, i) \<and> w = want_status kr' a" by blast
    with Some two show ?thesis by (intro conjI exI [of _ w]) auto
  qed
qed

definition dead_node :: node_record where
  "dead_node = \<lparr>nd_id = 0, nd_node_type = ''cafe'', nd_endpoint_id = ''e'', nd_token = ''t'',
     nd_addrs = [\<lparr>ad_addr = ''x'', ad_kind = ''keepalive'', ad_link = []\<rparr>], nd_status = ''online'', nd_last_heartbeat_ms = 0\<rparr>"

definition demo_ka_env :: "nat ka_env" where
  "demo_ka_env = \<lparr>ke_parse = (\<lambda>s. Some (length s)), ke_hash = (\<lambda>a. 0), ke_order = (\<lambda>xs. xs), ke_order_seq = (\<lambda>xs. xs)\<rparr>"

definition demo_tick :: tick_in where
  "demo_tick = \<lparr>ti_now_secs = 1, ti_now_ms = 100000, ti_sent = (\<lambda>s. 0), ti_check = (\<lambda>s. 0), ti_recvd = [], ti_flt = (\<lambda>p i. False)\<rparr>"

theorem tick_node_status_witness:
  "\<exists>st pings kr' st'. node_of json_serde st 0 = Some dead_node \<and> timed_out (ti_now_ms demo_tick) 75000 dead_node \<and>
     tick json_serde demo_ka_env 25 3 75000 demo_tick (ka_start, st) = Some (pings, kr', st') \<and>
     node_of json_serde st' 0 = Some dead_node"
proof -
  obtain st where ins: "insert_node json_serde False dead_node ensure_tables = (Inr (), st)" by (simp add: insert_node_def)
  have ok: "db_ok json_serde st" using insert_node_ok [OF json_serde_ok db_ok_empty _ ins] by (simp add: dead_node_def)
  have nd: "node_of json_serde st 0 = Some dead_node"
    using insert_node_view [OF json_serde_ok db_ok_empty ins, of 0] by (simp add: dead_node_def)
  have out: "timed_out (ti_now_ms demo_tick) 75000 dead_node"
    by (simp add: timed_out_def demo_tick_def dead_node_def saturating_sub_def)
  define st1 where "st1 = mark_offline json_serde (ti_flt demo_tick 0) (ti_now_ms demo_tick) 75000 st"
  have st: "db_nodes st = [(0, JNode dead_node)]"
    using ins by (auto simp: insert_node_def ensure_tables_def dead_node_def tbl_insert_def json_serde_def)
  have st1: "db_nodes st1 = [(0, JNode (dead_node\<lparr>nd_status := ''offline''\<rparr>))]"
    unfolding st1_def mark_offline_def offline_nodes_def list_nodes_def list_decoded_def
    by (simp add: st demo_tick_def json_serde_def db_decode_def saturating_sub_def dead_node_def set_status_def
        get_node_def get_decoded_def tbl_get_def insert_node_def tbl_insert_def Let_def)
  define kr1 :: "nat ka_run" where "kr1 = ka_start\<lparr>kr_meta := [(1, 0, 0)], kr_keep := [(1, addr_state_default)]\<rparr>"
  have sync: "sync_addrs json_serde demo_ka_env (ti_flt demo_tick 1 0) st1 ka_start = kr1"
    by (simp add: sync_addrs_def list_nodes_def list_decoded_def st1 demo_tick_def json_serde_def db_decode_def node_addrs_def
        dead_node_def demo_ka_env_def List.map_filter_simps tbl_insert_def ka_register_def ka_start_def entry_or_default_def kr1_def)
  have "tick json_serde demo_ka_env 25 3 75000 demo_tick (ka_start, st) =
      Some ([], kr1, sync_status json_serde demo_ka_env (ti_flt demo_tick 2) kr1 st1)"
    unfolding tick_def Let_def prod.case st1_def [symmetric] sync
    by (simp add: kr1_def ka_start_def demo_ka_env_def demo_tick_def tbl_get_def addr_slot_def expire_pings_def expired_def List.map_filter_simps)
  then obtain st' where run: "tick json_serde demo_ka_env 25 3 75000 demo_tick (ka_start, st) = Some ([], kr1, st')" by blast
  have flt: "\<not> ti_flt demo_tick p i" for p i by (simp add: demo_tick_def)
  have ord: "lists_sets (ke_order demo_ka_env)" by (simp add: lists_sets_def demo_ka_env_def)
  have meta: "tbl_get (kr_meta kr1) a = Some (0, i) \<longleftrightarrow> a = 1 \<and> i = 0" for a i
    by (auto simp: kr1_def tbl_get_def)
  have "want_status kr1 1 = ''online''"
    by (simp add: want_status_def kr1_def entry_or_default_def tbl_get_def addr_state_default_def)
  with tick_node_status [OF json_serde_ok ok flt ord run nd] meta
  have "node_of json_serde st' 0 = Some (dead_node\<lparr>nd_status := ''online''\<rparr>)" by auto
  moreover have "dead_node\<lparr>nd_status := ''online''\<rparr> = dead_node" by (simp add: dead_node_def)
  ultimately show ?thesis using nd out run by (intro exI [of _ st] exI [of _ "[]"] exI [of _ kr1] exI [of _ st']) simp
qed

end
