(* ===== verification/Sched_Http.thy ===== *)
theory Sched_Http
  imports Sched_Control Manifest
begin

text \<open>
  The administration interface of the scheduler (\<^verbatim>\<open>crates/scheduler/src/http.rs\<close>): login,
  accounts, places, groups, bindings, games, tasks with the assignment of chunks to IDC nodes,
  rollback, cancellation, audits and metrics.

  The handlers work on the control service state, which holds the shared store. \<open>flt i\<close> tells
  whether the handler's \<open>i\<close>-th store transaction fails; writing the audit record uses two
  transactions and ignores their failure. \<open>order\<close> lists a hash set in its iteration order.
\<close>

datatype http_status = UNAUTHORIZED | INTERNAL_SERVER_ERROR | BAD_REQUEST | NOT_FOUND

record http_state =
  hs_admin_user :: string
  hs_admin_password :: string

type_synonym ('j, 'a) http = "'j control_service \<Rightarrow> (http_status + 'a) \<times> 'j control_service"

text \<open>Every store error becomes the same status.\<close>

definition http_op :: "('j, 'a) db_op \<Rightarrow> ('j, 'a) http" where
  "http_op f sv =
     (case f (cv_store sv) of
        (Inl _, st) \<Rightarrow> (Inl INTERNAL_SERVER_ERROR, sv\<lparr>cv_store := st\<rparr>)
      | (Inr x, st) \<Rightarrow> (Inr x, sv\<lparr>cv_store := st\<rparr>))"

definition http_read :: "('j store \<Rightarrow> db_error + 'a) \<Rightarrow> ('j, 'a) http" where
  "http_read f sv = (case f (cv_store sv) of Inl _ \<Rightarrow> (Inl INTERNAL_SERVER_ERROR, sv) | Inr x \<Rightarrow> (Inr x, sv))"

text \<open>The operator \<open>?\<close> in a handler.\<close>

definition http_bind :: "('j, 'a) http \<Rightarrow> ('a \<Rightarrow> ('j, 'b) http) \<Rightarrow> ('j, 'b) http" where
  "http_bind f k sv = (case f sv of (Inl e, sv1) \<Rightarrow> (Inl e, sv1) | (Inr x, sv1) \<Rightarrow> k x sv1)"

definition http_return :: "'a \<Rightarrow> ('j, 'a) http" where "http_return x sv = (Inr x, sv)"
definition http_fail :: "http_status \<Rightarrow> ('j, 'a) http" where "http_fail e sv = (Inl e, sv)"

definition audit :: "'j serde \<Rightarrow> bool \<Rightarrow> bool \<Rightarrow> u64 \<Rightarrow> audit_action \<Rightarrow> ('j, unit) http" where
  "audit cd flt1 flt2 now act sv =
     (Inr (), sv\<lparr>cv_store := snd (add_audit cd flt1 flt2 now ''admin'' act (cv_store sv))\<rparr>)"

section \<open>Accounts, places, groups, bindings\<close>

definition login :: "http_state \<Rightarrow> string \<Rightarrow> string \<Rightarrow> http_status + string" where
  "login hs user password =
     (if user \<noteq> hs_admin_user hs \<or> password \<noteq> hs_admin_password hs then Inl UNAUTHORIZED
      else Inr ''dev-token'')"

definition http_list_users :: "'j serde \<Rightarrow> bool \<Rightarrow> ('j, user_record list) http" where
  "http_list_users cd flt = http_read (list_users cd flt)"
definition http_list_places :: "'j serde \<Rightarrow> bool \<Rightarrow> ('j, place_record list) http" where
  "http_list_places cd flt = http_read (list_places cd flt)"
definition http_list_groups :: "'j serde \<Rightarrow> bool \<Rightarrow> ('j, group_record list) http" where
  "http_list_groups cd flt = http_read (list_groups cd flt)"
definition http_list_tasks :: "'j serde \<Rightarrow> bool \<Rightarrow> ('j, task_record list) http" where
  "http_list_tasks cd flt = http_read (list_tasks cd flt)"
definition http_list_games :: "'j serde \<Rightarrow> bool \<Rightarrow> ('j, game_record list) http" where
  "http_list_games cd flt = http_read (list_games cd flt)"
definition http_list_audits :: "'j serde \<Rightarrow> bool \<Rightarrow> ('j, audit_record list) http" where
  "http_list_audits cd flt = http_read (list_audits cd flt)"

text \<open>The node list leaves the token out.\<close>

record node_view =
  nv_id :: u64
  nv_node_type :: string
  nv_endpoint_id :: string
  nv_addrs :: "addr_record list"
  nv_status :: string
  nv_last_heartbeat_ms :: u64

definition node_view_from :: "node_record \<Rightarrow> node_view" where
  "node_view_from n = \<lparr>nv_id = nd_id n, nv_node_type = nd_node_type n, nv_endpoint_id = nd_endpoint_id n,
     nv_addrs = nd_addrs n, nv_status = nd_status n, nv_last_heartbeat_ms = nd_last_heartbeat_ms n\<rparr>"

definition http_list_nodes :: "'j serde \<Rightarrow> bool \<Rightarrow> ('j, node_view list) http" where
  "http_list_nodes cd flt = http_bind (http_read (list_nodes cd flt)) (\<lambda>ns. http_return (map node_view_from ns))"

definition create_user :: "(bytes \<Rightarrow> bytes) \<Rightarrow> 'j serde \<Rightarrow> (nat \<Rightarrow> bool) \<Rightarrow> u64 \<Rightarrow> string \<Rightarrow> string \<Rightarrow> ('j, user_record) http" where
  "create_user blake3 cd flt now username password =
     (if username = [] \<or> password = [] then http_fail BAD_REQUEST
      else http_bind (http_op (next_user_id (flt 0))) (\<lambda>i.
        let salt = show_u64 now;
            user = \<lparr>ur_id = i, ur_username = username, ur_password_hash = hash_password blake3 password salt, ur_salt = salt\<rparr>
        in http_bind (http_op (insert_user cd (flt 1) user)) (\<lambda>_.
           http_bind (audit cd (flt 2) (flt 3) now (CreateUser i)) (\<lambda>_. http_return user))))"

definition http_delete_user :: "'j serde \<Rightarrow> (nat \<Rightarrow> bool) \<Rightarrow> u64 \<Rightarrow> u64 \<Rightarrow> ('j, unit) http" where
  "http_delete_user cd flt now i =
     http_bind (http_op (delete_user (flt 0) i)) (\<lambda>found.
       if \<not> found then http_fail NOT_FOUND else audit cd (flt 1) (flt 2) now (DeleteUser i))"

definition create_place :: "'j serde \<Rightarrow> (nat \<Rightarrow> bool) \<Rightarrow> u64 \<Rightarrow> string \<Rightarrow> string \<Rightarrow> ('j, place_record) http" where
  "create_place cd flt now name region =
     (if name = [] then http_fail BAD_REQUEST
      else http_bind (http_op (next_place_id (flt 0))) (\<lambda>i.
        let place = \<lparr>pr_id = i, pr_name = name, pr_region = region\<rparr> in
        http_bind (http_op (insert_place cd (flt 1) place)) (\<lambda>_.
        http_bind (audit cd (flt 2) (flt 3) now (CreatePlace i)) (\<lambda>_. http_return place))))"

definition http_delete_place :: "'j serde \<Rightarrow> (nat \<Rightarrow> bool) \<Rightarrow> u64 \<Rightarrow> u64 \<Rightarrow> ('j, unit) http" where
  "http_delete_place cd flt now i =
     http_bind (http_op (delete_place (flt 0) i)) (\<lambda>found.
       if \<not> found then http_fail NOT_FOUND else audit cd (flt 1) (flt 2) now (DeletePlace i))"

definition create_group :: "'j serde \<Rightarrow> (nat \<Rightarrow> bool) \<Rightarrow> u64 \<Rightarrow> string \<Rightarrow> ('j, group_record) http" where
  "create_group cd flt now name =
     (if name = [] then http_fail BAD_REQUEST
      else http_bind (http_op (next_group_id (flt 0))) (\<lambda>i.
        let g = \<lparr>gr_id = i, gr_name = name\<rparr> in
        http_bind (http_op (insert_group cd (flt 1) g)) (\<lambda>_.
        http_bind (audit cd (flt 2) (flt 3) now (CreateGroup i)) (\<lambda>_. http_return g))))"

definition http_delete_group :: "'j serde \<Rightarrow> (nat \<Rightarrow> bool) \<Rightarrow> u64 \<Rightarrow> u64 \<Rightarrow> ('j, unit) http" where
  "http_delete_group cd flt now i =
     http_bind (http_op (delete_group (flt 0) i)) (\<lambda>found.
       if \<not> found then http_fail NOT_FOUND else audit cd (flt 1) (flt 2) now (DeleteGroup i))"

definition http_bind_ids :: "'j serde \<Rightarrow> (nat \<Rightarrow> bool) \<Rightarrow> u64 \<Rightarrow> string \<Rightarrow> u64 \<Rightarrow> u64 \<Rightarrow> ('j, unit) http" where
  "http_bind_ids cd flt now kind a b =
     (if kind \<notin> set bind_kinds then http_fail BAD_REQUEST
      else http_bind (http_op (bind_ids (flt 0) kind a b)) (\<lambda>_. audit cd (flt 1) (flt 2) now (Bind kind a b)))"

definition user_places :: "(nat \<Rightarrow> bool) \<Rightarrow> u64 \<Rightarrow> ('j, u64 list) http" where
  "user_places flt i = http_read (\<lambda>st. places_of_user flt st i)"

section \<open>Games\<close>

definition new_game :: "u64 \<Rightarrow> string \<Rightarrow> game_record" where
  "new_game i name = \<lparr>gm_id = i, gm_name = name, gm_status = ''uploading'', gm_current_version = 0, gm_latest_version = 0\<rparr>"

definition game_id_for :: "'j serde \<Rightarrow> (nat \<Rightarrow> bool) \<Rightarrow> u64 option \<Rightarrow> ('j, u64) http" where
  "game_id_for cd flt req =
     (case req of
        Some i \<Rightarrow>
          if i = 0 then http_fail BAD_REQUEST
          else http_bind (http_read (\<lambda>st. get_game cd (flt 0) st i)) (\<lambda>g.
            if g \<noteq> None then http_fail BAD_REQUEST else http_return i)
      | None \<Rightarrow> http_op (next_game_id (flt 0)))"

definition create_game :: "'j serde \<Rightarrow> (nat \<Rightarrow> bool) \<Rightarrow> u64 \<Rightarrow> string \<Rightarrow> u64 option \<Rightarrow> ('j, game_record) http" where
  "create_game cd flt now name req =
     (if name = [] then http_fail BAD_REQUEST
      else http_bind (game_id_for cd flt req) (\<lambda>i.
        http_bind (http_op (insert_game cd (flt 1) (new_game i name))) (\<lambda>_.
        http_bind (audit cd (flt 2) (flt 3) now (CreateGame i)) (\<lambda>_. http_return (new_game i name)))))"

definition http_delete_game :: "'j serde \<Rightarrow> (nat \<Rightarrow> bool) \<Rightarrow> u64 \<Rightarrow> u64 \<Rightarrow> ('j, unit) http" where
  "http_delete_game cd flt now i =
     http_bind (http_op (delete_game (flt 0) i)) (\<lambda>found.
       if \<not> found then http_fail NOT_FOUND else audit cd (flt 1) (flt 2) now (DeleteGame i))"

section \<open>Tasks\<close>

fun unheld :: "'j serde \<Rightarrow> (nat \<Rightarrow> bool) \<Rightarrow> 'j store \<Rightarrow> u64 \<Rightarrow> bytes list \<Rightarrow> db_error + bytes list" where
  "unheld cd flt st game_id [] = Inr []"
| "unheld cd flt st game_id (h # hs) =
     res_bind (chunk_holders cd (flt 0) st game_id h) (\<lambda>ids.
     res_bind (unheld cd (\<lambda>k. flt (Suc k)) st game_id hs) (\<lambda>rest. Inr (if ids = [] then h # rest else rest)))"

definition assign_idc_chunks ::
    "(bytes \<Rightarrow> bytes) \<Rightarrow> (bytes list \<Rightarrow> bytes list) \<Rightarrow> 'j serde \<Rightarrow> (nat \<Rightarrow> bool) \<Rightarrow> 'j store \<Rightarrow> u64 \<Rightarrow> u64 \<Rightarrow> string \<Rightarrow>
     db_error + bytes list" where
  "assign_idc_chunks blake3 order cd flt st game_id version node_type =
     (if node_type \<noteq> ''idc'' then Inr []
      else res_bind (get_version cd (flt 0) st game_id version) (\<lambda>m. case m of
        None \<Rightarrow> Inr []
      | Some manifest \<Rightarrow>
          (case decode blake3 manifest of
             Inl _ \<Rightarrow> Inl DecodeFailed
           | Inr index \<Rightarrow>
               res_bind (unheld cd (\<lambda>k. flt (Suc k)) st game_id (order (remdups (chunk_hashes index)))) (\<lambda>assigned.
                 Inr (sort assigned)))))"

definition http_push_task :: "'j serde \<Rightarrow> bool \<Rightarrow> task_record \<Rightarrow> ('j, unit) http" where
  "http_push_task cd flt task sv =
     (case push_task cd flt task sv of (Inl _, sv1) \<Rightarrow> (Inl INTERNAL_SERVER_ERROR, sv1) | (Inr _, sv1) \<Rightarrow> (Inr (), sv1))"

definition new_task :: "u64 \<Rightarrow> u64 \<Rightarrow> u64 \<Rightarrow> u64 \<Rightarrow> string \<Rightarrow> bytes list \<Rightarrow> task_record" where
  "new_task i node_id game_id version kind chunks = \<lparr>tk_id = i, tk_node_id = node_id, tk_game_id = game_id,
     tk_version = version, tk_kind = kind, tk_assigned_chunks = chunks, tk_status = ''queued'', tk_error = []\<rparr>"

text \<open>The chunk assignment runs transactions 4 and up; the others are numbered in order.\<close>

definition create_task ::
    "(bytes \<Rightarrow> bytes) \<Rightarrow> (bytes list \<Rightarrow> bytes list) \<Rightarrow> 'j serde \<Rightarrow> (nat \<Rightarrow> bool) \<Rightarrow> u64 \<Rightarrow> u64 \<Rightarrow> u64 \<Rightarrow> u64 \<Rightarrow> string \<Rightarrow>
     ('j, task_record) http" where
  "create_task blake3 order cd flt now node_id game_id version kind =
     (if kind = [] then http_fail BAD_REQUEST
      else http_bind (http_read (\<lambda>st. get_node cd (flt 0) st node_id)) (\<lambda>n. case n of
        None \<Rightarrow> http_fail NOT_FOUND
      | Some node \<Rightarrow>
          http_bind (http_read (\<lambda>st. assign_idc_chunks blake3 order cd (\<lambda>k. flt (k + 5)) st game_id version (nd_node_type node))) (\<lambda>chunks.
          http_bind (http_op (next_task_id (flt 1))) (\<lambda>i.
            let task = new_task i node_id game_id version kind chunks in
            http_bind (http_push_task cd (flt 2) task) (\<lambda>_.
            http_bind (audit cd (flt 3) (flt 4) now (CreateTask i game_id version)) (\<lambda>_. http_return task))))))"

definition rollback_game ::
    "'j serde \<Rightarrow> (nat \<Rightarrow> bool) \<Rightarrow> u64 \<Rightarrow> u64 \<Rightarrow> u64 \<Rightarrow> u64 \<Rightarrow> ('j, task_record) http" where
  "rollback_game cd flt now game_id node_id version =
     (if version = 0 then http_fail BAD_REQUEST
      else http_bind (http_read (\<lambda>st. get_game cd (flt 0) st game_id)) (\<lambda>g. case g of
        None \<Rightarrow> http_fail NOT_FOUND
      | Some game \<Rightarrow>
          http_bind (http_read (\<lambda>st. get_version cd (flt 1) st game_id version)) (\<lambda>m.
          if m = None then http_fail NOT_FOUND
          else http_bind (http_read (\<lambda>st. get_node cd (flt 2) st node_id)) (\<lambda>n.
          if n = None then http_fail NOT_FOUND
          else http_bind (http_op (next_task_id (flt 3))) (\<lambda>i.
            let task = new_task i node_id game_id version ''ROLLBACK'' [] in
            http_bind (http_push_task cd (flt 4) task) (\<lambda>_.
            http_bind (http_op (insert_game cd (flt 5) (game\<lparr>gm_current_version := version\<rparr>))) (\<lambda>_.
            http_bind (audit cd (flt 6) (flt 7) now (RollbackGame game_id version)) (\<lambda>_. http_return task))))))))"

definition cancel_task :: "'j serde \<Rightarrow> (nat \<Rightarrow> bool) \<Rightarrow> u64 \<Rightarrow> u64 \<Rightarrow> ('j, unit) http" where
  "cancel_task cd flt now i =
     http_bind (http_read (list_tasks cd (flt 0))) (\<lambda>ts.
       case find (\<lambda>t. tk_id t = i) ts of
         None \<Rightarrow> http_fail NOT_FOUND
       | Some task \<Rightarrow>
           if tk_status task \<noteq> ''queued'' then http_fail BAD_REQUEST
           else http_bind (http_op (update_task_status cd (flt 1) i ''cancelled'' ''cancelled by operator'')) (\<lambda>_ sv.
             audit cd (flt 2) (flt 3) now (CancelTask i)
               (sv\<lparr>cv_events := cv_events sv @ [TaskStatus i ''cancelled'']\<rparr>)))"

section \<open>Metrics\<close>

record metrics_values =
  mt_nodes :: nat
  mt_online :: nat
  mt_tasks :: nat
  mt_running :: nat
  mt_done :: nat
  mt_failed :: nat
  mt_games :: nat
  mt_audits :: nat

definition or_default :: "'e + 'a list \<Rightarrow> 'a list" where
  "or_default r = (case r of Inl _ \<Rightarrow> [] | Inr xs \<Rightarrow> xs)"

definition metrics :: "'j serde \<Rightarrow> (nat \<Rightarrow> bool) \<Rightarrow> 'j control_service \<Rightarrow> metrics_values" where
  "metrics cd flt sv =
     (let nodes = or_default (list_nodes cd (flt 0) (cv_store sv));
          tasks = or_default (list_tasks cd (flt 1) (cv_store sv))
      in \<lparr>mt_nodes = length nodes, mt_online = length (filter (\<lambda>n. nd_status n = ''online'') nodes),
          mt_tasks = length tasks, mt_running = length (filter (\<lambda>t. tk_status t = ''running'') tasks),
          mt_done = length (filter (\<lambda>t. tk_status t = ''done'') tasks),
          mt_failed = length (filter (\<lambda>t. tk_status t = ''failed'') tasks),
          mt_games = length (or_default (list_games cd (flt 2) (cv_store sv))),
          mt_audits = length (or_default (list_audits cd (flt 3) (cv_store sv)))\<rparr>)"

section \<open>Running the handlers\<close>

lemma bind_read: "f (cv_store sv) = Inr x \<Longrightarrow> http_bind (http_read f) k sv = k x sv"
  by (simp add: http_bind_def http_read_def)

lemma bind_http_op: "f (cv_store sv) = (Inr x, st) \<Longrightarrow> http_bind (http_op f) k sv = k x (sv\<lparr>cv_store := st\<rparr>)"
  by (simp add: http_bind_def http_op_def)

lemmas handler_defs = http_bind_def http_op_def http_read_def http_return_def http_fail_def

text \<open>Auditing touches the counters and the audit table only, and never fails the request.\<close>

lemma audit_shape:
  "\<exists>c a. audit cd f1 f2 now act sv = (Inr (), sv\<lparr>cv_store := (cv_store sv)\<lparr>db_counters := c, db_audits := a\<rparr>\<rparr>)"
proof -
  let ?st = "snd (add_audit cd f1 f2 now ''admin'' act (cv_store sv))"
  have "?st = (cv_store sv)\<lparr>db_counters := db_counters ?st, db_audits := db_audits ?st\<rparr>"
    by (simp add: add_audit_def next_id_def insert_json_def Let_def)
  then show ?thesis unfolding audit_def by (metis (no_types))
qed

lemma audit_ok:
  assumes "serde_ok cd" "db_ok cd (cv_store sv)" "ctr (cv_store sv) NEXT_AUDIT_ID < -1" "audit cd f1 f2 now act sv = (r, sv')"
  shows "db_ok cd (cv_store sv')"
proof -
  let ?st = "cv_store sv"
  obtain r1 st1 where nxt: "next_id f1 NEXT_AUDIT_ID ?st = (r1, st1)" by fastforce
  have ok1: "db_ok cd st1" by (rule next_id_ok [OF assms(2) nxt assms(3)])
  show ?thesis
  proof (cases r1)
    case (Inl e)
    with assms(4) nxt ok1 show ?thesis by (auto simp: audit_def add_audit_def)
  next
    case (Inr n)
    let ?a = "\<lparr>au_id = n, au_time_ms = now, au_actor = ''admin'', au_action = act\<rparr>"
    have "tbl_ok (db_counters ?st)" using assms(2) by (simp add: db_ok_defs)
    note n = ctr_next_id [OF this nxt [unfolded Inr]]
    have t: "tbl_ok (db_audits st1)" "decodes (dec_audit cd) au_id (db_audits st1)" "ids_below n (db_audits st1)"
      using ok1 n by (simp_all add: db_ok_defs)
    have "cv_store sv' = (if f2 then st1 else st1\<lparr>db_audits := tbl_insert n (enc_audit cd ?a) (db_audits st1)\<rparr>)"
      using assms(4) nxt Inr by (auto simp: audit_def add_audit_def insert_json_def Let_def)
    with ok1 n assms(1) t decodes_insert [OF t(1,2), of "enc_audit cd ?a" ?a n]
      ids_below_insert [OF t(1,3), of n "enc_audit cd ?a"] show ?thesis
      by (simp add: db_ok_defs serde_ok_def tbl_ok_insert)
  qed
qed

definition same_records :: "'j serde \<Rightarrow> 'j store \<Rightarrow> 'j store \<Rightarrow> bool" where
  "same_records cd st st' \<longleftrightarrow> node_of cd st' = node_of cd st \<and> task_of cd st' = task_of cd st \<and>
     game_of cd st' = game_of cd st \<and> all_tasks cd st' = all_tasks cd st \<and> holders cd st' = holders cd st \<and>
     get_version cd False st' = get_version cd False st"

lemma same_records_audit: "same_records cd st (st\<lparr>db_counters := c, db_audits := a\<rparr>)"
  by (simp add: same_records_def node_of_def task_of_def game_of_def all_tasks_def holders_def get_version_def fun_eq_iff)

lemma bind_audit:
  "\<exists>sv1. http_bind (audit cd f1 f2 now act) k sv = k () sv1 \<and> audit cd f1 f2 now act sv = (Inr (), sv1) \<and>
     cv_pending sv1 = cv_pending sv \<and> cv_events sv1 = cv_events sv \<and> same_records cd (cv_store sv) (cv_store sv1)"
proof -
  obtain c a where "audit cd f1 f2 now act sv = (Inr (), sv\<lparr>cv_store := (cv_store sv)\<lparr>db_counters := c, db_audits := a\<rparr>\<rparr>)"
    using audit_shape by blast
  with same_records_audit show ?thesis by (auto simp: http_bind_def)
qed

section \<open>The chunk assignment\<close>

lemma unheld_eq:
  assumes "db_ok cd st" shows "(\<And>i. \<not> flt i) \<Longrightarrow> unheld cd flt st g hs = Inr (filter (\<lambda>h. holders cd st g h = []) hs)"
proof (induction hs arbitrary: flt)
  case (Cons h hs)
  then show ?case using Cons.IH [of "\<lambda>k. flt (Suc k)"] chunk_holders_eq [OF assms, of g h] by auto
qed simp

lemma sort_distinct_eq: "distinct xs \<Longrightarrow> sort xs = sorted_list_of_set (set xs)"
  by (simp add: sorted_list_of_set_sort_remdups distinct_remdups_id)

definition missing_chunks :: "'j serde \<Rightarrow> 'j store \<Rightarrow> u64 \<Rightarrow> game_index \<Rightarrow> bytes list" where
  "missing_chunks cd st g index = sorted_list_of_set {h \<in> set (chunk_hashes index). holders cd st g h = []}"

lemma assign_idc_chunks_eq:
  assumes "db_ok cd st" "\<And>i. \<not> flt i" "lists_sets order" "get_version cd False st g v = Inr (Some m)" "decode blake3 m = Inr index"
  shows "assign_idc_chunks blake3 order cd flt st g v ty = Inr (if ty = ''idc'' then missing_chunks cd st g index else [])"
proof -
  let ?hs = "order (remdups (chunk_hashes index))"
  have hs: "distinct ?hs" "set ?hs = set (chunk_hashes index)"
    using assms(3) by (simp_all add: lists_sets_def)
  have "sort (filter (\<lambda>h. holders cd st g h = []) ?hs) = missing_chunks cd st g index"
    using sort_distinct_eq [OF distinct_filter [OF hs(1)]] hs(2) by (simp add: missing_chunks_def)
  moreover have "unheld cd (\<lambda>k. flt (Suc k)) st g ?hs = Inr (filter (\<lambda>h. holders cd st g h = []) ?hs)"
    using unheld_eq [OF assms(1), of "\<lambda>k. flt (Suc k)"] assms(2) by simp
  ultimately show ?thesis
    using assms(2,4,5) by (auto simp: assign_idc_chunks_def)
qed

section \<open>Tasks\<close>

lemma insert_task_view:
  assumes "serde_ok cd" "db_ok cd st" "insert_task cd False t st = (r, st')"
  shows "r = Inr ()" "task_of cd st' = (task_of cd st)(tk_id t \<mapsto> t)" "node_of cd st' = node_of cd st"
    "game_of cd st' = game_of cd st" "holders cd st' = holders cd st" "get_version cd False st' = get_version cd False st"
    "ctr st' c = ctr st c"
  using assms by (auto simp: insert_task_def Let_def task_of_def node_of_def game_of_def holders_def get_version_def
      tbl_simps serde_ok_def db_ok_defs fun_eq_iff)

lemma next_task_id_run:
  assumes "db_ok cd st" "ctr st NEXT_TASK_ID < -1"
  shows "\<exists>st'. next_task_id False st = (Inr (ctr st NEXT_TASK_ID + 1), st') \<and> db_ok cd st' \<and>
    same_records cd st st' \<and> ctr st' NEXT_TASK_ID = ctr st NEXT_TASK_ID + 1 \<and>
    ctr st' NEXT_AUDIT_ID = ctr st NEXT_AUDIT_ID \<and>
    task_of cd st (ctr st NEXT_TASK_ID + 1) = None"
proof -
  obtain r st' where run: "next_id False NEXT_TASK_ID st = (r, st')" by fastforce
  then obtain n where r: "r = Inr n" by (auto simp: next_id_def Let_def)
  have "tbl_ok (db_counters st)" using assms(1) by (simp add: db_ok_defs)
  note n = ctr_next_id [OF this run [unfolded r]]
  have "tbl_get (db_tasks st) (ctr st NEXT_TASK_ID + 1) = None"
    using assms by (intro fresh_id) (simp_all add: db_ok_defs)
  with run r n next_id_ok [OF assms(1) run assms(2)] next_id_views [OF run] show ?thesis
    by (auto simp: next_task_id_def same_records_def task_of_def [of cd st] NEXT_TASK_ID_def NEXT_AUDIT_ID_def)
qed

text \<open>Allocating an identifier, storing the task and queueing its event.\<close>

definition pushed :: "task_record \<Rightarrow> 'j serde \<Rightarrow> 'j control_service \<Rightarrow> 'j control_service \<Rightarrow> bool" where
  "pushed task cd sv sv' \<longleftrightarrow>
     task_of cd (cv_store sv') = (task_of cd (cv_store sv))(tk_id task \<mapsto> task) \<and>
     node_of cd (cv_store sv') = node_of cd (cv_store sv) \<and> holders cd (cv_store sv') = holders cd (cv_store sv) \<and>
     get_version cd False (cv_store sv') = get_version cd False (cv_store sv) \<and>
     cv_pending sv' = (cv_pending sv)(tk_node_id task := cv_pending sv (tk_node_id task) @ [TaskPushed (to_proto_task task)])"

lemma push_fresh:
  assumes "serde_ok cd" "db_ok cd (cv_store sv)" "ctr (cv_store sv) NEXT_TASK_ID < -1" "\<not> f1" "\<not> f2"
    and task: "\<And>i. tk_id (task i) = i"
  shows "\<exists>sv1. http_bind (http_op (next_task_id f1)) (\<lambda>i. http_bind (http_push_task cd f2 (task i)) (\<lambda>_. k i)) sv =
        k (ctr (cv_store sv) NEXT_TASK_ID + 1) sv1 \<and>
      pushed (task (ctr (cv_store sv) NEXT_TASK_ID + 1)) cd sv sv1 \<and> db_ok cd (cv_store sv1) \<and>
      game_of cd (cv_store sv1) = game_of cd (cv_store sv) \<and>
      ctr (cv_store sv1) NEXT_AUDIT_ID = ctr (cv_store sv) NEXT_AUDIT_ID \<and>
      task_of cd (cv_store sv) (ctr (cv_store sv) NEXT_TASK_ID + 1) = None"
proof -
  let ?i = "ctr (cv_store sv) NEXT_TASK_ID + 1"
  obtain st where st: "next_task_id False (cv_store sv) = (Inr ?i, st)" "db_ok cd st" "same_records cd (cv_store sv) st"
    "ctr st NEXT_TASK_ID = ?i" "ctr st NEXT_AUDIT_ID = ctr (cv_store sv) NEXT_AUDIT_ID" "task_of cd (cv_store sv) ?i = None"
    using next_task_id_run [OF assms(2,3)] by blast
  obtain r st2 where ins: "insert_task cd False (task ?i) st = (r, st2)" by fastforce
  note view = insert_task_view [OF assms(1) st(2) ins]
  have ok: "db_ok cd st2" using insert_task_ok [OF assms(1) st(2) _ ins] st(4) task by simp
  obtain sv1 where push: "push_task cd False (task ?i) (sv\<lparr>cv_store := st\<rparr>) = (Inr (), sv1)" "cv_store sv1 = st2"
      "cv_pending sv1 = (cv_pending sv)(tk_node_id (task ?i) := cv_pending sv (tk_node_id (task ?i)) @ [TaskPushed (to_proto_task (task ?i))])"
    using ins view(1) by (auto simp: push_task_def Let_def)
  have "http_bind (http_op (next_task_id f1)) (\<lambda>i. http_bind (http_push_task cd f2 (task i)) (\<lambda>_. k i)) sv = k ?i sv1"
    using assms(4,5) st(1) push(1) by (simp add: handler_defs http_push_task_def)
  moreover have "pushed (task ?i) cd sv sv1"
    using push(2,3) view st(3) task by (simp add: pushed_def same_records_def)
  ultimately show ?thesis using ok st(3,5,6) view push(2) by (auto simp: same_records_def)
qed

text \<open>
  C37. Task creation. For an existing node, a named kind and a published version whose manifest
  decodes, with no failing transaction, the handler answers with a queued task under a number no
  task had; the task is stored and its event is appended to the node's queue. An IDC node is
  assigned, in ascending order, exactly the chunks of the manifest that no node has reported to
  hold; a cafe node is assigned none. The iteration order of the hash set does not matter. The
  assignment is not remembered: until a node reports a chunk, the next task for an IDC node is
  assigned the same chunks again.
\<close>

theorem create_task_spec:
  assumes "serde_ok cd" and "db_ok cd (cv_store sv)" and "ctr (cv_store sv) NEXT_TASK_ID < -1"
    and "ctr (cv_store sv) NEXT_AUDIT_ID < -1" and "\<And>i. \<not> flt i" and "lists_sets order" and "kind \<noteq> []"
    and "node_of cd (cv_store sv) n = Some node" and "get_version cd False (cv_store sv) g v = Inr (Some m)"
    and "decode blake3 m = Inr index"
  shows "\<exists>task sv'. create_task blake3 order cd flt now n g v kind sv = (Inr task, sv') \<and>
    task_of cd (cv_store sv) (tk_id task) = None \<and> pushed task cd sv sv' \<and> db_ok cd (cv_store sv') \<and>
    task = new_task (tk_id task) n g v kind
      (if nd_node_type node = ''idc'' then missing_chunks cd (cv_store sv) g index else []) \<and>
    assign_idc_chunks blake3 order cd (\<lambda>i. False) (cv_store sv') g v ''idc'' = Inr (missing_chunks cd (cv_store sv) g index)"
proof -
  let ?i = "ctr (cv_store sv) NEXT_TASK_ID + 1"
  let ?cs = "if nd_node_type node = ''idc'' then missing_chunks cd (cv_store sv) g index else []"
  let ?task = "\<lambda>i. new_task i n g v kind ?cs"
  let ?k = "\<lambda>i. http_bind (audit cd (flt 3) (flt 4) now (CreateTask i g v)) (\<lambda>_. http_return (?task i))"
  have "create_task blake3 order cd flt now n g v kind sv =
      http_bind (http_op (next_task_id (flt 1))) (\<lambda>i. http_bind (http_push_task cd (flt 2) (?task i)) (\<lambda>_. ?k i)) sv"
    using assms(5,7,8) get_node_eq [OF assms(2), of n] assign_idc_chunks_eq [OF assms(2) _ assms(6,9,10), of "\<lambda>k. flt (k + 5)"]
    by (simp add: create_task_def bind_read Let_def)
  moreover obtain sv1 where sv1: "http_bind (http_op (next_task_id (flt 1))) (\<lambda>i. http_bind (http_push_task cd (flt 2) (?task i)) (\<lambda>_. ?k i)) sv = ?k ?i sv1"
      "pushed (?task ?i) cd sv sv1" "db_ok cd (cv_store sv1)" "task_of cd (cv_store sv) ?i = None"
      "ctr (cv_store sv1) NEXT_AUDIT_ID = ctr (cv_store sv) NEXT_AUDIT_ID"
    using push_fresh [OF assms(1-3), of "flt 1" "flt 2" ?task ?k] assms(5) by (auto simp: new_task_def)
  moreover obtain sv2 where sv2: "?k ?i sv1 = http_return (?task ?i) sv2" "audit cd (flt 3) (flt 4) now (CreateTask ?i g v) sv1 = (Inr (), sv2)"
      "cv_pending sv2 = cv_pending sv1" "same_records cd (cv_store sv1) (cv_store sv2)"
    using bind_audit [of cd "flt 3" "flt 4" now "CreateTask ?i g v" "\<lambda>_. http_return (?task ?i)" sv1] by blast
  moreover have ok2: "db_ok cd (cv_store sv2)"
    using audit_ok [OF assms(1) sv1(3) _ sv2(2)] sv1(5) assms(4) by simp
  moreover have "assign_idc_chunks blake3 order cd (\<lambda>i. False) (cv_store sv2) g v ''idc'' = Inr (missing_chunks cd (cv_store sv) g index)"
    using assign_idc_chunks_eq [OF ok2 _ assms(6) _ assms(10), of "\<lambda>i. False" g v] sv2(4) sv1(2) assms(9)
    by (simp add: same_records_def pushed_def missing_chunks_def)
  moreover have "tk_id (?task ?i) = ?i" by (simp add: new_task_def)
  ultimately show ?thesis
    by (intro exI [of _ "?task ?i"] exI [of _ sv2]) (simp add: http_return_def pushed_def same_records_def)
qed



definition demo_node :: node_record where
  "demo_node = \<lparr>nd_id = 0, nd_node_type = ''idc'', nd_endpoint_id = ''e'', nd_token = ''t'', nd_addrs = [],
     nd_status = ''online'', nd_last_heartbeat_ms = 0\<rparr>"

definition demo_index :: game_index where
  "demo_index = build (\<lambda>_. replicate 32 5)
     [\<lparr>fe_name = ''a'', fe_hash = replicate 32 0, fe_chunks = [\<lparr>cm_hash = replicate 32 7, cm_len = 1\<rparr>]\<rparr>]"

definition demo_admin :: "json control_service" where
  "demo_admin = with_events (snd (save_version json_serde False 5 1 (encode demo_index)
     (snd (insert_node json_serde False demo_node ensure_tables))))"

lemma demo_admin_ok:
  "db_ok json_serde (cv_store demo_admin)" "ctr (cv_store demo_admin) c = 0"
  "node_of json_serde (cv_store demo_admin) 0 = Some demo_node"
  "get_version json_serde False (cv_store demo_admin) 5 1 = Inr (Some (encode demo_index))"
  "holders json_serde (cv_store demo_admin) g h = []"
  "task_of json_serde (cv_store demo_admin) = Map.empty"
  "game_of json_serde (cv_store demo_admin) = Map.empty"
proof -
  obtain r1 st1 where i: "insert_node json_serde False demo_node ensure_tables = (r1, st1)" by fastforce
  obtain r2 st2 where v: "save_version json_serde False 5 1 (encode demo_index) st1 = (r2, st2)" by fastforce
  have st: "cv_store demo_admin = st2" using i v by (simp add: demo_admin_def with_events_def)
  have ok1: "db_ok json_serde st1" using insert_node_ok [OF json_serde_ok db_ok_empty _ i] by (simp add: demo_node_def)
  show "db_ok json_serde (cv_store demo_admin)" unfolding st by (rule save_version_ok [OF json_serde_ok ok1 v])
  have st2: "st2 = ensure_tables\<lparr>db_nodes := [(0, enc_node json_serde demo_node)], db_versions := [(version_key 5 1, enc_bytes json_serde (encode demo_index))]\<rparr>"
    using i v by (auto simp: insert_node_def save_version_def Let_def ensure_tables_def demo_node_def tbl_insert_def)
  show "ctr (cv_store demo_admin) c = 0" unfolding st st2 by (simp add: ctr_def ensure_tables_def)
  show "node_of json_serde (cv_store demo_admin) 0 = Some demo_node"
    unfolding st st2 using json_serde_ok by (simp add: node_of_def serde_ok_def tbl_get_def)
  show "get_version json_serde False (cv_store demo_admin) 5 1 = Inr (Some (encode demo_index))"
    unfolding st st2 using json_serde_ok by (simp add: get_version_def serde_ok_def db_decode_def tbl_get_def)
  show "holders json_serde (cv_store demo_admin) g h = []" "task_of json_serde (cv_store demo_admin) = Map.empty"
    "game_of json_serde (cv_store demo_admin) = Map.empty"
    unfolding st st2 by (simp_all add: holders_def task_of_def game_of_def fun_eq_iff ensure_tables_def)
qed

lemma demo_index_decodes: "decode (\<lambda>_. replicate 32 5) (encode demo_index) = Inr demo_index"
  unfolding demo_index_def
  by (rule decode_encode) (simp_all add: build_hash HASH_LEN_def wf_files_def wf_file_def wf_chunk_def as_bytes_def utf8_valid_ascii in_range_def)

theorem create_task_spec_witness:
  "\<exists>task sv'. create_task (\<lambda>_. replicate 32 5) (\<lambda>hs. hs) json_serde (\<lambda>i. False) 9 0 5 1 ''UPDATE'' demo_admin = (Inr task, sv') \<and>
     tk_assigned_chunks task = [replicate 32 7]"
proof -
  have "missing_chunks json_serde (cv_store demo_admin) 5 demo_index = [replicate 32 7]"
    by (simp add: missing_chunks_def demo_admin_ok demo_index_def chunk_hashes_def build_simps)
  moreover have "nd_node_type demo_node = ''idc''" by (simp add: demo_node_def)
  ultimately obtain task sv' where
    "create_task (\<lambda>_. replicate 32 5) (\<lambda>hs. hs) json_serde (\<lambda>i. False) 9 0 5 1 ''UPDATE'' demo_admin = (Inr task, sv')"
    "task = new_task (tk_id task) 0 5 1 ''UPDATE'' [replicate 32 7]"
    using create_task_spec [OF json_serde_ok demo_admin_ok(1) _ _ _ _ _ demo_admin_ok(3,4) demo_index_decodes,
      of "\<lambda>i. False" "\<lambda>hs. hs" "''UPDATE''" 9]
    by (auto simp: demo_admin_ok lists_sets_def)
  moreover have "tk_assigned_chunks (new_task i n g v kd cs) = cs" for i n g v kd cs by (simp add: new_task_def)
  ultimately show ?thesis by metis
qed

section \<open>Games\<close>

lemma audit_ctr:
  assumes "db_ok cd (cv_store sv)" "c \<noteq> NEXT_AUDIT_ID" "audit cd f1 f2 now act sv = (r, sv')"
  shows "ctr (cv_store sv') c = ctr (cv_store sv) c"
proof -
  obtain r1 st1 where nxt: "next_id f1 NEXT_AUDIT_ID (cv_store sv) = (r1, st1)" by fastforce
  have t: "tbl_ok (db_counters (cv_store sv))" using assms(1) by (simp add: db_ok_defs)
  show ?thesis
    using assms(2,3) nxt next_id_error [of f1 NEXT_AUDIT_ID "cv_store sv" _ st1] ctr_next_id [OF t, of f1 NEXT_AUDIT_ID _ st1 c]
    by (cases r1) (auto simp: audit_def add_audit_def insert_json_def Let_def)
qed

lemma store_game_run:
  assumes "serde_ok cd" "db_ok cd (cv_store sv)" "ctr (cv_store sv) NEXT_AUDIT_ID < -1" "\<not> f"
    and "http_bind (http_op (insert_game cd f gm)) (\<lambda>_. http_bind (audit cd f1 f2 now act) (\<lambda>_. http_return gm)) sv = (r, sv')"
  shows "r = Inr gm \<and> game_of cd (cv_store sv') = (game_of cd (cv_store sv))(gm_id gm \<mapsto> gm) \<and> db_ok cd (cv_store sv') \<and>
    ctr (cv_store sv') NEXT_GAME_ID = ctr (cv_store sv) NEXT_GAME_ID"
proof -
  obtain x st1 where ins: "insert_game cd False gm (cv_store sv) = (x, st1)" by fastforce
  have x: "x = Inr ()" "ctr st1 c = ctr (cv_store sv) c" for c
    using ins by (auto simp: insert_game_def insert_json_def)
  let ?sv = "sv\<lparr>cv_store := st1\<rparr>"
  have ok: "db_ok cd (cv_store ?sv)" using insert_game_ok [OF assms(1,2) ins] by simp
  obtain sv2 where sv2: "http_bind (audit cd f1 f2 now act) (\<lambda>_. http_return gm) ?sv = http_return gm sv2"
      "audit cd f1 f2 now act ?sv = (Inr (), sv2)" "same_records cd (cv_store ?sv) (cv_store sv2)"
    using bind_audit [of cd f1 f2 now act "\<lambda>_. http_return gm" ?sv] by blast
  have run: "r = Inr gm" "sv' = sv2"
    using assms(4,5) ins x(1) sv2(2) by (auto simp: handler_defs)
  have "game_of cd (cv_store sv2) = (game_of cd (cv_store sv))(gm_id gm \<mapsto> gm)"
    using game_of_insert [OF assms(1,2) ins] sv2(3) by (auto simp: same_records_def)
  moreover have "NEXT_GAME_ID \<noteq> NEXT_AUDIT_ID" by (simp add: NEXT_GAME_ID_def NEXT_AUDIT_ID_def)
  ultimately show ?thesis
    using run x(2) assms(3) audit_ok [OF assms(1) ok _ sv2(2)] audit_ctr [OF ok _ sv2(2)] by simp
qed

text \<open>
  Game numbers. A game created without a number gets the next counter value, and the
  handler does not look whether a game was created under that number explicitly: creating a
  game with the explicit number the counter will reach next, and then one without a number,
  answers twice with the same number, and the first game is gone. An explicit number that is
  zero or taken is refused and changes nothing.
\<close>

theorem create_game_overwrites:
  assumes "serde_ok cd" and "db_ok cd (cv_store sv)" and "\<And>i. \<not> flt i" and "name \<noteq> []" and "name2 \<noteq> []"
    and "i = ctr (cv_store sv) NEXT_GAME_ID + 1" and "i \<noteq> 0" and "game_of cd (cv_store sv) i = None"
    and "ctr (cv_store sv) NEXT_AUDIT_ID < -1" and "ctr (cv_store sv1) NEXT_AUDIT_ID < -1"
    and "create_game cd flt now name (Some i) sv = (r1, sv1)"
    and "create_game cd flt now name2 None sv1 = (r2, sv2)"
  shows "r1 = Inr (new_game i name) \<and> game_of cd (cv_store sv1) = (game_of cd (cv_store sv))(i \<mapsto> new_game i name) \<and>
    r2 = Inr (new_game i name2) \<and> game_of cd (cv_store sv2) = (game_of cd (cv_store sv))(i \<mapsto> new_game i name2) \<and>
    (\<forall>k. k = 0 \<or> game_of cd (cv_store sv) k \<noteq> None \<longrightarrow> create_game cd flt now name (Some k) sv = (Inl BAD_REQUEST, sv))"
proof -
  let ?st = "cv_store sv"
  have refuse: "k = 0 \<or> game_of cd ?st k \<noteq> None \<longrightarrow> create_game cd flt now name (Some k) sv = (Inl BAD_REQUEST, sv)" for k
    using assms(3,4) get_game_eq [OF assms(2), of k] by (auto simp: create_game_def game_id_for_def handler_defs)
  have id: "game_id_for cd flt (Some i) sv = (Inr i, sv)"
    using assms(3,7,8) get_game_eq [OF assms(2), of i] by (simp add: game_id_for_def handler_defs)
  have one: "r1 = Inr (new_game i name) \<and> game_of cd (cv_store sv1) = (game_of cd ?st)(i \<mapsto> new_game i name) \<and>
      db_ok cd (cv_store sv1) \<and> ctr (cv_store sv1) NEXT_GAME_ID = ctr ?st NEXT_GAME_ID"
    using store_game_run [OF assms(1,2,9), of "flt 1" "new_game i name" "flt 2" "flt 3" now "CreateGame i" r1 sv1] assms(3,4,11) id
    by (simp add: create_game_def http_bind_def [of "game_id_for cd flt (Some i)"] new_game_def)
  obtain r st where nxt: "next_id False NEXT_GAME_ID (cv_store sv1) = (r, st)" by fastforce
  then obtain n where r: "r = Inr n" by (auto simp: next_id_def Let_def)
  have ne: "NEXT_GAME_ID \<noteq> NEXT_AUDIT_ID" by (simp add: NEXT_GAME_ID_def NEXT_AUDIT_ID_def)
  have "tbl_ok (db_counters (cv_store sv1))" using one by (simp add: db_ok_defs)
  from ctr_next_id [OF this nxt [unfolded r]] one assms(6)
  have n: "n = i" "ctr st NEXT_AUDIT_ID = ctr (cv_store sv1) NEXT_AUDIT_ID" using ne by auto
  have lim: "ctr (cv_store sv1) NEXT_GAME_ID < -1"
    using one assms(6,7) by (metis word_order.not_eq_extremum add.left_inverse)
  have id2: "game_id_for cd flt None sv1 = (Inr i, sv1\<lparr>cv_store := st\<rparr>)"
    using assms(3) nxt r n by (simp add: game_id_for_def handler_defs next_game_id_def)
  have ok: "db_ok cd (cv_store (sv1\<lparr>cv_store := st\<rparr>))" using next_id_ok [OF _ nxt lim] one by simp
  have aud: "ctr (cv_store (sv1\<lparr>cv_store := st\<rparr>)) NEXT_AUDIT_ID < -1" using n(2) assms(10) by simp
  have "r2 = Inr (new_game i name2) \<and> game_of cd (cv_store sv2) = (game_of cd st)(i \<mapsto> new_game i name2)"
    using store_game_run [OF assms(1) ok aud, of "flt 1" "new_game i name2" "flt 2" "flt 3" now "CreateGame i" r2 sv2] assms(3,5,12) id2
    by (simp add: create_game_def http_bind_def [of "game_id_for cd flt None"] new_game_def)
  with one refuse next_id_views(3) [OF nxt, of cd] show ?thesis by auto
qed

theorem create_game_overwrites_witness:
  "\<exists>sv1 sv2. create_game json_serde (\<lambda>i. False) 9 ''a'' (Some 1) demo_admin = (Inr (new_game 1 ''a''), sv1) \<and>
     create_game json_serde (\<lambda>i. False) 9 ''b'' None sv1 = (Inr (new_game 1 ''b''), sv2) \<and>
     game_of json_serde (cv_store sv2) 1 = Some (new_game 1 ''b'')"
proof -
  obtain r1 sv1 where one: "create_game json_serde (\<lambda>i. False) 9 ''a'' (Some 1) demo_admin = (r1, sv1)" by fastforce
  obtain r2 sv2 where two: "create_game json_serde (\<lambda>i. False) 9 ''b'' None sv1 = (r2, sv2)" by fastforce
  have "db_counters (cv_store sv1) = [(NEXT_AUDIT_ID, 1)]"
    using one by (auto simp: create_game_def game_id_for_def handler_defs audit_def add_audit_def next_id_def
      insert_json_def insert_game_def demo_admin_def with_events_def save_version_def insert_node_def ensure_tables_def
      get_game_def get_from_json_def get_json_def tbl_get_def tbl_insert_def Let_def)
  then have "ctr (cv_store sv1) NEXT_AUDIT_ID < -1" by (simp add: ctr_def tbl_get_def) code_simp
  from create_game_overwrites [OF json_serde_ok demo_admin_ok(1) _ _ _ _ _ _ _ this one two] one two
  show ?thesis by (simp add: demo_admin_ok)
qed

section \<open>Cancellation and rollback\<close>

lemma find_decoded:
  "tbl_ok t \<Longrightarrow> decodes dec key t \<Longrightarrow>
     find (\<lambda>x. key x = i) (map (\<lambda>e. the (dec (snd e))) t) = (case tbl_get t i of None \<Rightarrow> None | Some j \<Rightarrow> dec j)"
proof (induction t)
  case (Cons e t)
  obtain k j where e: "e = (k, j)" by fastforce
  with Cons.prems obtain x where "dec j = Some x" "key x = k" by (auto simp: decodes_def split: option.splits)
  with Cons e show ?case by (auto simp: tbl_get_def tbl_ok_def decodes_def)
qed (simp add: tbl_get_def)

lemma find_task: "db_ok cd st \<Longrightarrow> find (\<lambda>t. tk_id t = i) (all_tasks cd st) = task_of cd st i"
  using find_decoded [of "db_tasks st" "dec_task cd" tk_id i] by (simp add: all_tasks_def task_of_def db_ok_defs)

lemma update_task_status_run:
  assumes "serde_ok cd" "db_ok cd st" "task_of cd st i = Some t"
  shows "\<exists>st'. update_task_status cd False i s e st = (Inr True, st') \<and> db_ok cd st' \<and> ctr st' c = ctr st c \<and>
    task_of cd st' = (task_of cd st)(i \<mapsto> t\<lparr>tk_status := s, tk_error := e\<rparr>)"
proof -
  obtain r st' where run: "update_task_status cd False i s e st = (r, st')" by fastforce
  have "tbl_ok (db_tasks st)" using assms(2) by (simp add: db_ok_defs)
  with run assms update_task_status_ok [OF assms(1,2) run] show ?thesis
    by (auto simp: update_task_status_def task_of_def db_decode_def tbl_simps serde_ok_def fun_eq_iff split: option.splits)
qed

text \<open>
  Cancellation. An unknown task is not found and a task that is not queued is refused,
  both without effect; a queued task becomes cancelled and no other task changes. The node's
  queue of events keeps the task, so a watching node still gets it, and the node's later report
  replaces the cancelled status by whatever it reports.
\<close>

theorem cancel_task_spec:
  assumes "serde_ok cd" and "db_ok cd (cv_store sv)" and "ctr (cv_store sv) NEXT_AUDIT_ID < -1" and "\<And>i. \<not> flt i"
    and "cancel_task cd flt now i sv = (r, sv')"
  shows "cv_pending sv' = cv_pending sv \<and>
    (case task_of cd (cv_store sv) i of
       None \<Rightarrow> r = Inl NOT_FOUND \<and> sv' = sv
     | Some t \<Rightarrow>
         if tk_status t \<noteq> ''queued'' then r = Inl BAD_REQUEST \<and> sv' = sv
         else r = Inr () \<and>
           (\<exists>t'. tk_status t' = ''cancelled'' \<and> task_of cd (cv_store sv') = (task_of cd (cv_store sv))(i \<mapsto> t')) \<and>
           (\<forall>s e. \<exists>t''. tk_status t'' = s \<and>
              task_of cd (cv_store (snd (report_task cd False i s e sv'))) = (task_of cd (cv_store sv))(i \<mapsto> t'')))"
proof -
  let ?st = "cv_store sv"
  note find = find_task [OF assms(2), of i] list_tasks_eq [OF assms(2)]
  show ?thesis
  proof (cases "\<exists>t. task_of cd ?st i = Some t \<and> tk_status t = ''queued''")
    case False
    with find assms(4,5) show ?thesis
      by (cases "task_of cd ?st i") (auto simp: cancel_task_def handler_defs)
  next
    case True
    then obtain t where t: "task_of cd ?st i = Some t" "tk_status t = ''queued''" by blast
    let ?t = "t\<lparr>tk_status := ''cancelled'', tk_error := ''cancelled by operator''\<rparr>"
    obtain st1 where st1: "update_task_status cd False i ''cancelled'' ''cancelled by operator'' ?st = (Inr True, st1)"
        "db_ok cd st1" "ctr st1 NEXT_AUDIT_ID = ctr ?st NEXT_AUDIT_ID" "task_of cd st1 = (task_of cd ?st)(i \<mapsto> ?t)"
      using update_task_status_run [OF assms(1,2) t(1)] by blast
    define sv1 where "sv1 = sv\<lparr>cv_store := st1, cv_events := cv_events sv @ [TaskStatus i ''cancelled'']\<rparr>"
    have sv1: "db_ok cd (cv_store sv1)" "ctr (cv_store sv1) NEXT_AUDIT_ID < -1" "cv_store sv1 = st1" "cv_pending sv1 = cv_pending sv"
      using st1 assms(3) by (simp_all add: sv1_def)
    obtain sv2 where sv2: "audit cd (flt 2) (flt 3) now (CancelTask i) sv1 = (Inr (), sv2)" "cv_pending sv2 = cv_pending sv1"
        "same_records cd (cv_store sv1) (cv_store sv2)"
      using bind_audit [of cd "flt 2" "flt 3" now "CancelTask i" http_return sv1] by blast
    have run: "r = Inr ()" "sv' = sv2"
      using assms(4,5) find t st1(1) sv2(1) by (auto simp: cancel_task_def handler_defs sv1_def)
    have tasks: "task_of cd (cv_store sv2) = (task_of cd ?st)(i \<mapsto> ?t)"
      using sv2(3) sv1(3) st1(4) by (simp add: same_records_def)
    have ok2: "db_ok cd (cv_store sv2)" by (rule audit_ok [OF assms(1) sv1(1,2) sv2(1)])
    have late: "\<exists>t''. tk_status t'' = s \<and> task_of cd (cv_store (snd (report_task cd False i s e sv2))) = (task_of cd ?st)(i \<mapsto> t'')" for s e
    proof -
      obtain st3 where "update_task_status cd False i s e (cv_store sv2) = (Inr True, st3)"
          "task_of cd st3 = (task_of cd (cv_store sv2))(i \<mapsto> ?t\<lparr>tk_status := s, tk_error := e\<rparr>)"
        using update_task_status_run [OF assms(1) ok2, of i ?t s e] tasks by auto
      with tasks show ?thesis
        by (intro exI [of _ "?t\<lparr>tk_status := s, tk_error := e\<rparr>"]) (simp add: report_task_def)
    qed
    show ?thesis
      using t run sv1(4) sv2(2) tasks late by (simp add: exI [of _ ?t])
  qed
qed

theorem cancel_task_spec_witness:
  "\<exists>sv t. cv_pending (snd (cancel_task json_serde (\<lambda>i. False) 9 0 sv)) 3 = [TaskPushed (to_proto_task demo_task)] \<and>
     task_of json_serde (cv_store (snd (cancel_task json_serde (\<lambda>i. False) 9 0 sv))) 0 = Some t \<and> tk_status t = ''cancelled''"
proof -
  obtain st where ins: "insert_task json_serde False demo_task (cv_store demo_control) = (Inr (), st)"
    by (auto simp: insert_task_def Let_def)
  let ?sv = "\<lparr>cv_store = st, cv_pending = (\<lambda>_. [])(3 := [TaskPushed (to_proto_task demo_task)]), cv_events = []\<rparr>"
  have ok: "db_ok json_serde (cv_store ?sv)"
    using insert_task_ok [OF json_serde_ok demo_control_ok(1) _ ins] by (simp add: demo_task_def demo_control_ok)
  have lim: "ctr (cv_store ?sv) NEXT_AUDIT_ID < -1"
    using insert_task_view(7) [OF json_serde_ok demo_control_ok(1) ins] by (simp add: demo_control_ok)
  have t: "task_of json_serde (cv_store ?sv) 0 = Some demo_task" "tk_status demo_task = ''queued''"
    using insert_task_view(2) [OF json_serde_ok demo_control_ok(1) ins] by (simp_all add: demo_task_def)
  obtain r sv' where run: "cancel_task json_serde (\<lambda>i. False) 9 0 ?sv = (r, sv')" by fastforce
  from cancel_task_spec [OF json_serde_ok ok lim _ run] t
  obtain t' where "cv_pending sv' = cv_pending ?sv" "tk_status t' = ''cancelled''" "task_of json_serde (cv_store sv') 0 = Some t'"
    by auto
  with run show ?thesis by (intro exI [of _ ?sv] exI [of _ t']) simp
qed

lemma insert_game_view:
  assumes "insert_game cd False gm st = (r, st')"
  shows "task_of cd st' = task_of cd st" "node_of cd st' = node_of cd st" "holders cd st' = holders cd st" "ctr st' c = ctr st c"
  using assms by (auto simp: insert_game_def insert_json_def task_of_def node_of_def holders_def fun_eq_iff)

text \<open>
  Rollback. Version 0 is refused; an unknown game, version or node is not found; in these
  cases nothing changes. Otherwise, with no failing transaction, exactly one fresh rollback task
  for that node and version is stored and queued, and the game's current version becomes the
  requested one.
\<close>

theorem rollback_game_spec:
  assumes "serde_ok cd" and "db_ok cd (cv_store sv)" and "ctr (cv_store sv) NEXT_TASK_ID < -1"
    and "ctr (cv_store sv) NEXT_AUDIT_ID < -1" and "\<And>i. \<not> flt i"
    and "rollback_game cd flt now g n v sv = (r, sv')"
  shows "(v = 0 \<longrightarrow> r = Inl BAD_REQUEST \<and> sv' = sv) \<and>
    (v \<noteq> 0 \<and> (game_of cd (cv_store sv) g = None \<or> node_of cd (cv_store sv) n = None \<or>
        get_version cd False (cv_store sv) g v = Inr None) \<longrightarrow> (\<exists>e. r = Inl e) \<and> sv' = sv) \<and>
    (\<forall>gm node m. v \<noteq> 0 \<and> game_of cd (cv_store sv) g = Some gm \<and> node_of cd (cv_store sv) n = Some node \<and>
        get_version cd False (cv_store sv) g v = Inr (Some m) \<longrightarrow>
      (\<exists>task. r = Inr task \<and> task = new_task (tk_id task) n g v ''ROLLBACK'' [] \<and>
         task_of cd (cv_store sv) (tk_id task) = None \<and> pushed task cd sv sv' \<and> db_ok cd (cv_store sv') \<and>
         game_of cd (cv_store sv') = (game_of cd (cv_store sv))(g \<mapsto> gm\<lparr>gm_current_version := v\<rparr>)))"
proof -
  let ?st = "cv_store sv"
  note reads = get_game_eq [OF assms(2), of g] get_node_eq [OF assms(2), of n]
  have refuse: "(v = 0 \<longrightarrow> r = Inl BAD_REQUEST \<and> sv' = sv) \<and>
    (v \<noteq> 0 \<and> (game_of cd ?st g = None \<or> node_of cd ?st n = None \<or> get_version cd False ?st g v = Inr None) \<longrightarrow> (\<exists>e. r = Inl e) \<and> sv' = sv)"
    using assms(5,6) reads
    by (cases "game_of cd ?st g"; cases "get_version cd False ?st g v") (auto simp: rollback_game_def handler_defs split: if_splits)
  have ok: "\<exists>task. r = Inr task \<and> task = new_task (tk_id task) n g v ''ROLLBACK'' [] \<and>
         task_of cd ?st (tk_id task) = None \<and> pushed task cd sv sv' \<and> db_ok cd (cv_store sv') \<and>
         game_of cd (cv_store sv') = (game_of cd ?st)(g \<mapsto> gm\<lparr>gm_current_version := v\<rparr>)"
    if have_all: "v \<noteq> 0" "game_of cd ?st g = Some gm" "node_of cd ?st n = Some node" "get_version cd False ?st g v = Inr (Some m)" for gm node m
  proof -
    let ?task = "\<lambda>i. new_task i n g v ''ROLLBACK'' []"
    let ?gm = "gm\<lparr>gm_current_version := v\<rparr>"
    let ?k = "\<lambda>i. http_bind (http_op (insert_game cd (flt 5) ?gm)) (\<lambda>_.
      http_bind (audit cd (flt 6) (flt 7) now (RollbackGame g v)) (\<lambda>_. http_return (?task i)))"
    let ?i = "ctr ?st NEXT_TASK_ID + 1"
    have "rollback_game cd flt now g n v sv =
        http_bind (http_op (next_task_id (flt 3))) (\<lambda>i. http_bind (http_push_task cd (flt 4) (?task i)) (\<lambda>_. ?k i)) sv"
      using assms(5) reads have_all by (simp add: rollback_game_def bind_read Let_def)
    moreover obtain sv1 where sv1: "http_bind (http_op (next_task_id (flt 3))) (\<lambda>i. http_bind (http_push_task cd (flt 4) (?task i)) (\<lambda>_. ?k i)) sv = ?k ?i sv1"
        "pushed (?task ?i) cd sv sv1" "db_ok cd (cv_store sv1)" "game_of cd (cv_store sv1) = game_of cd ?st"
        "ctr (cv_store sv1) NEXT_AUDIT_ID = ctr ?st NEXT_AUDIT_ID" "task_of cd ?st ?i = None"
      using push_fresh [OF assms(1-3), of "flt 3" "flt 4" ?task ?k] assms(5) by (auto simp: new_task_def)
    moreover obtain x st2 where ins: "insert_game cd False ?gm (cv_store sv1) = (x, st2)" by fastforce
    let ?sv2 = "sv1\<lparr>cv_store := st2\<rparr>"
    have x: "x = Inr ()" using ins by (auto simp: insert_game_def insert_json_def)
    have ok2: "db_ok cd (cv_store ?sv2)" using insert_game_ok [OF assms(1) sv1(3) ins] by simp
    have lim: "ctr (cv_store ?sv2) NEXT_AUDIT_ID < -1" using insert_game_view(4) [OF ins] sv1(5) assms(4) by simp
    obtain sv3 where sv3: "audit cd (flt 6) (flt 7) now (RollbackGame g v) ?sv2 = (Inr (), sv3)" "cv_pending sv3 = cv_pending ?sv2"
        "same_records cd (cv_store ?sv2) (cv_store sv3)"
      using bind_audit [of cd "flt 6" "flt 7" now "RollbackGame g v" http_return ?sv2] by blast
    have "?k ?i sv1 = (Inr (?task ?i), sv3)"
      using assms(5) ins x sv3(1) by (simp add: handler_defs)
    ultimately have run: "r = Inr (?task ?i)" "sv' = sv3" using assms(6) by simp_all
    have id: "gm_id ?gm = g" using game_of_id [OF assms(2) have_all(2)] by simp
    have games: "game_of cd st2 = (game_of cd ?st)(g \<mapsto> ?gm)" and vers: "get_version cd False st2 = get_version cd False (cv_store sv1)"
      using game_of_insert [OF assms(1) sv1(3) ins] id sv1(4) by auto
    have "pushed (?task ?i) cd sv sv3"
      using sv1(2) sv3(2,3) insert_game_view(1-3) [OF ins] vers by (simp add: pushed_def same_records_def)
    moreover have "tk_id (?task ?i) = ?i" by (simp add: new_task_def)
    ultimately show ?thesis
      using run sv1(6) sv3(3) games audit_ok [OF assms(1) ok2 lim sv3(1)]
      by (intro exI [of _ "?task ?i"]) (simp add: same_records_def)
  qed
  from refuse ok show ?thesis by blast
qed

theorem rollback_game_spec_witness:
  "\<exists>sv i. fst (rollback_game json_serde (\<lambda>i. False) 9 5 0 1 sv) = Inr (new_task i 0 5 1 ''ROLLBACK'' [])"
proof -
  obtain st where ins: "insert_game json_serde False (new_game 5 ''g'') (cv_store demo_admin) = (Inr (), st)"
    by (auto simp: insert_game_def insert_json_def)
  let ?sv = "with_events st"
  have sv: "cv_store ?sv = st" by (simp add: with_events_def)
  have ok: "db_ok json_serde (cv_store ?sv)" unfolding sv by (rule insert_game_ok [OF json_serde_ok demo_admin_ok(1) ins])
  have lim: "ctr (cv_store ?sv) c < -1" for c
    using insert_game_view(4) [OF ins] by (simp add: demo_admin_ok sv)
  have gm: "game_of json_serde (cv_store ?sv) 5 = Some (new_game 5 ''g'')"
    and ver: "get_version json_serde False (cv_store ?sv) 5 1 = Inr (Some (encode demo_index))"
    using game_of_insert [OF json_serde_ok demo_admin_ok(1) ins] demo_admin_ok(4) sv by (auto simp: new_game_def)
  have nd: "node_of json_serde (cv_store ?sv) 0 = Some demo_node"
    using insert_game_view(2) [OF ins] by (simp add: sv demo_admin_ok)
  obtain r sv' where run: "rollback_game json_serde (\<lambda>i. False) 9 5 0 1 ?sv = (r, sv')" by fastforce
  have "(\<forall>gm node m. (1 :: u64) \<noteq> 0 \<and> game_of json_serde (cv_store ?sv) 5 = Some gm \<and> node_of json_serde (cv_store ?sv) 0 = Some node \<and>
      get_version json_serde False (cv_store ?sv) 5 1 = Inr (Some m) \<longrightarrow>
      (\<exists>task. r = Inr task \<and> task = new_task (tk_id task) 0 5 1 ''ROLLBACK'' []))"
    using rollback_game_spec [OF json_serde_ok ok lim lim _ run] by blast
  with gm nd ver obtain task where task: "r = Inr task" "task = new_task (tk_id task) 0 5 1 ''ROLLBACK'' []" by auto
  with run show ?thesis by (intro exI [of _ ?sv] exI [of _ "tk_id task"]) simp
qed

end
