(* ===== verification/Sched_System.thy ===== *)
theory Sched_System
  imports Sched_Keepalive Sched_Http "HOL-Library.Multiset"
begin

text \<open>
  Concurrent requests at the scheduler. The HTTP handlers (\<^verbatim>\<open>crates/scheduler/src/http.rs\<close>), the
  RPC handlers (\<^verbatim>\<open>crates/scheduler/src/server.rs\<close>) and the keep-alive loop
  (\<^verbatim>\<open>crates/scheduler/src/keepalive.rs\<close>) run in parallel over one store. Each is cut here at the
  points where it leaves shared state: one store transaction, one access to the locked queues, or
  one send to the event bus is a step, and between two steps of a handler any other may run.

  A \<open>point\<close> is a handler between two steps, with its local variables. \<open>arrive\<close> is the router with
  the checks made before the first step, \<open>advance\<close> the next step of a handler; its arguments say
  whether the step's transaction fails and what the clock shows. The state of the system is the
  service, the multiset of handlers in flight, and the events that watching nodes have taken out
  of their queues.
\<close>

section \<open>Handlers in flight\<close>

datatype account_request = NewUser string string | NewPlace string string | NewGroup string

datatype account_row = UserRow user_record | PlaceRow place_record | GroupRow group_record

datatype removal = RmUser u64 | RmPlace u64 | RmGroup u64 | RmGame u64

text \<open>A task on its way: the fields known before its number is allocated, and for a rollback the
  game record to be written after the task is pushed.\<close>

record task_draft =
  td_node_id :: u64
  td_game_id :: u64
  td_version :: u64
  td_kind :: string
  td_chunks :: "bytes list"
  td_rollback :: "game_record option"

datatype point =
    AuditId audit_action
  | AuditPut audit_record
  | AccountId account_request
  | AccountPut account_row
  | Remove removal
  | BindPut string u64 u64
  | GameCheck string u64
  | GameId string
  | GamePut game_record
  | TaskNode task_draft
  | TaskVersion task_draft
  | TaskHolders task_draft "bytes list"
  | TaskId task_draft
  | TaskPut task_record "game_record option"
  | TaskQueue task_record "game_record option"
  | TaskBroadcast task_record "game_record option"
  | RollGame u64 u64 u64
  | RollVersion game_record task_draft
  | RollNode task_draft
  | RollPut game_record u64 u64
  | CancelFind u64
  | CancelPut u64
  | CancelBroadcast u64
  | NodeId register_request
  | NodePut node_record
  | NodeTasks u64
  | BeatNode u64
  | BeatPut node_record
  | ReportPut u64 string string
  | ReportBroadcast u64 string
  | ChunkPut u64 u64 bytes
  | VersionPut u64 u64 bytes
  | VersionGame u64 u64
  | LatestPut game_record
  | OfflineFind u64
  | StatusGet "(string \<times> u64) list"
  | StatusPut node_record "(string \<times> u64) list"

section \<open>Arriving requests\<close>

text \<open>The requests that change the service; the others only read.\<close>

datatype request =
    PostUser string string
  | PostPlace string string
  | PostGroup string
  | DeleteUserReq u64
  | DeletePlaceReq u64
  | DeleteGroupReq u64
  | DeleteGameReq u64
  | PostBinding string u64 u64
  | PostGame string "u64 option"
  | PostTask u64 u64 u64 string
  | PostRollback u64 u64 u64
  | PostCancel u64
  | RpcRegister register_request
  | RpcHeartbeat u64
  | RpcReportTask u64 string string
  | RpcReportChunk u64 u64 bytes
  | RpcPublishVersion u64 u64 bytes
  | TickOffline u64
  | TickStatus "(string \<times> u64) list"

fun arrive :: "request \<Rightarrow> point option" where
  "arrive (PostUser username password) =
     (if username = [] \<or> password = [] then None else Some (AccountId (NewUser username password)))"
| "arrive (PostPlace name region) = (if name = [] then None else Some (AccountId (NewPlace name region)))"
| "arrive (PostGroup name) = (if name = [] then None else Some (AccountId (NewGroup name)))"
| "arrive (DeleteUserReq i) = Some (Remove (RmUser i))"
| "arrive (DeletePlaceReq i) = Some (Remove (RmPlace i))"
| "arrive (DeleteGroupReq i) = Some (Remove (RmGroup i))"
| "arrive (DeleteGameReq i) = Some (Remove (RmGame i))"
| "arrive (PostBinding kind a b) = (if kind \<notin> set bind_kinds then None else Some (BindPut kind a b))"
| "arrive (PostGame name req) =
     (if name = [] then None
      else case req of
        Some i \<Rightarrow> if i = 0 then None else Some (GameCheck name i)
      | None \<Rightarrow> Some (GameId name))"
| "arrive (PostTask node_id game_id version kind) =
     (if kind = [] then None
      else Some (TaskNode \<lparr>td_node_id = node_id, td_game_id = game_id, td_version = version, td_kind = kind,
             td_chunks = [], td_rollback = None\<rparr>))"
| "arrive (PostRollback game_id node_id version) =
     (if version = 0 then None else Some (RollGame game_id node_id version))"
| "arrive (PostCancel i) = Some (CancelFind i)"
| "arrive (RpcRegister req) = (if \<not> valid_node_type (rq_node_type req) then None else Some (NodeId req))"
| "arrive (RpcHeartbeat i) = Some (BeatNode i)"
| "arrive (RpcReportTask i stat err) = Some (ReportPut i stat err)"
| "arrive (RpcReportChunk node_id game_id hash) = Some (ChunkPut node_id game_id hash)"
| "arrive (RpcPublishVersion game_id version manifest) =
     (if game_id = 0 \<or> version = 0 then None
      else if manifest = [] then None
      else Some (VersionPut game_id version manifest))"
| "arrive (TickOffline timeout_ms) = Some (OfflineFind timeout_ms)"
| "arrive (TickStatus wants) = Some (StatusGet wants)"

section \<open>One step of a handler\<close>

text \<open>A store transaction: the handler ends when it fails.\<close>

definition on_store :: "('j, 'a) db_op \<Rightarrow> ('a \<Rightarrow> point option) \<Rightarrow> 'j control_service \<Rightarrow> point option \<times> 'j control_service" where
  "on_store f k sv =
     (case f (cv_store sv) of
        (Inl _, st) \<Rightarrow> (None, sv\<lparr>cv_store := st\<rparr>)
      | (Inr x, st) \<Rightarrow> (k x, sv\<lparr>cv_store := st\<rparr>))"

definition on_read :: "('j store \<Rightarrow> db_error + 'a) \<Rightarrow> ('a \<Rightarrow> point option) \<Rightarrow> 'j control_service \<Rightarrow> point option \<times> 'j control_service" where
  "on_read f k sv = (case f (cv_store sv) of Inl _ \<Rightarrow> (None, sv) | Inr x \<Rightarrow> (k x, sv))"

definition if_found :: "audit_action \<Rightarrow> bool \<Rightarrow> point option" where
  "if_found act found = (if found then Some (AuditId act) else None)"

fun advance_account ::
    "(bytes \<Rightarrow> bytes) \<Rightarrow> bool \<Rightarrow> (nat \<Rightarrow> u64) \<Rightarrow> account_request \<Rightarrow> 'j control_service \<Rightarrow> point option \<times> 'j control_service" where
  "advance_account blake3 flt now (NewUser username password) =
     on_store (next_user_id flt) (\<lambda>i.
       let salt = show_u64 (now 0) in
       Some (AccountPut (UserRow \<lparr>ur_id = i, ur_username = username,
         ur_password_hash = hash_password blake3 password salt, ur_salt = salt\<rparr>)))"
| "advance_account blake3 flt now (NewPlace name region) =
     on_store (next_place_id flt) (\<lambda>i. Some (AccountPut (PlaceRow \<lparr>pr_id = i, pr_name = name, pr_region = region\<rparr>)))"
| "advance_account blake3 flt now (NewGroup name) =
     on_store (next_group_id flt) (\<lambda>i. Some (AccountPut (GroupRow \<lparr>gr_id = i, gr_name = name\<rparr>)))"

fun advance_row :: "'j serde \<Rightarrow> bool \<Rightarrow> account_row \<Rightarrow> 'j control_service \<Rightarrow> point option \<times> 'j control_service" where
  "advance_row cd flt (UserRow u) = on_store (insert_user cd flt u) (\<lambda>_. Some (AuditId (CreateUser (ur_id u))))"
| "advance_row cd flt (PlaceRow p) = on_store (insert_place cd flt p) (\<lambda>_. Some (AuditId (CreatePlace (pr_id p))))"
| "advance_row cd flt (GroupRow g) = on_store (insert_group cd flt g) (\<lambda>_. Some (AuditId (CreateGroup (gr_id g))))"

fun advance_removal :: "bool \<Rightarrow> removal \<Rightarrow> 'j control_service \<Rightarrow> point option \<times> 'j control_service" where
  "advance_removal flt (RmUser i) = on_store (delete_user flt i) (if_found (DeleteUser i))"
| "advance_removal flt (RmPlace i) = on_store (delete_place flt i) (if_found (DeletePlace i))"
| "advance_removal flt (RmGroup i) = on_store (delete_group flt i) (if_found (DeleteGroup i))"
| "advance_removal flt (RmGame i) = on_store (delete_game flt i) (if_found (DeleteGame i))"

definition draft_task :: "task_draft \<Rightarrow> u64 \<Rightarrow> task_record" where
  "draft_task d i = new_task i (td_node_id d) (td_game_id d) (td_version d) (td_kind d) (td_chunks d)"

text \<open>What follows the push of a task: the audit of a creation, or the game record of a rollback.\<close>

definition after_push :: "task_record \<Rightarrow> game_record option \<Rightarrow> point" where
  "after_push task roll =
     (case roll of
        None \<Rightarrow> AuditId (CreateTask (tk_id task) (tk_game_id task) (tk_version task))
      | Some game \<Rightarrow> RollPut game (tk_game_id task) (tk_version task))"

definition set_next :: "(string \<times> u64) list \<Rightarrow> point option" where
  "set_next xs = (if xs = [] then None else Some (StatusGet xs))"

text \<open>The loop of the chunk assignment: what is left to look up, then the number of the task.\<close>

definition holders_next :: "task_draft \<Rightarrow> bytes list \<Rightarrow> point" where
  "holders_next d hs = (if hs = [] then TaskId (d\<lparr>td_chunks := sort (td_chunks d)\<rparr>) else TaskHolders d hs)"

definition insert_audit :: "'j serde \<Rightarrow> bool \<Rightarrow> audit_record \<Rightarrow> ('j, unit) db_op" where
  "insert_audit cd flt r st =
     (case insert_json flt (au_id r) (enc_audit cd r) (db_audits st) of (x, t) \<Rightarrow> (x, st\<lparr>db_audits := t\<rparr>))"

definition enqueue :: "task_record \<Rightarrow> 'j control_service \<Rightarrow> 'j control_service" where
  "enqueue task sv = sv\<lparr>cv_pending := (cv_pending sv)(tk_node_id task :=
     cv_pending sv (tk_node_id task) @ [TaskPushed (to_proto_task task)])\<rparr>"

definition broadcast :: "bus_event \<Rightarrow> 'j control_service \<Rightarrow> 'j control_service" where
  "broadcast e sv = sv\<lparr>cv_events := cv_events sv @ [e]\<rparr>"

fun advance_task ::
    "(bytes \<Rightarrow> bytes) \<Rightarrow> (bytes list \<Rightarrow> bytes list) \<Rightarrow> 'j serde \<Rightarrow> bool \<Rightarrow> point \<Rightarrow> 'j control_service \<Rightarrow>
     point option \<times> 'j control_service" where
  "advance_task blake3 order cd flt (TaskNode d) =
     on_read (\<lambda>st. get_node cd flt st (td_node_id d)) (\<lambda>n. case n of
       None \<Rightarrow> None
     | Some node \<Rightarrow> Some (if nd_node_type node \<noteq> ''idc'' then TaskId d else TaskVersion d))"
| "advance_task blake3 order cd flt (TaskVersion d) =
     on_read (\<lambda>st. get_version cd flt st (td_game_id d) (td_version d)) (\<lambda>m. case m of
       None \<Rightarrow> Some (TaskId d)
     | Some manifest \<Rightarrow>
         (case decode blake3 manifest of
            Inl _ \<Rightarrow> None
          | Inr index \<Rightarrow> Some (holders_next d (order (remdups (chunk_hashes index))))))"
| "advance_task blake3 order cd flt (TaskHolders d []) = (\<lambda>sv. (Some (holders_next d []), sv))"
| "advance_task blake3 order cd flt (TaskHolders d (h # hs)) =
     on_read (\<lambda>st. chunk_holders cd flt st (td_game_id d) h) (\<lambda>ids.
       Some (holders_next (if ids = [] then d\<lparr>td_chunks := td_chunks d @ [h]\<rparr> else d) hs))"
| "advance_task blake3 order cd flt (RollGame game_id node_id version) =
     on_read (\<lambda>st. get_game cd flt st game_id) (\<lambda>g. case g of
       None \<Rightarrow> None
     | Some game \<Rightarrow> Some (RollVersion (game\<lparr>gm_current_version := version\<rparr>)
         \<lparr>td_node_id = node_id, td_game_id = game_id, td_version = version, td_kind = ''ROLLBACK'',
          td_chunks = [], td_rollback = None\<rparr>))"
| "advance_task blake3 order cd flt (RollVersion game d) =
     on_read (\<lambda>st. get_version cd flt st (td_game_id d) (td_version d)) (\<lambda>m.
       if m = None then None else Some (RollNode (d\<lparr>td_rollback := Some game\<rparr>)))"
| "advance_task blake3 order cd flt (RollNode d) =
     on_read (\<lambda>st. get_node cd flt st (td_node_id d)) (\<lambda>n. if n = None then None else Some (TaskId d))"
| "advance_task blake3 order cd flt (TaskId d) =
     on_store (next_task_id flt) (\<lambda>i. Some (TaskPut (draft_task d i) (td_rollback d)))"
| "advance_task blake3 order cd flt (TaskPut task roll) =
     on_store (insert_task cd flt task) (\<lambda>_. Some (TaskQueue task roll))"
| "advance_task blake3 order cd flt (TaskQueue task roll) = (\<lambda>sv. (Some (TaskBroadcast task roll), enqueue task sv))"
| "advance_task blake3 order cd flt (TaskBroadcast task roll) =
     (\<lambda>sv. (Some (after_push task roll),
            broadcast (TaskCreated (tk_id task) (tk_node_id task) (tk_game_id task)) sv))"
| "advance_task blake3 order cd flt (RollPut game game_id version) =
     on_store (insert_game cd flt game) (\<lambda>_. Some (AuditId (RollbackGame game_id version)))"
| "advance_task blake3 order cd flt (CancelFind i) =
     on_read (list_tasks cd flt) (\<lambda>ts. case find (\<lambda>t. tk_id t = i) ts of
       None \<Rightarrow> None
     | Some task \<Rightarrow> if tk_status task \<noteq> ''queued'' then None else Some (CancelPut i))"
| "advance_task blake3 order cd flt (CancelPut i) =
     on_store (update_task_status cd flt i ''cancelled'' ''cancelled by operator'') (\<lambda>_. Some (CancelBroadcast i))"
| "advance_task blake3 order cd flt (CancelBroadcast i) =
     (\<lambda>sv. (Some (AuditId (CancelTask i)), broadcast (TaskStatus i ''cancelled'') sv))"
| "advance_task blake3 order cd flt p = Pair None"

text \<open>Audits, accounts, bindings and games.\<close>

fun advance_admin ::
    "(bytes \<Rightarrow> bytes) \<Rightarrow> (bytes list \<Rightarrow> bytes list) \<Rightarrow> 'j serde \<Rightarrow> bool \<Rightarrow> (nat \<Rightarrow> u64) \<Rightarrow> point \<Rightarrow> 'j control_service \<Rightarrow>
     point option \<times> 'j control_service" where
  "advance_admin blake3 order cd flt now (AuditId act) =
     on_store (next_id flt NEXT_AUDIT_ID) (\<lambda>i.
       Some (AuditPut \<lparr>au_id = i, au_time_ms = now 0, au_actor = ''admin'', au_action = act\<rparr>))"
| "advance_admin blake3 order cd flt now (AuditPut r) = on_store (insert_audit cd flt r) (\<lambda>_. None)"
| "advance_admin blake3 order cd flt now (AccountId req) = advance_account blake3 flt now req"
| "advance_admin blake3 order cd flt now (AccountPut row) = advance_row cd flt row"
| "advance_admin blake3 order cd flt now (Remove rm) = advance_removal flt rm"
| "advance_admin blake3 order cd flt now (BindPut kind a b) = on_store (bind_ids flt kind a b) (\<lambda>_. Some (AuditId (Bind kind a b)))"
| "advance_admin blake3 order cd flt now (GameCheck name i) =
     on_read (\<lambda>st. get_game cd flt st i) (\<lambda>g. if g \<noteq> None then None else Some (GamePut (new_game i name)))"
| "advance_admin blake3 order cd flt now (GameId name) = on_store (next_game_id flt) (\<lambda>i. Some (GamePut (new_game i name)))"
| "advance_admin blake3 order cd flt now (GamePut game) = on_store (insert_game cd flt game) (\<lambda>_. Some (AuditId (CreateGame (gm_id game))))"
| "advance_admin blake3 order cd flt now p = advance_task blake3 order cd flt p"

text \<open>The keep-alive loop.\<close>

fun advance_tick ::
    "(bytes \<Rightarrow> bytes) \<Rightarrow> (bytes list \<Rightarrow> bytes list) \<Rightarrow> 'j serde \<Rightarrow> bool \<Rightarrow> (nat \<Rightarrow> u64) \<Rightarrow> point \<Rightarrow> 'j control_service \<Rightarrow>
     point option \<times> 'j control_service" where
  "advance_tick blake3 order cd flt now (OfflineFind timeout_ms) =
     (\<lambda>sv. (set_next (map (Pair ''offline'')
              (case offline_nodes cd flt (cv_store sv) (now 0) timeout_ms of Inl _ \<Rightarrow> [] | Inr ids \<Rightarrow> ids)), sv))"
| "advance_tick blake3 order cd flt now (StatusGet []) = Pair None"
| "advance_tick blake3 order cd flt now (StatusGet ((want, i) # xs)) =
     (\<lambda>sv. (case get_node cd flt (cv_store sv) i of
              Inr (Some node) \<Rightarrow>
                if nd_status node \<noteq> want then Some (StatusPut (node\<lparr>nd_status := want\<rparr>) xs) else set_next xs
            | _ \<Rightarrow> set_next xs, sv))"
| "advance_tick blake3 order cd flt now (StatusPut node xs) =
     (\<lambda>sv. (set_next xs, sv\<lparr>cv_store := snd (insert_node cd flt node (cv_store sv))\<rparr>))"
| "advance_tick blake3 order cd flt now p = advance_admin blake3 order cd flt now p"

text \<open>The calls of the nodes and the origin; any other point belongs to the groups above.\<close>

fun advance ::
    "(bytes \<Rightarrow> bytes) \<Rightarrow> (bytes list \<Rightarrow> bytes list) \<Rightarrow> 'j serde \<Rightarrow> bool \<Rightarrow> (nat \<Rightarrow> u64) \<Rightarrow> point \<Rightarrow> 'j control_service \<Rightarrow>
     point option \<times> 'j control_service" where
  "advance blake3 order cd flt now (NodeId req) =
     on_store (next_node_id flt) (\<lambda>nid.
       Some (NodePut \<lparr>nd_id = nid, nd_node_type = rq_node_type req, nd_endpoint_id = rq_endpoint_id req,
         nd_token = show_u64 (now 0) @ ''-'' @ show_u64 nid, nd_addrs = rq_addrs req, nd_status = ''online'',
         nd_last_heartbeat_ms = now 1\<rparr>))"
| "advance blake3 order cd flt now (NodePut node) = on_store (insert_node cd flt node) (\<lambda>_. Some (NodeTasks (nd_id node)))"
| "advance blake3 order cd flt now (NodeTasks i) = on_read (\<lambda>st. tasks_for_node cd flt st i) (\<lambda>_. None)"
| "advance blake3 order cd flt now (BeatNode i) =
     on_read (\<lambda>st. get_node cd flt st i) (\<lambda>n. case n of
       None \<Rightarrow> None
     | Some node \<Rightarrow> Some (BeatPut (node\<lparr>nd_last_heartbeat_ms := now 0, nd_status := ''online''\<rparr>)))"
| "advance blake3 order cd flt now (BeatPut node) = on_store (insert_node cd flt node) (\<lambda>_. Some (NodeTasks (nd_id node)))"
| "advance blake3 order cd flt now (ReportPut i stat err) =
     on_store (update_task_status cd flt i stat err) (\<lambda>_. Some (ReportBroadcast i stat))"
| "advance blake3 order cd flt now (ReportBroadcast i stat) = (\<lambda>sv. (None, broadcast (TaskStatus i stat) sv))"
| "advance blake3 order cd flt now (ChunkPut node_id game_id hash) = on_store (record_chunk_holder cd flt node_id game_id hash) (\<lambda>_. None)"
| "advance blake3 order cd flt now (VersionPut game_id version manifest) =
     on_store (save_version cd flt game_id version manifest) (\<lambda>_. Some (VersionGame game_id version))"
| "advance blake3 order cd flt now (VersionGame game_id version) =
     on_read (\<lambda>st. get_game cd flt st game_id) (\<lambda>g. case g of
       None \<Rightarrow> None
     | Some game \<Rightarrow>
         if gm_latest_version game < version then Some (LatestPut (game\<lparr>gm_latest_version := version\<rparr>)) else None)"
| "advance blake3 order cd flt now (LatestPut game) = on_store (insert_game cd flt game) (\<lambda>_. None)"
| "advance blake3 order cd flt now p = advance_tick blake3 order cd flt now p"

section \<open>The system\<close>

record 'j sched_system =
  sy_service :: "'j control_service"
  sy_pool :: "point multiset"
  sy_taken :: "u64 \<Rightarrow> task_event list"

definition opt_mset :: "'a option \<Rightarrow> 'a multiset" where
  "opt_mset x = (case x of None \<Rightarrow> {#} | Some y \<Rightarrow> {#y#})"

definition sched_start :: "'j store \<Rightarrow> 'j sched_system" where
  "sched_start st = \<lparr>sy_service = with_events st, sy_pool = {#}, sy_taken = (\<lambda>_. [])\<rparr>"

text \<open>
  A step: a request arrives, a handler in flight makes its next step, or the loop of a watching
  node drains that node's queue (whether its sends then succeed does not change the service).
\<close>

inductive sched_step ::
    "(bytes \<Rightarrow> bytes) \<Rightarrow> (bytes list \<Rightarrow> bytes list) \<Rightarrow> 'j serde \<Rightarrow> 'j sched_system \<Rightarrow> 'j sched_system \<Rightarrow> bool"
  for blake3 order cd where
  step_arrive: "sched_step blake3 order cd s (s\<lparr>sy_pool := sy_pool s + opt_mset (arrive req)\<rparr>)"
| step_advance: "p \<in># sy_pool s \<Longrightarrow> advance blake3 order cd flt now p (sy_service s) = (q, sv) \<Longrightarrow>
     sched_step blake3 order cd s (s\<lparr>sy_service := sv, sy_pool := sy_pool s - {#p#} + opt_mset q\<rparr>)"
| step_watch: "watch_round sends n (sy_service s) = (out, go, sv) \<Longrightarrow>
     sched_step blake3 order cd s (s\<lparr>sy_service := sv,
       sy_taken := (sy_taken s)(n := sy_taken s n @ cv_pending (sy_service s) n)\<rparr>)"

text \<open>Runs, with their number of steps.\<close>

inductive sched_run ::
    "(bytes \<Rightarrow> bytes) \<Rightarrow> (bytes list \<Rightarrow> bytes list) \<Rightarrow> 'j serde \<Rightarrow> 'j sched_system \<Rightarrow> nat \<Rightarrow> 'j sched_system \<Rightarrow> bool"
  for blake3 order cd s where
  run_none: "sched_run blake3 order cd s 0 s"
| run_step: "sched_run blake3 order cd s n t \<Longrightarrow> sched_step blake3 order cd t u \<Longrightarrow> sched_run blake3 order cd s (Suc n) u"


section \<open>What a step does to the store\<close>

text \<open>The tasks of the table as the queues show them: the node and the event.\<close>

definition pushes :: "'j serde \<Rightarrow> 'j store \<Rightarrow> (u64 \<times> task_event) list" where
  "pushes cd st = map (\<lambda>t. (tk_node_id t, TaskPushed (to_proto_task t))) (all_tasks cd st)"

definition task_ids :: "'j serde \<Rightarrow> 'j store \<Rightarrow> u64 set" where
  "task_ids cd st = (\<lambda>(_, e). case e of TaskPushed p \<Rightarrow> pt_id p) ` set (pushes cd st)"

text \<open>A quiet change keeps the invariant and the tasks apart from their status, and moves each
  counter forward by at most one.\<close>

definition quiet :: "'j serde \<Rightarrow> 'j store \<Rightarrow> 'j store \<Rightarrow> bool" where
  "quiet cd st st' \<longleftrightarrow> db_ok cd st' \<and> (\<forall>c. ctr st c \<le> ctr st' c) \<and> (\<forall>c. unat (ctr st' c) \<le> Suc (unat (ctr st c))) \<and>
     pushes cd st' = pushes cd st"

named_theorems quiet_ops \<open>store operations that change the store quietly\<close>

lemma quiet_refl: "db_ok cd st \<Longrightarrow> quiet cd st st"
  by (simp add: quiet_def)

lemma quietI:
  "db_ok cd st' \<Longrightarrow> db_counters st' = db_counters st \<Longrightarrow> db_tasks st' = db_tasks st \<Longrightarrow> quiet cd st st'"
  by (simp add: quiet_def ctr_def pushes_def all_tasks_def)

lemma next_id_quiet [quiet_ops]:
  assumes "next_id flt c st = (r, st')" "db_ok cd st" "\<forall>c. ctr st c < -1"
  shows "quiet cd st st'"
proof (cases r)
  case (Inl e)
  with next_id_error [of flt c st e st'] assms show ?thesis by (simp add: quiet_refl)
next
  case (Inr n)
  have "tbl_ok (db_counters st)" using assms(2) by (simp add: db_ok_defs)
  note n = ctr_next_id [OF this assms(1) [unfolded Inr]]
  have lim: "ctr st c < -1" using assms(3) by blast
  have suc: "unat (ctr st c + 1) \<le> Suc (unat (ctr st c))"
    using lim by unat_arith
  have "pushes cd st' = pushes cd st" using next_id_views(4) [OF assms(1)] by (simp add: pushes_def)
  moreover have "ctr st c' \<le> ctr st' c' \<and> unat (ctr st' c') \<le> Suc (unat (ctr st c'))" for c'
    using n suc word_le_Suc [OF lim] by simp
  ultimately show ?thesis using next_id_ok [OF assms(2,1) lim] by (simp add: quiet_def)
qed

lemma insert_user_quiet [quiet_ops]:
  assumes "insert_user cd flt u st = (r, st')" "serde_ok cd" "db_ok cd st" "ur_id u \<le> ctr st NEXT_USER_ID"
  shows "quiet cd st st'"
proof (rule quietI)
  show "db_ok cd st'"
    using assms decodes_insert [of "db_users st" "dec_user cd" ur_id "enc_user cd u" u "ur_id u"]
      ids_below_insert [of "db_users st" "ctr st NEXT_USER_ID" "ur_id u" "enc_user cd u"]
    by (auto simp: insert_user_def insert_json_def db_ok_defs serde_ok_def tbl_simps split: if_splits)
qed (use assms in \<open>auto simp: insert_user_def insert_json_def split: if_splits\<close>)

lemma insert_place_quiet [quiet_ops]:
  assumes "insert_place cd flt u st = (r, st')" "serde_ok cd" "db_ok cd st" "pr_id u \<le> ctr st NEXT_PLACE_ID"
  shows "quiet cd st st'"
proof (rule quietI)
  show "db_ok cd st'"
    using assms decodes_insert [of "db_places st" "dec_place cd" pr_id "enc_place cd u" u "pr_id u"]
      ids_below_insert [of "db_places st" "ctr st NEXT_PLACE_ID" "pr_id u" "enc_place cd u"]
    by (auto simp: insert_place_def insert_json_def db_ok_defs serde_ok_def tbl_simps split: if_splits)
qed (use assms in \<open>auto simp: insert_place_def insert_json_def split: if_splits\<close>)

lemma insert_group_quiet [quiet_ops]:
  assumes "insert_group cd flt u st = (r, st')" "serde_ok cd" "db_ok cd st" "gr_id u \<le> ctr st NEXT_GROUP_ID"
  shows "quiet cd st st'"
proof (rule quietI)
  show "db_ok cd st'"
    using assms decodes_insert [of "db_groups st" "dec_group cd" gr_id "enc_group cd u" u "gr_id u"]
      ids_below_insert [of "db_groups st" "ctr st NEXT_GROUP_ID" "gr_id u" "enc_group cd u"]
    by (auto simp: insert_group_def insert_json_def db_ok_defs serde_ok_def tbl_simps split: if_splits)
qed (use assms in \<open>auto simp: insert_group_def insert_json_def split: if_splits\<close>)

lemma insert_audit_quiet [quiet_ops]:
  assumes "insert_audit cd flt u st = (r, st')" "serde_ok cd" "db_ok cd st" "au_id u \<le> ctr st NEXT_AUDIT_ID"
  shows "quiet cd st st'"
proof (rule quietI)
  show "db_ok cd st'"
    using assms decodes_insert [of "db_audits st" "dec_audit cd" au_id "enc_audit cd u" u "au_id u"]
      ids_below_insert [of "db_audits st" "ctr st NEXT_AUDIT_ID" "au_id u" "enc_audit cd u"]
    by (auto simp: insert_audit_def insert_json_def db_ok_defs serde_ok_def tbl_simps split: if_splits)
qed (use assms in \<open>auto simp: insert_audit_def insert_json_def split: if_splits\<close>)

lemma delete_quiet [quiet_ops]:
  "delete_user flt i st = (r, st') \<Longrightarrow> db_ok cd st \<Longrightarrow> quiet cd st st'"
  "delete_place flt i st = (r, st') \<Longrightarrow> db_ok cd st \<Longrightarrow> quiet cd st st'"
  "delete_group flt i st = (r, st') \<Longrightarrow> db_ok cd st \<Longrightarrow> quiet cd st st'"
  "delete_game flt i st = (r, st') \<Longrightarrow> db_ok cd st \<Longrightarrow> quiet cd st st'"
  by (rule quietI; auto simp: delete_user_def delete_place_def delete_group_def delete_game_def delete_json_def
      db_ok_defs tbl_simps intro: decodes_remove ids_below_remove split: if_splits)+

lemma insert_game_quiet [quiet_ops]:
  "insert_game cd flt g st = (r, st') \<Longrightarrow> serde_ok cd \<Longrightarrow> db_ok cd st \<Longrightarrow> quiet cd st st'"
  by (rule quietI, erule (2) insert_game_ok [rotated 2])
    (auto simp: insert_game_def insert_json_def split: if_splits)

lemma insert_node_quiet [quiet_ops]:
  "insert_node cd flt n st = (r, st') \<Longrightarrow> serde_ok cd \<Longrightarrow> db_ok cd st \<Longrightarrow> nd_id n \<le> ctr st NEXT_NODE_ID \<Longrightarrow> quiet cd st st'"
  by (rule quietI, erule (3) insert_node_ok [rotated 3])
    (auto simp: insert_node_def Let_def split: if_splits)

lemma save_version_quiet [quiet_ops]:
  "save_version cd flt g v m st = (r, st') \<Longrightarrow> serde_ok cd \<Longrightarrow> db_ok cd st \<Longrightarrow> quiet cd st st'"
  by (rule quietI, erule (2) save_version_ok [rotated 2])
    (auto simp: save_version_def Let_def split: if_splits)

lemma bind_ids_quiet [quiet_ops]:
  "bind_ids flt kind a b st = (r, st') \<Longrightarrow> db_ok cd st \<Longrightarrow> kind \<in> set bind_kinds \<Longrightarrow> quiet cd st st'"
  by (rule quietI, erule (2) bind_ids_ok [rotated 2])
    (auto simp: bind_ids_def Let_def split: if_splits)

lemma record_chunk_holder_quiet [quiet_ops]:
  assumes "record_chunk_holder cd flt n g h st = (r, st')" "serde_ok cd" "db_ok cd st"
  shows "quiet cd st st'"
proof (cases flt)
  case True
  with assms show ?thesis by (simp add: record_chunk_holder_def quiet_refl Let_def)
next
  case False
  with assms(1) have run: "record_chunk_holder cd False n g h st = (r, st')" by simp
  show ?thesis
    by (rule quietI) (use record_chunk_holder_spec [OF assms(2,3) run] run in
      \<open>auto simp: record_chunk_holder_eq split: if_splits\<close>)
qed

end
