(* ===== verification/Sched_Concurrency.thy ===== *)
theory Sched_Concurrency
  imports Sched_System
begin

text \<open>
  What holds however the requests at the scheduler interleave: the database invariant, and the
  balance between the tasks in the table and the events in the queues. Every atomic run of a
  handler is one of the interleavings; and two interleavings in which an update is lost.
\<close>

section \<open>Status updates are quiet\<close>

lemma all_tasks_update:
  assumes "tbl_ok t" "tbl_get t i = Some j" "f v = f j"
  shows "map (\<lambda>e. f (snd e)) (tbl_insert i v t) = map (\<lambda>e. f (snd e)) t"
  using assms
proof (induction t)
  case (Cons e t)
  obtain k w where e: "e = (k, w)" by fastforce
  from Cons.prems have t: "tbl_ok t" and above: "\<forall>e \<in> set t. k < fst e"
    by (auto simp: e tbl_ok_simps)
  consider "k < i" | "k = i" | "i < k" by fastforce
  then show ?case
  proof cases
    case 1
    with Cons.prems have "tbl_get t i = Some j" by (auto simp: e tbl_get_def split: if_splits)
    with Cons.IH [OF t _ Cons.prems(3)] 1 show ?thesis by (simp add: e tbl_insert_simps)
  next
    case 2
    with Cons.prems have "j = w" by (simp add: e tbl_get_def)
    with 2 Cons.prems show ?thesis
      by (simp add: e tbl_insert_simps tbl_dropWhile_above [of i w t])
  next
    case 3
    with above have "i \<notin> fst ` set (e # t)" by (auto simp: e)
    then have "tbl_get (e # t) i = None" by (simp only: tbl_get_None not_False_eq_True)
    with Cons.prems(2) show ?thesis by simp
  qed
qed simp

lemma update_task_status_quiet [quiet_ops]:
  assumes run: "update_task_status cd flt i s e st = (r, st')" and cd: "serde_ok cd" and ok: "db_ok cd st"
  shows "quiet cd st st'"
proof (cases "st' = st")
  case False
  let ?t = "db_tasks st" and ?p = "\<lambda>j. (tk_node_id (the (dec_task cd j)), TaskPushed (to_proto_task (the (dec_task cd j))))"
  from False run obtain js task where get: "tbl_get ?t i = Some js" and dec: "dec_task cd js = Some task"
    and st': "st' = st\<lparr>db_tasks := tbl_insert i (enc_task cd (task\<lparr>tk_status := s, tk_error := e\<rparr>)) ?t\<rparr>"
    by (auto simp: update_task_status_def db_decode_def split: if_splits option.splits)
  have "map (\<lambda>e. ?p (snd e)) (db_tasks st') = map (\<lambda>e. ?p (snd e)) ?t"
    unfolding st' using all_tasks_update [of ?t i js ?p] get dec cd ok
    by (simp add: db_ok_defs serde_ok_def to_proto_task_def)
  then have "pushes cd st' = pushes cd st" by (simp add: pushes_def all_tasks_def comp_def)
  moreover have "db_counters st' = db_counters st" by (simp add: st')
  ultimately show ?thesis
    using update_task_status_ok [OF cd ok run] by (simp add: quiet_def ctr_def)
qed (use assms in \<open>simp add: quiet_refl\<close>)

section \<open>Points\<close>

text \<open>What the local variables of a handler still satisfy: identifiers it has allocated stay below
  the counter, and a task about to be stored has a number no stored task has.\<close>

definition row_ok :: "'j store \<Rightarrow> account_row \<Rightarrow> bool" where
  "row_ok st row = (case row of
     UserRow u \<Rightarrow> ur_id u \<le> ctr st NEXT_USER_ID
   | PlaceRow p \<Rightarrow> pr_id p \<le> ctr st NEXT_PLACE_ID
   | GroupRow g \<Rightarrow> gr_id g \<le> ctr st NEXT_GROUP_ID)"

definition point_ok :: "'j serde \<Rightarrow> 'j store \<Rightarrow> point \<Rightarrow> bool" where
  "point_ok cd st p = (case p of
     AuditPut r \<Rightarrow> au_id r \<le> ctr st NEXT_AUDIT_ID
   | AccountPut row \<Rightarrow> row_ok st row
   | BindPut kind a b \<Rightarrow> kind \<in> set bind_kinds
   | NodePut n \<Rightarrow> nd_id n \<le> ctr st NEXT_NODE_ID
   | BeatPut n \<Rightarrow> nd_id n \<le> ctr st NEXT_NODE_ID
   | StatusPut n xs \<Rightarrow> nd_id n \<le> ctr st NEXT_NODE_ID
   | TaskPut t roll \<Rightarrow> tk_id t \<le> ctr st NEXT_TASK_ID \<and> tk_id t \<notin> task_ids cd st
   | _ \<Rightarrow> True)"

lemma task_ids_quiet: "quiet cd st st' \<Longrightarrow> task_ids cd st' = task_ids cd st"
  by (simp add: quiet_def task_ids_def)

lemma point_ok_quiet: "point_ok cd st p \<Longrightarrow> quiet cd st st' \<Longrightarrow> point_ok cd st' p"
  using task_ids_quiet [of cd st st']
  by (cases p) (auto simp: point_ok_def row_ok_def quiet_def split: account_row.splits intro: order_trans)

lemma point_ok_arrive: "arrive req = Some p \<Longrightarrow> point_ok cd st p"
  by (cases req) (auto simp: point_ok_def split: if_splits option.splits)

text \<open>The tasks a handler is about to store, and those it has stored and not yet queued.\<close>

definition puts_of :: "point \<Rightarrow> task_record multiset" where
  "puts_of p = (case p of TaskPut t roll \<Rightarrow> {#t#} | _ \<Rightarrow> {#})"

definition queues_of :: "point \<Rightarrow> task_record multiset" where
  "queues_of p = (case p of TaskQueue t roll \<Rightarrow> {#t#} | _ \<Rightarrow> {#})"

lemma on_storeE:
  assumes "on_store f k sv = (q, sv')"
  obtains r st where "f (cv_store sv) = (r, st)" "sv' = sv\<lparr>cv_store := st\<rparr>" "q = None \<or> (\<exists>x. r = Inr x \<and> q = k x)"
  using assms by (auto simp: on_store_def split: prod.splits sum.splits)

lemma on_readE:
  assumes "on_read f k sv = (q, sv')"
  obtains "sv' = sv" "q = None \<or> (\<exists>x. f (cv_store sv) = Inr x \<and> q = k x)"
  using assms by (auto simp: on_read_def split: sum.splits)

lemma task_ids_below: "db_ok cd st \<Longrightarrow> i \<in> task_ids cd st \<Longrightarrow> i \<le> ctr st NEXT_TASK_ID"
  by (fastforce simp: task_ids_def pushes_def all_tasks_def to_proto_task_def db_ok_defs ids_below_def decodes_def
      list_all_iff split: option.splits)

lemma get_node_le:
  assumes "db_ok cd st" "get_node cd flt st i = Inr (Some n)"
  shows "nd_id n \<le> ctr st NEXT_NODE_ID"
proof -
  have "get_node cd False st i = Inr (Some n)" using assms(2) by (auto simp: get_node_def get_decoded_def split: if_splits)
  with get_node_eq [OF assms(1), of i] have "node_of cd st i = Some n" by simp
  with node_of_id [OF assms(1)] node_of_le [OF assms(1)] show ?thesis by blast
qed

lemma next_id_fresh:
  assumes "next_id flt c st = (Inr i, st')" "db_ok cd st" "\<forall>c. ctr st c < -1"
  shows "i = ctr st c + 1" "i \<le> ctr st' c" "ctr st c < i"
proof -
  have "tbl_ok (db_counters st)" using assms(2) by (simp add: db_ok_defs)
  note n = ctr_next_id [OF this assms(1)]
  then show "i = ctr st c + 1" "i \<le> ctr st' c" by auto
  with word_le_Suc [of "ctr st c"] assms(3) show "ctr st c < i" by simp
qed


lemmas id_defs = next_user_id_def next_place_id_def next_group_id_def next_game_id_def next_node_id_def next_task_id_def

lemma set_next_neq: "set_next xs = Some p \<Longrightarrow> p = StatusGet xs"
  by (auto simp: set_next_def split: if_splits)

text \<open>Every step but the insertion of a task is quiet.\<close>

lemma advance_quiet:
  assumes cd: "serde_ok cd" and ok: "db_ok cd (cv_store sv)" and lim: "\<forall>c. ctr (cv_store sv) c < -1"
    and pt: "point_ok cd (cv_store sv) p" and run: "advance blake3 order cd flt now p sv = (q, sv')"
    and no: "\<forall>t roll. p \<noteq> TaskPut t roll"
  shows "quiet cd (cv_store sv) (cv_store sv')"
proof -
  note q = quiet_ops [where cd = cd] quiet_refl
  show ?thesis
  proof (cases p)
    case (AccountId req)
    then show ?thesis using run ok lim by (cases req) (auto simp: id_defs elim!: on_storeE intro: q)
  next
    case (AccountPut row)
    then show ?thesis using run ok cd pt
      by (cases row) (auto simp: point_ok_def row_ok_def elim!: on_storeE intro: q)
  next
    case (Remove rm)
    then show ?thesis using run ok by (cases rm) (auto elim!: on_storeE intro: q)
  next
    case (TaskHolders d hs)
    then show ?thesis using run ok by (cases hs) (auto elim!: on_readE intro: quiet_refl)
  next
    case (StatusGet xs)
    then show ?thesis using run ok by (cases xs) (auto intro: quiet_refl)
  next
    case (StatusPut n xs)
    obtain r st where st: "insert_node cd flt n (cv_store sv) = (r, st)" by fastforce
    with run StatusPut have "cv_store sv' = st" by auto
    with insert_node_quiet [OF st cd ok] pt StatusPut show ?thesis by (simp add: point_ok_def)
  qed (use run ok cd lim pt no in \<open>auto simp: point_ok_def id_defs enqueue_def broadcast_def
        elim!: on_storeE on_readE intro: q\<close>)
qed


text \<open>The point a handler moves to is good in the new state.\<close>

lemma advance_point_ok:
  assumes cd: "serde_ok cd" and ok: "db_ok cd (cv_store sv)" and lim: "\<forall>c. ctr (cv_store sv) c < -1"
    and pt: "point_ok cd (cv_store sv) p" and run: "advance blake3 order cd flt now p sv = (Some q, sv')"
  shows "point_ok cd (cv_store sv') q"
proof -
  note fresh = next_id_fresh [OF _ ok lim]
  have task: "i \<notin> task_ids cd st" if "next_id flt NEXT_TASK_ID (cv_store sv) = (Inr i, st)" for i st
  proof -
    have "task_ids cd st = task_ids cd (cv_store sv)"
      using task_ids_quiet [OF next_id_quiet [OF that ok lim]] .
    with task_ids_below [OF ok, of i] fresh(3) [OF that] show ?thesis by (auto simp: not_le [symmetric])
  qed
  show ?thesis
  proof (cases p)
    case (AccountId req)
    then show ?thesis using run fresh(2)
      by (cases req) (auto simp: id_defs point_ok_def row_ok_def Let_def elim!: on_storeE)
  next
    case (AccountPut row)
    then show ?thesis using run by (cases row) (auto simp: point_ok_def elim!: on_storeE)
  next
    case (Remove rm)
    then show ?thesis using run by (cases rm) (auto simp: point_ok_def if_found_def elim!: on_storeE split: if_splits)
  next
    case (TaskHolders d hs)
    then show ?thesis using run by (cases hs) (auto simp: point_ok_def holders_next_def elim!: on_readE split: if_splits)
  next
    case (StatusGet xs)
    then show ?thesis using run get_node_le [OF ok]
      by (cases xs) (auto simp: point_ok_def dest!: set_next_neq split: if_splits sum.splits option.splits)
  next
    case (BeatNode i)
    then show ?thesis using run get_node_le [OF ok, of flt i]
      by (auto simp: point_ok_def elim!: on_readE split: if_splits option.splits)
  next
    case (TaskId d)
    then show ?thesis using run fresh(2) task
      by (auto simp: point_ok_def draft_task_def new_task_def id_defs elim!: on_storeE)
  qed (use run fresh(2) in \<open>auto simp: point_ok_def id_defs holders_next_def after_push_def dest!: set_next_neq
        elim!: on_storeE on_readE split: if_splits option.splits sum.splits\<close>)
qed

text \<open>Only the allocation of a number leads to an insertion, only an insertion to the queue.\<close>

lemma advance_shape:
  assumes "advance blake3 order cd flt now p sv = (q, sv')"
  shows "(\<forall>q'. q = Some q' \<longrightarrow> (puts_of q' = {#} \<or> (\<exists>d. p = TaskId d)) \<and> (queues_of q' = {#} \<or> (\<exists>t r. p = TaskPut t r))) \<and>
    (cv_pending sv' = cv_pending sv \<or> (\<exists>t r. p = TaskQueue t r))"
proof (cases p)
  case (AccountId req)
  then show ?thesis using assms by (cases req) (auto simp: puts_of_def queues_of_def Let_def elim!: on_storeE)
next
  case (AccountPut row)
  then show ?thesis using assms by (cases row) (auto simp: puts_of_def queues_of_def elim!: on_storeE)
next
  case (Remove rm)
  then show ?thesis using assms
    by (cases rm) (auto simp: puts_of_def queues_of_def if_found_def elim!: on_storeE split: if_splits)
next
  case (TaskHolders d hs)
  then show ?thesis using assms
    by (cases hs) (auto simp: puts_of_def queues_of_def holders_next_def elim!: on_readE split: if_splits)
next
  case (StatusGet xs)
  then show ?thesis using assms
    by (cases xs) (auto simp: puts_of_def queues_of_def dest!: set_next_neq split: if_splits sum.splits option.splits)
qed (use assms in \<open>auto simp: puts_of_def queues_of_def holders_next_def after_push_def broadcast_def dest!: set_next_neq
      elim!: on_storeE on_readE split: if_splits option.splits sum.splits\<close>)

section \<open>The invariant of the system\<close>

text \<open>
  The database invariant holds, at most \<open>n\<close> numbers of each kind are allocated, the handlers in
  flight are good, no two of them are about to store tasks of the same number, and for every
  node the tasks in the table are the events taken from its queue, the events in its queue, and
  those of handlers between storing and queueing.
\<close>

definition to_store :: "point multiset \<Rightarrow> task_record multiset" where
  "to_store ps = sum_mset (image_mset puts_of ps)"

definition to_queue :: "point multiset \<Rightarrow> task_record multiset" where
  "to_queue ps = sum_mset (image_mset queues_of ps)"

definition node_events :: "u64 \<Rightarrow> (u64 \<times> task_event) multiset \<Rightarrow> task_event multiset" where
  "node_events n ps = image_mset snd (filter_mset (\<lambda>p. fst p = n) ps)"

definition push_event :: "task_record \<Rightarrow> u64 \<times> task_event" where
  "push_event t = (tk_node_id t, TaskPushed (to_proto_task t))"

definition balanced :: "'j serde \<Rightarrow> 'j sched_system \<Rightarrow> bool" where
  "balanced cd s \<longleftrightarrow> (\<forall>n. node_events n (mset (pushes cd (cv_store (sy_service s)))) =
     mset (sy_taken s n) + mset (cv_pending (sy_service s) n) +
     node_events n (image_mset push_event (to_queue (sy_pool s))))"

definition sys_ok :: "'j serde \<Rightarrow> nat \<Rightarrow> 'j sched_system \<Rightarrow> bool" where
  "sys_ok cd n s \<longleftrightarrow> db_ok cd (cv_store (sy_service s)) \<and> (\<forall>c. unat (ctr (cv_store (sy_service s)) c) \<le> n) \<and>
     (\<forall>p. p \<in># sy_pool s \<longrightarrow> point_ok cd (cv_store (sy_service s)) p) \<and>
     (\<forall>i. count (image_mset tk_id (to_store (sy_pool s))) i \<le> 1) \<and> balanced cd s"

lemma pool_sums [simp]:
  "to_store (ps + opt_mset q) = to_store ps + (case q of None \<Rightarrow> {#} | Some q \<Rightarrow> puts_of q)"
  "to_queue (ps + opt_mset q) = to_queue ps + (case q of None \<Rightarrow> {#} | Some q \<Rightarrow> queues_of q)"
  "to_store (add_mset p ps) = puts_of p + to_store ps" "to_queue (add_mset p ps) = queues_of p + to_queue ps"
  by (auto simp: to_store_def to_queue_def opt_mset_def split: option.splits)

lemma node_events_simps [simp]:
  "node_events n (a + b) = node_events n a + node_events n b" "node_events n {#} = {#}"
  "node_events n (add_mset p a) = (if fst p = n then add_mset (snd p) (node_events n a) else node_events n a)"
  by (auto simp: node_events_def)

lemma in_to_store: "t \<in># to_store ps \<longleftrightarrow> (\<exists>roll. TaskPut t roll \<in># ps)"
proof
  assume "t \<in># to_store ps"
  then obtain p where "p \<in># ps" "t \<in># puts_of p" by (auto simp: to_store_def)
  then show "\<exists>roll. TaskPut t roll \<in># ps" by (cases p) (auto simp: puts_of_def)
next
  assume "\<exists>roll. TaskPut t roll \<in># ps"
  then obtain roll where "TaskPut t roll \<in># ps" by blast
  moreover have "t \<in># puts_of (TaskPut t roll)" by (simp add: puts_of_def)
  ultimately show "t \<in># to_store ps" unfolding to_store_def by auto
qed


subsection \<open>Quiet steps\<close>

definition in_queues :: "'j sched_system \<Rightarrow> u64 \<Rightarrow> task_event multiset" where
  "in_queues s n = mset (sy_taken s n) + mset (cv_pending (sy_service s) n) +
     node_events n (image_mset push_event (to_queue (sy_pool s)))"

lemma balanced_eq: "balanced cd s \<longleftrightarrow> (\<forall>n. node_events n (mset (pushes cd (cv_store (sy_service s)))) = in_queues s n)"
  by (simp add: balanced_def in_queues_def)

lemma sys_ok_quiet:
  assumes "sys_ok cd n s" and quiet: "quiet cd (cv_store (sy_service s)) (cv_store (sy_service s'))"
    and pool: "\<And>p. p \<in># sy_pool s' \<Longrightarrow> p \<in># sy_pool s \<or> point_ok cd (cv_store (sy_service s')) p"
    and one: "\<And>i. count (image_mset tk_id (to_store (sy_pool s'))) i \<le> 1"
    and queues: "in_queues s' = in_queues s"
  shows "sys_ok cd (Suc n) s'"
proof -
  let ?st = "cv_store (sy_service s)" and ?st' = "cv_store (sy_service s')"
  have "unat (ctr ?st' c) \<le> Suc n" for c
  proof -
    have "unat (ctr ?st' c) \<le> Suc (unat (ctr ?st c))" using quiet by (simp add: quiet_def)
    also have "\<dots> \<le> Suc n" using assms(1) by (simp add: sys_ok_def)
    finally show ?thesis .
  qed
  moreover have "point_ok cd ?st' p" if "p \<in># sy_pool s'" for p
    using pool [OF that] point_ok_quiet [OF _ quiet, of p] assms(1) by (auto simp: sys_ok_def)
  moreover have "balanced cd s'"
    using assms(1) quiet queues by (simp add: balanced_eq sys_ok_def quiet_def)
  ultimately show ?thesis using quiet one by (simp add: sys_ok_def quiet_def)
qed

lemma counters_free: "sys_ok cd n s \<Longrightarrow> n < 2 ^ 64 - 1 \<Longrightarrow> ctr (cv_store (sy_service s)) c < -1"
proof -
  assume "sys_ok cd n s" "n < 2 ^ 64 - 1"
  then have "unat (ctr (cv_store (sy_service s)) c) < 2 ^ 64 - 1"
    unfolding sys_ok_def by (meson le_less_trans)
  moreover have "unat (-1 :: u64) = 2 ^ 64 - 1" by (simp add: unsigned_minus_1_eq_mask mask_eq_exp_minus_1)
  ultimately show ?thesis by (simp add: word_less_nat_alt)
qed

lemma sys_ok_arrive:
  assumes "sys_ok cd n s"
  shows "sys_ok cd (Suc n) (s\<lparr>sy_pool := sy_pool s + opt_mset (arrive req)\<rparr>)"
proof (rule sys_ok_quiet [OF assms])
  have none: "puts_of p = {#} \<and> queues_of p = {#}" if "arrive req = Some p" for p
    using that by (cases req) (auto simp: puts_of_def queues_of_def split: if_splits option.splits)
  show "count (image_mset tk_id (to_store (sy_pool (s\<lparr>sy_pool := sy_pool s + opt_mset (arrive req)\<rparr>)))) i \<le> 1" for i
    using assms none by (cases "arrive req") (simp_all add: sys_ok_def)
  show "in_queues (s\<lparr>sy_pool := sy_pool s + opt_mset (arrive req)\<rparr>) = in_queues s"
    using none by (cases "arrive req") (simp_all add: in_queues_def fun_eq_iff)
qed (use assms point_ok_arrive in \<open>auto simp: sys_ok_def quiet_refl opt_mset_def split: option.splits\<close>)

lemma sys_ok_watch:
  assumes "sys_ok cd n s" "watch_round sends m (sy_service s) = (out, go, sv)"
  shows "sys_ok cd (Suc n) (s\<lparr>sy_service := sv, sy_taken := (sy_taken s)(m := sy_taken s m @ cv_pending (sy_service s) m)\<rparr>)"
proof (rule sys_ok_quiet [OF assms(1)])
  have sv: "sv = (sy_service s)\<lparr>cv_pending := (cv_pending (sy_service s))(m := [])\<rparr>"
    using assms(2) by (auto simp: watch_round_def split: prod.splits)
  show "quiet cd (cv_store (sy_service s)) (cv_store (sy_service (s\<lparr>sy_service := sv,
      sy_taken := (sy_taken s)(m := sy_taken s m @ cv_pending (sy_service s) m)\<rparr>)))"
    using assms(1) by (simp add: sv quiet_refl sys_ok_def)
  show "in_queues (s\<lparr>sy_service := sv, sy_taken := (sy_taken s)(m := sy_taken s m @ cv_pending (sy_service s) m)\<rparr>) = in_queues s"
    by (simp add: in_queues_def sv fun_eq_iff)
qed (use assms(1) in \<open>auto simp: sys_ok_def\<close>)

subsection \<open>Storing and queueing a task\<close>

lemma mset_tbl_insert:
  assumes "tbl_get t k = None"
  shows "mset (tbl_insert k v t) = add_mset (k, v) (mset t)"
proof -
  have "\<forall>e \<in> set t. fst e \<noteq> k" using assms by (auto simp: tbl_get_None)
  then have "dropWhile (\<lambda>e. fst e \<le> k) t = dropWhile (\<lambda>e. fst e < k) t"
    by (intro dropWhile_cong) (auto simp: order_less_le)
  moreover have "mset t = mset (takeWhile (\<lambda>e. fst e < k) t) + mset (dropWhile (\<lambda>e. fst e < k) t)"
    by (metis mset_append takeWhile_dropWhile_id)
  ultimately show ?thesis by (simp add: tbl_insert_def)
qed

lemma pushes_eq: "pushes cd st = map push_event (all_tasks cd st)"
  by (simp add: pushes_def push_event_def)

lemma task_ids_eq: "task_ids cd st = tk_id ` set (all_tasks cd st)"
  by (force simp: task_ids_def pushes_def to_proto_task_def)

lemma insert_task_pushes:
  assumes cd: "serde_ok cd" and ok: "db_ok cd st" and new: "tk_id t \<notin> task_ids cd st"
    and run: "insert_task cd flt t st = (Inr x, st')"
  shows "mset (pushes cd st') = add_mset (push_event t) (mset (pushes cd st))"
    "task_ids cd st' = insert (tk_id t) (task_ids cd st)" "ctr st' = ctr st"
proof -
  let ?t = "db_tasks st"
  have st': "st' = st\<lparr>db_tasks := tbl_insert (tk_id t) (enc_task cd t) ?t\<rparr>"
    using run by (auto simp: insert_task_def Let_def split: if_splits)
  have "fst e \<in> task_ids cd st" if "e \<in> set ?t" for e
  proof -
    have "decodes (dec_task cd) tk_id ?t" using ok by (simp add: db_ok_defs)
    with that have "fst e = tk_id (the (dec_task cd (snd e)))"
      by (fastforce simp: decodes_def list_all_iff split: option.splits)
    with that show ?thesis by (simp add: task_ids_eq all_tasks_def)
  qed
  with new have "tbl_get ?t (tk_id t) = None" by (auto simp: tbl_get_None)
  from mset_tbl_insert [OF this, of "enc_task cd t"]
  have m: "mset (all_tasks cd st') = add_mset t (mset (all_tasks cd st))"
    using cd by (simp add: all_tasks_def st' serde_ok_def)
  then show "mset (pushes cd st') = add_mset (push_event t) (mset (pushes cd st))" by (simp add: pushes_eq)
  from m have "set (all_tasks cd st') = insert t (set (all_tasks cd st))"
    by (metis set_mset_add_mset_insert set_mset_mset)
  then show "task_ids cd st' = insert (tk_id t) (task_ids cd st)" by (simp add: task_ids_eq)
  show "ctr st' = ctr st" by (simp add: st' fun_eq_iff)
qed


lemma sys_ok_store_task:
  assumes cd: "serde_ok cd" and s: "sys_ok cd n s" and pool: "sy_pool s = add_mset (TaskPut t roll) ps"
    and run: "insert_task cd flt t (cv_store (sy_service s)) = (Inr x, st)"
  shows "sys_ok cd (Suc n) (s\<lparr>sy_service := (sy_service s)\<lparr>cv_store := st\<rparr>, sy_pool := add_mset (TaskQueue t roll) ps\<rparr>)"
proof -
  let ?st = "cv_store (sy_service s)"
  have ok: "db_ok cd ?st" and t: "point_ok cd ?st (TaskPut t roll)" and one: "count (image_mset tk_id (to_store (sy_pool s))) i \<le> 1" for i
    using s pool by (auto simp: sys_ok_def)
  from t have le: "tk_id t \<le> ctr ?st NEXT_TASK_ID" and new: "tk_id t \<notin> task_ids cd ?st" by (simp_all add: point_ok_def)
  note ins = insert_task_pushes [OF cd ok new run]
  have other: "tk_id t' \<noteq> tk_id t" if "TaskPut t' roll' \<in># ps" for t' roll'
  proof
    assume same: "tk_id t' = tk_id t"
    have "t' \<in># to_store ps" using that in_to_store by blast
    then have "tk_id t \<in># image_mset tk_id (to_store ps)" using same by (metis image_eqI set_image_mset)
    then have "0 < count (image_mset tk_id (to_store ps)) (tk_id t)" by (simp only: count_greater_zero_iff)
    with one [of "tk_id t"] pool show False by (simp add: puts_of_def)
  qed
  have "point_ok cd st p" if "p \<in># ps" for p
    using s pool that other ins by (cases p) (auto simp: point_ok_def row_ok_def sys_ok_def split: account_row.splits)
  moreover have "point_ok cd st (TaskQueue t roll)" by (simp add: point_ok_def)
  moreover have "count (image_mset tk_id (to_store ps)) i \<le> 1" for i
    using one [of i] pool by (simp add: puts_of_def split: if_splits)
  moreover have "db_ok cd st" by (rule insert_task_ok [OF cd ok le run])
  moreover have "node_events m (mset (pushes cd ?st)) = in_queues s m" for m
    using s by (simp add: sys_ok_def balanced_eq)
  ultimately show ?thesis
    using s ins by (auto simp: sys_ok_def balanced_eq in_queues_def pool puts_of_def queues_of_def le_Suc_eq)
qed

text \<open>A step that allocates a task number keeps the numbers in flight distinct; all other steps
  leave them alone, and no step but the insertion changes what will be in the queues.\<close>

lemma numbers_after:
  assumes s: "sys_ok cd n s" and ctr: "\<forall>c. ctr (cv_store (sy_service s)) c < -1" and pool: "sy_pool s = add_mset p ps"
    and run: "advance blake3 order cd flt now p (sy_service s) = (q, sv)"
  shows "count (image_mset tk_id (to_store (ps + opt_mset q))) i \<le> 1"
proof -
  let ?st = "cv_store (sy_service s)"
  have ok: "db_ok cd ?st" and "count (image_mset tk_id (to_store (sy_pool s))) i \<le> 1"
    using s by (simp_all add: sys_ok_def)
  then have one: "count (image_mset tk_id (to_store ps)) i \<le> 1" using pool by simp
  show ?thesis
  proof (cases "\<exists>d. p = TaskId d \<and> q \<noteq> None")
    case False
    with advance_shape [OF run] one show ?thesis by (cases q) auto
  next
    case True
    then obtain d j st where "q = Some (TaskPut (draft_task d j) (td_rollback d))"
      and nxt: "next_id flt NEXT_TASK_ID ?st = (Inr j, st)"
      using run by (auto simp: id_defs elim!: on_storeE)
    moreover have "tk_id t \<noteq> j" if "t \<in># to_store ps" for t
    proof -
      from that in_to_store obtain roll where "TaskPut t roll \<in># sy_pool s" using pool by auto
      then have "tk_id t \<le> ctr ?st NEXT_TASK_ID" using s by (force simp: sys_ok_def point_ok_def)
      with next_id_fresh(3) [OF nxt ok ctr] show ?thesis by auto
    qed
    then have "j \<notin># image_mset tk_id (to_store ps)" by auto
    then have "count (image_mset tk_id (to_store ps)) j = 0" by (simp only: not_in_iff)
    ultimately show ?thesis using one
      by (auto simp: puts_of_def draft_task_def new_task_def)
  qed
qed

lemma queues_after:
  assumes pool: "sy_pool s = add_mset p ps" and no: "\<forall>t roll. p \<noteq> TaskPut t roll"
    and run: "advance blake3 order cd flt now p (sy_service s) = (q, sv)"
  shows "in_queues (s\<lparr>sy_service := sv, sy_pool := ps + opt_mset q\<rparr>) = in_queues s"
proof (cases "\<exists>t roll. p = TaskQueue t roll")
  case True
  with run pool show ?thesis
    by (auto simp: in_queues_def enqueue_def queues_of_def push_event_def fun_eq_iff)
next
  case False
  then have "queues_of p = {#}" by (cases p) (auto simp: queues_of_def)
  with False no advance_shape [OF run] pool show ?thesis
    by (cases q) (auto simp: in_queues_def fun_eq_iff)
qed

lemma sys_ok_advance:
  assumes cd: "serde_ok cd" and s: "sys_ok cd n s" and lim: "n < 2 ^ 64 - 1" and p: "p \<in># sy_pool s"
    and run: "advance blake3 order cd flt now p (sy_service s) = (q, sv)"
  shows "sys_ok cd (Suc n) (s\<lparr>sy_service := sv, sy_pool := sy_pool s - {#p#} + opt_mset q\<rparr>)"
proof -
  let ?st = "cv_store (sy_service s)" and ?s = "s\<lparr>sy_service := sv, sy_pool := sy_pool s - {#p#} + opt_mset q\<rparr>"
  obtain ps where pool: "sy_pool s = add_mset p ps" using p by (metis insert_DiffM)
  have ok: "db_ok cd ?st" and pt: "point_ok cd ?st p" and ctr: "\<forall>c. ctr ?st c < -1"
    and one: "count (image_mset tk_id (to_store (sy_pool s))) i \<le> 1" for i
    using s p counters_free [OF s lim] by (auto simp: sys_ok_def)
  note shape = advance_shape [OF run]
  show ?thesis
  proof (cases "\<exists>t roll. p = TaskPut t roll")
    case True
    then obtain t roll where t: "p = TaskPut t roll" by blast
    show ?thesis
    proof (cases flt)
      case True
      with run t have "q = None" "sv = sy_service s" by (auto simp: insert_task_def Let_def on_store_def)
      then have s': "?s = s\<lparr>sy_pool := ps\<rparr>" using pool by (simp add: opt_mset_def)
      show ?thesis unfolding s'
      proof (rule sys_ok_quiet [OF s])
        show "count (image_mset tk_id (to_store (sy_pool (s\<lparr>sy_pool := ps\<rparr>)))) i \<le> 1" for i
          using one [of i] pool t by (simp add: puts_of_def split: if_splits)
        show "in_queues (s\<lparr>sy_pool := ps\<rparr>) = in_queues s"
          by (simp add: in_queues_def pool t queues_of_def fun_eq_iff)
      qed (use ok pool in \<open>simp_all add: quiet_refl\<close>)
    next
      case False
      then obtain st where ins: "insert_task cd flt t ?st = (Inr (), st)" by (auto simp: insert_task_def Let_def)
      with run t have "q = Some (TaskQueue t roll)" "sv = (sy_service s)\<lparr>cv_store := st\<rparr>" by (auto simp: on_store_def)
      with sys_ok_store_task [OF cd s _ ins, of roll ps] pool t show ?thesis by (simp add: opt_mset_def)
    qed
  next
    case False
    note quiet = advance_quiet [OF cd ok ctr pt run]
    show ?thesis
    proof (rule sys_ok_quiet [OF s])
      show "quiet cd ?st (cv_store (sy_service ?s))" using quiet False by simp
      show "p' \<in># sy_pool s \<or> point_ok cd (cv_store (sy_service ?s)) p'" if "p' \<in># sy_pool ?s" for p'
        using that advance_point_ok [OF cd ok ctr pt, of blake3 order flt now] run pool
        by (auto simp: opt_mset_def split: option.splits)
      show "count (image_mset tk_id (to_store (sy_pool ?s))) i \<le> 1" for i
        using numbers_after [OF s ctr pool run] pool by simp
      show "in_queues ?s = in_queues s"
        using queues_after [OF pool _ run] False pool by simp
    qed
  qed
qed


subsection \<open>Runs\<close>

lemma sched_run_trans:
  assumes "sched_run blake3 order cd s n t" "sched_run blake3 order cd t m u"
  shows "sched_run blake3 order cd s (n + m) u"
  using assms(2) by induction (use assms(1) in \<open>auto intro: run_step\<close>)

lemma sched_step_run: "sched_step blake3 order cd s t \<Longrightarrow> sched_run blake3 order cd s 1 t"
  using run_step [OF run_none] by simp

lemma sys_ok_step:
  assumes "serde_ok cd" "sys_ok cd n s" "n < 2 ^ 64 - 1" "sched_step blake3 order cd s s'"
  shows "sys_ok cd (Suc n) s'"
  using assms(4)
proof cases
  case step_arrive
  with sys_ok_arrive [OF assms(2)] show ?thesis by simp
next
  case (step_advance p flt now q sv)
  with sys_ok_advance [OF assms(1-3)] show ?thesis by simp
next
  case (step_watch sends m out go sv)
  with sys_ok_watch [OF assms(2)] show ?thesis by simp
qed

lemma sys_ok_start: "sys_ok cd 0 (sched_start ensure_tables)"
  using db_ok_empty [of cd]
  by (simp add: sys_ok_def sched_start_def with_events_def ctr_def ensure_tables_def balanced_def pushes_def all_tasks_def
      to_store_def to_queue_def)

lemma sys_ok_run:
  assumes "serde_ok cd"
  shows "sched_run blake3 order cd (sched_start ensure_tables) n s \<Longrightarrow> n < 2 ^ 64 \<Longrightarrow> sys_ok cd n s"
proof (induction rule: sched_run.induct)
  case run_none
  show ?case by (rule sys_ok_start)
next
  case (run_step n t u)
  then show ?case using sys_ok_step [OF assms] by simp
qed

text \<open>The events of a node's tasks in the table, in the order of their numbers.\<close>

definition node_tasks :: "'j serde \<Rightarrow> 'j store \<Rightarrow> u64 \<Rightarrow> task_event list" where
  "node_tasks cd st n = map (\<lambda>t. TaskPushed (to_proto_task t)) (filter (\<lambda>t. tk_node_id t = n) (all_tasks cd st))"

lemma node_events_pushes: "node_events n (mset (pushes cd st)) = mset (node_tasks cd st n)"
proof -
  have "map snd (filter (\<lambda>p. fst p = n) (map push_event ts)) = map (\<lambda>t. TaskPushed (to_proto_task t)) (filter (\<lambda>t. tk_node_id t = n) ts)" for ts
    by (induction ts) (simp_all add: push_event_def)
  then show ?thesis
    unfolding node_events_def pushes_eq node_tasks_def by (metis mset_filter mset_map)
qed

lemma node_tasks_distinct:
  assumes "db_ok cd st" shows "distinct (node_tasks cd st n)"
proof -
  have t: "tbl_ok (db_tasks st)" "decodes (dec_task cd) tk_id (db_tasks st)" using assms by (simp_all add: db_ok_defs)
  have "map tk_id (all_tasks cd st) = map fst (db_tasks st)"
    using t(2) by (auto simp: all_tasks_def decodes_def list_all_iff split: option.splits)
  with tbl_ok_distinct [OF t(1)] have "distinct (map tk_id (all_tasks cd st))" by simp
  then have "distinct (map tk_id (filter (\<lambda>t. tk_node_id t = n) (all_tasks cd st)))"
    by (rule distinct_map_filter)
  moreover have "map (\<lambda>e. case e of TaskPushed p \<Rightarrow> pt_id p) (node_tasks cd st n) =
      map tk_id (filter (\<lambda>t. tk_node_id t = n) (all_tasks cd st))"
    by (simp add: node_tasks_def to_proto_task_def)
  ultimately show ?thesis by (metis distinct_map)
qed

text \<open>
  C8. Requests in parallel. Let the scheduler start on an empty database and let any requests
  (administration, node RPCs, keep-alive ticks) run in parallel, interleaved in any way between
  their store transactions, with any transaction failing, for fewer than 2^64 steps. Then the
  database invariant holds; what the watching nodes have taken from their queues together with
  what is still queued contains no event twice and only tasks of the table, for the node they
  were created for; and when no request stands between storing and queueing its task, every
  task of the table has been queued: delivery is once per task, whatever the interleaving.
\<close>

theorem interleavings_push_once:
  assumes "serde_ok cd" and "sched_run blake3 order cd (sched_start ensure_tables) n s" and "n < 2 ^ 64"
  shows "db_ok cd (cv_store (sy_service s)) \<and> distinct (sy_taken s m @ cv_pending (sy_service s) m) \<and>
    set (sy_taken s m @ cv_pending (sy_service s) m) \<subseteq> set (node_tasks cd (cv_store (sy_service s)) m) \<and>
    ((\<forall>t roll. TaskQueue t roll \<notin># sy_pool s) \<longrightarrow>
       set (sy_taken s m @ cv_pending (sy_service s) m) = set (node_tasks cd (cv_store (sy_service s)) m))"
proof -
  let ?st = "cv_store (sy_service s)" and ?q = "sy_taken s m @ cv_pending (sy_service s) m"
  have ok: "sys_ok cd n s" by (rule sys_ok_run [OF assms])
  then have db: "db_ok cd ?st" by (simp add: sys_ok_def)
  have bal: "mset (node_tasks cd ?st m) = mset ?q + node_events m (image_mset push_event (to_queue (sy_pool s)))"
    using ok by (simp add: sys_ok_def balanced_def node_events_pushes)
  then have sub: "mset ?q \<subseteq># mset (node_tasks cd ?st m)" by (simp add: mset_subset_eq_add_left)
  then have "set ?q \<subseteq> set (node_tasks cd ?st m)" by (metis set_mset_mono set_mset_mset)
  moreover have "distinct ?q"
  proof -
    obtain rest where "mset rest = node_events m (image_mset push_event (to_queue (sy_pool s)))" by (metis ex_mset)
    with bal have "mset (node_tasks cd ?st m) = mset (?q @ rest)" by simp
    with node_tasks_distinct [OF db, of m] have "distinct (?q @ rest)" by (metis mset_eq_imp_distinct_iff)
    then show ?thesis by (simp del: append_assoc)
  qed
  moreover have "set ?q = set (node_tasks cd ?st m)" if "\<forall>t roll. TaskQueue t roll \<notin># sy_pool s"
  proof -
    have "queues_of p = {#}" if "p \<in># sy_pool s" for p
      using that \<open>\<forall>t roll. TaskQueue t roll \<notin># sy_pool s\<close> by (cases p) (auto simp: queues_of_def)
    then have "to_queue (sy_pool s) = {#}" by (simp add: to_queue_def)
    with bal show ?thesis by (metis add.right_neutral image_mset_empty node_events_simps(2) set_mset_mset)
  qed
  ultimately show ?thesis using db by blast
qed


lemma run_go:
  assumes "sched_run blake3 order cd s0 n (s\<lparr>sy_service := sv, sy_pool := {#p#}\<rparr>)"
    and "advance blake3 order cd flt now p sv = (q, sv1)"
  shows "sched_run blake3 order cd s0 (Suc n) (s\<lparr>sy_service := sv1, sy_pool := opt_mset q\<rparr>)"
  using run_step [OF assms(1) step_advance [where flt = flt and now = now and p = p and q = q and sv = sv1]] assms(2) by simp

definition demo_node1 :: node_record where
  "demo_node1 = \<lparr>nd_id = 1, nd_node_type = ''cafe'', nd_endpoint_id = ''e1'', nd_token = show_u64 0 @ ''-'' @ show_u64 1,
     nd_addrs = [], nd_status = ''online'', nd_last_heartbeat_ms = 0\<rparr>"

definition demo_store1 :: "json store" where
  "demo_store1 = ensure_tables\<lparr>db_counters := [(NEXT_NODE_ID, 1), (NEXT_TASK_ID, 1)], db_nodes := [(1, JNode demo_node1)],
     db_tasks := [(1, JTask (new_task 1 1 5 1 ''UPDATE'' []))]\<rparr>"

theorem interleavings_push_once_witness:
  "\<exists>s. sched_run (\<lambda>_. []) (\<lambda>x. x) json_serde (sched_start ensure_tables) 10 s \<and>
     sy_taken s 1 = [TaskPushed (to_proto_task (new_task 1 1 5 1 ''UPDATE'' []))] \<and>
     set (sy_taken s 1 @ cv_pending (sy_service s) 1) = set (node_tasks json_serde (cv_store (sy_service s)) 1)"
proof -
  let ?run = "sched_run (\<lambda>_. []) (\<lambda>x. x) json_serde (sched_start ensure_tables)" and ?s = "sched_start (ensure_tables :: json store)"
  let ?req = "\<lparr>rq_node_type = ''cafe'', rq_endpoint_id = ''e1'', rq_addrs = []\<rparr>" and ?task = "new_task 1 1 5 1 ''UPDATE'' []"
  let ?d = "\<lparr>td_node_id = 1, td_game_id = 5, td_version = 1, td_kind = ''UPDATE'', td_chunks = [], td_rollback = None\<rparr>"
  let ?st1 = "(ensure_tables :: json store)\<lparr>db_counters := [(NEXT_NODE_ID, 1)]\<rparr>"
  let ?st2 = "?st1\<lparr>db_nodes := [(1, JNode demo_node1)]\<rparr>"
  let ?st3 = "?st2\<lparr>db_counters := [(NEXT_NODE_ID, 1), (NEXT_TASK_ID, 1)]\<rparr>"
  let ?in = "\<lambda>st p. ?s\<lparr>sy_service := with_events st, sy_pool := p\<rparr>"
  let ?adv = "advance (\<lambda>_. []) (\<lambda>x. x) json_serde False (\<lambda>_. 0)"
  note ev = on_store_def on_read_def with_events_def ensure_tables_def next_node_id_def next_task_id_def next_id_def
    tbl_get_def tbl_insert_def Let_def opt_mset_def NEXT_NODE_ID_def NEXT_TASK_ID_def json_serde_def demo_node1_def
    insert_node_def insert_task_def get_node_def get_decoded_def db_decode_def draft_task_def new_task_def tasks_for_node_def list_decoded_def
  have "?run 1 (?in ensure_tables {#NodeId ?req#})"
    using sched_step_run [OF step_arrive [of _ _ _ ?s "RpcRegister ?req"]]
    by (simp add: sched_start_def opt_mset_def valid_node_type_def)
  moreover have "?adv (NodeId ?req) (with_events ensure_tables) = (Some (NodePut demo_node1), with_events ?st1)" by (simp add: ev)
  ultimately have "?run (Suc 1) (?in ?st1 {#NodePut demo_node1#})" using run_go by (fastforce simp: opt_mset_def)
  moreover have "?adv (NodePut demo_node1) (with_events ?st1) = (Some (NodeTasks 1), with_events ?st2)" by (simp add: ev)
  ultimately have "?run (Suc (Suc 1)) (?in ?st2 {#NodeTasks 1#})" using run_go by (fastforce simp: opt_mset_def)
  moreover have "?adv (NodeTasks 1) (with_events ?st2) = (None, with_events ?st2)" by (simp add: ev)
  ultimately have "?run (Suc (Suc (Suc 1))) (?in ?st2 {#})" using run_go by (fastforce simp: opt_mset_def)
  from run_step [OF this step_arrive [of _ _ _ _ "PostTask 1 5 1 ''UPDATE''"]] have "?run 5 (?in ?st2 {#TaskNode ?d#})"
    by (simp add: opt_mset_def eval_nat_numeral)
  moreover have "?adv (TaskNode ?d) (with_events ?st2) = (Some (TaskId ?d), with_events ?st2)" by (simp add: ev)
  ultimately have "?run (Suc 5) (?in ?st2 {#TaskId ?d#})" using run_go by (fastforce simp: opt_mset_def)
  moreover have "?adv (TaskId ?d) (with_events ?st2) = (Some (TaskPut ?task None), with_events ?st3)" by (simp add: ev)
  ultimately have "?run (Suc (Suc 5)) (?in ?st3 {#TaskPut ?task None#})" using run_go by (fastforce simp: opt_mset_def)
  moreover have "?adv (TaskPut ?task None) (with_events ?st3) = (Some (TaskQueue ?task None), with_events demo_store1)"
    by (simp add: ev demo_store1_def)
  ultimately have "?run 8 (?in demo_store1 {#TaskQueue ?task None#})" using run_go by (fastforce simp: opt_mset_def)
  from run_go [OF this, of False "\<lambda>_. 0"]
  have "?run 9 (?s\<lparr>sy_service := enqueue ?task (with_events demo_store1), sy_pool := {#TaskBroadcast ?task None#}\<rparr>)" by (simp add: opt_mset_def)
  moreover have "watch_round (\<lambda>_. True) 1 (enqueue ?task (with_events demo_store1)) = ([TaskPushed (to_proto_task ?task)], True, with_events demo_store1)"
    by (simp add: watch_round_def enqueue_def with_events_def new_task_def fun_eq_iff)
  ultimately have run: "?run 10 (?s\<lparr>sy_service := with_events demo_store1, sy_pool := {#TaskBroadcast ?task None#},
      sy_taken := (\<lambda>_. [])(1 := [TaskPushed (to_proto_task ?task)])\<rparr>)"
    using run_step [OF _ step_watch] by (fastforce simp: enqueue_def with_events_def new_task_def sched_start_def)
  from interleavings_push_once [OF json_serde_ok run] run show ?thesis by fastforce
qed

section \<open>Atomic handlers are runs\<close>

text \<open>A handler that runs without interruption, from a point to its end.\<close>

inductive solo ::
    "(bytes \<Rightarrow> bytes) \<Rightarrow> (bytes list \<Rightarrow> bytes list) \<Rightarrow> 'j serde \<Rightarrow> point option \<Rightarrow> 'j control_service \<Rightarrow> 'j control_service \<Rightarrow> bool"
  for blake3 order cd where
  solo_end: "solo blake3 order cd None sv sv"
| solo_go: "advance blake3 order cd flt now p sv = (q, sv1) \<Longrightarrow> solo blake3 order cd q sv1 sv2 \<Longrightarrow> solo blake3 order cd (Some p) sv sv2"

lemma solo_run:
  assumes "solo blake3 order cd q sv sv'"
  shows "\<exists>n. sched_run blake3 order cd (s\<lparr>sy_service := sv, sy_pool := ps + opt_mset q\<rparr>) n (s\<lparr>sy_service := sv', sy_pool := ps\<rparr>)"
  using assms
proof induction
  case (solo_end sv)
  show ?case by (rule exI [of _ 0]) (simp add: opt_mset_def run_none)
next
  case (solo_go flt now p sv q sv1 sv2)
  let ?s = "s\<lparr>sy_service := sv, sy_pool := ps + opt_mset (Some p)\<rparr>"
  have "sched_step blake3 order cd ?s (?s\<lparr>sy_service := sv1, sy_pool := sy_pool ?s - {#p#} + opt_mset q\<rparr>)"
    by (rule step_advance [where flt = flt and now = now]) (simp_all add: opt_mset_def solo_go(1))
  then have "sched_step blake3 order cd ?s (s\<lparr>sy_service := sv1, sy_pool := ps + opt_mset q\<rparr>)"
    by (simp add: opt_mset_def)
  then show ?case using solo_go(3) sched_run_trans [OF sched_step_run] by blast
qed

definition follows ::
    "(bytes \<Rightarrow> bytes) \<Rightarrow> (bytes list \<Rightarrow> bytes list) \<Rightarrow> 'j serde \<Rightarrow> point option \<Rightarrow> ('j, 'a) http \<Rightarrow> bool" where
  "follows blake3 order cd q h \<longleftrightarrow> (\<forall>sv. solo blake3 order cd q sv (snd (h sv)))"

lemma follows_end [intro]:
  "follows blake3 order cd None (http_fail e)" "follows blake3 order cd None (http_return x)"
  by (simp_all add: follows_def http_fail_def http_return_def solo_end)

lemma follows_op:
  fixes cd :: "'j serde"
  assumes "\<And>sv. advance blake3 order cd fl nw p sv = on_store f k' sv" "\<And>x. follows blake3 order cd (k' x) (k x)"
  shows "follows blake3 order cd (Some p) (http_bind (http_op f) k)"
  unfolding follows_def
proof
  fix sv :: "'j control_service"
  obtain r st where f: "f (cv_store sv) = (r, st)" by fastforce
  show "solo blake3 order cd (Some p) sv (snd (http_bind (http_op f) k sv))"
  proof (cases r)
    case (Inl e)
    with f assms(1) [of sv] show ?thesis
      by (auto simp: on_store_def http_bind_def http_op_def intro: solo_go solo_end)
  next
    case (Inr x)
    with f assms(1) [of sv] have "advance blake3 order cd fl nw p sv = (k' x, sv\<lparr>cv_store := st\<rparr>)" by (simp add: on_store_def)
    moreover have "solo blake3 order cd (k' x) (sv\<lparr>cv_store := st\<rparr>) (snd (k x (sv\<lparr>cv_store := st\<rparr>)))"
      using assms(2) by (simp add: follows_def)
    ultimately show ?thesis using f Inr by (auto simp: http_bind_def http_op_def intro: solo_go)
  qed
qed

lemma follows_read:
  fixes cd :: "'j serde"
  assumes "\<And>sv. advance blake3 order cd fl nw p sv = on_read f k' sv" "\<And>x. follows blake3 order cd (k' x) (k x)"
  shows "follows blake3 order cd (Some p) (http_bind (http_read f) k)"
  unfolding follows_def
proof
  fix sv :: "'j control_service"
  show "solo blake3 order cd (Some p) sv (snd (http_bind (http_read f) k sv))"
  proof (cases "f (cv_store sv)")
    case (Inl e)
    with assms(1) [of sv] show ?thesis
      by (auto simp: on_read_def http_bind_def http_read_def intro: solo_go solo_end)
  next
    case (Inr x)
    with assms(1) [of sv] have "advance blake3 order cd fl nw p sv = (k' x, sv)" by (simp add: on_read_def)
    moreover have "solo blake3 order cd (k' x) sv (snd (k x sv))" using assms(2) by (simp add: follows_def)
    ultimately show ?thesis using Inr by (auto simp: http_bind_def http_read_def intro: solo_go)
  qed
qed

lemma solo_audit: "solo blake3 order cd (Some (AuditId act)) sv (snd (audit cd f1 f2 now act sv))"
proof -
  obtain r st where nxt: "next_id f1 NEXT_AUDIT_ID (cv_store sv) = (r, st)" by fastforce
  show ?thesis
  proof (cases r)
    case (Inl e)
    with nxt have "advance blake3 order cd f1 (\<lambda>_. now) (AuditId act) sv = (None, snd (audit cd f1 f2 now act sv))"
      by (simp add: on_store_def audit_def add_audit_def)
    then show ?thesis by (auto intro: solo_go solo_end)
  next
    case (Inr i)
    let ?a = "\<lparr>au_id = i, au_time_ms = now, au_actor = ''admin'', au_action = act\<rparr>"
    have "advance blake3 order cd f1 (\<lambda>_. now) (AuditId act) sv = (Some (AuditPut ?a), sv\<lparr>cv_store := st\<rparr>)"
      using nxt Inr by (simp add: on_store_def)
    moreover have "advance blake3 order cd f2 (\<lambda>_. now) (AuditPut ?a) (sv\<lparr>cv_store := st\<rparr>) = (None, snd (audit cd f1 f2 now act sv))"
      using nxt Inr by (simp add: on_store_def audit_def add_audit_def insert_audit_def insert_json_def Let_def)
    ultimately show ?thesis by (auto intro!: solo_go solo_end)
  qed
qed

lemma follows_audit [intro]:
  "follows blake3 order cd (Some (AuditId act)) (audit cd f1 f2 now act)"
  "follows blake3 order cd (Some (AuditId act)) (http_bind (audit cd f1 f2 now act) (\<lambda>_. http_return x))"
  using solo_audit by (auto simp: follows_def http_bind_def http_return_def audit_def)


text \<open>Pushing a task is its three points.\<close>

lemma follows_push:
  assumes "follows blake3 order cd (Some (after_push task roll)) (k ())"
  shows "follows blake3 order cd (Some (TaskPut task roll)) (http_bind (http_push_task cd f task) k)"
proof -
  have "solo blake3 order cd (Some (TaskPut task roll)) sv (snd (http_bind (http_push_task cd f task) k sv))" for sv
  proof (cases f)
    case True
    then have "advance blake3 order cd f (\<lambda>_. 0) (TaskPut task roll) sv = (None, snd (http_bind (http_push_task cd f task) k sv))"
      by (simp add: on_store_def http_bind_def http_push_task_def push_task_def insert_task_def Let_def)
    then show ?thesis by (auto intro: solo_go solo_end)
  next
    case False
    then obtain st where ins: "insert_task cd f task (cv_store sv) = (Inr (), st)" by (auto simp: insert_task_def Let_def)
    let ?sv1 = "sv\<lparr>cv_store := st\<rparr>"
    let ?sv2 = "enqueue task ?sv1"
    let ?sv3 = "broadcast (TaskCreated (tk_id task) (tk_node_id task) (tk_game_id task)) ?sv2"
    have "http_bind (http_push_task cd f task) k sv = k () ?sv3"
      using ins by (simp add: http_bind_def http_push_task_def push_task_def enqueue_def broadcast_def)
    moreover have "solo blake3 order cd (Some (after_push task roll)) ?sv3 (snd (k () ?sv3))"
      using assms by (simp add: follows_def)
    moreover have "advance blake3 order cd f (\<lambda>_. 0) (TaskPut task roll) sv = (Some (TaskQueue task roll), ?sv1)"
      using ins by (simp add: on_store_def)
    ultimately show ?thesis by (auto intro!: solo_go [where flt = f and now = "\<lambda>_. 0"])
  qed
  then show ?thesis by (simp add: follows_def)
qed

text \<open>The chunk assignment is a chain of reads.\<close>

lemma solo_holders:
  assumes "\<And>rest. unheld cd flt (cv_store sv) (td_game_id d) hs = Inr rest \<Longrightarrow>
      solo blake3 order cd (Some (TaskId (d\<lparr>td_chunks := sort (td_chunks d @ rest)\<rparr>))) sv sv'"
    and "\<And>e. unheld cd flt (cv_store sv) (td_game_id d) hs = Inl e \<Longrightarrow> sv' = sv"
  shows "solo blake3 order cd (Some (holders_next d hs)) sv sv'"
  using assms
proof (induction hs arbitrary: d flt)
  case Nil
  from Nil(1) [of "[]"] show ?case by (simp add: holders_next_def)
next
  case (Cons h hs)
  let ?g = "td_game_id d" and ?st = "cv_store sv"
  show ?case
  proof (cases "chunk_holders cd (flt 0) ?st ?g h")
    case (Inl e)
    with Cons.prems(2) have "sv' = sv" by simp
    with Inl show ?thesis
      by (auto simp: holders_next_def on_read_def intro!: solo_go [where flt = "flt 0"] solo_end)
  next
    case (Inr ids)
    let ?d = "if ids = [] then d\<lparr>td_chunks := td_chunks d @ [h]\<rparr> else d"
    have adv: "advance blake3 order cd (flt 0) (\<lambda>_. 0) (TaskHolders d (h # hs)) sv = (Some (holders_next ?d hs), sv)"
      using Inr by (simp add: on_read_def)
    have "solo blake3 order cd (Some (holders_next ?d hs)) sv sv'"
    proof (rule Cons.IH [of "\<lambda>k. flt (Suc k)"])
      show "solo blake3 order cd (Some (TaskId (?d\<lparr>td_chunks := sort (td_chunks ?d @ rest)\<rparr>))) sv sv'"
        if "unheld cd (\<lambda>k. flt (Suc k)) ?st (td_game_id ?d) hs = Inr rest" for rest
        using Cons.prems(1) [of "if ids = [] then h # rest else rest"] that Inr by (auto split: if_splits)
      show "sv' = sv" if "unheld cd (\<lambda>k. flt (Suc k)) ?st (td_game_id ?d) hs = Inl e" for e
        using Cons.prems(2) [of e] that Inr by (auto split: if_splits)
    qed
    then show ?thesis unfolding holders_next_def [of d "h # hs"] using solo_go [OF adv] by simp
  qed
qed

lemma follows_assign:
  assumes "\<And>chunks. follows blake3 order cd (Some (TaskId (d\<lparr>td_chunks := chunks\<rparr>))) (k chunks)" and d: "td_chunks d = []"
  shows "follows blake3 order cd (Some (if nt \<noteq> ''idc'' then TaskId d else TaskVersion d))
    (http_bind (http_read (\<lambda>st. assign_idc_chunks blake3 order cd flt st (td_game_id d) (td_version d) nt)) k)"
proof -
  have same: "d\<lparr>td_chunks := []\<rparr> = d" using d by simp
  have go: "solo blake3 order cd (Some (TaskId (d\<lparr>td_chunks := cs\<rparr>))) sv (snd (k cs sv))" for cs sv
    using assms(1) by (simp add: follows_def)
  let ?h = "http_bind (http_read (\<lambda>st. assign_idc_chunks blake3 order cd flt st (td_game_id d) (td_version d) nt)) k"
  have "solo blake3 order cd (Some (if nt \<noteq> ''idc'' then TaskId d else TaskVersion d)) sv (snd (?h sv))" for sv
  proof (cases "nt = ''idc''")
    case False
    with go [of "[]" sv] same show ?thesis by (simp add: assign_idc_chunks_def http_bind_def http_read_def)
  next
    case True
    let ?read = "get_version cd (flt 0) (cv_store sv) (td_game_id d) (td_version d)"
    have adv: "advance blake3 order cd (flt 0) (\<lambda>_. 0) (TaskVersion d) sv =
        on_read (\<lambda>st. get_version cd (flt 0) st (td_game_id d) (td_version d)) (\<lambda>m. case m of
          None \<Rightarrow> Some (TaskId d)
        | Some manifest \<Rightarrow> (case decode blake3 manifest of
            Inl _ \<Rightarrow> None | Inr index \<Rightarrow> Some (holders_next d (order (remdups (chunk_hashes index)))))) sv" by simp
    show ?thesis
    proof (cases "\<exists>m index. ?read = Inr (Some m) \<and> decode blake3 m = Inr index")
      case False
      then consider e where "?read = Inl e" | "?read = Inr None" | m e where "?read = Inr (Some m)" "decode blake3 m = Inl e"
        by (metis sum.exhaust option.exhaust)
      then show ?thesis
        by cases (use True adv go [of "[]" sv] same in \<open>auto simp: assign_idc_chunks_def http_bind_def http_read_def on_read_def
            intro!: solo_go [where flt = "flt 0" and now = "\<lambda>_. 0"] solo_end\<close>)
    next
      case True
      then obtain m index where m: "?read = Inr (Some m)" "decode blake3 m = Inr index" by blast
      let ?hs = "order (remdups (chunk_hashes index))"
      have "solo blake3 order cd (Some (holders_next d ?hs)) sv (snd (?h sv))"
        by (rule solo_holders [where flt = "\<lambda>k. flt (Suc k)"])
          (use m \<open>nt = ''idc''\<close> go d in \<open>auto simp: assign_idc_chunks_def http_bind_def http_read_def\<close>)
      then show ?thesis
        using \<open>nt = ''idc''\<close> adv m by (auto simp: on_read_def intro!: solo_go [where flt = "flt 0" and now = "\<lambda>_. 0"])
    qed
  qed
  then show ?thesis by (simp add: follows_def)
qed


subsection \<open>Each handler\<close>

text \<open>One rule per transaction of the handlers.\<close>

named_theorems follows_steps \<open>the step of a handler at each point\<close>

lemma follows_accounts [follows_steps]:
  "(\<And>i. follows blake3 order cd (Some (AccountPut (UserRow \<lparr>ur_id = i, ur_username = username,
        ur_password_hash = hash_password blake3 password (show_u64 now), ur_salt = show_u64 now\<rparr>))) (k i)) \<Longrightarrow>
     follows blake3 order cd (Some (AccountId (NewUser username password))) (http_bind (http_op (next_user_id f)) k)"
  "(\<And>i. follows blake3 order cd (Some (AccountPut (PlaceRow \<lparr>pr_id = i, pr_name = name, pr_region = region\<rparr>))) (k i)) \<Longrightarrow>
     follows blake3 order cd (Some (AccountId (NewPlace name region))) (http_bind (http_op (next_place_id f)) k)"
  "(\<And>i. follows blake3 order cd (Some (AccountPut (GroupRow \<lparr>gr_id = i, gr_name = name\<rparr>))) (k i)) \<Longrightarrow>
     follows blake3 order cd (Some (AccountId (NewGroup name))) (http_bind (http_op (next_group_id f)) k)"
  by (rule follows_op [where fl = f and nw = "\<lambda>_. now"], simp add: Let_def, simp)+

lemma follows_rows [follows_steps]:
  "follows blake3 order cd (Some (AuditId (CreateUser (ur_id u)))) (k ()) \<Longrightarrow>
     follows blake3 order cd (Some (AccountPut (UserRow u))) (http_bind (http_op (insert_user cd f u)) k)"
  "follows blake3 order cd (Some (AuditId (CreatePlace (pr_id p)))) (k ()) \<Longrightarrow>
     follows blake3 order cd (Some (AccountPut (PlaceRow p))) (http_bind (http_op (insert_place cd f p)) k)"
  "follows blake3 order cd (Some (AuditId (CreateGroup (gr_id g)))) (k ()) \<Longrightarrow>
     follows blake3 order cd (Some (AccountPut (GroupRow g))) (http_bind (http_op (insert_group cd f g)) k)"
  "follows blake3 order cd (Some (AuditId (CreateGame (gm_id m)))) (k ()) \<Longrightarrow>
     follows blake3 order cd (Some (GamePut m)) (http_bind (http_op (insert_game cd f m)) k)"
  "follows blake3 order cd (Some (AuditId (RollbackGame i v))) (k ()) \<Longrightarrow>
     follows blake3 order cd (Some (RollPut m i v)) (http_bind (http_op (insert_game cd f m)) k)"
  by (rule follows_op [where fl = f and nw = "\<lambda>_. 0"], simp, simp)+

lemma follows_removals [follows_steps]:
  "(\<And>b. follows blake3 order cd (if_found (DeleteUser i) b) (k b)) \<Longrightarrow>
     follows blake3 order cd (Some (Remove (RmUser i))) (http_bind (http_op (delete_user f i)) k)"
  "(\<And>b. follows blake3 order cd (if_found (DeletePlace i) b) (k b)) \<Longrightarrow>
     follows blake3 order cd (Some (Remove (RmPlace i))) (http_bind (http_op (delete_place f i)) k)"
  "(\<And>b. follows blake3 order cd (if_found (DeleteGroup i) b) (k b)) \<Longrightarrow>
     follows blake3 order cd (Some (Remove (RmGroup i))) (http_bind (http_op (delete_group f i)) k)"
  "(\<And>b. follows blake3 order cd (if_found (DeleteGame i) b) (k b)) \<Longrightarrow>
     follows blake3 order cd (Some (Remove (RmGame i))) (http_bind (http_op (delete_game f i)) k)"
  by (rule follows_op [where fl = f and nw = "\<lambda>_. 0"], simp, simp)+

lemma follows_games [follows_steps]:
  "(\<And>g. follows blake3 order cd (if g \<noteq> None then None else Some (GamePut (new_game i name))) (k g)) \<Longrightarrow>
     follows blake3 order cd (Some (GameCheck name i)) (http_bind (http_read (\<lambda>st. get_game cd f st i)) k)"
  "(\<And>i. follows blake3 order cd (Some (GamePut (new_game i name))) (k' i)) \<Longrightarrow>
     follows blake3 order cd (Some (GameId name)) (http_bind (http_op (next_game_id f)) k')"
  by (rule follows_read [where fl = f and nw = "\<lambda>_. 0"], simp, simp)
    (rule follows_op [where fl = f and nw = "\<lambda>_. 0"], simp, simp)

lemma follows_task_id [follows_steps]:
  assumes "\<And>i. draft_task d i = task i" and "\<And>i. follows blake3 order cd (Some (after_push (task i) (td_rollback d))) (k i)"
  shows "follows blake3 order cd (Some (TaskId d))
    (http_bind (http_op (next_task_id f1)) (\<lambda>i. http_bind (http_push_task cd f2 (task i)) (\<lambda>_. k i)))"
  by (rule follows_op [where fl = f1 and nw = "\<lambda>_. 0"]) (auto intro: follows_push simp: assms)

lemma bind_assoc: "http_bind (http_bind f g) h = http_bind f (\<lambda>x. http_bind (g x) h)"
  by (auto simp: http_bind_def fun_eq_iff split: prod.splits sum.splits)

lemma bind_fail: "http_bind (http_fail e) k = http_fail e" and bind_return: "http_bind (http_return x) k = k x"
  by (simp_all add: http_bind_def http_fail_def http_return_def fun_eq_iff)

lemma follows_create_account:
  "follows blake3 order cd (arrive (PostUser username password)) (create_user blake3 cd flt now username password)"
  "follows blake3 order cd (arrive (PostPlace name region)) (create_place cd flt now name region)"
  "follows blake3 order cd (arrive (PostGroup name)) (create_group cd flt now name)"
  unfolding create_user_def create_place_def create_group_def
  by (auto simp: Let_def intro!: follows_accounts(1) [where now = now] follows_accounts(2,3) follows_rows)

lemma follows_delete:
  "follows blake3 order cd (arrive (DeleteUserReq i)) (http_delete_user cd flt now i)"
  "follows blake3 order cd (arrive (DeletePlaceReq i)) (http_delete_place cd flt now i)"
  "follows blake3 order cd (arrive (DeleteGroupReq i)) (http_delete_group cd flt now i)"
  "follows blake3 order cd (arrive (DeleteGameReq i)) (http_delete_game cd flt now i)"
  unfolding http_delete_user_def http_delete_place_def http_delete_group_def http_delete_game_def
  by (auto simp: if_found_def intro!: follows_removals)

lemma follows_bind: "follows blake3 order cd (arrive (PostBinding kind a b)) (http_bind_ids cd flt now kind a b)"
  unfolding http_bind_ids_def by (auto intro!: follows_op [where fl = "flt 0" and nw = "\<lambda>_. now"])

lemma follows_create_game: "follows blake3 order cd (arrive (PostGame name req)) (create_game cd flt now name req)"
  unfolding create_game_def game_id_for_def
  by (cases req) (auto simp: bind_assoc bind_fail bind_return new_game_def intro!: follows_games follows_rows follows_end follows_audit)

lemma follows_create_task:
  "follows blake3 order cd (arrive (PostTask node_id game_id version kind))
     (create_task blake3 order cd flt now node_id game_id version kind)"
proof (cases "kind = []")
  case False
  let ?d = "\<lparr>td_node_id = node_id, td_game_id = game_id, td_version = version, td_kind = kind, td_chunks = [], td_rollback = None\<rparr>"
  have tail: "follows blake3 order cd (Some (TaskId (?d\<lparr>td_chunks := chunks\<rparr>)))
      (http_bind (http_op (next_task_id (flt 1))) (\<lambda>i.
         http_bind (http_push_task cd (flt 2) (new_task i node_id game_id version kind chunks)) (\<lambda>_.
         http_bind (audit cd (flt 3) (flt 4) now (CreateTask i game_id version)) (\<lambda>_.
           http_return (new_task i node_id game_id version kind chunks)))))" for chunks
    by (rule follows_task_id) (auto simp: draft_task_def after_push_def new_task_def)
  let ?rest = "\<lambda>node. http_bind (http_read (\<lambda>st. assign_idc_chunks blake3 order cd (\<lambda>k. flt (k + 5)) st game_id version (nd_node_type node)))
      (\<lambda>chunks. http_bind (http_op (next_task_id (flt 1))) (\<lambda>i.
           http_bind (http_push_task cd (flt 2) (new_task i node_id game_id version kind chunks)) (\<lambda>_.
           http_bind (audit cd (flt 3) (flt 4) now (CreateTask i game_id version)) (\<lambda>_.
             http_return (new_task i node_id game_id version kind chunks)))))"
  let ?next = "\<lambda>n. case n of None \<Rightarrow> None | Some node \<Rightarrow> Some (if nd_node_type node \<noteq> ''idc'' then TaskId ?d else TaskVersion ?d)"
  have go: "follows blake3 order cd (Some (if nd_node_type node \<noteq> ''idc'' then TaskId ?d else TaskVersion ?d)) (?rest node)" for node
    using follows_assign [where d = ?d, OF tail] by simp
  have "follows blake3 order cd (Some (TaskNode ?d)) (http_bind (http_read (\<lambda>st. get_node cd (flt 0) st node_id)) (\<lambda>n. case n of
      None \<Rightarrow> http_fail NOT_FOUND | Some node \<Rightarrow> ?rest node))"
  proof (rule follows_read [where fl = "flt 0" and nw = "\<lambda>_. now" and k' = ?next])
    show "follows blake3 order cd (?next n) (case n of None \<Rightarrow> http_fail NOT_FOUND | Some node \<Rightarrow> ?rest node)" for n
      using go follows_end by (cases n) (simp_all only: option.case)
  qed simp
  then show ?thesis using False by (simp add: create_task_def Let_def del: One_nat_def)
qed (auto simp: create_task_def)

lemma follows_rollback:
  "follows blake3 order cd (arrive (PostRollback game_id node_id version)) (rollback_game cd flt now game_id node_id version)"
proof (cases "version = 0")
  case False
  let ?d = "\<lambda>game. \<lparr>td_node_id = node_id, td_game_id = game_id, td_version = version, td_kind = ''ROLLBACK'', td_chunks = [],
      td_rollback = Some (game\<lparr>gm_current_version := version\<rparr>)\<rparr>"
  have tail: "follows blake3 order cd (Some (TaskId (?d game)))
      (http_bind (http_op (next_task_id (flt 3))) (\<lambda>i.
         http_bind (http_push_task cd (flt 4) (new_task i node_id game_id version ''ROLLBACK'' [])) (\<lambda>_.
         http_bind (http_op (insert_game cd (flt 5) (game\<lparr>gm_current_version := version\<rparr>))) (\<lambda>_.
         http_bind (audit cd (flt 6) (flt 7) now (RollbackGame game_id version)) (\<lambda>_.
           http_return (new_task i node_id game_id version ''ROLLBACK'' []))))))" for game
    by (rule follows_task_id) (auto simp: draft_task_def after_push_def new_task_def intro!: follows_rows)
  show ?thesis
    unfolding rollback_game_def Let_def using False
    apply (simp del: One_nat_def)
    apply (rule follows_read [where fl = "flt 0" and nw = "\<lambda>_. now"], simp)
    apply (auto split: option.splits simp del: One_nat_def)
    apply (rule follows_read [where fl = "flt 1" and nw = "\<lambda>_. now"], simp)
    apply (auto simp del: One_nat_def)
    apply (rule follows_read [where fl = "flt 2" and nw = "\<lambda>_. now"], simp)
    apply (auto simp del: One_nat_def intro: tail)
    done
qed (auto simp: rollback_game_def)


lemma follows_cancel: "follows blake3 order cd (arrive (PostCancel i)) (cancel_task cd flt now i)"
proof -
  let ?tail = "\<lambda>sv. audit cd (flt 2) (flt 3) now (CancelTask i) (sv\<lparr>cv_events := cv_events sv @ [TaskStatus i ''cancelled'']\<rparr>)"
  have "follows blake3 order cd (Some (CancelBroadcast i)) ?tail"
    unfolding follows_def by (intro allI solo_go [where flt = False and now = "\<lambda>_. now", OF _ solo_audit]) (simp add: broadcast_def)
  then have put: "follows blake3 order cd (Some (CancelPut i))
      (http_bind (http_op (update_task_status cd (flt 1) i ''cancelled'' ''cancelled by operator'')) (\<lambda>_. ?tail))"
    by (intro follows_op [where fl = "flt 1" and nw = "\<lambda>_. now"]) simp_all
  let ?find = "\<lambda>ts. find (\<lambda>t. tk_id t = i) ts"
  let ?next = "\<lambda>ts. case ?find ts of None \<Rightarrow> None | Some task \<Rightarrow> if tk_status task \<noteq> ''queued'' then None else Some (CancelPut i)"
  show ?thesis
    unfolding cancel_task_def arrive.simps
  proof (rule follows_read [where fl = "flt 0" and nw = "\<lambda>_. now" and k' = ?next])
    show "follows blake3 order cd (?next ts) (case ?find ts of
         None \<Rightarrow> http_fail NOT_FOUND
       | Some task \<Rightarrow> if tk_status task \<noteq> ''queued'' then http_fail BAD_REQUEST
           else http_bind (http_op (update_task_status cd (flt 1) i ''cancelled'' ''cancelled by operator'')) (\<lambda>_. ?tail))" for ts
      using put follows_end by (cases "?find ts") (auto simp del: One_nat_def)
  qed simp
qed

lemma solo_NodeTasks: "solo blake3 order cd (Some (NodeTasks i)) sv sv"
proof -
  have "advance blake3 order cd True (\<lambda>_. 0) (NodeTasks i) sv = (None, sv)"
    by (simp add: on_read_def tasks_for_node_def list_decoded_def)
  then show ?thesis by (auto intro: solo_go solo_end)
qed

lemma solo_register: "solo blake3 order cd (arrive (RpcRegister req)) sv (snd (register cd flt now req sv))"
proof (cases "valid_node_type (rq_node_type req)")
  case True
  obtain r st where nxt: "next_node_id (flt 0) (cv_store sv) = (r, st)" by fastforce
  show ?thesis
  proof (cases r)
    case (Inl e)
    with nxt True show ?thesis
      by (auto simp: register_def on_store_def intro!: solo_go [where flt = "flt 0" and now = now] solo_end)
  next
    case (Inr nid)
    let ?n = "\<lparr>nd_id = nid, nd_node_type = rq_node_type req, nd_endpoint_id = rq_endpoint_id req,
      nd_token = show_u64 (now 0) @ ''-'' @ show_u64 nid, nd_addrs = rq_addrs req, nd_status = ''online'',
      nd_last_heartbeat_ms = now 1\<rparr>"
    obtain r' st' where ins: "insert_node cd (flt 1) ?n st = (r', st')" by fastforce
    have a: "advance blake3 order cd (flt 0) now (NodeId req) sv = (Some (NodePut ?n), sv\<lparr>cv_store := st\<rparr>)"
      using nxt Inr by (simp add: on_store_def)
    have b: "advance blake3 order cd (flt 1) now (NodePut ?n) (sv\<lparr>cv_store := st\<rparr>) =
        ((case r' of Inl _ \<Rightarrow> None | Inr _ \<Rightarrow> Some (NodeTasks nid)), sv\<lparr>cv_store := st'\<rparr>)"
      using ins by (simp add: on_store_def split: sum.splits)
    have c: "snd (register cd flt now req sv) = sv\<lparr>cv_store := st'\<rparr>"
      using True nxt Inr ins by (simp add: register_def Let_def split: sum.splits)
    have "solo blake3 order cd (case r' of Inl _ \<Rightarrow> None | Inr _ \<Rightarrow> Some (NodeTasks nid)) (sv\<lparr>cv_store := st'\<rparr>) (sv\<lparr>cv_store := st'\<rparr>)"
      by (cases r') (auto intro: solo_NodeTasks solo_end)
    then show ?thesis using True solo_go [OF a solo_go [OF b]] c by simp
  qed
qed (simp add: register_def solo_end)

lemma solo_heartbeat: "solo blake3 order cd (arrive (RpcHeartbeat i)) sv (snd (heartbeat cd flt now i sv))"
proof (cases "get_node cd (flt 0) (cv_store sv) i")
  case (Inl e)
  then show ?thesis
    by (auto simp: heartbeat_def on_read_def intro!: solo_go [where flt = "flt 0" and now = now] solo_end)
next
  case (Inr r)
  show ?thesis
  proof (cases r)
    case None
    with Inr show ?thesis
      by (auto simp: heartbeat_def on_read_def intro!: solo_go [where flt = "flt 0" and now = now] solo_end)
  next
    case (Some node)
    let ?n = "node\<lparr>nd_last_heartbeat_ms := now 0, nd_status := ''online''\<rparr>"
    obtain r' st' where ins: "insert_node cd (flt 1) ?n (cv_store sv) = (r', st')" by fastforce
    have a: "advance blake3 order cd (flt 0) now (BeatNode i) sv = (Some (BeatPut ?n), sv)"
      using Inr Some by (simp add: on_read_def)
    have b: "advance blake3 order cd (flt 1) now (BeatPut ?n) sv =
        ((case r' of Inl _ \<Rightarrow> None | Inr _ \<Rightarrow> Some (NodeTasks (nd_id node))), sv\<lparr>cv_store := st'\<rparr>)"
      using ins by (simp add: on_store_def split: sum.splits)
    have c: "snd (heartbeat cd flt now i sv) = sv\<lparr>cv_store := st'\<rparr>"
      using Inr Some ins by (simp add: heartbeat_def Let_def split: sum.splits)
    have "solo blake3 order cd (case r' of Inl _ \<Rightarrow> None | Inr _ \<Rightarrow> Some (NodeTasks (nd_id node))) (sv\<lparr>cv_store := st'\<rparr>) (sv\<lparr>cv_store := st'\<rparr>)"
      by (cases r') (auto intro: solo_NodeTasks solo_end)
    then show ?thesis using solo_go [OF a solo_go [OF b]] c by simp
  qed
qed

lemma solo_reports:
  "solo blake3 order cd (arrive (RpcReportTask i stat err)) sv (snd (report_task cd f i stat err sv))"
  "solo blake3 order cd (arrive (RpcReportChunk n g h)) sv (snd (report_chunk cd f n g h sv))"
proof -
  obtain r st where upd: "update_task_status cd f i stat err (cv_store sv) = (r, st)" by fastforce
  show "solo blake3 order cd (arrive (RpcReportTask i stat err)) sv (snd (report_task cd f i stat err sv))"
    by (cases r) (use upd in \<open>auto simp: report_task_def on_store_def broadcast_def
        intro!: solo_go [where flt = f and now = "\<lambda>_. 0"] solo_end\<close>)
  obtain r' st' where rec: "record_chunk_holder cd f n g h (cv_store sv) = (r', st')" by fastforce
  show "solo blake3 order cd (arrive (RpcReportChunk n g h)) sv (snd (report_chunk cd f n g h sv))"
    by (cases r') (use rec in \<open>auto simp: report_chunk_def on_store_def
        intro!: solo_go [where flt = f and now = "\<lambda>_. 0"] solo_end\<close>)
qed


lemma solo_publish: "solo blake3 order cd (arrive (RpcPublishVersion g v m)) sv (snd (publish_version cd flt g v m sv))"
proof (cases "g = 0 \<or> v = 0 \<or> m = []")
  case False
  obtain r st where save: "save_version cd (flt 0) g v m (cv_store sv) = (r, st)" by fastforce
  show ?thesis
  proof (cases r)
    case (Inl e)
    with save False show ?thesis
      by (auto simp: publish_version_def on_store_def intro!: solo_go [where flt = "flt 0" and now = "\<lambda>_. 0"] solo_end)
  next
    case (Inr x)
    let ?sv = "sv\<lparr>cv_store := st\<rparr>"
    have a: "advance blake3 order cd (flt 0) (\<lambda>_. 0) (VersionPut g v m) sv = (Some (VersionGame g v), ?sv)"
      using save Inr by (simp add: on_store_def)
    have "solo blake3 order cd (Some (VersionGame g v)) ?sv (snd (publish_version cd flt g v m sv))"
    proof (cases "\<exists>game. get_game cd (flt 1) st g = Inr (Some game) \<and> gm_latest_version game < v")
      case True
      then obtain game where game: "get_game cd (flt 1) st g = Inr (Some game)" "gm_latest_version game < v" by blast
      obtain r' st' where ins: "insert_game cd (flt 2) (game\<lparr>gm_latest_version := v\<rparr>) st = (r', st')" by fastforce
      have b: "advance blake3 order cd (flt 1) (\<lambda>_. 0) (VersionGame g v) ?sv = (Some (LatestPut (game\<lparr>gm_latest_version := v\<rparr>)), ?sv)"
        using game by (simp add: on_read_def)
      have c: "advance blake3 order cd (flt 2) (\<lambda>_. 0) (LatestPut (game\<lparr>gm_latest_version := v\<rparr>)) ?sv = (None, sv\<lparr>cv_store := st'\<rparr>)"
        using ins by (simp add: on_store_def split: sum.splits)
      have "snd (publish_version cd flt g v m sv) = sv\<lparr>cv_store := st'\<rparr>"
        using False save Inr game ins by (simp add: publish_version_def)
      with solo_go [OF b solo_go [OF c solo_end]] show ?thesis by simp
    next
      case none: False
      then have "advance blake3 order cd (flt 1) (\<lambda>_. 0) (VersionGame g v) ?sv = (None, ?sv)"
        by (auto simp: on_read_def split: sum.splits option.splits)
      moreover have "snd (publish_version cd flt g v m sv) = ?sv"
        using False save Inr none by (auto simp: publish_version_def split: sum.splits option.splits)
      ultimately show ?thesis using solo_go solo_end by metis
    qed
    with solo_go [OF a] False show ?thesis by simp
  qed
qed (auto simp: publish_version_def solo_end)

lemma solo_set_all: "solo blake3 order cd (set_next xs) sv (sv\<lparr>cv_store := set_all cd flt xs (cv_store sv)\<rparr>)"
proof (induction xs arbitrary: sv flt)
  case Nil
  show ?case by (simp add: set_next_def solo_end)
next
  case (Cons x xs)
  obtain want i where x: "x = (want, i)" by fastforce
  let ?st = "set_status cd (flt 0) (flt 1) want i (cv_store sv)" and ?next = "set_next xs"
  have rest: "solo blake3 order cd ?next (sv\<lparr>cv_store := ?st\<rparr>) (sv\<lparr>cv_store := set_all cd flt (x # xs) (cv_store sv)\<rparr>)"
    using Cons.IH [of "sv\<lparr>cv_store := ?st\<rparr>" "\<lambda>k. flt (k + 2)"] by (simp add: x)
  show ?case
  proof (cases "\<exists>node. get_node cd (flt 0) (cv_store sv) i = Inr (Some node) \<and> nd_status node \<noteq> want")
    case True
    then obtain node where node: "get_node cd (flt 0) (cv_store sv) i = Inr (Some node)" "nd_status node \<noteq> want" by blast
    have a: "advance blake3 order cd (flt 0) (\<lambda>_. 0) (StatusGet (x # xs)) sv = (Some (StatusPut (node\<lparr>nd_status := want\<rparr>) xs), sv)"
      using node by (simp add: x)
    have b: "advance blake3 order cd (flt 1) (\<lambda>_. 0) (StatusPut (node\<lparr>nd_status := want\<rparr>) xs) sv = (?next, sv\<lparr>cv_store := ?st\<rparr>)"
      using node by (simp add: set_status_def)
    from solo_go [OF a solo_go [OF b rest]] show ?thesis by (simp add: set_next_def)
  next
    case False
    then have "advance blake3 order cd (flt 0) (\<lambda>_. 0) (StatusGet (x # xs)) sv = (?next, sv)" and st: "?st = cv_store sv"
      by (auto simp: x set_status_def split: sum.splits option.splits)
    from solo_go [OF this(1)] rest st show ?thesis by (simp add: set_next_def)
  qed
qed

lemma solo_mark_offline:
  fixes now :: "nat \<Rightarrow> u64"
  shows "solo blake3 order cd (arrive (TickOffline timeout_ms)) sv (sv\<lparr>cv_store := mark_offline cd flt (now 0) timeout_ms (cv_store sv)\<rparr>)"
proof -
  let ?ids = "case offline_nodes cd (flt 0) (cv_store sv) (now 0) timeout_ms of Inl _ \<Rightarrow> [] | Inr ids \<Rightarrow> ids"
  have "advance blake3 order cd (flt 0) now (OfflineFind timeout_ms) sv = (set_next (map (Pair ''offline'') ?ids), sv)" by simp
  from solo_go [OF this solo_set_all] show ?thesis by (simp add: mark_offline_def Let_def)
qed

lemma solo_tick_status:
  "solo blake3 order cd (arrive (TickStatus xs)) sv (sv\<lparr>cv_store := set_all cd flt xs (cv_store sv)\<rparr>)"
proof (cases xs)
  case Nil
  have "advance blake3 order cd False (\<lambda>_. 0) (StatusGet []) sv = (None, sv)" by simp
  from solo_go [OF this solo_end] Nil show ?thesis by simp
next
  case (Cons x ys)
  with solo_set_all [of blake3 order cd xs sv flt] show ?thesis by (simp add: set_next_def)
qed

subsection \<open>The router\<close>

text \<open>The service after a request whose handler runs without interruption.\<close>

fun serve ::
    "(bytes \<Rightarrow> bytes) \<Rightarrow> (bytes list \<Rightarrow> bytes list) \<Rightarrow> 'j serde \<Rightarrow> (nat \<Rightarrow> bool) \<Rightarrow> (nat \<Rightarrow> u64) \<Rightarrow> request \<Rightarrow>
     'j control_service \<Rightarrow> 'j control_service" where
  "serve blake3 order cd flt now (PostUser username password) sv = snd (create_user blake3 cd flt (now 0) username password sv)"
| "serve blake3 order cd flt now (PostPlace name region) sv = snd (create_place cd flt (now 0) name region sv)"
| "serve blake3 order cd flt now (PostGroup name) sv = snd (create_group cd flt (now 0) name sv)"
| "serve blake3 order cd flt now (DeleteUserReq i) sv = snd (http_delete_user cd flt (now 0) i sv)"
| "serve blake3 order cd flt now (DeletePlaceReq i) sv = snd (http_delete_place cd flt (now 0) i sv)"
| "serve blake3 order cd flt now (DeleteGroupReq i) sv = snd (http_delete_group cd flt (now 0) i sv)"
| "serve blake3 order cd flt now (DeleteGameReq i) sv = snd (http_delete_game cd flt (now 0) i sv)"
| "serve blake3 order cd flt now (PostBinding kind a b) sv = snd (http_bind_ids cd flt (now 0) kind a b sv)"
| "serve blake3 order cd flt now (PostGame name req) sv = snd (create_game cd flt (now 0) name req sv)"
| "serve blake3 order cd flt now (PostTask node_id game_id version kind) sv =
     snd (create_task blake3 order cd flt (now 0) node_id game_id version kind sv)"
| "serve blake3 order cd flt now (PostRollback game_id node_id version) sv =
     snd (rollback_game cd flt (now 0) game_id node_id version sv)"
| "serve blake3 order cd flt now (PostCancel i) sv = snd (cancel_task cd flt (now 0) i sv)"
| "serve blake3 order cd flt now (RpcRegister req) sv = snd (register cd flt now req sv)"
| "serve blake3 order cd flt now (RpcHeartbeat i) sv = snd (heartbeat cd flt now i sv)"
| "serve blake3 order cd flt now (RpcReportTask i stat err) sv = snd (report_task cd (flt 0) i stat err sv)"
| "serve blake3 order cd flt now (RpcReportChunk node_id game_id hash) sv = snd (report_chunk cd (flt 0) node_id game_id hash sv)"
| "serve blake3 order cd flt now (RpcPublishVersion game_id version manifest) sv =
     snd (publish_version cd flt game_id version manifest sv)"
| "serve blake3 order cd flt now (TickOffline timeout_ms) sv = sv\<lparr>cv_store := mark_offline cd flt (now 0) timeout_ms (cv_store sv)\<rparr>"
| "serve blake3 order cd flt now (TickStatus wants) sv = sv\<lparr>cv_store := set_all cd flt wants (cv_store sv)\<rparr>"

lemma solo_serve: "solo blake3 order cd (arrive req) sv (serve blake3 order cd flt now req sv)"
proof -
  note http = follows_create_account follows_delete follows_bind follows_create_game follows_create_task follows_rollback follows_cancel
  note rpc = solo_register solo_heartbeat solo_reports solo_publish solo_mark_offline solo_tick_status
  show ?thesis
    by (cases req) (use http [unfolded follows_def, rule_format] rpc in \<open>simp_all only: serve.simps\<close>)
qed



section \<open>Lost updates\<close>

definition leads_to ::
    "(bytes \<Rightarrow> bytes) \<Rightarrow> (bytes list \<Rightarrow> bytes list) \<Rightarrow> 'j serde \<Rightarrow> 'j sched_system \<Rightarrow> 'j sched_system \<Rightarrow> bool" where
  "leads_to blake3 order cd s t \<longleftrightarrow> (\<exists>n. sched_run blake3 order cd s n t)"

lemma leads_refl: "leads_to blake3 order cd s s"
  unfolding leads_to_def by (rule exI, rule run_none)

lemma leads_go:
  assumes "advance blake3 order cd flt now p sv = (q, sv1)"
    and "leads_to blake3 order cd (s\<lparr>sy_service := sv1, sy_pool := ps + opt_mset q\<rparr>) t"
  shows "leads_to blake3 order cd (s\<lparr>sy_service := sv, sy_pool := add_mset p ps\<rparr>) t"
proof -
  let ?s = "s\<lparr>sy_service := sv, sy_pool := add_mset p ps\<rparr>"
  have "sched_step blake3 order cd ?s (?s\<lparr>sy_service := sv1, sy_pool := sy_pool ?s - {#p#} + opt_mset q\<rparr>)"
    by (rule step_advance [where flt = flt and now = now]) (simp_all add: assms(1))
  with assms(2) sched_run_trans [OF sched_step_run] show ?thesis unfolding leads_to_def by fastforce
qed

lemma leads_solo:
  assumes "solo blake3 order cd q sv sv1" "leads_to blake3 order cd (s\<lparr>sy_service := sv1, sy_pool := ps\<rparr>) t"
  shows "leads_to blake3 order cd (s\<lparr>sy_service := sv, sy_pool := ps + opt_mset q\<rparr>) t"
  using solo_run [OF assms(1), of ps s] assms(2) sched_run_trans unfolding leads_to_def by blast

lemma save_version_view:
  assumes "serde_ok cd" "db_ok cd st"
  obtains st' where "save_version cd False g v m st = (Inr (), st')" "db_ok cd st'" "game_of cd st' = game_of cd st"
    "\<forall>g' v'. get_version cd False st' g' v' = (if g' = g \<and> v' = v then Inr (Some m) else get_version cd False st g' v')"
proof -
  obtain r st' where save: "save_version cd False g v m st = (r, st')" by fastforce
  have t: "tbl_ok (db_versions st)" using assms(2) by (simp add: db_ok_defs)
  show thesis
    by (rule that [of st']) (use save save_version_ok [OF assms save] t assms(1) in
      \<open>auto simp: save_version_def Let_def game_of_def get_version_def tbl_simps serde_ok_def db_decode_def fun_eq_iff\<close>)
qed

lemma insert_game_run:
  assumes "serde_ok cd" "db_ok cd st"
  obtains st' where "insert_game cd False gm st = (Inr (), st')" "db_ok cd st'"
    "game_of cd st' = (game_of cd st)(gm_id gm \<mapsto> gm)" "get_version cd False st' = get_version cd False st"
proof -
  obtain r st' where ins: "insert_game cd False gm st = (r, st')" by fastforce
  show thesis
    by (rule that [of st']) (use ins insert_game_ok [OF assms ins] game_of_insert [OF assms ins] in
      \<open>auto simp: insert_game_def insert_json_def fun_eq_iff\<close>)
qed

text \<open>
  C36. Two publications at the same time. Let a game be recorded with a latest version below \<open>v1\<close>,
  and let versions \<open>v1 < v2\<close> of it be published by two requests in flight. There is an interleaving,
  with no failing transaction, in which both requests succeed and both manifests are stored, but
  the game's latest version is \<open>v1\<close>: each request reads the game record in one transaction and
  writes it back whole in another. (Served one after the other, the latest version is \<open>v2\<close>.)
\<close>

theorem publish_race_loses_latest:
  assumes "serde_ok cd" and "db_ok cd (cv_store (sy_service s))" and "game_of cd (cv_store (sy_service s)) g = Some game"
    and "gm_latest_version game < v1" and "v1 < v2" and "g \<noteq> 0" and "m1 \<noteq> []" and "m2 \<noteq> []"
  shows "\<exists>n s'. sched_run blake3 order cd (s\<lparr>sy_pool := sy_pool s + opt_mset (arrive (RpcPublishVersion g v1 m1)) +
      opt_mset (arrive (RpcPublishVersion g v2 m2))\<rparr>) n s' \<and> sy_pool s' = sy_pool s \<and>
    get_version cd False (cv_store (sy_service s')) g v1 = Inr (Some m1) \<and>
    get_version cd False (cv_store (sy_service s')) g v2 = Inr (Some m2) \<and>
    game_of cd (cv_store (sy_service s')) g = Some (game\<lparr>gm_latest_version := v1\<rparr>)"
proof -
  let ?sv = "sy_service s" and ?ps = "sy_pool s" and ?g1 = "game\<lparr>gm_latest_version := v1\<rparr>" and ?g2 = "game\<lparr>gm_latest_version := v2\<rparr>"
  have v: "v1 \<noteq> 0" "v2 \<noteq> 0" "gm_latest_version game < v2" using assms(4,5) by (auto simp: word_gt_0 not_less [symmetric])
  have gid: "gm_id game = g" by (rule game_of_id [OF assms(2,3)])
  obtain st1 where st1: "save_version cd False g v1 m1 (cv_store ?sv) = (Inr (), st1)" "db_ok cd st1" "game_of cd st1 = game_of cd (cv_store ?sv)"
    "\<forall>g' v'. get_version cd False st1 g' v' = (if g' = g \<and> v' = v1 then Inr (Some m1) else get_version cd False (cv_store ?sv) g' v')"
    by (rule save_version_view [OF assms(1,2), of g v1 m1])
  obtain st2 where st2: "save_version cd False g v2 m2 st1 = (Inr (), st2)" "db_ok cd st2" "game_of cd st2 = game_of cd st1"
    "\<forall>g' v'. get_version cd False st2 g' v' = (if g' = g \<and> v' = v2 then Inr (Some m2) else get_version cd False st1 g' v')"
    by (rule save_version_view [OF assms(1) st1(2), of g v2 m2])
  have get: "get_game cd False st2 g = Inr (Some game)"
    using get_game_eq [OF st2(2)] st1(3) st2(3) assms(3) by simp
  obtain st3 where st3: "insert_game cd False ?g2 st2 = (Inr (), st3)" "db_ok cd st3"
    "game_of cd st3 = (game_of cd st2)(gm_id ?g2 \<mapsto> ?g2)" "get_version cd False st3 = get_version cd False st2"
    by (rule insert_game_run [OF assms(1) st2(2), of ?g2])
  obtain st4 where st4: "insert_game cd False ?g1 st3 = (Inr (), st4)" "db_ok cd st4"
    "game_of cd st4 = (game_of cd st3)(gm_id ?g1 \<mapsto> ?g1)" "get_version cd False st4 = get_version cd False st3"
    by (rule insert_game_run [OF assms(1) st3(2), of ?g1])
  let ?in = "\<lambda>st ps. s\<lparr>sy_service := ?sv\<lparr>cv_store := st\<rparr>, sy_pool := ps\<rparr>"
  let ?go = "leads_to blake3 order cd" and ?fin = "?in st4 ?ps"
  have "?go (?in st3 (add_mset (LatestPut ?g1) ?ps)) ?fin"
    by (rule leads_go [where flt = False]) (simp add: on_store_def st4(1), simp add: opt_mset_def leads_refl)
  then have "?go (?in st2 (add_mset (LatestPut ?g2) (add_mset (LatestPut ?g1) ?ps))) ?fin"
    by (intro leads_go [where flt = False]) (simp add: on_store_def st3(1), simp add: opt_mset_def)
  then have "?go (?in st2 (add_mset (VersionGame g v2) (add_mset (LatestPut ?g1) ?ps))) ?fin"
    by (intro leads_go [where flt = False]) (simp add: on_read_def get v, simp add: opt_mset_def)
  then have "?go (?in st2 (add_mset (VersionGame g v1) (add_mset (VersionGame g v2) ?ps))) ?fin"
    by (intro leads_go [where flt = False]) (simp add: on_read_def get assms(4), simp add: opt_mset_def add_mset_commute)
  then have "?go (?in st1 (add_mset (VersionPut g v2 m2) (add_mset (VersionGame g v1) ?ps))) ?fin"
    by (intro leads_go [where flt = False]) (simp add: on_store_def st2(1), simp add: opt_mset_def add_mset_commute)
  then have "?go (s\<lparr>sy_service := ?sv, sy_pool := add_mset (VersionPut g v1 m1) (add_mset (VersionPut g v2 m2) ?ps)\<rparr>) ?fin"
    by (intro leads_go [where flt = False]) (simp add: on_store_def st1(1), simp add: opt_mset_def add_mset_commute)
  moreover have "s\<lparr>sy_pool := ?ps + opt_mset (arrive (RpcPublishVersion g v1 m1)) + opt_mset (arrive (RpcPublishVersion g v2 m2))\<rparr> =
      s\<lparr>sy_service := ?sv, sy_pool := add_mset (VersionPut g v1 m1) (add_mset (VersionPut g v2 m2) ?ps)\<rparr>"
    using assms(6-8) v by (simp add: opt_mset_def)
  ultimately obtain n where "sched_run blake3 order cd (s\<lparr>sy_pool := ?ps + opt_mset (arrive (RpcPublishVersion g v1 m1)) +
      opt_mset (arrive (RpcPublishVersion g v2 m2))\<rparr>) n ?fin" unfolding leads_to_def by metis
  moreover have "get_version cd False st4 g v1 = Inr (Some m1)" "get_version cd False st4 g v2 = Inr (Some m2)"
    using st1(4) st2(4) st3(4) st4(4) assms(5) by auto
  moreover have "game_of cd st4 g = Some ?g1" using st4(3) gid by simp
  ultimately show ?thesis by (intro exI [of _ n] exI [of _ ?fin] conjI) simp_all
qed


theorem publish_race_loses_latest_witness:
  "\<exists>st n s'. game_of json_serde st 5 = Some (new_game 5 ''g'') \<and>
     sched_run (\<lambda>_. []) (\<lambda>x. x) json_serde ((sched_start st)\<lparr>sy_pool := opt_mset (arrive (RpcPublishVersion 5 1 [1])) +
       opt_mset (arrive (RpcPublishVersion 5 2 [2]))\<rparr>) n s' \<and>
     get_version json_serde False (cv_store (sy_service s')) 5 2 = Inr (Some [2]) \<and>
     game_of json_serde (cv_store (sy_service s')) 5 = Some ((new_game 5 ''g'')\<lparr>gm_latest_version := 1\<rparr>)"
proof -
  obtain st where st: "db_ok json_serde st" "game_of json_serde st = (game_of json_serde (cv_store demo_control))(gm_id (new_game 5 ''g'') \<mapsto> new_game 5 ''g'')"
    by (rule insert_game_run [OF json_serde_ok demo_control_ok(1), of "new_game 5 ''g''"])
  have game: "game_of json_serde st 5 = Some (new_game 5 ''g'')" using st(2) by (simp add: new_game_def)
  have "gm_latest_version (new_game 5 ''g'') < 1" "(1 :: u64) < 2" by (simp_all add: new_game_def)
  from publish_race_loses_latest [OF json_serde_ok, of "sched_start st" 5 "new_game 5 ''g''" 1 2 "[1]" "[2]" "\<lambda>_. []" "\<lambda>x. x", OF _ _ this]
  show ?thesis using st(1) game by (auto simp: sched_start_def with_events_def)
qed

text \<open>
  Cancelling a task while its node reports it. Let a task be queued and let a cancellation
  and the node's report that the task is done be in flight. There is an interleaving, with no
  failing transaction, in which both requests succeed and the task ends as cancelled, although
  the status \<open>done\<close> was stored and announced before: the cancellation tests the status in one
  transaction and overwrites it in another. (A whole cancellation refuses a task that is done.)
\<close>

theorem cancel_race_overwrites_done:
  assumes "serde_ok cd" and "db_ok cd (cv_store (sy_service s))" and "task_of cd (cv_store (sy_service s)) i = Some task"
    and "tk_status task = ''queued''"
  shows "\<exists>n s' es. sched_run blake3 order cd (s\<lparr>sy_pool := sy_pool s + opt_mset (arrive (PostCancel i)) +
      opt_mset (arrive (RpcReportTask i ''done'' ''''))\<rparr>) n s' \<and> sy_pool s' = sy_pool s \<and>
    cv_events (sy_service s') = cv_events (sy_service s) @ [TaskStatus i ''done'', TaskStatus i ''cancelled''] \<and>
    map_option tk_status (task_of cd (cv_store (sy_service s')) i) = Some ''cancelled''"
proof -
  let ?sv = "sy_service s" and ?ps = "sy_pool s" and ?go = "leads_to blake3 order cd"
  have list: "list_tasks cd False (cv_store ?sv) = Inr (all_tasks cd (cv_store ?sv))" by (rule list_tasks_eq [OF assms(2)])
  have find: "find (\<lambda>t. tk_id t = i) (all_tasks cd (cv_store ?sv)) = Some task" using find_task [OF assms(2)] assms(3) by simp
  obtain st1 where st1: "update_task_status cd False i ''done'' '''' (cv_store ?sv) = (Inr True, st1)" "db_ok cd st1"
    "task_of cd st1 = (task_of cd (cv_store ?sv))(i \<mapsto> task\<lparr>tk_status := ''done'', tk_error := ''''\<rparr>)"
    using update_task_status_run [OF assms(1-3)] by metis
  obtain st2 where st2: "update_task_status cd False i ''cancelled'' ''cancelled by operator'' st1 = (Inr True, st2)"
    "task_of cd st2 i = Some (task\<lparr>tk_status := ''cancelled'', tk_error := ''cancelled by operator''\<rparr>)"
    using update_task_status_run [OF assms(1) st1(2), of i "task\<lparr>tk_status := ''done'', tk_error := ''''\<rparr>"] st1(3) by fastforce
  let ?sv1 = "broadcast (TaskStatus i ''done'') (?sv\<lparr>cv_store := st1\<rparr>)"
  let ?sv2 = "broadcast (TaskStatus i ''cancelled'') (?sv1\<lparr>cv_store := st2\<rparr>)"
  let ?sv3 = "snd (audit cd False False 0 (CancelTask i) ?sv2)"
  let ?fin = "s\<lparr>sy_service := ?sv3, sy_pool := ?ps\<rparr>"
  obtain c a where sv3: "?sv3 = ?sv2\<lparr>cv_store := (cv_store ?sv2)\<lparr>db_counters := c, db_audits := a\<rparr>\<rparr>"
    using audit_shape [of cd False False 0 "CancelTask i" ?sv2] by auto
  have "?go (s\<lparr>sy_service := ?sv2, sy_pool := ?ps + opt_mset (Some (AuditId (CancelTask i)))\<rparr>) ?fin"
    by (rule leads_solo [OF solo_audit leads_refl])
  then have "?go (s\<lparr>sy_service := ?sv1\<lparr>cv_store := st2\<rparr>, sy_pool := add_mset (CancelBroadcast i) ?ps\<rparr>) ?fin"
    by (intro leads_go [where flt = False]) (simp, simp)
  then have "?go (s\<lparr>sy_service := ?sv1, sy_pool := add_mset (CancelPut i) ?ps\<rparr>) ?fin"
    by (intro leads_go [where flt = False]) (simp add: on_store_def broadcast_def st2(1), simp add: opt_mset_def broadcast_def)
  then have "?go (s\<lparr>sy_service := ?sv\<lparr>cv_store := st1\<rparr>, sy_pool := add_mset (ReportBroadcast i ''done'') (add_mset (CancelPut i) ?ps)\<rparr>) ?fin"
    by (intro leads_go [where flt = False]) (simp, simp add: opt_mset_def)
  then have "?go (s\<lparr>sy_service := ?sv, sy_pool := add_mset (ReportPut i ''done'' '''') (add_mset (CancelPut i) ?ps)\<rparr>) ?fin"
    by (intro leads_go [where flt = False]) (simp add: on_store_def st1(1), simp add: opt_mset_def)
  then have "?go (s\<lparr>sy_service := ?sv, sy_pool := add_mset (CancelFind i) (add_mset (ReportPut i ''done'' '''') ?ps)\<rparr>) ?fin"
    by (intro leads_go [where flt = False]) (simp add: on_read_def list find assms(4), simp add: opt_mset_def add_mset_commute)
  moreover have "s\<lparr>sy_pool := ?ps + opt_mset (arrive (PostCancel i)) + opt_mset (arrive (RpcReportTask i ''done'' ''''))\<rparr> =
      s\<lparr>sy_service := ?sv, sy_pool := add_mset (CancelFind i) (add_mset (ReportPut i ''done'' '''') ?ps)\<rparr>"
    by (simp add: opt_mset_def)
  ultimately obtain n where "sched_run blake3 order cd (s\<lparr>sy_pool := ?ps + opt_mset (arrive (PostCancel i)) +
      opt_mset (arrive (RpcReportTask i ''done'' ''''))\<rparr>) n ?fin" unfolding leads_to_def by metis
  moreover have "cv_events ?sv3 = cv_events ?sv @ [TaskStatus i ''done'', TaskStatus i ''cancelled'']"
    unfolding sv3 by (simp add: broadcast_def)
  moreover have "map_option tk_status (task_of cd (cv_store ?sv3) i) = Some ''cancelled''"
    unfolding sv3 using st2(2) by (simp add: broadcast_def task_of_def)
  ultimately show ?thesis by (intro exI [of _ n] exI [of _ ?fin] conjI) simp_all
qed


theorem cancel_race_overwrites_done_witness:
  "\<exists>st n s'. task_of json_serde st 0 = Some demo_task \<and>
     sched_run (\<lambda>_. []) (\<lambda>x. x) json_serde ((sched_start st)\<lparr>sy_pool := opt_mset (arrive (PostCancel 0)) +
       opt_mset (arrive (RpcReportTask 0 ''done'' ''''))\<rparr>) n s' \<and>
     cv_events (sy_service s') = [TaskStatus 0 ''done'', TaskStatus 0 ''cancelled''] \<and>
     map_option tk_status (task_of json_serde (cv_store (sy_service s')) 0) = Some ''cancelled''"
proof -
  obtain st where ins: "insert_task json_serde False demo_task (cv_store demo_control) = (Inr (), st)"
    by (auto simp: insert_task_def Let_def)
  have ok: "db_ok json_serde st"
    using insert_task_ok [OF json_serde_ok demo_control_ok(1) _ ins] by (simp add: demo_task_def demo_control_ok)
  have t: "task_of json_serde st 0 = Some demo_task" "tk_status demo_task = ''queued''"
    using insert_task_view(2) [OF json_serde_ok demo_control_ok(1) ins] by (simp_all add: demo_task_def)
  from cancel_race_overwrites_done [OF json_serde_ok, of "sched_start st" 0 demo_task "\<lambda>_. []" "\<lambda>x. x"]
  show ?thesis using ok t by (auto simp: sched_start_def with_events_def)
qed

end
