(* ===== verification/Cafe_Store.thy ===== *)
theory Cafe_Store
  imports Data_Path Update_Plan
begin

text \<open>
  The block source of a cafe node (\<^verbatim>\<open>crates/agent/src/cafe_store.rs\<close>): real game files, temporary
  blocks under their digest, and the manifests with the current version. It answers a chunk
  request from the temporary block if there is one, and from the real file at the offset the
  current manifest gives otherwise; an hourly job removes old temporary blocks.

  One game's directories are three maps from relative names to contents. \<open>flt i\<close> tells whether
  the operation's \<open>i\<close>-th file system call fails. Trimming a text removes ASCII white space.
\<close>

section \<open>Paths\<close>

definition path_join :: "string \<Rightarrow> string \<Rightarrow> string" where
  "path_join d x = d @ ''/'' @ x"

definition game_dir :: "string \<Rightarrow> u64 \<Rightarrow> string" where
  "game_dir data_dir game_id = path_join (path_join data_dir ''games'') (show_u64 game_id)"

definition temp_dir :: "string \<Rightarrow> u64 \<Rightarrow> string" where
  "temp_dir data_dir game_id = path_join (path_join (path_join data_dir ''.blazenet'') ''temp'') (show_u64 game_id)"

definition manifest_dir :: "string \<Rightarrow> u64 \<Rightarrow> string" where
  "manifest_dir data_dir game_id = path_join (path_join (path_join data_dir ''.blazenet'') ''manifests'') (show_u64 game_id)"

text \<open>Names inside the manifest directory and the directory of temporary blocks.\<close>

definition current_version_name :: string where "current_version_name = ''current.version''"

definition manifest_name :: "u64 \<Rightarrow> string" where
  "manifest_name version = show_u64 version @ ''.gameindex''"

definition blk_name :: "bytes \<Rightarrow> string" where
  "blk_name hash = hex_bytes hash @ ''.blk''"

section \<open>Chunk maps\<close>

type_synonym chunk_loc = "string \<times> u64 \<times> u32"

text \<open>\<open>HashMap::entry(k).or_insert(v)\<close>: the first insertion stays.\<close>

definition or_insert :: "'k \<Rightarrow> 'v \<Rightarrow> ('k \<rightharpoonup> 'v) \<Rightarrow> ('k \<rightharpoonup> 'v)" where
  "or_insert k v m = (case m k of None \<Rightarrow> m(k \<mapsto> v) | Some _ \<Rightarrow> m)"

fun map_chunks :: "string \<Rightarrow> chunk_meta list \<Rightarrow> u64 \<times> (bytes \<rightharpoonup> chunk_loc) \<Rightarrow> u64 \<times> (bytes \<rightharpoonup> chunk_loc)" where
  "map_chunks name [] s = s"
| "map_chunks name (c # cs) (off, m) =
     map_chunks name cs (off + ucast (cm_len c), or_insert (cm_hash c) (name, off, cm_len c) m)"

definition build_map :: "game_index \<Rightarrow> (bytes \<rightharpoonup> chunk_loc)" where
  "build_map index = fold (\<lambda>f m. snd (map_chunks (fe_name f) (fe_chunks f) (0, m))) (gi_files index) Map.empty"

section \<open>The store\<close>

record cafe_fs =
  cf_game :: "string \<rightharpoonup> bytes"
  cf_temp :: "string \<rightharpoonup> bytes"
  cf_manifests :: "string \<rightharpoonup> bytes"

record cafe_store =
  cs_current :: "(bytes \<rightharpoonup> chunk_loc) option"
  cs_fs :: cafe_fs

datatype cafe_error =
    MkGameDir | MkTempDir | ReadVersion | BadVersion | ReadManifest | MkManifestDir | WriteManifest | WriteVersion
  | DecodeManifest manifest_error | ReadTemp | SeekFile | ReadFile

definition is_space :: "char \<Rightarrow> bool" where
  "is_space c \<longleftrightarrow> (of_char c :: nat) \<in> {9, 10, 11, 12, 13, 32}"

definition trim :: "string \<Rightarrow> string" where
  "trim s = rev (dropWhile is_space (rev (dropWhile is_space s)))"

definition current_version :: "bool \<Rightarrow> cafe_fs \<Rightarrow> cafe_error + u64 option" where
  "current_version flt fs =
     (case cf_manifests fs current_version_name of
        None \<Rightarrow> Inr None
      | Some bs \<Rightarrow>
          if flt \<or> \<not> utf8_valid bs then Inl ReadVersion
          else (case parse_u64 (trim (of_bytes bs)) of None \<Rightarrow> Inl BadVersion | Some v \<Rightarrow> Inr (Some v)))"

definition current_manifest_bytes :: "(nat \<Rightarrow> bool) \<Rightarrow> cafe_fs \<Rightarrow> cafe_error + bytes option" where
  "current_manifest_bytes flt fs =
     res_bind (current_version (flt 0) fs) (\<lambda>v. case v of
       None \<Rightarrow> Inr None
     | Some version \<Rightarrow>
         (case cf_manifests fs (manifest_name version) of
            None \<Rightarrow> Inl ReadManifest
          | Some bs \<Rightarrow> if flt 1 then Inl ReadManifest else Inr (Some bs)))"

definition set_current :: "(bytes \<Rightarrow> bytes) \<Rightarrow> bytes \<Rightarrow> cafe_store \<Rightarrow> (cafe_error + unit) \<times> cafe_store" where
  "set_current blake3 manifest cs =
     (case decode blake3 manifest of
        Inl e \<Rightarrow> (Inl (DecodeManifest e), cs)
      | Inr index \<Rightarrow> (Inr (), cs\<lparr>cs_current := Some (build_map index)\<rparr>))"

definition cafe_open :: "(bytes \<Rightarrow> bytes) \<Rightarrow> (nat \<Rightarrow> bool) \<Rightarrow> cafe_fs \<Rightarrow> cafe_error + cafe_store" where
  "cafe_open blake3 flt fs =
     (let cs = \<lparr>cs_current = None, cs_fs = fs\<rparr> in
      if flt 0 then Inl MkGameDir
      else if flt 1 then Inl MkTempDir
      else res_bind (current_manifest_bytes (\<lambda>i. flt (i + 2)) fs) (\<lambda>m. case m of
        None \<Rightarrow> Inr cs
      | Some bs \<Rightarrow> (case set_current blake3 bs cs of (Inl e, _) \<Rightarrow> Inl e | (Inr _, cs1) \<Rightarrow> Inr cs1)))"

text \<open>A write that fails leaves whatever it leaves of the file: \<open>left i\<close>.\<close>

definition save_manifest ::
    "(bytes \<Rightarrow> bytes) \<Rightarrow> (nat \<Rightarrow> bool) \<Rightarrow> (nat \<Rightarrow> bytes option) \<Rightarrow> u64 \<Rightarrow> bytes \<Rightarrow> cafe_store \<Rightarrow> (cafe_error + unit) \<times> cafe_store" where
  "save_manifest blake3 flt left version manifest cs =
     (let put = (\<lambda>name c cs. cs\<lparr>cs_fs := (cs_fs cs)\<lparr>cf_manifests := (cf_manifests (cs_fs cs))(name := c)\<rparr>\<rparr>) in
      if flt 0 then (Inl MkManifestDir, cs)
      else if flt 1 then (Inl WriteManifest, put (manifest_name version) (left 1) cs)
      else
        let cs1 = put (manifest_name version) (Some manifest) cs in
        if flt 2 then (Inl WriteVersion, put current_version_name (left 2) cs1)
        else set_current blake3 manifest (put current_version_name (Some (as_bytes (show_u64 version))) cs1))"

text \<open>
  \<open>read_chunk\<close>: a temporary block wins; a real file that cannot be opened counts as absent,
  one that is too short is an error. The read loop of the standard library sees \<open>rd\<close>.
\<close>

record cafe_env =
  ce_rd :: os_choice
  ce_flt :: "nat \<Rightarrow> bool"

definition cafe_read_chunk :: "cafe_env \<Rightarrow> cafe_store \<Rightarrow> bytes \<Rightarrow> cafe_error + bytes option" where
  "cafe_read_chunk env cs hash =
     (case cf_temp (cs_fs cs) (blk_name hash) of
        Some bs \<Rightarrow> if ce_flt env 0 then Inl ReadTemp else Inr (Some bs)
      | None \<Rightarrow>
          (case (case cs_current cs of None \<Rightarrow> None | Some m \<Rightarrow> m hash) of
             None \<Rightarrow> Inr None
           | Some (rel, offset, len) \<Rightarrow>
               (case cf_game (cs_fs cs) rel of
                  None \<Rightarrow> Inr None
                | Some content \<Rightarrow>
                    if ce_flt env 1 then Inr None
                    else if ce_flt env 2 then Inl SeekFile
                    else (case read_exact_at (ce_rd env) content (unat len) (unat offset) of
                            Inl _ \<Rightarrow> Inl ReadFile
                          | Inr data \<Rightarrow> Inr (Some data)))))"

definition cafe_contains :: "cafe_env \<Rightarrow> cafe_store \<Rightarrow> bytes \<Rightarrow> cafe_error + bool" where
  "cafe_contains env cs hash =
     (if cf_temp (cs_fs cs) (blk_name hash) \<noteq> None then Inr True
      else (case (case cs_current cs of None \<Rightarrow> None | Some m \<Rightarrow> m hash) of
              None \<Rightarrow> Inr False
            | Some (rel, _, _) \<Rightarrow> Inr (cf_game (cs_fs cs) rel \<noteq> None)))"

section \<open>Cleaning up\<close>

text \<open>\<open>Path::extension\<close>: what follows the last dot of the name, if a dot stands after its first character.\<close>

definition path_extension :: "string \<Rightarrow> string option" where
  "path_extension name =
     (let ext = takeWhile (\<lambda>c. c \<noteq> CHR ''.'') (rev name); stem = drop (Suc (length ext)) (rev name)
      in if length ext < length name \<and> stem \<noteq> [] then Some (rev ext) else None)"

datatype clean_error = ListRoot | ListGame | ReadMeta | RemoveBlk

record temp_entry =
  te_name :: string
  te_modified :: "nat option"
  te_removable :: bool

text \<open>
  One game directory, entry by entry: the count so far and the entries that stay. An error ends
  the whole clean-up and keeps the entries not yet visited. A modification time in the future
  counts as age zero.
\<close>

fun clean_dir :: "nat \<Rightarrow> nat \<Rightarrow> temp_entry list \<Rightarrow> nat \<Rightarrow> (clean_error + nat) \<times> temp_entry list" where
  "clean_dir ttl now [] n = (Inr n, [])"
| "clean_dir ttl now (e # es) n =
     (if path_extension (te_name e) \<noteq> Some ''blk''
      then (case clean_dir ttl now es n of (r, ks) \<Rightarrow> (r, e # ks))
      else (case te_modified e of
        None \<Rightarrow> (Inl ReadMeta, e # es)
      | Some modified \<Rightarrow>
          if ttl < now - modified
          then (if te_removable e then clean_dir ttl now es (Suc n) else (Inl RemoveBlk, e # es))
          else (case clean_dir ttl now es n of (r, ks) \<Rightarrow> (r, e # ks))))"

datatype root_entry = PlainFile | GameTemp "temp_entry list option"

fun clean_root :: "nat \<Rightarrow> nat \<Rightarrow> root_entry list \<Rightarrow> nat \<Rightarrow> (clean_error + nat) \<times> root_entry list" where
  "clean_root ttl now [] n = (Inr n, [])"
| "clean_root ttl now (PlainFile # gs) n = (case clean_root ttl now gs n of (r, ks) \<Rightarrow> (r, PlainFile # ks))"
| "clean_root ttl now (GameTemp None # gs) n = (Inl ListGame, GameTemp None # gs)"
| "clean_root ttl now (GameTemp (Some es) # gs) n =
     (case clean_dir ttl now es n of
        (Inl e, ks) \<Rightarrow> (Inl e, GameTemp (Some ks) # gs)
      | (Inr m, ks) \<Rightarrow> (case clean_root ttl now gs m of (r, hs) \<Rightarrow> (r, GameTemp (Some ks) # hs)))"

definition cleanup_expired :: "nat \<Rightarrow> nat \<Rightarrow> root_entry list option option \<Rightarrow> (clean_error + nat) \<times> root_entry list option option" where
  "cleanup_expired ttl now troot =
     (case troot of
        None \<Rightarrow> (Inr 0, None)
      | Some None \<Rightarrow> (Inl ListRoot, troot)
      | Some (Some gs) \<Rightarrow> (case clean_root ttl now gs 0 of (r, ks) \<Rightarrow> (r, Some (Some ks))))"

section \<open>The chunk map locates the chunks\<close>

lemma or_insert_mono: "m k = Some v \<Longrightarrow> or_insert k' v' m k = Some v"
  by (auto simp: or_insert_def split: option.splits)

lemma or_insert_at: "or_insert k v m k \<noteq> None"
  by (auto simp: or_insert_def split: option.splits)

lemma or_insert_cases: "or_insert k v m k' = Some w \<Longrightarrow> m k' = Some w \<or> k' = k \<and> w = v"
  by (auto simp: or_insert_def split: option.splits if_splits)

text \<open>Every entry stems from a chunk of a file, at the sum of the lengths before it.\<close>

definition chunk_at :: "game_index \<Rightarrow> bytes \<Rightarrow> chunk_loc \<Rightarrow> bool" where
  "chunk_at index h loc \<longleftrightarrow> (\<exists>f i. f \<in> set (gi_files index) \<and> i < length (fe_chunks f) \<and> cm_hash (fe_chunks f ! i) = h \<and>
     loc = (fe_name f, sum_list (map (\<lambda>c. ucast (cm_len c)) (take i (fe_chunks f))), cm_len (fe_chunks f ! i)))"

lemma map_chunks_entry:
  "snd (map_chunks name cs (off, m)) h = Some loc \<Longrightarrow>
     m h = Some loc \<or> (\<exists>i < length cs. cm_hash (cs ! i) = h \<and>
       loc = (name, off + sum_list (map (\<lambda>c. ucast (cm_len c)) (take i cs)), cm_len (cs ! i)))"
proof (induction cs arbitrary: off m)
  case (Cons c cs)
  from Cons.IH [of "off + ucast (cm_len c)" "or_insert (cm_hash c) (name, off, cm_len c) m"] Cons.prems
  consider "or_insert (cm_hash c) (name, off, cm_len c) m h = Some loc"
    | i where "i < length cs" "cm_hash (cs ! i) = h"
        "loc = (name, off + ucast (cm_len c) + sum_list (map (\<lambda>c. ucast (cm_len c)) (take i cs)), cm_len (cs ! i))"
    by auto
  then show ?case
  proof cases
    case 1
    from or_insert_cases [OF this] show ?thesis by auto
  next
    case 2
    then show ?thesis by (intro disjI2 exI [of _ "Suc i"]) (simp add: add.assoc)
  qed
qed simp

lemma map_chunks_mono: "m h = Some loc \<Longrightarrow> snd (map_chunks name cs (off, m)) h = Some loc"
  by (induction cs arbitrary: off m) (auto simp: or_insert_mono)

lemma map_chunks_defined: "h \<in> cm_hash ` set cs \<Longrightarrow> snd (map_chunks name cs (off, m)) h \<noteq> None"
proof (induction cs arbitrary: off m)
  case (Cons c cs)
  show ?case
  proof (cases "h = cm_hash c")
    case True
    then obtain v where "or_insert (cm_hash c) (name, off, cm_len c) m h = Some v"
      by (cases "m h") (simp_all add: or_insert_def)
    from map_chunks_mono [of "or_insert (cm_hash c) (name, off, cm_len c) m" h v, OF this] show ?thesis by simp
  qed (use Cons in auto)
qed simp

lemma build_map_chunk_at: "build_map index h = Some loc \<Longrightarrow> chunk_at index h loc"
proof -
  have "fold (\<lambda>f m. snd (map_chunks (fe_name f) (fe_chunks f) (0, m))) fs m h = Some loc \<Longrightarrow>
      m h = Some loc \<or> (\<exists>f i. f \<in> set fs \<and> i < length (fe_chunks f) \<and> cm_hash (fe_chunks f ! i) = h \<and>
       loc = (fe_name f, sum_list (map (\<lambda>c. ucast (cm_len c)) (take i (fe_chunks f))), cm_len (fe_chunks f ! i)))" for fs m
  proof (induction fs arbitrary: m)
    case (Cons f fs)
    have "fold (\<lambda>f m. snd (map_chunks (fe_name f) (fe_chunks f) (0, m))) fs (snd (map_chunks (fe_name f) (fe_chunks f) (0, m))) h = Some loc"
      using Cons.prems by simp
    from Cons.IH [OF this]
    consider "snd (map_chunks (fe_name f) (fe_chunks f) (0, m)) h = Some loc"
      | g i where "g \<in> set fs" "i < length (fe_chunks g)" "cm_hash (fe_chunks g ! i) = h"
          "loc = (fe_name g, sum_list (map (\<lambda>c. ucast (cm_len c)) (take i (fe_chunks g))), cm_len (fe_chunks g ! i))"
      by blast
    then show ?case
    proof cases
      case 1
      from map_chunks_entry [OF this] show ?thesis
        by (elim disjE exE conjE) (simp, rule disjI2, rule exI [of _ f], simp, blast)
    next
      case 2
      then show ?thesis by (intro disjI2 exI [of _ g] exI [of _ i]) simp
    qed
  qed simp
  from this [of "gi_files index" Map.empty] show "build_map index h = Some loc \<Longrightarrow> chunk_at index h loc"
    by (auto simp: build_map_def chunk_at_def)
qed

lemma build_map_defined: "h \<in> chunk_set index \<Longrightarrow> build_map index h \<noteq> None"
proof -
  let ?step = "\<lambda>f m. snd (map_chunks (fe_name f) (fe_chunks f) (0, m))"
  have mono: "m h = Some loc \<Longrightarrow> fold ?step fs m h = Some loc" for fs m loc
    by (induction fs arbitrary: m) (auto simp: map_chunks_mono)
  have "h \<in> (\<Union>f \<in> set fs. cm_hash ` set (fe_chunks f)) \<Longrightarrow> fold ?step fs m h \<noteq> None" for fs m
  proof (induction fs arbitrary: m)
    case (Cons f fs)
    show ?case
    proof (cases "h \<in> cm_hash ` set (fe_chunks f)")
      case True
      with map_chunks_defined [of h "fe_chunks f" "fe_name f" 0 m] obtain loc
        where "?step f m h = Some loc" by blast
      from mono [of "?step f m" loc fs, OF this] show ?thesis by simp
    qed (use Cons in auto)
  qed simp
  from this [of "gi_files index" Map.empty] show "h \<in> chunk_set index \<Longrightarrow> build_map index h \<noteq> None"
    unfolding build_map_def chunk_set_def chunk_hashes_def by auto
qed

text \<open>The real files are the manifest's files: chunk by chunk the right data, lengths within 64 bits.\<close>

definition file_of_chunks :: "(bytes \<Rightarrow> bytes) \<Rightarrow> chunk_meta list \<Rightarrow> bytes \<Rightarrow> bool" where
  "file_of_chunks blake3 cs content \<longleftrightarrow> length content < 2 ^ 64 \<and> (\<exists>datas. content = concat datas \<and>
     list_all2 (\<lambda>c d. blake3 d = cm_hash c \<and> length d = unat (cm_len c)) cs datas)"

definition files_match :: "(bytes \<Rightarrow> bytes) \<Rightarrow> game_index \<Rightarrow> (string \<rightharpoonup> bytes) \<Rightarrow> bool" where
  "files_match blake3 index game \<longleftrightarrow>
     (\<forall>f \<in> set (gi_files index). \<exists>content. game (fe_name f) = Some content \<and> file_of_chunks blake3 (fe_chunks f) content)"

lemma sum_lens:
  assumes "list_all2 (\<lambda>c d. blake3 d = cm_hash c \<and> length d = unat (cm_len c)) cs datas" "length (concat datas) < 2 ^ 64"
  shows "unat (sum_list (map (\<lambda>c. ucast (cm_len c)) cs) :: u64) = length (concat datas)"
  using assms
proof (induction rule: list_all2_induct)
  case (Cons c cs d datas)
  let ?s = "sum_list (map (\<lambda>c. ucast (cm_len c)) cs) :: u64"
  have u: "unat (ucast (cm_len c) :: u64) = length d" using Cons.hyps(1) by simp
  have s: "unat ?s = length (concat datas)" using Cons by simp
  have "unat ((ucast (cm_len c) :: u64) + ?s) = length d + length (concat datas)"
    using u s Cons.prems by (simp add: unat_word_ariths)
  then show ?case by simp
qed simp

lemma chunk_slice:
  assumes "file_of_chunks blake3 cs content" "i < length cs"
  shows "\<exists>d. blake3 d = cm_hash (cs ! i) \<and> length d = unat (cm_len (cs ! i)) \<and>
    (let off = unat (sum_list (map (\<lambda>c. ucast (cm_len c)) (take i cs)) :: u64) in
     off + length d \<le> length content \<and> take (length d) (drop off content) = d)"
proof -
  obtain datas where c: "content = concat datas" "list_all2 (\<lambda>c d. blake3 d = cm_hash c \<and> length d = unat (cm_len c)) cs datas"
    "length content < 2 ^ 64" using assms(1) by (auto simp: file_of_chunks_def)
  have len: "length datas = length cs" using c(2) by (simp add: list_all2_lengthD)
  let ?d = "datas ! i"
  have split: "content = concat (take i datas) @ ?d @ concat (drop (Suc i) datas)"
    using c(1) len assms(2) by (metis concat.simps(2) concat_append id_take_nth_drop)
  have "list_all2 (\<lambda>c d. blake3 d = cm_hash c \<and> length d = unat (cm_len c)) (take i cs) (take i datas)"
    using c(2) by (rule list_all2_takeI)
  then have off: "unat (sum_list (map (\<lambda>c. ucast (cm_len c)) (take i cs)) :: u64) = length (concat (take i datas))"
    by (rule sum_lens) (use split c(3) in simp)
  have "blake3 ?d = cm_hash (cs ! i) \<and> length ?d = unat (cm_len (cs ! i))"
    using c(2) assms(2) len by (auto simp: list_all2_conv_all_nth)
  with off split show ?thesis by (intro exI [of _ ?d]) (simp add: Let_def)
qed

section \<open>Serving chunks\<close>

definition cafe_live :: "cafe_env \<Rightarrow> bool" where
  "cafe_live env \<longleftrightarrow> os_live (ce_rd env) \<and> (\<forall>i. \<not> ce_flt env i)"

definition cafe_loc :: "cafe_store \<Rightarrow> bytes \<Rightarrow> chunk_loc option" where
  "cafe_loc cs h = (case cs_current cs of None \<Rightarrow> None | Some m \<Rightarrow> m h)"

text \<open>No located chunk reaches beyond the end of its file.\<close>

definition cafe_ok :: "cafe_store \<Rightarrow> bool" where
  "cafe_ok cs \<longleftrightarrow> (\<forall>h rel off len content. cafe_loc cs h = Some (rel, off, len) \<and> cf_game (cs_fs cs) rel = Some content \<longrightarrow>
     unat off + unat len \<le> length content)"

definition cafe_abs :: "cafe_store \<Rightarrow> bytes \<Rightarrow> bytes option" where
  "cafe_abs cs h = (case cf_temp (cs_fs cs) (blk_name h) of
     Some bs \<Rightarrow> Some bs
   | None \<Rightarrow> (case cafe_loc cs h of
       None \<Rightarrow> None
     | Some (rel, off, len) \<Rightarrow> map_option (\<lambda>content. take (unat len) (drop (unat off) content)) (cf_game (cs_fs cs) rel)))"

interpretation cafe_source: chunk_source cafe_live cafe_ok cafe_read_chunk cafe_contains cafe_abs
proof unfold_locales
  fix env cs h
  assume live: "cafe_live env" and ok: "cafe_ok cs"
  show "cafe_read_chunk env cs h = Inr (cafe_abs cs h)"
  proof (cases "cafe_loc cs h")
    case None
    with live show ?thesis
      by (auto simp: cafe_read_chunk_def cafe_abs_def cafe_loc_def [symmetric] cafe_live_def split: option.splits)
  next
    case (Some loc)
    obtain rel off len where loc: "loc = (rel, off, len)" by (cases loc)
    show ?thesis
    proof (cases "cf_game (cs_fs cs) rel")
      case None
      with live Some loc show ?thesis
        by (auto simp: cafe_read_chunk_def cafe_abs_def cafe_loc_def [symmetric] cafe_live_def split: option.splits)
    next
      case (Some content)
      with ok \<open>cafe_loc cs h = Some loc\<close> loc have "unat off + unat len \<le> length content" by (auto simp: cafe_ok_def)
      then have "read_exact_at (ce_rd env) content (unat len) (unat off) = Inr (take (unat len) (drop (unat off) content))"
        using live read_exact_at_live [of "ce_rd env" content "unat len" "unat off"] by (simp add: cafe_live_def)
      with Some \<open>cafe_loc cs h = Some loc\<close> loc live show ?thesis
        by (auto simp: cafe_read_chunk_def cafe_abs_def cafe_loc_def [symmetric] cafe_live_def split: option.splits)
    qed
  qed
  show "cafe_contains env cs h = Inr (cafe_abs cs h \<noteq> None)"
    by (auto simp: cafe_contains_def cafe_abs_def cafe_loc_def [symmetric] split: option.splits)
qed

definition temp_verified :: "(bytes \<Rightarrow> bytes) \<Rightarrow> cafe_fs \<Rightarrow> bool" where
  "temp_verified blake3 fs \<longleftrightarrow> (\<forall>h bs. cf_temp fs (blk_name h) = Some bs \<longrightarrow> blake3 bs = h)"

lemma located_chunk:
  assumes "files_match blake3 index game" "build_map index h = Some (rel, off, len)"
  shows "\<exists>content. game rel = Some content \<and> unat off + unat len \<le> length content \<and>
    blake3 (take (unat len) (drop (unat off) content)) = h"
proof -
  from build_map_chunk_at [OF assms(2)] obtain f i where f: "f \<in> set (gi_files index)" "i < length (fe_chunks f)"
    "cm_hash (fe_chunks f ! i) = h" "rel = fe_name f" "len = cm_len (fe_chunks f ! i)"
    "off = sum_list (map (\<lambda>c. ucast (cm_len c)) (take i (fe_chunks f)))"
    by (auto simp: chunk_at_def)
  from assms(1) f(1) obtain content where c: "game rel = Some content" "file_of_chunks blake3 (fe_chunks f) content"
    by (auto simp: files_match_def f(4))
  from chunk_slice [OF c(2) f(2)] show ?thesis
    using c(1) f(3,5,6) by (auto simp: Let_def)
qed

lemma cafe_ok_match:
  assumes "files_match blake3 index (cf_game (cs_fs cs))" "cs_current cs = Some (build_map index)"
  shows "cafe_ok cs"
  unfolding cafe_ok_def
proof (intro allI impI)
  fix h rel off len content
  assume "cafe_loc cs h = Some (rel, off, len) \<and> cf_game (cs_fs cs) rel = Some content"
  then show "unat off + unat len \<le> length content"
    using located_chunk [OF assms(1), of h rel off len] assms(2) by (auto simp: cafe_loc_def)
qed

lemma cafe_abs_match:
  assumes "files_match blake3 index (cf_game (cs_fs cs))" "cs_current cs = Some (build_map index)"
    "temp_verified blake3 (cs_fs cs)" "h \<in> chunk_set index"
  shows "\<exists>d. cafe_abs cs h = Some d \<and> blake3 d = h"
proof (cases "cf_temp (cs_fs cs) (blk_name h)")
  case None
  obtain rel off len where loc: "build_map index h = Some (rel, off, len)"
    using build_map_defined [OF assms(4)] by (cases "build_map index h") auto
  from located_chunk [OF assms(1) loc] None loc assms(2) show ?thesis by (auto simp: cafe_abs_def cafe_loc_def)
qed (use assms(3) in \<open>auto simp: cafe_abs_def temp_verified_def\<close>)

lemma digit_no_space: "is_digit c \<Longrightarrow> \<not> is_space c"
  by (auto simp: is_digit_def is_space_def)

lemma trim_show [simp]: "trim (show_u64 v) = show_u64 v"
proof -
  have "dropWhile is_space (show_u64 v) = show_u64 v" "dropWhile is_space (rev (show_u64 v)) = rev (show_u64 v)"
    using show_u64_digits [of "hd (show_u64 v)" v] show_u64_digits [of "last (show_u64 v)" v] digit_no_space
    by (auto simp: dropWhile_eq_self_iff hd_rev)
  then show ?thesis by (simp add: trim_def)
qed

lemma utf8_digits: "utf8_valid (as_bytes (show_u64 v))"
proof (rule utf8_valid_ascii)
  have "in_range 0 127 (word_of_nat (of_char c) :: u8)" if "is_digit c" for c
  proof -
    have "unat (word_of_nat (of_char c) :: u8) = of_char c" using that by (simp add: is_digit_def unat_of_nat)
    with that show ?thesis by (simp add: in_range_def is_digit_def word_le_nat_alt)
  qed
  then show "list_all (in_range 0 127) (as_bytes (show_u64 v))"
    using show_u64_digits by (auto simp: as_bytes_def list_all_iff)
qed

lemma manifest_not_version [simp]: "manifest_name v \<noteq> current_version_name"
proof
  assume "manifest_name v = current_version_name"
  then have "hd (show_u64 v) = CHR ''c''" "show_u64 v \<noteq> []"
    by (auto simp: manifest_name_def current_version_name_def show_u64_def hd_append split: if_splits)
  then show False using show_u64_digits [of "CHR ''c''" v] hd_in_set by (fastforce simp: is_digit_def)
qed

lemma save_manifest_saved:
  assumes "save_manifest blake3 flt left version manifest cs = (Inr u, cs')" "decode blake3 manifest = Inr index"
  shows "cs' = \<lparr>cs_current = Some (build_map index), cs_fs = (cs_fs cs)\<lparr>cf_manifests := (cf_manifests (cs_fs cs))
      (manifest_name version \<mapsto> manifest, current_version_name \<mapsto> as_bytes (show_u64 version))\<rparr>\<rparr> \<and>
    current_version False (cs_fs cs') = Inr (Some version)"
  using assms by (auto simp: save_manifest_def set_current_def Let_def current_version_def utf8_digits split: if_splits)

text \<open>
  C39. Serving after an update. When a manifest that decodes is saved without fault and the real
  files are its files, then with no fault every chunk of the manifest is contained and read with
  the right digest, from its verified temporary block or from the real file; and opening the
  store again, after a restart, gives the same store.
\<close>

theorem cafe_serves_saved:
  assumes "decode blake3 manifest = Inr index" and "\<And>i. \<not> flt i"
    and "files_match blake3 index (cf_game (cs_fs cs))" and "temp_verified blake3 (cs_fs cs)" and "cafe_live env"
    and "save_manifest blake3 flt left version manifest cs = (r, cs')"
  shows "r = Inr () \<and> cafe_open blake3 flt (cs_fs cs') = Inr cs' \<and>
    current_version False (cs_fs cs') = Inr (Some version) \<and>
    (\<forall>h \<in> chunk_set index. cafe_contains env cs' h = Inr True \<and>
       (\<exists>d. cafe_read_chunk env cs' h = Inr (Some d) \<and> blake3 d = h))"
proof -
  let ?fs = "(cs_fs cs)\<lparr>cf_manifests := (cf_manifests (cs_fs cs))(manifest_name version \<mapsto> manifest, current_version_name \<mapsto> as_bytes (show_u64 version))\<rparr>"
  have cs': "r = Inr ()" "cs' = \<lparr>cs_current = Some (build_map index), cs_fs = ?fs\<rparr>"
    using assms(1,2,6) by (auto simp: save_manifest_def set_current_def Let_def)
  have ver: "current_version False (cs_fs cs') = Inr (Some version)"
    by (simp add: cs' current_version_def utf8_digits)
  have op: "cafe_open blake3 flt (cs_fs cs') = Inr cs'"
    using assms(1,2) ver by (simp add: cafe_open_def Let_def current_manifest_bytes_def set_current_def cs')
  have m: "files_match blake3 index (cf_game (cs_fs cs'))" "cs_current cs' = Some (build_map index)" "temp_verified blake3 (cs_fs cs')"
    using assms(3,4) by (simp_all add: cs' temp_verified_def)
  have serve: "cafe_contains env cs' h = Inr True \<and> (\<exists>d. cafe_read_chunk env cs' h = Inr (Some d) \<and> blake3 d = h)"
    if "h \<in> chunk_set index" for h
    using cafe_abs_match [OF m that] cafe_source.read_abs [OF assms(5) cafe_ok_match [OF m(1,2)], of h]
      cafe_source.contains_abs [OF assms(5) cafe_ok_match [OF m(1,2)], of h] by auto
  from cs'(1) op ver serve show ?thesis by blast
qed

definition tiny_hash :: "bytes \<Rightarrow> bytes" where
  "tiny_hash d = replicate 32 (case d of [] \<Rightarrow> 0 | b # _ \<Rightarrow> b)"

definition tiny_index :: game_index where
  "tiny_index = build tiny_hash [\<lparr>fe_name = ''a'', fe_hash = tiny_hash [7], fe_chunks = [\<lparr>cm_hash = tiny_hash [7], cm_len = 1\<rparr>]\<rparr>]"

lemma tiny_index_decodes: "decode tiny_hash (encode tiny_index) = Inr tiny_index"
  unfolding tiny_index_def
  by (rule decode_encode) (simp_all add: build_hash tiny_hash_def HASH_LEN_def wf_files_def wf_file_def wf_chunk_def
      as_bytes_def utf8_valid_ascii in_range_def)

definition tiny_cafe :: cafe_store where
  "tiny_cafe = \<lparr>cs_current = None, cs_fs = \<lparr>cf_game = [''a'' \<mapsto> [7]], cf_temp = Map.empty, cf_manifests = Map.empty\<rparr>\<rparr>"

theorem cafe_serves_saved_witness:
  "\<exists>cs'. save_manifest tiny_hash (\<lambda>i. False) (\<lambda>i. None) 3 (encode tiny_index) tiny_cafe = (Inr (), cs') \<and>
     cafe_contains \<lparr>ce_rd = (\<lambda>n off. Some n), ce_flt = (\<lambda>i. False)\<rparr> cs' (tiny_hash [7]) = Inr True"
proof -
  obtain r cs' where run: "save_manifest tiny_hash (\<lambda>i. False) (\<lambda>i. None) 3 (encode tiny_index) tiny_cafe = (r, cs')" by fastforce
  let ?env = "\<lparr>ce_rd = (\<lambda>n off. Some n), ce_flt = (\<lambda>i. False)\<rparr>"
  have live: "cafe_live ?env" by (simp add: cafe_live_def os_live_def)
  have match: "files_match tiny_hash tiny_index (cf_game (cs_fs tiny_cafe))"
    by (auto simp: files_match_def tiny_index_def tiny_cafe_def file_of_chunks_def intro!: exI [of _ "[[7]]"])
  have temp: "temp_verified tiny_hash (cs_fs tiny_cafe)" by (simp add: temp_verified_def tiny_cafe_def)
  have "tiny_hash [7] \<in> chunk_set tiny_index" by (simp add: chunk_set_def chunk_hashes_def tiny_index_def)
  with cafe_serves_saved [OF tiny_index_decodes _ match temp live run] run show ?thesis by auto
qed

section \<open>Clean-up\<close>

definition stale :: "nat \<Rightarrow> nat \<Rightarrow> temp_entry \<Rightarrow> bool" where
  "stale ttl now e \<longleftrightarrow> path_extension (te_name e) = Some ''blk'' \<and> (\<exists>t. te_modified e = Some t \<and> ttl < now - t)"

lemma clean_dir_kept:
  "clean_dir ttl now es n = (r, ks) \<Longrightarrow>
     filter (\<lambda>e. \<not> stale ttl now e) ks = filter (\<lambda>e. \<not> stale ttl now e) es \<and>
     (\<forall>m. r = Inr m \<longrightarrow> ks = filter (\<lambda>e. \<not> stale ttl now e) es \<and> m = n + length (filter (stale ttl now) es))"
proof (induction es arbitrary: n r ks)
  case (Cons e es)
  show ?case
  proof (cases "stale ttl now e")
    case True
    then show ?thesis
      using Cons.prems Cons.IH [of "Suc n" r ks] by (auto simp: stale_def split: if_splits option.splits)
  next
    case False
    obtain r' ks' where rec: "clean_dir ttl now es n = (r', ks')" by fastforce
    have "r = r' \<and> ks = e # ks' \<or> (\<exists>x. r = Inl x) \<and> ks = e # es"
      using False Cons.prems rec by (auto simp: stale_def split: if_splits option.splits)
    with Cons.IH [OF rec] False show ?thesis by auto
  qed
qed simp

end
