(* ===== verification/Update_Merge.thy ===== *)
theory Update_Merge
  imports Cafe_Store
begin

text \<open>
  The update engine of a cafe node (\<^verbatim>\<open>crates/agent/src/update.rs\<close>): which temporary blocks are at
  hand, the update plan, and the merge that assembles every new or changed file from old files
  and temporary blocks, checks its digest and replaces the real file.

  The game directory is a map from relative names to contents. Reading goes by name to the
  present contents, which is what the open handles see: nothing is unlinked or renamed while
  chunks are read. \<open>mi_fail\<close> tells which file system calls fail, \<open>mi_rd\<close> and \<open>mi_cx\<close> are the
  system's reads and the compio library. The incremental hasher is the digest of everything fed to it.
\<close>

section \<open>Temporary blocks\<close>

datatype update_error = ListTemp | TempEntry | HexPanic | BadNewManifest manifest_error | BadOldManifest manifest_error

definition hex_digit :: "char \<Rightarrow> nat option" where
  "hex_digit c =
     (let n = (of_char c :: nat) in
      if 48 \<le> n \<and> n \<le> 57 then Some (n - 48)
      else if 97 \<le> n \<and> n \<le> 102 then Some (n - 87)
      else if 65 \<le> n \<and> n \<le> 70 then Some (n - 55)
      else None)"

text \<open>\<open>u8::from_str_radix(s, 16)\<close> on two bytes: a leading plus sign is allowed.\<close>

definition hex_pair :: "char \<Rightarrow> char \<Rightarrow> u8 option" where
  "hex_pair a b =
     (case hex_digit b of
        None \<Rightarrow> None
      | Some y \<Rightarrow> if a = CHR ''+'' then Some (word_of_nat y)
                  else (case hex_digit a of None \<Rightarrow> None | Some x \<Rightarrow> Some (word_of_nat (16 * x + y))))"

definition char_boundary :: "string \<Rightarrow> nat \<Rightarrow> bool" where
  "char_boundary s i \<longleftrightarrow> i = length s \<or> \<not> (128 \<le> (of_char (s ! i) :: nat) \<and> (of_char (s ! i) :: nat) < 192)"

text \<open>Slicing off a character boundary panics; the loop stops at the first pair that is no number.\<close>

fun parse_pairs :: "string \<Rightarrow> nat \<Rightarrow> nat \<Rightarrow> update_error + bytes option" where
  "parse_pairs s i 0 = Inr (Some [])"
| "parse_pairs s i (Suc k) =
     (if \<not> char_boundary s (2 * i) \<or> \<not> char_boundary s (2 * i + 2) then Inl HexPanic
      else (case hex_pair (s ! (2 * i)) (s ! (2 * i + 1)) of
              None \<Rightarrow> Inr None
            | Some b \<Rightarrow> res_bind (parse_pairs s (Suc i) k) (\<lambda>r. Inr (map_option ((#) b) r))))"

definition parse_hex :: "string \<Rightarrow> update_error + bytes option" where
  "parse_hex s = (if length s \<noteq> 64 then Inr None else parse_pairs s 0 32)"

text \<open>\<open>None\<close> as the listing is a directory that cannot be read, as an entry one that fails.\<close>

fun temp_hashes :: "string option list \<Rightarrow> update_error + bytes set" where
  "temp_hashes [] = Inr {}"
| "temp_hashes (None # es) = Inl TempEntry"
| "temp_hashes (Some name # es) =
     res_bind (case strip_suffix ''.blk'' name of None \<Rightarrow> Inr None | Some stem \<Rightarrow> parse_hex stem) (\<lambda>h.
     res_bind (temp_hashes es) (\<lambda>hs. Inr (case h of None \<Rightarrow> hs | Some x \<Rightarrow> insert x hs)))"

definition collect_temp_hashes :: "string option list option \<Rightarrow> update_error + bytes set" where
  "collect_temp_hashes listing = (case listing of None \<Rightarrow> Inl ListTemp | Some es \<Rightarrow> temp_hashes es)"

definition plan_update ::
    "(bytes \<Rightarrow> bytes) \<Rightarrow> bytes \<Rightarrow> bytes option \<Rightarrow> string option list option \<Rightarrow> update_error + update_plan" where
  "plan_update blake3 new_manifest old_manifest listing =
     (case decode blake3 new_manifest of
        Inl e \<Rightarrow> Inl (BadNewManifest e)
      | Inr new \<Rightarrow>
          (case (case old_manifest of None \<Rightarrow> Inr None | Some bs \<Rightarrow> (case decode blake3 bs of Inl e \<Rightarrow> Inl e | Inr old \<Rightarrow> Inr (Some old))) of
             Inl e \<Rightarrow> Inl (BadOldManifest e)
           | Inr old \<Rightarrow> res_bind (collect_temp_hashes listing) (\<lambda>temp. Inr (compute new old temp))))"

section \<open>Assembling one file\<close>

text \<open>\<open>Path::with_extension("new")\<close> on a relative name.\<close>

definition file_part :: "string \<Rightarrow> string" where
  "file_part name = rev (takeWhile (\<lambda>c. c \<noteq> CHR ''/'') (rev name))"

definition file_stem :: "string \<Rightarrow> string" where
  "file_stem fl = (case path_extension fl of None \<Rightarrow> fl | Some ext \<Rightarrow> take (length fl - Suc (length ext)) fl)"

definition with_new :: "string \<Rightarrow> string" where
  "with_new name =
     (let fl = file_part name in
      if fl = [] \<or> fl = ''..'' then name else take (length name - length fl) name @ file_stem fl @ ''.new'')"

datatype merge_error =
    MkParent | CreateNew | OpenOld | ReadOld io_error | OpenGlobal | ReadGlobal io_error | ReadBlk | WriteNew
  | BadDigest | SyncNew | CloseNew | RemoveOld | RenameNew | DeleteFile

datatype merge_call = MkParentC | OpenOldC | OpenGlobalC nat | ReadBlkC nat | RemoveOldC | RenameC | RemoveNewC

record merge_io =
  mi_rd :: os_choice
  mi_cx :: compio
  mi_fail :: "merge_call \<Rightarrow> bool"

definition read_chunk_at :: "os_choice \<Rightarrow> bytes \<Rightarrow> u64 \<Rightarrow> u32 \<Rightarrow> io_error + bytes" where
  "read_chunk_at rd content offset len = read_exact_at rd content (unat len) (unat offset)"

type_synonym dir = "string \<rightharpoonup> bytes"

definition read_blk :: "merge_io \<Rightarrow> nat \<Rightarrow> dir \<Rightarrow> bytes \<Rightarrow> merge_error + bytes" where
  "read_blk io i temp hash =
     (case temp (blk_name hash) of
        None \<Rightarrow> Inl ReadBlk
      | Some bs \<Rightarrow> if mi_fail io (ReadBlkC i) then Inl ReadBlk else Inr bs)"

text \<open>
  Where a chunk comes from: the old file of the same name, else the place the old manifest gives
  for it, if that file exists, else the temporary block. \<open>opened\<close> is the content the handle of
  the old file shows, if there is one.
\<close>

definition chunk_data ::
    "merge_io \<Rightarrow> nat \<Rightarrow> dir \<Rightarrow> dir \<Rightarrow> bytes option \<Rightarrow> (bytes \<rightharpoonup> u64 \<times> u32) option \<Rightarrow> (bytes \<rightharpoonup> chunk_loc) option \<Rightarrow>
     bytes \<Rightarrow> merge_error + bytes" where
  "chunk_data io i game temp opened old_chunks global_chunks hash =
     (case (case (opened, old_chunks) of (Some content, Some m) \<Rightarrow> map_option (Pair content) (m hash) | _ \<Rightarrow> None) of
        Some (content, offset, len) \<Rightarrow>
          (case read_chunk_at (mi_rd io) content offset len of Inl e \<Rightarrow> Inl (ReadOld e) | Inr d \<Rightarrow> Inr d)
      | None \<Rightarrow>
          (case (case global_chunks of None \<Rightarrow> None | Some m \<Rightarrow> m hash) of
             Some (rel, offset, len) \<Rightarrow>
               (case game rel of
                  Some content \<Rightarrow>
                    if mi_fail io (OpenGlobalC i) then Inl OpenGlobal
                    else (case read_chunk_at (mi_rd io) content offset len of Inl e \<Rightarrow> Inl (ReadGlobal e) | Inr d \<Rightarrow> Inr d)
                | None \<Rightarrow> read_blk io i temp hash)
           | None \<Rightarrow> read_blk io i temp hash))"

text \<open>The loop over the chunks: the bytes hashed so far, the writer, and the directory with the new file in it.\<close>

fun write_chunks ::
    "merge_io \<Rightarrow> dir \<Rightarrow> string \<Rightarrow> string option \<Rightarrow> (bytes \<rightharpoonup> u64 \<times> u32) option \<Rightarrow> (bytes \<rightharpoonup> chunk_loc) option \<Rightarrow>
     nat \<Rightarrow> chunk_meta list \<Rightarrow> bytes \<times> compio_writer \<times> dir \<Rightarrow> (merge_error + bytes) \<times> compio_writer \<times> dir" where
  "write_chunks io temp new_path handle old_chunks global_chunks i [] (hashed, w, game) = (Inr hashed, w, game)"
| "write_chunks io temp new_path handle old_chunks global_chunks i (c # cs) (hashed, w, game) =
     (case chunk_data io i game temp (case handle of None \<Rightarrow> None | Some p \<Rightarrow> game p) old_chunks global_chunks (cm_hash c) of
        Inl e \<Rightarrow> (Inl e, w, game)
      | Inr data \<Rightarrow>
          (case write_owned (mi_cx io) data w of
             (Inl _, w1) \<Rightarrow> (Inl WriteNew, w1, game(new_path \<mapsto> cw_file w1))
           | (Inr _, w1) \<Rightarrow>
               write_chunks io temp new_path handle old_chunks global_chunks (Suc i) cs
                 (hashed @ data, w1, game(new_path \<mapsto> cw_file w1))))"

definition remove_file :: "bool \<Rightarrow> string \<Rightarrow> dir \<Rightarrow> bool \<times> dir" where
  "remove_file fails name game = (if fails \<or> game name = None then (False, game) else (True, game(name := None)))"

definition rename_file :: "bool \<Rightarrow> string \<Rightarrow> string \<Rightarrow> dir \<Rightarrow> bool \<times> dir" where
  "rename_file fails a b game = (if fails \<or> game a = None then (False, game) else (True, (game(a := None))(b := game a)))"

definition finish_file ::
    "(bytes \<Rightarrow> bytes) \<Rightarrow> merge_io \<Rightarrow> string \<Rightarrow> string \<Rightarrow> bytes \<Rightarrow> bytes \<Rightarrow> compio_writer \<Rightarrow> dir \<Rightarrow> (merge_error + unit) \<times> dir" where
  "finish_file blake3 io target new_path want hashed w game =
     (if blake3 hashed \<noteq> want then (Inl BadDigest, snd (remove_file (mi_fail io RemoveNewC) new_path game))
      else case writer_sync_all (mi_cx io) w of
        Inl _ \<Rightarrow> (Inl SyncNew, game)
      | Inr _ \<Rightarrow>
          (case writer_close (mi_cx io) w of
             Inl _ \<Rightarrow> (Inl CloseNew, game)
           | Inr _ \<Rightarrow>
               (case (if game target \<noteq> None then remove_file (mi_fail io RemoveOldC) target game else (True, game)) of
                  (False, g1) \<Rightarrow> (Inl RemoveOld, g1)
                | (True, g1) \<Rightarrow>
                    (case rename_file (mi_fail io RenameC) new_path target g1 of
                       (False, g2) \<Rightarrow> (Inl RenameNew, g2)
                     | (True, g2) \<Rightarrow> (Inr (), g2)))))"

text \<open>The handle of the old file: its name, when there is such a file.\<close>

definition old_handle :: "string option \<Rightarrow> dir \<Rightarrow> string option" where
  "old_handle old_file game = (case old_file of None \<Rightarrow> None | Some p \<Rightarrow> if game p \<noteq> None then Some p else None)"

definition write_new_file ::
    "(bytes \<Rightarrow> bytes) \<Rightarrow> merge_io \<Rightarrow> file_entry \<Rightarrow> (bytes \<rightharpoonup> u64 \<times> u32) option \<Rightarrow> string option \<Rightarrow> (bytes \<rightharpoonup> chunk_loc) option \<Rightarrow>
     dir \<Rightarrow> dir \<Rightarrow> (merge_error + unit) \<times> dir" where
  "write_new_file blake3 io entry old_chunks old_file global_chunks temp game =
     (let target = fe_name entry; new_path = with_new target in
      if mi_fail io MkParentC then (Inl MkParent, game)
      else case writer_create (mi_cx io) of
        Inl _ \<Rightarrow> (Inl CreateNew, game)
      | Inr w \<Rightarrow>
          let game1 = game(new_path \<mapsto> cw_file w); handle = old_handle old_file game1
          in if handle \<noteq> None \<and> mi_fail io OpenOldC then (Inl OpenOld, game1)
             else (case write_chunks io temp new_path handle old_chunks global_chunks 0 (fe_chunks entry) ([], w, game1) of
                     (Inl e, w1, game2) \<Rightarrow> (Inl e, game2)
                   | (Inr hashed, w1, game2) \<Rightarrow> finish_file blake3 io target new_path (fe_hash entry) hashed w1 game2))"

section \<open>Merging a version\<close>

record merge_summary =
  ms_merged :: nat
  ms_deleted :: nat
  ms_failed :: "(string \<times> merge_error) list"

definition old_chunk_map :: "file_entry \<Rightarrow> (bytes \<rightharpoonup> u64 \<times> u32)" where
  "old_chunk_map f = (\<lambda>h. map_option snd (snd (map_chunks (fe_name f) (fe_chunks f) (0, Map.empty)) h))"

definition global_map :: "game_index option \<Rightarrow> (bytes \<rightharpoonup> chunk_loc)" where
  "global_map old = (case old of None \<Rightarrow> Map.empty | Some o' \<Rightarrow> build_map o')"

definition need_merge :: "game_index option \<Rightarrow> dir \<Rightarrow> file_entry \<Rightarrow> bool" where
  "need_merge old game entry =
     (case file_map old (fe_name entry) of
        None \<Rightarrow> True
      | Some prev \<Rightarrow> fe_hash prev \<noteq> fe_hash entry \<or> game (fe_name entry) = None)"

definition merge_entry ::
    "(bytes \<Rightarrow> bytes) \<Rightarrow> merge_io \<Rightarrow> game_index option \<Rightarrow> dir \<Rightarrow> file_entry \<Rightarrow> merge_summary \<times> dir \<Rightarrow> merge_summary \<times> dir" where
  "merge_entry blake3 io old temp entry s =
     (case s of (sm, game) \<Rightarrow>
        if \<not> need_merge old game entry then (sm, game)
        else
          let prev = file_map old (fe_name entry) in
          (case write_new_file blake3 io entry (map_option old_chunk_map prev) (map_option (\<lambda>_. fe_name entry) prev)
                  (Some (global_map old)) temp game of
             (Inr _, g1) \<Rightarrow> (sm\<lparr>ms_merged := Suc (ms_merged sm)\<rparr>, g1)
           | (Inl e, g1) \<Rightarrow>
               (sm\<lparr>ms_failed := ms_failed sm @ [(fe_name entry, e)]\<rparr>,
                snd (remove_file (mi_fail io RemoveNewC) (with_new (fe_name entry)) g1))))"

fun merge_entries ::
    "(bytes \<Rightarrow> bytes) \<Rightarrow> (nat \<Rightarrow> merge_io) \<Rightarrow> game_index option \<Rightarrow> dir \<Rightarrow> file_entry list \<Rightarrow> merge_summary \<times> dir \<Rightarrow> merge_summary \<times> dir" where
  "merge_entries blake3 ios old temp [] s = s"
| "merge_entries blake3 ios old temp (e # es) s =
     merge_entries blake3 (\<lambda>k. ios (Suc k)) old temp es (merge_entry blake3 (ios 0) old temp e s)"

fun delete_files :: "(string \<Rightarrow> bool) \<Rightarrow> string list \<Rightarrow> merge_summary \<times> dir \<Rightarrow> (merge_error + merge_summary) \<times> dir" where
  "delete_files fails [] (sm, game) = (Inr sm, game)"
| "delete_files fails (n # ns) (sm, game) =
     (if game n = None then delete_files fails ns (sm, game)
      else (case remove_file (fails n) n game of
              (False, g1) \<Rightarrow> (Inl DeleteFile, g1)
            | (True, g1) \<Rightarrow> delete_files fails ns (sm\<lparr>ms_deleted := Suc (ms_deleted sm)\<rparr>, g1)))"

definition merge_files ::
    "(bytes \<Rightarrow> bytes) \<Rightarrow> (nat \<Rightarrow> merge_io) \<Rightarrow> (string \<Rightarrow> bool) \<Rightarrow> (string list \<Rightarrow> string list) \<Rightarrow> game_index \<Rightarrow> game_index option \<Rightarrow> dir \<Rightarrow>
     dir \<Rightarrow> (merge_error + merge_summary) \<times> dir" where
  "merge_files blake3 ios fails order new old temp game =
     delete_files fails (order (filter (\<lambda>n. n \<notin> fe_name ` set (gi_files new)) (remdups (old_names old))))
       (merge_entries blake3 ios old temp (gi_files new) (\<lparr>ms_merged = 0, ms_deleted = 0, ms_failed = []\<rparr>, game))"

section \<open>What one file's assembly does\<close>

lemma write_chunks_spec:
  assumes "compio_ok (mi_cx io)"
  shows "writer_ok w \<Longrightarrow> cw_file w = hashed \<Longrightarrow> game new_path = Some hashed \<Longrightarrow>
    write_chunks io temp new_path handle oc gc i cs (hashed, w, game) = (r, w', game') \<Longrightarrow>
    (\<forall>p. p \<noteq> new_path \<longrightarrow> game' p = game p) \<and> (\<forall>h. r = Inr h \<longrightarrow> game' new_path = Some h)"
proof (induction cs arbitrary: i hashed w game)
  case (Cons c cs)
  let ?d = "chunk_data io i game temp (case handle of None \<Rightarrow> None | Some p \<Rightarrow> game p) oc gc (cm_hash c)"
  show ?case
  proof (cases ?d)
    case (Inl e)
    with Cons.prems(4) show ?thesis by auto
  next
    case (Inr data)
    obtain x w1 where wr: "write_owned (mi_cx io) data w = (x, w1)" by fastforce
    show ?thesis
    proof (cases x)
      case (Inl e)
      with Inr wr Cons.prems(4) show ?thesis by auto
    next
      case r: (Inr u)
      then have ok: "writer_ok w1" "cw_file w1 = hashed @ data"
        using write_owned_Inr [OF assms Cons.prems(1), of data w1] wr Cons.prems(2) by simp_all
      have run: "write_chunks io temp new_path handle oc gc (Suc i) cs (hashed @ data, w1, game(new_path \<mapsto> cw_file w1)) = (r, w', game')"
        using Cons.prems(4) Inr wr r by simp
      from Cons.IH [OF ok _ run] ok(2) show ?thesis by simp
    qed
  qed
qed auto

text \<open>The three outcomes for the directory: replaced, or untouched apart from the target that may be gone.\<close>

definition replaced :: "string \<Rightarrow> string \<Rightarrow> bytes \<Rightarrow> dir \<Rightarrow> dir \<Rightarrow> bool" where
  "replaced target new_path d game game' \<longleftrightarrow> game' = (game(new_path := None))(target \<mapsto> d)"

definition not_replaced :: "string \<Rightarrow> string \<Rightarrow> dir \<Rightarrow> dir \<Rightarrow> bool" where
  "not_replaced target new_path game game' \<longleftrightarrow>
     (\<forall>p. p \<noteq> new_path \<and> p \<noteq> target \<longrightarrow> game' p = game p) \<and> (game' target = game target \<or> game' target = None)"

lemma finish_file_spec:
  assumes "game new_path = Some hashed" "new_path \<noteq> target" "finish_file blake3 io target new_path want hashed w game = (r, game')"
  shows "(r = Inr () \<longrightarrow> blake3 hashed = want \<and> replaced target new_path hashed game game') \<and>
    (\<forall>e. r = Inl e \<longrightarrow> not_replaced target new_path game game')"
proof (cases "blake3 hashed \<noteq> want \<or> (\<exists>e. writer_sync_all (mi_cx io) w = Inl e) \<or> (\<exists>e. writer_close (mi_cx io) w = Inl e)")
  case True
  then have "(\<exists>e. r = Inl e) \<and> (game' = game \<or> game' = game(new_path := None))"
    using assms(3) by (auto simp: finish_file_def remove_file_def split: if_splits sum.splits)
  with assms(2) show ?thesis by (auto simp: not_replaced_def)
next
  case False
  then obtain u f where ok: "blake3 hashed = want" "writer_sync_all (mi_cx io) w = Inr u" "writer_close (mi_cx io) w = Inr f"
    by (cases "writer_sync_all (mi_cx io) w"; cases "writer_close (mi_cx io) w") auto
  let ?g = "game(target := None)"
  have g: "game target = None \<Longrightarrow> ?g = game" by auto
  have n: "?g new_path = Some hashed" using assms(1,2) by simp
  have fin: "finish_file blake3 io target new_path want hashed w game =
      (if game target \<noteq> None \<and> mi_fail io RemoveOldC then (Inl RemoveOld, game)
       else if mi_fail io RenameC then (Inl RenameNew, ?g)
       else (Inr (), (?g(new_path := None))(target := Some hashed)))"
    using ok n g assms(1) by (cases "game target") (simp_all add: finish_file_def remove_file_def rename_file_def)
  have "(?g(new_path := None))(target := Some hashed) = (game(new_path := None))(target \<mapsto> hashed)"
    using assms(2) by (simp add: fun_upd_twist)
  with fin ok(1) assms(2,3) show ?thesis
    by (auto simp: replaced_def not_replaced_def split: if_splits)
qed

lemma write_new_file_spec:
  assumes "compio_ok (mi_cx io)" "with_new (fe_name entry) \<noteq> fe_name entry"
    "write_new_file blake3 io entry oc old_file gc temp game = (r, game')"
  shows "(r = Inr () \<longrightarrow> (\<exists>d. blake3 d = fe_hash entry \<and> replaced (fe_name entry) (with_new (fe_name entry)) d game game')) \<and>
    (\<forall>e. r = Inl e \<longrightarrow> not_replaced (fe_name entry) (with_new (fe_name entry)) game game')"
proof -
  let ?t = "fe_name entry" and ?n = "with_new (fe_name entry)"
  have unchanged: "not_replaced ?t ?n game game" "not_replaced ?t ?n game (game(?n \<mapsto> x))" for x
    using assms(2) by (auto simp: not_replaced_def)
  show ?thesis
  proof (cases "mi_fail io MkParentC \<or> (\<exists>e. writer_create (mi_cx io) = Inl e)")
    case True
    with assms(3) unchanged show ?thesis by (auto simp: write_new_file_def Let_def split: if_splits)
  next
    case False
    then obtain w where w: "writer_create (mi_cx io) = Inr w" "\<not> mi_fail io MkParentC" by (cases "writer_create (mi_cx io)") auto
    note create = writer_create_ok [OF w(1)]
    let ?g = "game(?n \<mapsto> cw_file w)"
    let ?h = "old_handle old_file ?g"
    show ?thesis
    proof (cases "?h \<noteq> None \<and> mi_fail io OpenOldC")
      case True
      then have "r = Inl OpenOld" "game' = ?g"
        using assms(3) w by (simp_all add: write_new_file_def Let_def)
      with unchanged(2) show ?thesis by auto
    next
      case False
      obtain q w1 g2 where run: "write_chunks io temp ?n ?h oc gc 0 (fe_chunks entry) ([], w, ?g) = (q, w1, g2)"
        by (metis prod_cases3)
      have ch: "(\<forall>p. p \<noteq> ?n \<longrightarrow> g2 p = ?g p) \<and> (\<forall>h. q = Inr h \<longrightarrow> g2 ?n = Some h)"
        by (rule write_chunks_spec [OF assms(1) _ _ _ run]) (use create in simp_all)
      have res: "(r, game') = (case q of Inl e \<Rightarrow> (Inl e, g2) | Inr hashed \<Rightarrow> finish_file blake3 io ?t ?n (fe_hash entry) hashed w1 g2)"
      proof -
        have "write_new_file blake3 io entry oc old_file gc temp game =
            (case write_chunks io temp ?n ?h oc gc 0 (fe_chunks entry) ([], w, ?g) of
               (Inl e, w1, game2) \<Rightarrow> (Inl e, game2)
             | (Inr hashed, w1, game2) \<Rightarrow> finish_file blake3 io ?t ?n (fe_hash entry) hashed w1 game2)"
          using w False by (simp only: write_new_file_def Let_def sum.case if_False)
        with assms(3) run show ?thesis by (cases q) simp_all
      qed
      show ?thesis
      proof (cases q)
        case (Inl e)
        with res ch assms(2) show ?thesis by (auto simp: not_replaced_def)
      next
        case (Inr hashed)
        with ch have n: "g2 ?n = Some hashed" by simp
        have fin: "finish_file blake3 io ?t ?n (fe_hash entry) hashed w1 g2 = (r, game')" using res Inr by simp
        have g2: "g2(?n := None) = game(?n := None)" using ch by (auto simp: fun_eq_iff)
        have "g2 ?t = game ?t" using ch assms(2) by simp
        with finish_file_spec [OF n assms(2) fin] g2 ch show ?thesis
          by (auto simp: replaced_def not_replaced_def)
      qed
    qed
  qed
qed

section \<open>What a merge does\<close>

definition entry_done :: "(bytes \<Rightarrow> bytes) \<Rightarrow> game_index option \<Rightarrow> file_entry \<Rightarrow> dir \<Rightarrow> dir \<Rightarrow> bool" where
  "entry_done blake3 old e game game' \<longleftrightarrow>
     (\<exists>d. game' (fe_name e) = Some d \<and> blake3 d = fe_hash e) \<or>
     (game' (fe_name e) = game (fe_name e) \<and> game (fe_name e) \<noteq> None \<and>
      (\<exists>prev. file_map old (fe_name e) = Some prev \<and> fe_hash prev = fe_hash e))"

definition entry_safe :: "(bytes \<Rightarrow> bytes) \<Rightarrow> file_entry \<Rightarrow> dir \<Rightarrow> dir \<Rightarrow> bool" where
  "entry_safe blake3 e game game' \<longleftrightarrow> game' (fe_name e) = game (fe_name e) \<or> game' (fe_name e) = None \<or>
     (\<exists>d. game' (fe_name e) = Some d \<and> blake3 d = fe_hash e)"

lemma merge_entry_spec:
  assumes "compio_ok (mi_cx io)" "with_new (fe_name e) \<noteq> fe_name e" "merge_entry blake3 io old temp e (sm, game) = (sm', game')"
  shows "(\<forall>p. p \<noteq> fe_name e \<and> p \<noteq> with_new (fe_name e) \<longrightarrow> game' p = game p) \<and> entry_safe blake3 e game game' \<and>
    (\<exists>fs. ms_failed sm' = ms_failed sm @ fs \<and> (fs = [] \<longrightarrow> entry_done blake3 old e game game'))"
proof (cases "need_merge old game e")
  case False
  then have "sm' = sm" "game' = game" using assms(3) by (auto simp: merge_entry_def)
  moreover have "entry_done blake3 old e game game"
    using False by (auto simp: entry_done_def need_merge_def split: option.splits)
  ultimately show ?thesis by (simp add: entry_safe_def)
next
  case True
  let ?prev = "file_map old (fe_name e)"
  obtain r g1 where run: "write_new_file blake3 io e (map_option old_chunk_map ?prev) (map_option (\<lambda>_. fe_name e) ?prev)
      (Some (global_map old)) temp game = (r, g1)" by fastforce
  note spec = write_new_file_spec [OF assms(1,2) run]
  show ?thesis
  proof (cases r)
    case (Inl x)
    then have out: "ms_failed sm' = ms_failed sm @ [(fe_name e, x)]" "game' = snd (remove_file (mi_fail io RemoveNewC) (with_new (fe_name e)) g1)"
      using assms(3) True run by (auto simp: merge_entry_def Let_def)
    moreover have "not_replaced (fe_name e) (with_new (fe_name e)) game g1" using spec Inl by blast
    ultimately show ?thesis
      using assms(2) by (auto simp: not_replaced_def entry_safe_def remove_file_def)
  next
    case (Inr u)
    then have out: "ms_failed sm' = ms_failed sm" "game' = g1"
      using assms(3) True run by (auto simp: merge_entry_def Let_def)
    from spec Inr obtain d where "blake3 d = fe_hash e" "replaced (fe_name e) (with_new (fe_name e)) d game g1" by auto
    with out show ?thesis by (auto simp: replaced_def entry_safe_def entry_done_def)
  qed
qed

lemma merge_entries_spec:
  assumes "\<And>i. compio_ok (mi_cx (ios i))"
  shows "distinct (map fe_name es) \<Longrightarrow> fe_name ` set es \<subseteq> N \<Longrightarrow> (\<forall>e \<in> set es. with_new (fe_name e) \<notin> N) \<Longrightarrow>
    merge_entries blake3 ios old temp es (sm, game) = (sm', game') \<Longrightarrow>
    (\<forall>p \<in> N - fe_name ` set es. game' p = game p) \<and> (\<forall>e \<in> set es. entry_safe blake3 e game game') \<and>
    (\<exists>fs. ms_failed sm' = ms_failed sm @ fs \<and> (fs = [] \<longrightarrow> (\<forall>e \<in> set es. entry_done blake3 old e game game')))"
  using assms
proof (induction es arbitrary: ios sm game)
  case (Cons e es)
  obtain sm1 g1 where one: "merge_entry blake3 (ios 0) old temp e (sm, game) = (sm1, g1)" by fastforce
  have ne: "with_new (fe_name e) \<noteq> fe_name e" using Cons.prems(2,3) by auto
  note s1 = merge_entry_spec [OF Cons.prems(5) ne one]
  have rest: "merge_entries blake3 (\<lambda>k. ios (Suc k)) old temp es (sm1, g1) = (sm', game')" using Cons.prems(4) one by simp
  have s2: "(\<forall>p \<in> N - fe_name ` set es. game' p = g1 p) \<and> (\<forall>e \<in> set es. entry_safe blake3 e g1 game') \<and>
    (\<exists>fs. ms_failed sm' = ms_failed sm1 @ fs \<and> (fs = [] \<longrightarrow> (\<forall>e \<in> set es. entry_done blake3 old e g1 game')))"
    using Cons.IH [OF _ _ _ rest] Cons.prems by auto
  have here: "game' (fe_name e) = g1 (fe_name e)" using s2 Cons.prems(1,2) by auto
  have there: "g1 (fe_name f) = game (fe_name f)" if f: "f \<in> set es" for f
  proof -
    have "fe_name f \<noteq> fe_name e" using f Cons.prems(1) by (force simp: image_iff)
    moreover have "fe_name f \<noteq> with_new (fe_name e)" using f Cons.prems(2,3) by (force simp: image_iff)
    ultimately show ?thesis using s1 by blast
  qed
  have frame: "\<forall>p \<in> N - fe_name ` set (e # es). game' p = game p"
  proof
    fix p assume p: "p \<in> N - fe_name ` set (e # es)"
    then have "p \<noteq> fe_name e" "p \<noteq> with_new (fe_name e)" "p \<in> N - fe_name ` set es" using Cons.prems(3) by auto
    then show "game' p = game p" using s1 s2 by metis
  qed
  have safe: "\<forall>f \<in> set (e # es). entry_safe blake3 f game game'"
    using s1 s2 here there by (auto simp: entry_safe_def)
  have dn: "\<exists>fs. ms_failed sm' = ms_failed sm @ fs \<and> (fs = [] \<longrightarrow> (\<forall>f \<in> set (e # es). entry_done blake3 old f game game'))"
  proof -
    obtain fs1 where f1: "ms_failed sm1 = ms_failed sm @ fs1" "fs1 = [] \<longrightarrow> entry_done blake3 old e game g1" using s1 by blast
    obtain fs2 where f2: "ms_failed sm' = ms_failed sm1 @ fs2" "fs2 = [] \<longrightarrow> (\<forall>f \<in> set es. entry_done blake3 old f g1 game')" using s2 by blast
    have "fs1 @ fs2 = [] \<longrightarrow> (\<forall>f \<in> set (e # es). entry_done blake3 old f game game')"
      using f1(2) f2(2) here there by (auto simp: entry_done_def)
    with f1(1) f2(1) show ?thesis by (intro exI [of _ "fs1 @ fs2"]) simp
  qed
  from frame safe dn show ?case by blast
qed simp

lemma delete_files_spec:
  "delete_files fails ns (sm, game) = (r, game') \<Longrightarrow>
     (\<forall>p. p \<notin> set ns \<longrightarrow> game' p = game p) \<and>
     (\<forall>sm'. r = Inr sm' \<longrightarrow> ms_failed sm' = ms_failed sm \<and> (\<forall>p \<in> set ns. game' p = None))"
proof (induction ns arbitrary: sm game)
  case (Cons n ns)
  show ?case
  proof (cases "game n = None")
    case True
    then have run: "delete_files fails ns (sm, game) = (r, game')" using Cons.prems by simp
    have "game' n = None" if "r = Inr sm'" for sm' using Cons.IH [OF run] True that by metis
    with Cons.IH [OF run] show ?thesis by (metis list.set_intros(2) set_ConsD)
  next
    case False
    show ?thesis
    proof (cases "fails n")
      case True
      with False Cons.prems have "r = Inl DeleteFile" "game' = game" by (auto simp: remove_file_def)
      then show ?thesis by simp
    next
      case f: False
      let ?sm = "sm\<lparr>ms_deleted := Suc (ms_deleted sm)\<rparr>"
      have run: "delete_files fails ns (?sm, game(n := None)) = (r, game')"
        using f False Cons.prems by (auto simp: remove_file_def)
      have "game' n = None" if "r = Inr sm'" for sm' using Cons.IH [OF run] that by (metis fun_upd_same)
      moreover have "game' p = game p" if "p \<notin> set (n # ns)" for p using Cons.IH [OF run] that by simp
      moreover have "ms_failed ?sm = ms_failed sm" by simp
      ultimately show ?thesis using Cons.IH [OF run] by (metis set_ConsD)
    qed
  qed
qed auto

definition disk_ok :: "(bytes \<Rightarrow> bytes) \<Rightarrow> game_index option \<Rightarrow> dir \<Rightarrow> bool" where
  "disk_ok blake3 old game \<longleftrightarrow> (\<forall>n prev d. file_map old n = Some prev \<and> game n = Some d \<longrightarrow> blake3 d = fe_hash prev)"

text \<open>The temporary names of the new files are names of no file of either version.\<close>

definition names_apart :: "game_index \<Rightarrow> game_index option \<Rightarrow> bool" where
  "names_apart new old \<longleftrightarrow> distinct (map fe_name (gi_files new)) \<and>
     (\<forall>e \<in> set (gi_files new). with_new (fe_name e) \<notin> fe_name ` set (gi_files new) \<union> set (old_names old))"

lemma merge_files_spec:
  assumes "\<And>i. compio_ok (mi_cx (ios i))" and "names_apart new old" and "lists_sets order"
    and "merge_files blake3 ios fails order new old temp game = (r, game')"
  shows "(\<forall>e \<in> set (gi_files new). entry_safe blake3 e game game') \<and>
    (\<forall>sm. r = Inr sm \<and> ms_failed sm = [] \<and> disk_ok blake3 old game \<longrightarrow>
       (\<forall>e \<in> set (gi_files new). \<exists>d. game' (fe_name e) = Some d \<and> blake3 d = fe_hash e) \<and>
       (\<forall>n \<in> set (old_names old) - fe_name ` set (gi_files new). game' n = None))"
proof -
  let ?N = "fe_name ` set (gi_files new) \<union> set (old_names old)"
  let ?gone = "filter (\<lambda>n. n \<notin> fe_name ` set (gi_files new)) (remdups (old_names old))"
  have gone: "set (order ?gone) = set (old_names old) - fe_name ` set (gi_files new)"
    using assms(3) by (auto simp: lists_sets_def)
  obtain sm1 g1 where m: "merge_entries blake3 ios old temp (gi_files new) (\<lparr>ms_merged = 0, ms_deleted = 0, ms_failed = []\<rparr>, game) = (sm1, g1)"
    by fastforce
  have es: "(\<forall>p \<in> ?N - fe_name ` set (gi_files new). g1 p = game p) \<and> (\<forall>e \<in> set (gi_files new). entry_safe blake3 e game g1) \<and>
    (\<exists>fs. ms_failed sm1 = ms_failed \<lparr>ms_merged = 0, ms_deleted = 0, ms_failed = []\<rparr> @ fs \<and> (fs = [] \<longrightarrow> (\<forall>e \<in> set (gi_files new). entry_done blake3 old e game g1)))"
    by (rule merge_entries_spec [OF assms(1) _ _ _ m]) (use assms(2) in \<open>simp_all add: names_apart_def\<close>)
  have del: "delete_files fails (order ?gone) (sm1, g1) = (r, game')" using assms(4) m by (simp add: merge_files_def)
  note ds = delete_files_spec [OF del]
  have same: "game' (fe_name e) = g1 (fe_name e)" if "e \<in> set (gi_files new)" for e
    using ds gone that by blast
  have "\<exists>d. game' (fe_name e) = Some d \<and> blake3 d = fe_hash e"
    if "ms_failed sm1 = []" "disk_ok blake3 old game" "e \<in> set (gi_files new)" for e
  proof -
    have "entry_done blake3 old e game g1" using es that(1,3) by auto
    with that(2) same [OF that(3)] show ?thesis unfolding entry_done_def disk_ok_def by auto
  qed
  moreover have "r = Inr sm \<Longrightarrow> ms_failed sm = ms_failed sm1" for sm using ds by blast
  moreover have "r = Inr sm \<Longrightarrow> n \<in> set (old_names old) - fe_name ` set (gi_files new) \<Longrightarrow> game' n = None" for sm n
    using ds gone by blast
  moreover have "\<forall>e \<in> set (gi_files new). entry_safe blake3 e game game'"
    using es same by (auto simp: entry_safe_def)
  ultimately show ?thesis by metis
qed


definition io_std :: merge_io where
  "io_std = \<lparr>mi_rd = (\<lambda>n off. Some n), mi_cx = compio_std, mi_fail = (\<lambda>c. False)\<rparr>"

lemma io_std_simps [simp]:
  "mi_cx io_std = compio_std" "mi_fail io_std c = False" "compio_ok (mi_cx io_std)"
  "read_chunk_at (mi_rd io_std) content off len =
     (if unat len = 0 \<or> unat off + unat len \<le> length content then Inr (take (unat len) (drop (unat off) content)) else Inl ReadEof)"
  using compio_std_ok read_exact_at_live [of "mi_rd io_std" content "unat len" "unat off"]
  by (simp_all add: io_std_def read_chunk_at_def os_live_def)

lemma compio_std_simps [simp]:
  "writer_create compio_std = Inr \<lparr>cw_file = [], cw_offset = 0\<rparr>"
  "write_owned compio_std d \<lparr>cw_file = f, cw_offset = length f\<rparr> = (Inr (), \<lparr>cw_file = f @ d, cw_offset = length f + length d\<rparr>)"
  "writer_sync_all compio_std w = Inr ()" "writer_close compio_std w = Inr (cw_file w)"
  by (simp_all add: writer_create_def write_owned_def writer_sync_all_def writer_close_def compio_std_def pwrite_at_end Let_def)

section \<open>Merging without faults\<close>

text \<open>Where the data of the chunks comes from, whatever the file under construction holds.\<close>

definition sources :: "dir \<Rightarrow> string \<Rightarrow> string option \<Rightarrow> (bytes \<rightharpoonup> u64 \<times> u32) option \<Rightarrow> (bytes \<rightharpoonup> chunk_loc) option \<Rightarrow> dir \<Rightarrow> chunk_meta \<Rightarrow> bytes \<Rightarrow> bool" where
  "sources temp new_path handle oc gc game c d \<longleftrightarrow> (\<forall>i x. chunk_data io_std i (game(new_path \<mapsto> x)) temp
     (case handle of None \<Rightarrow> None | Some p \<Rightarrow> (game(new_path \<mapsto> x)) p) oc gc (cm_hash c) = Inr d)"

lemma write_chunks_std:
  "list_all2 (sources temp new_path handle oc gc game) cs datas \<Longrightarrow> w = \<lparr>cw_file = hashed, cw_offset = length hashed\<rparr> \<Longrightarrow>
     write_chunks io_std temp new_path handle oc gc i cs (hashed, w, game(new_path \<mapsto> hashed)) =
       (Inr (hashed @ concat datas), \<lparr>cw_file = hashed @ concat datas, cw_offset = length (hashed @ concat datas)\<rparr>,
        game(new_path \<mapsto> hashed @ concat datas))"
proof (induction arbitrary: i hashed w rule: list_all2_induct)
  case (Cons c cs d datas)
  have "chunk_data io_std i (game(new_path \<mapsto> hashed)) temp
     (case handle of None \<Rightarrow> None | Some p \<Rightarrow> (game(new_path \<mapsto> hashed)) p) oc gc (cm_hash c) = Inr d"
    using Cons.hyps(1) unfolding sources_def by blast
  then have "write_chunks io_std temp new_path handle oc gc i (c # cs) (hashed, w, game(new_path \<mapsto> hashed)) =
      write_chunks io_std temp new_path handle oc gc (Suc i) cs
        (hashed @ d, \<lparr>cw_file = hashed @ d, cw_offset = length (hashed @ d)\<rparr>, game(new_path \<mapsto> hashed @ d))"
    unfolding Cons.prems
    by (simp only: write_chunks.simps sum.case prod.case io_std_simps(1) compio_std_simps(2) compio_writer.simps fun_upd_upd length_append)
  also have "\<dots> = (Inr ((hashed @ d) @ concat datas), \<lparr>cw_file = (hashed @ d) @ concat datas, cw_offset = length ((hashed @ d) @ concat datas)\<rparr>,
        game(new_path \<mapsto> (hashed @ d) @ concat datas))"
    by (rule Cons.IH) (rule refl)
  finally show ?case by (simp only: append_assoc concat.simps)
qed simp

lemma write_new_file_std:
  assumes "with_new (fe_name e) \<noteq> fe_name e" "old_file = None \<or> old_file = Some (fe_name e)"
    "list_all2 (sources temp (with_new (fe_name e)) (old_handle old_file game) oc gc game) (fe_chunks e) datas"
  shows "write_new_file blake3 io_std e oc old_file gc temp game =
    (if blake3 (concat datas) = fe_hash e
     then (Inr (), (game(with_new (fe_name e) := None))(fe_name e \<mapsto> concat datas))
     else (Inl BadDigest, game(with_new (fe_name e) := None)))"
proof -
  let ?n = "with_new (fe_name e)" and ?t = "fe_name e"
  let ?g = "game(?n \<mapsto> concat datas)"
  have h: "old_handle old_file (game(?n \<mapsto> [])) = old_handle old_file game"
    using assms(1,2) by (auto simp: old_handle_def)
  have w: "write_chunks io_std temp ?n (old_handle old_file game) oc gc 0 (fe_chunks e) ([], \<lparr>cw_file = [], cw_offset = 0\<rparr>, game(?n \<mapsto> [])) =
      (Inr (concat datas), \<lparr>cw_file = concat datas, cw_offset = length (concat datas)\<rparr>, ?g)"
    using write_chunks_std [OF assms(3), of "\<lparr>cw_file = [], cw_offset = 0\<rparr>" "[]" 0] by simp
  have g: "(?g(?t := None))(?n := None, ?t \<mapsto> concat datas) = game(?n := None, ?t \<mapsto> concat datas)"
    "?g(?n := None, ?t \<mapsto> concat datas) = game(?n := None, ?t \<mapsto> concat datas)" "?g(?n := None) = game(?n := None)"
    using assms(1) by (auto simp: fun_eq_iff)
  have "finish_file blake3 io_std ?t ?n (fe_hash e) (concat datas) \<lparr>cw_file = concat datas, cw_offset = length (concat datas)\<rparr> ?g =
      (if blake3 (concat datas) = fe_hash e then (Inr (), (game(?n := None))(?t \<mapsto> concat datas)) else (Inl BadDigest, game(?n := None)))"
  proof (cases "game ?t")
    case None
    with assms(1) g show ?thesis by (simp add: finish_file_def remove_file_def rename_file_def)
  next
    case (Some c)
    with assms(1) g show ?thesis by (simp add: finish_file_def remove_file_def rename_file_def)
  qed
  with h w show ?thesis by (simp add: write_new_file_def Let_def)
qed

lemma merge_entry_std:
  assumes "with_new (fe_name e) \<noteq> fe_name e" "need_merge old game e"
    "prev = file_map old (fe_name e)"
    "list_all2 (sources temp (with_new (fe_name e)) (old_handle (map_option (\<lambda>_. fe_name e) prev) game)
       (map_option old_chunk_map prev) (Some (global_map old)) game) (fe_chunks e) datas"
  shows "merge_entry blake3 io_std old temp e (sm, game) =
    (if blake3 (concat datas) = fe_hash e
     then (sm\<lparr>ms_merged := Suc (ms_merged sm)\<rparr>, (game(with_new (fe_name e) := None))(fe_name e \<mapsto> concat datas))
     else (sm\<lparr>ms_failed := ms_failed sm @ [(fe_name e, BadDigest)]\<rparr>, game(with_new (fe_name e) := None)))"
proof -
  have "map_option (\<lambda>_. fe_name e) prev = None \<or> map_option (\<lambda>_. fe_name e) prev = Some (fe_name e)" by (cases prev) auto
  from write_new_file_std [OF assms(1) this assms(4), of blake3] assms(2,3) show ?thesis
    by (simp add: merge_entry_def Let_def remove_file_def)
qed

text \<open>
  A first installation completes. With no old version, no fault, every chunk present as a
  temporary block and digests that fit, the merge reports every file as merged and none as
  failed, and every file holds the concatenation of its chunks.
\<close>

theorem fresh_install_completes:
  assumes "names_apart new None" and "\<And>f. f \<in> set (gi_files new) \<Longrightarrow>
      list_all2 (\<lambda>c d. temp (blk_name (cm_hash c)) = Some d) (fe_chunks f) (datas f) \<and> blake3 (concat (datas f)) = fe_hash f"
  shows "\<exists>game'. merge_files blake3 (\<lambda>i. io_std) (\<lambda>n. False) order new None temp game =
      delete_files (\<lambda>n. False) (order []) (\<lparr>ms_merged = length (gi_files new), ms_deleted = 0, ms_failed = []\<rparr>, game') \<and>
    (\<forall>f \<in> set (gi_files new). game' (fe_name f) = Some (concat (datas f)))"
proof -
  let ?N = "fe_name ` set (gi_files new)"
  have step: "merge_entry blake3 io_std None temp f (sm, g) =
      (sm\<lparr>ms_merged := Suc (ms_merged sm)\<rparr>, (g(with_new (fe_name f) := None))(fe_name f \<mapsto> concat (datas f)))"
    if f: "f \<in> set (gi_files new)" for f sm g
  proof -
    have ne: "with_new (fe_name f) \<noteq> fe_name f" using assms(1) f by (auto simp: names_apart_def)
    have "list_all2 (sources temp (with_new (fe_name f)) (old_handle (map_option (\<lambda>_. fe_name f) None) g)
       (map_option old_chunk_map None) (Some (global_map None)) g) (fe_chunks f) (datas f)"
      using assms(2) [OF f] by (auto simp: sources_def chunk_data_def global_map_def read_blk_def old_handle_def elim!: list_all2_mono)
    from merge_entry_std [OF ne _ _ this, of blake3 sm] assms(2) [OF f] show ?thesis
      by (simp add: need_merge_def file_map_def)
  qed
  have "set fs \<subseteq> set (gi_files new) \<Longrightarrow> distinct (map fe_name fs) \<Longrightarrow>
    \<exists>g'. merge_entries blake3 (\<lambda>i. io_std) None temp fs (sm, g) = (sm\<lparr>ms_merged := ms_merged sm + length fs\<rparr>, g') \<and>
      (\<forall>f \<in> set fs. g' (fe_name f) = Some (concat (datas f))) \<and> (\<forall>p \<in> ?N - fe_name ` set fs. g' p = g p)" for fs sm g
  proof (induction fs arbitrary: sm g)
    case (Cons f fs)
    let ?sm = "sm\<lparr>ms_merged := Suc (ms_merged sm)\<rparr>"
    let ?g = "(g(with_new (fe_name f) := None))(fe_name f \<mapsto> concat (datas f))"
    have f: "f \<in> set (gi_files new)" and new: "with_new (fe_name f) \<notin> ?N"
      using Cons.prems(1) assms(1) by (auto simp: names_apart_def)
    have "\<exists>g'. merge_entries blake3 (\<lambda>i. io_std) None temp fs (?sm, ?g) = (?sm\<lparr>ms_merged := ms_merged ?sm + length fs\<rparr>, g') \<and>
        (\<forall>f \<in> set fs. g' (fe_name f) = Some (concat (datas f))) \<and> (\<forall>p \<in> ?N - fe_name ` set fs. g' p = ?g p)"
      by (rule Cons.IH) (use Cons.prems in auto)
    then obtain g' where g': "merge_entries blake3 (\<lambda>i. io_std) None temp fs (?sm, ?g) = (?sm\<lparr>ms_merged := ms_merged ?sm + length fs\<rparr>, g')"
        "\<forall>f \<in> set fs. g' (fe_name f) = Some (concat (datas f))" "\<forall>p \<in> ?N - fe_name ` set fs. g' p = ?g p"
      by blast
    have here: "g' (fe_name f) = Some (concat (datas f))" using g'(3) f Cons.prems(2) by auto
    have frame: "\<forall>p \<in> ?N - fe_name ` set (f # fs). g' p = g p" using g'(3) new by auto
    show ?case using step [OF f, of sm g] g'(1,2) here frame by (intro exI [of _ g']) simp
  qed simp
  from this [of "gi_files new" "\<lparr>ms_merged = 0, ms_deleted = 0, ms_failed = []\<rparr>" game] assms(1) show ?thesis
    by (auto simp: merge_files_def old_names_def names_apart_def)
qed

definition one_file :: "string \<Rightarrow> (bytes \<Rightarrow> bytes) \<Rightarrow> bytes list \<Rightarrow> file_entry" where
  "one_file name blake3 datas = \<lparr>fe_name = name, fe_hash = blake3 (concat datas),
     fe_chunks = map (\<lambda>d. \<lparr>cm_hash = blake3 d, cm_len = word_of_nat (length d)\<rparr>) datas\<rparr>"

lemma one_file_simps [simp]:
  "fe_name (one_file n h ds) = n" "fe_hash (one_file n h ds) = h (concat ds)"
  "fe_chunks (one_file n h ds) = map (\<lambda>d. \<lparr>cm_hash = h d, cm_len = word_of_nat (length d)\<rparr>) ds"
  by (simp_all add: one_file_def)

lemma with_new_a [simp]: "with_new ''a'' = ''a.new''" "with_new ''b'' = ''b.new''"
  by code_simp+

theorem fresh_install_completes_witness:
  "\<exists>game'. merge_files tiny_hash (\<lambda>i. io_std) (\<lambda>n. False) (\<lambda>ns. ns) tiny_index None [blk_name (tiny_hash [7]) \<mapsto> [7]] Map.empty =
     (Inr \<lparr>ms_merged = 1, ms_deleted = 0, ms_failed = []\<rparr>, game') \<and> game' ''a'' = Some [7]"
proof -
  have apart: "names_apart tiny_index None" by (simp add: names_apart_def tiny_index_def old_names_def)
  from fresh_install_completes [OF apart, of "[blk_name (tiny_hash [7]) \<mapsto> [7]]" "\<lambda>f. [[7]]" tiny_hash "\<lambda>ns. ns" Map.empty]
  show ?thesis by (auto simp: tiny_index_def)
qed


text \<open>
  A merge cannot be repeated. Take an update of one file from the data \<open>x\<close> to \<open>z @ x\<close> with
  the new chunk \<open>z\<close> at hand as a temporary block. The first merge succeeds. If the manifest is not
  saved afterwards, as when another file failed or the node was stopped, the next attempt reads
  the chunk \<open>x\<close> at its old place in the file, which the first merge has already replaced, finds
  \<open>z\<close> there, and fails with a digest mismatch, leaving everything as it was: it fails the same
  way ever after.
\<close>

theorem merge_retry_fails:
  assumes "length x = length z" and "0 < length x" and "length x < 2 ^ 32"
    and "blake3 x \<noteq> blake3 z" and "blake3 x \<noteq> blake3 (z @ x)" and "blake3 (z @ z) \<noteq> blake3 (z @ x)"
    and "temp (blk_name (blake3 z)) = Some z"
    and "old = build blake3 [one_file ''a'' blake3 [x]]" and "new = build blake3 [one_file ''a'' blake3 [z, x]]"
  shows "merge_files blake3 (\<lambda>i. io_std) (\<lambda>n. False) (\<lambda>ns. ns) new (Some old) temp [''a'' \<mapsto> x] =
      (Inr \<lparr>ms_merged = 1, ms_deleted = 0, ms_failed = []\<rparr>, [''a'' \<mapsto> z @ x]) \<and>
    merge_files blake3 (\<lambda>i. io_std) (\<lambda>n. False) (\<lambda>ns. ns) new (Some old) temp [''a'' \<mapsto> z @ x] =
      (Inr \<lparr>ms_merged = 0, ms_deleted = 0, ms_failed = [(''a'', BadDigest)]\<rparr>, [''a'' \<mapsto> z @ x])"
proof -
  let ?f = "one_file ''a'' blake3 [x]" and ?e = "one_file ''a'' blake3 [z, x]"
  have len: "unat (word_of_nat (length x) :: u32) = length x"
    using assms(3) by (simp add: unat_of_nat)
  have oc: "old_chunk_map ?f = [blake3 x \<mapsto> (0, word_of_nat (length x))]"
    by (auto simp: old_chunk_map_def or_insert_def fun_eq_iff)
  have gc: "global_map (Some old) = [blake3 x \<mapsto> (''a'', 0, word_of_nat (length x))]"
    by (auto simp: global_map_def build_map_def or_insert_def assms(8) fun_eq_iff)
  have fm: "file_map (Some old) ''a'' = Some ?f" by (simp add: file_map_def assms(8))
  have run: "merge_files blake3 (\<lambda>i. io_std) (\<lambda>n. False) (\<lambda>ns. ns) new (Some old) temp [''a'' \<mapsto> c] =
      (if blake3 (z @ take (length x) c) = blake3 (z @ x)
       then (Inr \<lparr>ms_merged = 1, ms_deleted = 0, ms_failed = []\<rparr>, [''a'' \<mapsto> z @ take (length x) c])
       else (Inr \<lparr>ms_merged = 0, ms_deleted = 0, ms_failed = [(''a'', BadDigest)]\<rparr>, [''a'' \<mapsto> c]))"
    if c: "length x \<le> length c" for c
  proof -
    have src: "sources temp ''a.new'' (Some ''a'') (Some [blake3 x \<mapsto> (0, word_of_nat (length x))])
        (Some [blake3 x \<mapsto> (''a'', 0, word_of_nat (length x))]) [''a'' \<mapsto> c] \<lparr>cm_hash = blake3 d, cm_len = n\<rparr> (if d = z then z else take (length x) c)"
      if "d = z \<or> d = x" for d n
      using that assms(4,7) c len by (auto simp: sources_def chunk_data_def read_blk_def)
    have "x \<noteq> z" using assms(4) by auto
    with src [of z] src [of x]
    have l: "list_all2 (sources temp (with_new (fe_name ?e)) (old_handle (map_option (\<lambda>_. fe_name ?e) (Some ?f)) [''a'' \<mapsto> c])
       (map_option old_chunk_map (Some ?f)) (Some (global_map (Some old))) [''a'' \<mapsto> c]) (fe_chunks ?e) [z, take (length x) c]"
      by (simp add: oc gc old_handle_def)
    have need: "need_merge (Some old) [''a'' \<mapsto> c] ?e" using fm assms(5) by (simp add: need_merge_def)
    have upd: "[''a'' \<mapsto> c](''a.new'' := None) = [''a'' \<mapsto> c]" by (auto simp: fun_eq_iff)
    from merge_entry_std [OF _ need _ l, of blake3 "\<lparr>ms_merged = 0, ms_deleted = 0, ms_failed = []\<rparr>"] fm upd
    show ?thesis by (simp add: merge_files_def assms(8,9) old_names_def)
  qed
  show ?thesis using run [of x] run [of "z @ x"] assms(1,6) by simp
qed

theorem merge_retry_fails_witness:
  "snd (merge_files (\<lambda>d. d) (\<lambda>i. io_std) (\<lambda>n. False) (\<lambda>ns. ns) (build (\<lambda>d. d) [one_file ''a'' (\<lambda>d. d) [[2], [1]]])
     (Some (build (\<lambda>d. d) [one_file ''a'' (\<lambda>d. d) [[1]]])) [blk_name [2] \<mapsto> [2]] [''a'' \<mapsto> [2, 1]]) = [''a'' \<mapsto> [2, 1]]"
  using merge_retry_fails [of "[1]" "[2]" "\<lambda>d. d" "[blk_name [2] \<mapsto> [2]]"] by simp

end
