(* ===== verification/Agent_Control.thy ===== *)
theory Agent_Control
  imports Sched_Control Configs
begin

text \<open>
  The agent's side of the control plane (\<^verbatim>\<open>crates/agent/src/control.rs\<close> and the registration in
  \<^verbatim>\<open>crates/agent/src/lib.rs\<close>): connecting with retries, registration with the node's
  addresses, status reports, the version query, the heartbeat loop and the task stream.

  A client is a record of the remote calls, each a function on the state of the other side;
  \<open>Inl\<close> is a failed call. The locale \<open>control_link\<close> states what the agent relies on, and
  it is interpreted on the scheduler's own handlers behind a network that loses requests and
  replies.
\<close>

section \<open>The client\<close>

record 's control_client =
  cc_register :: "register_request \<Rightarrow> 's \<Rightarrow> (unit + register_reply) \<times> 's"
  cc_heartbeat :: "u64 \<Rightarrow> 's \<Rightarrow> (unit + heartbeat_reply) \<times> 's"
  cc_report_task :: "u64 \<Rightarrow> u64 \<Rightarrow> string \<Rightarrow> string \<Rightarrow> 's \<Rightarrow> (unit + unit) \<times> 's"
  cc_report_chunk :: "u64 \<Rightarrow> u64 \<Rightarrow> bytes \<Rightarrow> 's \<Rightarrow> (unit + unit) \<times> 's"
  cc_query_peers :: "u64 \<Rightarrow> bytes \<Rightarrow> u32 \<Rightarrow> 's \<Rightarrow> (unit + peer list) \<times> 's"
  cc_get_version :: "u64 \<Rightarrow> u64 \<Rightarrow> 's \<Rightarrow> (unit + version_info) \<times> 's"

datatype control_error = Unreachable | RegisterError | ReportTaskError | VersionQueryError

text \<open>Thirty attempts; \<open>attempt i\<close> says whether the \<open>i\<close>-th succeeds.\<close>

fun try_connect :: "nat \<Rightarrow> (nat \<Rightarrow> bool) \<Rightarrow> control_error + unit" where
  "try_connect 0 attempt = Inl Unreachable"
| "try_connect (Suc n) attempt = (if attempt 0 then Inr () else try_connect n (\<lambda>i. attempt (Suc i)))"

definition ctl_connect :: "(nat \<Rightarrow> bool) \<Rightarrow> control_error + unit" where
  "ctl_connect attempt = try_connect 30 attempt"

definition ctl_register ::
    "'s control_client \<Rightarrow> string \<Rightarrow> string \<Rightarrow> addr_record list \<Rightarrow> 's \<Rightarrow> (control_error + register_reply) \<times> 's" where
  "ctl_register cl node_type endpoint_id addrs s =
     (case cc_register cl \<lparr>rq_node_type = node_type, rq_endpoint_id = endpoint_id, rq_addrs = addrs\<rparr> s of
        (Inl _, s1) \<Rightarrow> (Inl RegisterError, s1)
      | (Inr reply, s1) \<Rightarrow> (Inr reply, s1))"

text \<open>The events of the stream: a task, a cancellation, or an event without content.\<close>

datatype stream_event = EvTask proto_task | EvCancel u64

definition task_from_event :: "stream_event option \<Rightarrow> proto_task option" where
  "task_from_event ev = (case ev of Some (EvTask t) \<Rightarrow> Some t | Some (EvCancel _) \<Rightarrow> None | None \<Rightarrow> None)"

definition ctl_report_task ::
    "'s control_client \<Rightarrow> u64 \<Rightarrow> u64 \<Rightarrow> string \<Rightarrow> string \<Rightarrow> 's \<Rightarrow> (control_error + unit) \<times> 's" where
  "ctl_report_task cl node_id task_id stat err s =
     (case cc_report_task cl node_id task_id stat err s of
        (Inl _, s1) \<Rightarrow> (Inl ReportTaskError, s1)
      | (Inr _, s1) \<Rightarrow> (Inr (), s1))"

definition ctl_get_version :: "'s control_client \<Rightarrow> u64 \<Rightarrow> u64 \<Rightarrow> 's \<Rightarrow> (control_error + bytes option) \<times> 's" where
  "ctl_get_version cl game_id version s =
     (case cc_get_version cl game_id version s of
        (Inl _, s1) \<Rightarrow> (Inl VersionQueryError, s1)
      | (Inr reply, s1) \<Rightarrow> (Inr (if vi_found reply then Some (vi_manifest reply) else None), s1))"

text \<open>Heartbeats until the shutdown signal: one call per elapsed interval, its result ignored.\<close>

primrec heartbeat_loop :: "'s control_client \<Rightarrow> u64 \<Rightarrow> nat \<Rightarrow> 's \<Rightarrow> 's" where
  "heartbeat_loop cl node_id 0 s = s"
| "heartbeat_loop cl node_id (Suc n) s = heartbeat_loop cl node_id n (snd (cc_heartbeat cl node_id s))"

text \<open>
  The task stream. Each subscription fails, or yields items until the stream ends (the end of
  the list) or an item is an error, and is then repeated; the list of subscriptions ends with
  the shutdown signal. The result is the sequence of tasks handed to \<open>on_task\<close>.
\<close>

fun stream_tasks :: "(unit + stream_event option) list \<Rightarrow> proto_task list" where
  "stream_tasks [] = []"
| "stream_tasks (Inl _ # items) = []"
| "stream_tasks (Inr ev # items) =
     (case task_from_event ev of None \<Rightarrow> stream_tasks items | Some t \<Rightarrow> t # stream_tasks items)"

fun agent_watch_loop :: "(unit + (unit + stream_event option) list) list \<Rightarrow> proto_task list" where
  "agent_watch_loop [] = []"
| "agent_watch_loop (Inl _ # subs) = agent_watch_loop subs"
| "agent_watch_loop (Inr items # subs) = stream_tasks items @ agent_watch_loop subs"

section \<open>Registration\<close>

text \<open>
  The addresses a node announces: its external address, configured or discovered by STUN, and
  the keepalive address where a port and a configured external address are there. \<open>ip\<close> is
  the host part of a socket address, \<open>None\<close> where the text is none.
\<close>

definition node_addrs :: "(string \<Rightarrow> string option) \<Rightarrow> agent_config \<Rightarrow> string option \<Rightarrow> addr_record list" where
  "node_addrs ip config external_addr =
     (case external_addr of
        None \<Rightarrow> []
      | Some addr \<Rightarrow>
          [\<lparr>ad_addr = addr, ad_kind = (if ag_external_addr config \<noteq> None then ''config'' else ''stun''), ad_link = ''''\<rparr>]) @
     (case (ag_external_addr config, ag_keepalive_port config) of
        (Some addr, Some port) \<Rightarrow>
          (case ip addr of
             None \<Rightarrow> []
           | Some host \<Rightarrow> [\<lparr>ad_addr = host @ '':'' @ show_nat (unat port), ad_kind = ''keepalive'', ad_link = ''''\<rparr>])
      | _ \<Rightarrow> [])"

definition register_node ::
    "'s control_client \<Rightarrow> (nat \<Rightarrow> bool) \<Rightarrow> (string \<Rightarrow> string option) \<Rightarrow> agent_config \<Rightarrow> string option \<Rightarrow> string \<Rightarrow> 's \<Rightarrow>
     (control_error + register_reply) \<times> 's" where
  "register_node cl attempt ip config external_addr endpoint_id s =
     (case ctl_connect attempt of
        Inl e \<Rightarrow> (Inl e, s)
      | Inr _ \<Rightarrow> ctl_register cl (show_node_type (ag_node_type config)) endpoint_id (node_addrs ip config external_addr) s)"

section \<open>What the agent relies on\<close>

text \<open>
  \<open>valid\<close> is the invariant of the other side; \<open>holds s g h\<close> the nodes recorded for a chunk,
  \<open>stat s t\<close> the status and error of a task, \<open>ver s g v\<close> the manifest of a version.
\<close>

locale control_link =
  fixes cl :: "'s control_client"
    and valid :: "'s \<Rightarrow> bool"
    and holds :: "'s \<Rightarrow> u64 \<Rightarrow> bytes \<Rightarrow> u64 set"
    and stat :: "'s \<Rightarrow> u64 \<Rightarrow> (string \<times> string) option"
    and ver :: "'s \<Rightarrow> u64 \<Rightarrow> u64 \<Rightarrow> bytes option"
  assumes report_chunk_valid: "valid s \<Longrightarrow> cc_report_chunk cl n g h s = (r, s') \<Longrightarrow> valid s'"
    and report_chunk_holds: "valid s \<Longrightarrow> cc_report_chunk cl n g h s = (Inr u, s') \<Longrightarrow>
      holds s' = (holds s)(g := (holds s g)(h := insert n (holds s g h)))"
    and report_chunk_mono: "valid s \<Longrightarrow> cc_report_chunk cl n g h s = (r, s') \<Longrightarrow> holds s g' h' \<subseteq> holds s' g' h'"
    and report_chunk_frame: "valid s \<Longrightarrow> cc_report_chunk cl n g h s = (r, s') \<Longrightarrow> stat s' = stat s \<and> ver s' = ver s"
    and report_task_valid: "valid s \<Longrightarrow> cc_report_task cl n t x e s = (r, s') \<Longrightarrow> valid s'"
    and report_task_stat: "valid s \<Longrightarrow> cc_report_task cl n t x e s = (Inr u, s') \<Longrightarrow> stat s t \<noteq> None \<Longrightarrow>
      stat s' = (stat s)(t \<mapsto> (x, e))"
    and report_task_frame: "valid s \<Longrightarrow> cc_report_task cl n t x e s = (r, s') \<Longrightarrow> holds s' = holds s \<and> ver s' = ver s \<and>
      (\<forall>t'. t' \<noteq> t \<longrightarrow> stat s' t' = stat s t') \<and> (stat s' t = None \<longleftrightarrow> stat s t = None) \<and>
      (stat s' t = stat s t \<or> stat s' t = Some (x, e))"
    and query_peers_frame: "valid s \<Longrightarrow> cc_query_peers cl g h l s = (p, s') \<Longrightarrow>
      valid s' \<and> holds s' = holds s \<and> stat s' = stat s \<and> ver s' = ver s"
    and get_version_frame: "valid s \<Longrightarrow> cc_get_version cl g v s = (vr, s') \<Longrightarrow>
      valid s' \<and> holds s' = holds s \<and> stat s' = stat s \<and> ver s' = ver s"
    and get_version_ver: "valid s \<Longrightarrow> cc_get_version cl g v s = (Inr i, s') \<Longrightarrow>
      ver s g v = (if vi_found i then Some (vi_manifest i) else None)"

section \<open>The scheduler as the other side\<close>

text \<open>
  The \<open>n\<close>-th call of a session may lose its request, or its reply after the handler has run;
  \<open>ca_flt n\<close> are the store faults of its handler and \<open>ca_now n\<close> its clock.
\<close>

record call_env =
  ca_lost :: "nat \<Rightarrow> bool"
  ca_reply_lost :: "nat \<Rightarrow> bool"
  ca_flt :: "nat \<Rightarrow> nat \<Rightarrow> bool"
  ca_now :: "nat \<Rightarrow> nat \<Rightarrow> u64"

type_synonym 'j session = "'j control_service \<times> nat"

definition rpc :: "call_env \<Rightarrow> (nat \<Rightarrow> ('j, 'a) handler) \<Rightarrow> 'j session \<Rightarrow> (unit + 'a) \<times> 'j session" where
  "rpc ca h s =
     (case s of (sv, n) \<Rightarrow>
        if ca_lost ca n then (Inl (), (sv, Suc n))
        else (case h n sv of
                (Inl _, sv1) \<Rightarrow> (Inl (), (sv1, Suc n))
              | (Inr a, sv1) \<Rightarrow> (if ca_reply_lost ca n then Inl () else Inr a, (sv1, Suc n))))"

definition sched_client :: "'j serde \<Rightarrow> call_env \<Rightarrow> 'j session control_client" where
  "sched_client cd ca = \<lparr>
     cc_register = (\<lambda>req. rpc ca (\<lambda>n. register cd (ca_flt ca n) (ca_now ca n) req)),
     cc_heartbeat = (\<lambda>node. rpc ca (\<lambda>n. heartbeat cd (ca_flt ca n) (ca_now ca n) node)),
     cc_report_task = (\<lambda>node t x e. rpc ca (\<lambda>n. report_task cd (ca_flt ca n 0) t x e)),
     cc_report_chunk = (\<lambda>node g h. rpc ca (\<lambda>n. report_chunk cd (ca_flt ca n 0) node g h)),
     cc_query_peers = (\<lambda>g h l. rpc ca (\<lambda>n sv. (query_peers cd (ca_flt ca n) g h l sv, sv))),
     cc_get_version = (\<lambda>g v. rpc ca (\<lambda>n sv. (get_version_info cd (ca_flt ca n 0) g v sv, sv)))\<rparr>"

definition sess_ok :: "'j serde \<Rightarrow> 'j session \<Rightarrow> bool" where
  "sess_ok cd s \<longleftrightarrow> db_ok cd (cv_store (fst s))"

definition sess_holds :: "'j serde \<Rightarrow> 'j session \<Rightarrow> u64 \<Rightarrow> bytes \<Rightarrow> u64 set" where
  "sess_holds cd s g h = set (holders cd (cv_store (fst s)) g h)"

definition sess_stat :: "'j serde \<Rightarrow> 'j session \<Rightarrow> u64 \<Rightarrow> (string \<times> string) option" where
  "sess_stat cd s t = map_option (\<lambda>k. (tk_status k, tk_error k)) (task_of cd (cv_store (fst s)) t)"

definition sess_ver :: "'j serde \<Rightarrow> 'j session \<Rightarrow> u64 \<Rightarrow> u64 \<Rightarrow> bytes option" where
  "sess_ver cd s g v = (case get_version cd False (cv_store (fst s)) g v of Inl _ \<Rightarrow> None | Inr m \<Rightarrow> m)"

lemma rpc_cases:
  assumes "rpc ca h (sv, n) = (r, s')"
  obtains "r = Inl ()" "s' = (sv, Suc n)"
    | e sv1 where "h n sv = (Inl e, sv1)" "s' = (sv1, Suc n)" "r = Inl ()"
    | x sv1 where "h n sv = (Inr x, sv1)" "s' = (sv1, Suc n)" "r = Inl () \<or> r = Inr x"
proof (cases "ca_lost ca n")
  case False
  obtain a sv1 where "h n sv = (a, sv1)" by fastforce
  with False assms that show ?thesis
    by (cases a) (auto simp: rpc_def split: if_splits)
qed (use assms that(1) in \<open>simp add: rpc_def\<close>)

text \<open>A call that only reads.\<close>

lemma rpc_read:
  assumes "rpc ca (\<lambda>n sv. (f n sv, sv)) s = (r, s')"
  shows "fst s' = fst s \<and> (\<forall>x. r = Inr x \<longrightarrow> f (snd s) (fst s) = Inr x)"
proof -
  obtain sv n where s: "s = (sv, n)" by (cases s)
  from assms show ?thesis unfolding s by (rule rpc_cases) auto
qed

lemma record_chunk_holder_any:
  assumes "serde_ok cd" "db_ok cd st" "record_chunk_holder cd flt n g h st = (r, st')"
  shows "db_ok cd st' \<and> set (holders cd st g' h') \<subseteq> set (holders cd st' g' h') \<and> task_of cd st' = task_of cd st \<and>
    get_version cd False st' = get_version cd False st \<and>
    (\<forall>u. r = Inr u \<longrightarrow> set (holders cd st' g' h') = (if g' = g \<and> h' = h then insert n (set (holders cd st g h)) else set (holders cd st g' h')))"
proof (cases flt)
  case True
  with assms show ?thesis by (auto simp: record_chunk_holder_def Let_def)
next
  case False
  then have run: "record_chunk_holder cd False n g h st = (r, st')" using assms(3) by simp
  have "task_of cd st' = task_of cd st" "get_version cd False st' = get_version cd False st"
    using run by (auto simp: record_chunk_holder_eq task_of_def get_version_def fun_eq_iff split: if_splits)
  with record_chunk_holder_spec [OF assms(1,2) run, of g' h'] show ?thesis by auto
qed

lemma update_task_status_any:
  assumes "serde_ok cd" "db_ok cd st" "update_task_status cd flt i x e st = (r, st')"
  shows "db_ok cd st' \<and> holders cd st' = holders cd st \<and> get_version cd False st' = get_version cd False st \<and>
    (if (\<exists>u. r = Inr u) \<and> task_of cd st i \<noteq> None
     then task_of cd st' = (task_of cd st)(i \<mapsto> (the (task_of cd st i))\<lparr>tk_status := x, tk_error := e\<rparr>) else st' = st)"
proof -
  have t: "tbl_ok (db_tasks st)" using assms(2) by (simp add: db_ok_defs)
  have ok: "db_ok cd st'" by (rule update_task_status_ok [OF assms])
  show ?thesis
  proof (cases "flt \<or> (\<exists>e'. r = Inl e') \<or> task_of cd st i = None")
    case True
    with assms(3) have "st' = st" and "task_of cd st i \<noteq> None \<Longrightarrow> \<exists>e'. r = Inl e'"
      by (auto simp: update_task_status_def task_of_def db_decode_def split: option.splits if_splits)
    with ok show ?thesis by (auto; fastforce)
  next
    case False
    then obtain js t where "tbl_get (db_tasks st) i = Some js" "dec_task cd js = Some t"
      by (auto simp: task_of_def split: option.splits)
    with False assms(1,3) t have "st' = st\<lparr>db_tasks := tbl_insert i (enc_task cd (t\<lparr>tk_status := x, tk_error := e\<rparr>)) (db_tasks st)\<rparr>"
      "task_of cd st i = Some t"
      by (auto simp: update_task_status_def db_decode_def task_of_def)
    moreover from this t assms(1) have "task_of cd st' = (task_of cd st)(i \<mapsto> t\<lparr>tk_status := x, tk_error := e\<rparr>)"
      by (auto simp: task_of_def tbl_simps serde_ok_def fun_eq_iff)
    moreover have "\<exists>u. r = Inr u" using False by (cases r) auto
    ultimately show ?thesis using ok by (auto simp: holders_def get_version_def fun_eq_iff)
  qed
qed

lemmas sess_defs = sess_ok_def sess_holds_def sess_stat_def sess_ver_def

lemma sched_report_chunk:
  assumes "serde_ok cd" "sess_ok cd s" "cc_report_chunk (sched_client cd ca) n g h s = (r, s')"
  shows "sess_ok cd s' \<and> sess_holds cd s g' h' \<subseteq> sess_holds cd s' g' h' \<and> sess_stat cd s' = sess_stat cd s \<and>
    sess_ver cd s' = sess_ver cd s \<and>
    (\<forall>u. r = Inr u \<longrightarrow> sess_holds cd s' = (sess_holds cd s)(g := (sess_holds cd s g)(h := insert n (sess_holds cd s g h))))"
proof -
  obtain sv k where s: "s = (sv, k)" by (cases s)
  have run: "rpc ca (\<lambda>k. report_chunk cd (ca_flt ca k 0) n g h) (sv, k) = (r, s')" using assms(3) by (simp add: s sched_client_def)
  consider "fst s' = sv" "r = Inl ()"
    | a st' where "record_chunk_holder cd (ca_flt ca k 0) n g h (cv_store sv) = (a, st')" "cv_store (fst s') = st'" "\<forall>u. r = Inr u \<longrightarrow> a = Inr ()"
    using run by (cases rule: rpc_cases) (auto simp: report_chunk_def split: prod.splits sum.splits)
  then show ?thesis
  proof cases
    case 1
    with assms(2) show ?thesis by (auto simp: s sess_defs fun_eq_iff)
  next
    case (2 a st')
    from record_chunk_holder_any [OF assms(1) _ 2(1)] assms(2) 2(2,3) show ?thesis
      by (auto simp: s sess_defs fun_eq_iff)
  qed
qed

lemma sched_report_task:
  assumes "serde_ok cd" "sess_ok cd s" "cc_report_task (sched_client cd ca) n t x e s = (r, s')"
  shows "sess_ok cd s' \<and> sess_holds cd s' = sess_holds cd s \<and> sess_ver cd s' = sess_ver cd s \<and>
    (\<forall>t'. t' \<noteq> t \<longrightarrow> sess_stat cd s' t' = sess_stat cd s t') \<and> (sess_stat cd s' t = None \<longleftrightarrow> sess_stat cd s t = None) \<and>
    (sess_stat cd s' t = sess_stat cd s t \<or> sess_stat cd s' t = Some (x, e)) \<and>
    (\<forall>u. r = Inr u \<and> sess_stat cd s t \<noteq> None \<longrightarrow> sess_stat cd s' = (sess_stat cd s)(t \<mapsto> (x, e)))"
proof -
  obtain sv k where s: "s = (sv, k)" by (cases s)
  have run: "rpc ca (\<lambda>k. report_task cd (ca_flt ca k 0) t x e) (sv, k) = (r, s')" using assms(3) by (simp add: s sched_client_def)
  consider "fst s' = sv" "r = Inl ()"
    | a st' where "update_task_status cd (ca_flt ca k 0) t x e (cv_store sv) = (a, st')" "cv_store (fst s') = st'" "\<forall>u. r = Inr u \<longrightarrow> (\<exists>b. a = Inr b)"
    using run by (cases rule: rpc_cases) (auto simp: report_task_def split: prod.splits sum.splits)
  then show ?thesis
  proof cases
    case 1
    with assms(2) show ?thesis by (auto simp: s sess_defs fun_eq_iff)
  next
    case (2 a st')
    from update_task_status_any [OF assms(1) _ 2(1)] assms(2) 2(2,3) show ?thesis
      by (auto simp: s sess_defs fun_eq_iff split: if_splits)
  qed
qed

lemma sched_reads:
  assumes "sess_ok cd s"
  shows "cc_query_peers (sched_client cd ca) g h l s = (p, s') \<Longrightarrow>
      sess_ok cd s' \<and> sess_holds cd s' = sess_holds cd s \<and> sess_stat cd s' = sess_stat cd s \<and> sess_ver cd s' = sess_ver cd s"
    and "cc_get_version (sched_client cd ca) g v s = (q, s') \<Longrightarrow>
      sess_ok cd s' \<and> sess_holds cd s' = sess_holds cd s \<and> sess_stat cd s' = sess_stat cd s \<and> sess_ver cd s' = sess_ver cd s"
  using assms by (auto simp: sched_client_def sess_defs fun_eq_iff dest!: rpc_read)

lemma sched_get_version:
  assumes "cc_get_version (sched_client cd ca) g v s = (Inr i, s')"
  shows "sess_ver cd s g v = (if vi_found i then Some (vi_manifest i) else None)"
proof -
  have "get_version_info cd (ca_flt ca (snd s) 0) g v (fst s) = Inr i"
    using assms by (auto simp: sched_client_def dest!: rpc_read)
  then have "\<not> ca_flt ca (snd s) 0" "get_version cd False (cv_store (fst s)) g v = Inr (if vi_found i then Some (vi_manifest i) else None)"
    by (auto simp: get_version_info_def get_version_def split: sum.splits option.splits if_splits)
  then show ?thesis by (simp add: sess_ver_def)
qed

lemma sched_control_link:
  assumes "serde_ok cd"
  shows "control_link (sched_client cd ca) (sess_ok cd) (sess_holds cd) (sess_stat cd) (sess_ver cd)"
  by unfold_locales
    (fact sched_report_chunk [OF assms, THEN conjunct1] | rule sched_get_version, assumption |
     use sched_report_chunk [OF assms] sched_report_task [OF assms] sched_reads in \<open>metis\<close>)+

interpretation json_link: control_link "sched_client json_serde ca" "sess_ok json_serde" "sess_holds json_serde"
    "sess_stat json_serde" "sess_ver json_serde" for ca
  by (rule sched_control_link [OF json_serde_ok])

end
