(* ===== verification/Executor.thy ===== *)
theory Executor
  imports Data_Path Agent_Control Update_Merge
begin

text \<open>
  The task executor of an agent (\<^verbatim>\<open>crates/agent/src/executor.rs\<close>): it fetches the manifest of a
  task's version, downloads the missing chunks from several peers at once, stores them (IDC
  nodes into the pack library, cafes as temporary blocks that are merged into the real files)
  and reports to the scheduler.

  The control client is the record of \<open>Agent_Control\<close>. Downloads from different peers run
  concurrently: each is the sequence of verified chunks it hands to the shared sink, and a
  schedule interleaves them; the order in which finished downloads are joined is a parameter
  too. A download that is cut off because the round fails leaves a prefix of its calls. The
  data rate limit only delays and is left out.
\<close>

section \<open>Data\<close>

datatype sink_error = FlushError store_error | TempWriteError

datatype exec_error =
    NoControlAddr | ControlFailed control_error | VersionMissing | BadVersionIndex manifest_error
  | OpenPack store_error | QueryPack store_error | FlushFailed store_error | ReportChunkFailed
  | BadOriginEndpoint | BadOriginAddr | BuildEndpointFailed | QueryPeersFailed | BadPeerEndpoint | NoDirectAddr
  | NoSource nat | WaitForOthers nat | OriginFetchFailed "sink_error fetch_error" | StillFailed nat
  | MkTempFailed | OpenCafe cafe_error | ReadCurrent cafe_error | BadCurrentIndex manifest_error | ListTempFailed update_error
  | MergeAborted merge_error | MergeIncomplete "(string \<times> merge_error) list" | SaveFailed cafe_error

type_synonym 'd sink = "bytes \<Rightarrow> bytes \<Rightarrow> 'd \<Rightarrow> (sink_error + unit) \<times> 'd"

record executor =
  ex_config :: agent_config
  ex_node_id :: u64
  ex_data_stores :: "u64 \<rightharpoonup> u64 node_store"
  ex_pack_stores :: "u64 \<rightharpoonup> game_store"
  ex_pack_disk :: "u64 \<Rightarrow> game_disk"
  ex_cafe_stores :: "u64 \<rightharpoonup> cafe_store"
  ex_cafe_disk :: "u64 \<Rightarrow> cafe_fs"

text \<open>
  The network during one round: whether connections succeed, whether a relay address is a URL,
  whether the stream opens, and what a peer answers.
\<close>

record net =
  nt_direct :: "peer_target \<Rightarrow> string \<Rightarrow> bool"
  nt_relay :: "peer_target \<Rightarrow> string \<Rightarrow> bool"
  nt_url :: "string \<Rightarrow> bool"
  nt_opened :: "peer_target \<Rightarrow> bool"
  nt_exchange :: "peer_target \<Rightarrow> bytes \<Rightarrow> bytes"

section \<open>Planning a round\<close>

text \<open>The parsers of endpoint identifiers and socket addresses yield the canonical text.\<close>

record dl_parsers =
  dp_parse_ep :: "string \<Rightarrow> string option"
  dp_parse_addr :: "string \<Rightarrow> string option"

type_synonym group = "peer_target \<times> bytes list"

record round_plan =
  rp_groups :: "group list"
  rp_index :: "string \<rightharpoonup> nat"
  rp_next :: "bytes list"

definition candidates :: "dl_parsers \<Rightarrow> string set \<Rightarrow> peer list \<Rightarrow> peer list" where
  "candidates ps exclude peers =
     filter (\<lambda>p. dp_parse_ep ps (pe_endpoint_id p) \<noteq> None)
       (filter (\<lambda>p. pe_addrs p \<noteq> [] \<and> pe_endpoint_id p \<notin> exclude) peers)"

definition show_bool :: "bool \<Rightarrow> string" where
  "show_bool b = (if b then ''true'' else ''false'')"

definition group_key :: "peer_target \<Rightarrow> string" where
  "group_key t = pt_endpoint_id t @ ''|'' @ (case pt_addr t of None \<Rightarrow> '''' | Some a \<Rightarrow> a) @ ''|'' @ show_bool (pt_direct_only t)"

definition add_to_group :: "peer_target \<Rightarrow> bytes \<Rightarrow> round_plan \<Rightarrow> round_plan" where
  "add_to_group target hash pl =
     (let key = group_key target in
      case rp_index pl key of
        Some idx \<Rightarrow> pl\<lparr>rp_groups := (rp_groups pl)[idx := (fst (rp_groups pl ! idx), snd (rp_groups pl ! idx) @ [hash])]\<rparr>
      | None \<Rightarrow> pl\<lparr>rp_groups := rp_groups pl @ [(target, [hash])],
                   rp_index := (rp_index pl)(key \<mapsto> length (rp_groups pl))\<rparr>)"

text \<open>The source of one chunk: a candidate and one of its addresses, both chosen by the first byte of the hash.\<close>

definition pick_source :: "dl_parsers \<Rightarrow> string option \<Rightarrow> bytes \<Rightarrow> peer list \<Rightarrow> exec_error + peer_target" where
  "pick_source ps relay_url hash cands =
     (let peer = cands ! (unat (hash ! 0) mod length cands);
          addr = dp_parse_addr ps (ad_addr (pe_addrs peer ! (unat (hash ! 0) mod length (pe_addrs peer))))
      in case dp_parse_ep ps (pe_endpoint_id peer) of
        None \<Rightarrow> Inl BadPeerEndpoint
      | Some ep \<Rightarrow> Inr \<lparr>pt_endpoint_id = ep, pt_addr = addr, pt_relay_url = relay_url, pt_direct_only = pe_direct_only peer\<rparr>)"

fun plan_round ::
    "'s control_client \<Rightarrow> dl_parsers \<Rightarrow> string option \<Rightarrow> u64 \<Rightarrow> string set \<Rightarrow> bytes list \<Rightarrow> round_plan \<Rightarrow> 's \<Rightarrow>
     (exec_error + round_plan) \<times> 's" where
  "plan_round cl ps relay_url game_id exclude [] pl s = (Inr pl, s)"
| "plan_round cl ps relay_url game_id exclude (hash # hashes) pl s =
     (case cc_query_peers cl game_id hash 5 s of
        (Inl _, s1) \<Rightarrow> (Inl QueryPeersFailed, s1)
      | (Inr peers, s1) \<Rightarrow>
          let cands = candidates ps exclude peers in
          if cands = [] then plan_round cl ps relay_url game_id exclude hashes (pl\<lparr>rp_next := rp_next pl @ [hash]\<rparr>) s1
          else (case pick_source ps relay_url hash cands of
                  Inl e \<Rightarrow> (Inl e, s1)
                | Inr target \<Rightarrow> plan_round cl ps relay_url game_id exclude hashes (add_to_group target hash pl) s1))"

section \<open>Concurrent downloads\<close>

text \<open>
  A spawned download: the chunks it still hands to the sink, how \<open>fetch_chunks\<close> ends when the
  sink accepts them all, and whether the sink has refused one, which ends it.
\<close>

record job =
  jb_key :: string
  jb_hashes :: "bytes list"
  jb_todo :: "(bytes \<times> bytes) list"
  jb_fin :: "unit fetch_error + fetch_stats"
  jb_sunk :: bool

definition fetch_from :: "(bytes \<Rightarrow> bytes) \<Rightarrow> net \<Rightarrow> u64 \<Rightarrow> peer_target \<Rightarrow> bytes list \<Rightarrow> 'd sink \<Rightarrow> 'd \<Rightarrow> (sink_error fetch_error + fetch_stats) \<times> 'd" where
  "fetch_from blake3 nt game_id target hashes sink d =
     fetch_chunks blake3 (connect_peer (nt_direct nt target) (nt_relay nt target) (nt_url nt) target)
       (nt_opened nt target) (nt_exchange nt target) sink game_id hashes d"

definition start_job :: "(bytes \<Rightarrow> bytes) \<Rightarrow> net \<Rightarrow> u64 \<Rightarrow> group \<Rightarrow> job" where
  "start_job blake3 nt game_id g =
     (case fetch_chunks blake3 (connect_peer (nt_direct nt (fst g)) (nt_relay nt (fst g)) (nt_url nt) (fst g))
             (nt_opened nt (fst g)) (nt_exchange nt (fst g)) (record_sink (\<lambda>h x. True)) game_id (snd g) [] of
        (fin, offers) \<Rightarrow>
          \<lparr>jb_key = pt_endpoint_id (fst g), jb_hashes = snd g, jb_todo = offers, jb_fin = fin, jb_sunk = False\<rparr>)"

definition choose_ep :: "peer_target \<Rightarrow> exec_error + unit" where
  "choose_ep target = (if pt_addr target \<noteq> None then Inr () else Inl NoDirectAddr)"

fun spawn_jobs :: "(bytes \<Rightarrow> bytes) \<Rightarrow> net \<Rightarrow> u64 \<Rightarrow> group list \<Rightarrow> (exec_error + unit) \<times> job list" where
  "spawn_jobs blake3 nt game_id [] = (Inr (), [])"
| "spawn_jobs blake3 nt game_id (g # gs) =
     (case choose_ep (fst g) of
        Inl e \<Rightarrow> (Inl e, [])
      | Inr _ \<Rightarrow> (case spawn_jobs blake3 nt game_id gs of (r, js) \<Rightarrow> (r, start_job blake3 nt game_id g # js)))"

text \<open>One call of the sink by the \<open>i\<close>-th download.\<close>

definition job_step :: "'d sink \<Rightarrow> nat \<Rightarrow> job list \<times> 'd \<Rightarrow> job list \<times> 'd" where
  "job_step sink i s =
     (case s of (js, d) \<Rightarrow>
        if i < length js
        then (case jb_todo (js ! i) of
                [] \<Rightarrow> (js, d)
              | (h, x) # todo \<Rightarrow>
                  (case sink h x d of
                     (Inl _, d1) \<Rightarrow> (js[i := (js ! i)\<lparr>jb_todo := [], jb_sunk := True\<rparr>], d1)
                   | (Inr _, d1) \<Rightarrow> (js[i := (js ! i)\<lparr>jb_todo := todo\<rparr>], d1)))
        else (js, d))"

definition run_jobs :: "'d sink \<Rightarrow> nat list \<Rightarrow> job list \<times> 'd \<Rightarrow> job list \<times> 'd" where
  "run_jobs sink sched s = fold (job_step sink) sched s"

text \<open>What remains of every download after the schedule, one download after the other.\<close>

definition all_turns :: "job list \<Rightarrow> nat list" where
  "all_turns js = concat (map (\<lambda>i. replicate (length (jb_todo (js ! i))) i) [0 ..< length js])"

definition finish_jobs :: "'d sink \<Rightarrow> nat list \<Rightarrow> job list \<Rightarrow> 'd \<Rightarrow> job list \<times> 'd" where
  "finish_jobs sink sched js d = run_jobs sink (sched @ all_turns js) (js, d)"

definition job_result :: "job \<Rightarrow> fetch_stats option" where
  "job_result j = (if jb_sunk j then None else case jb_fin j of Inl _ \<Rightarrow> None | Inr stats \<Rightarrow> Some stats)"

fun join_jobs :: "job list \<Rightarrow> string set \<times> bytes list \<Rightarrow> string set \<times> bytes list" where
  "join_jobs [] (exclude, next) = (exclude, next)"
| "join_jobs (j # js) (exclude, next) =
     (case job_result j of
        Some stats \<Rightarrow> join_jobs js (exclude, next @ fs_failed stats)
      | None \<Rightarrow> join_jobs js (insert (jb_key j) exclude, next @ jb_hashes j))"

record turn =
  tn_net :: net
  tn_sched :: "nat list"
  tn_join :: "job list \<Rightarrow> job list"

fun rounds ::
    "(bytes \<Rightarrow> bytes) \<Rightarrow> 's control_client \<Rightarrow> dl_parsers \<Rightarrow> string option \<Rightarrow> u64 \<Rightarrow> 'd sink \<Rightarrow> turn list \<Rightarrow>
     string set \<Rightarrow> bytes list \<Rightarrow> 'd \<Rightarrow> 's \<Rightarrow> (exec_error + bytes list) \<times> 'd \<times> 's" where
  "rounds blake3 cl ps relay_url game_id sink [] exclude unresolved d s = (Inr unresolved, d, s)"
| "rounds blake3 cl ps relay_url game_id sink (t # ts) exclude unresolved d s =
     (if unresolved = [] then (Inr [], d, s)
      else case plan_round cl ps relay_url game_id exclude unresolved \<lparr>rp_groups = [], rp_index = Map.empty, rp_next = []\<rparr> s of
        (Inl e, s1) \<Rightarrow> (Inl e, d, s1)
      | (Inr pl, s1) \<Rightarrow>
          if rp_groups pl = [] then (Inr (rp_next pl), d, s1)
          else (case spawn_jobs blake3 (tn_net t) game_id (rp_groups pl) of
                  (Inl e, js) \<Rightarrow> (Inl e, snd (run_jobs sink (tn_sched t) (js, d)), s1)
                | (Inr _, js) \<Rightarrow>
                    (case finish_jobs sink (tn_sched t) js d of
                       (js1, d1) \<Rightarrow>
                         (case join_jobs (tn_join t js1) (exclude, rp_next pl) of
                            (exclude1, next1) \<Rightarrow> rounds blake3 cl ps relay_url game_id sink ts exclude1 next1 d1 s1))))"

section \<open>Downloading what is missing\<close>

record dl_env =
  de_parsers :: dl_parsers
  de_endpoint :: bool
  de_turn :: "nat \<Rightarrow> turn"
  de_origin :: net

definition origin_target :: "dl_parsers \<Rightarrow> agent_config \<Rightarrow> exec_error + peer_target option" where
  "origin_target ps config =
     (case (ag_origin_endpoint config, ag_origin_addr config) of
        (Some endpoint, Some addr) \<Rightarrow>
          (case dp_parse_ep ps endpoint of
             None \<Rightarrow> Inl BadOriginEndpoint
           | Some ep \<Rightarrow>
               (case dp_parse_addr ps addr of
                  None \<Rightarrow> Inl BadOriginAddr
                | Some a \<Rightarrow> Inr (Some \<lparr>pt_endpoint_id = ep, pt_addr = Some a, pt_relay_url = ag_relay_url config, pt_direct_only = False\<rparr>)))
      | _ \<Rightarrow> Inr None)"

text \<open>The sink, with the list of chunks downloaded so far.\<close>

definition logged :: "'d sink \<Rightarrow> ('d \<times> bytes list) sink" where
  "logged sink h x dl =
     (case sink h x (fst dl) of
        (Inl e, d1) \<Rightarrow> (Inl e, (d1, snd dl))
      | (Inr _, d1) \<Rightarrow> (Inr (), (d1, snd dl @ [h])))"

definition from_origin ::
    "(bytes \<Rightarrow> bytes) \<Rightarrow> net \<Rightarrow> u64 \<Rightarrow> 'd sink \<Rightarrow> peer_target option \<Rightarrow> bytes set \<Rightarrow> bytes list \<Rightarrow> 'd \<times> bytes list \<Rightarrow>
     (exec_error + bytes list) \<times> 'd" where
  "from_origin blake3 nt game_id sink origin assigned unresolved dl =
     (let retry = filter (\<lambda>h. h \<in> assigned) unresolved; blocked = filter (\<lambda>h. h \<notin> assigned) unresolved in
      if blocked \<noteq> []
      then (Inl (if origin = None then NoSource (length blocked) else WaitForOthers (length blocked)), fst dl)
      else if retry \<noteq> []
      then (case origin of
              None \<Rightarrow> (Inl (NoSource (length retry)), fst dl)
            | Some target \<Rightarrow>
                (case fetch_from blake3 nt game_id target (remdups_adj (sort retry)) (logged sink) dl of
                   (Inl e, dl1) \<Rightarrow> (Inl (OriginFetchFailed e), fst dl1)
                 | (Inr stats, dl1) \<Rightarrow>
                     if fs_failed stats \<noteq> [] then (Inl (StillFailed (length (fs_failed stats))), fst dl1)
                     else (Inr (snd dl1), fst dl1)))
      else (Inr (snd dl), fst dl))"

definition download_missing ::
    "(bytes \<Rightarrow> bytes) \<Rightarrow> 's control_client \<Rightarrow> dl_env \<Rightarrow> agent_config \<Rightarrow> u64 \<Rightarrow> bytes list \<Rightarrow> bytes set \<Rightarrow> 'd sink \<Rightarrow>
     'd \<Rightarrow> 's \<Rightarrow> (exec_error + bytes list) \<times> 'd \<times> 's" where
  "download_missing blake3 cl de config game_id missing assigned sink d s =
     (if missing = [] then (Inr [], d, s)
      else case origin_target (de_parsers de) config of
        Inl e \<Rightarrow> (Inl e, d, s)
      | Inr origin \<Rightarrow>
          if \<not> de_endpoint de then (Inl BuildEndpointFailed, d, s)
          else (case rounds blake3 cl (de_parsers de) (ag_relay_url config) game_id (logged sink)
                       [de_turn de 0, de_turn de 1] {} missing (d, []) s of
                  (Inl e, dl, s1) \<Rightarrow> (Inl e, fst dl, s1)
                | (Inr unresolved, dl, s1) \<Rightarrow>
                    (case from_origin blake3 (de_origin de) game_id sink origin assigned unresolved dl of
                       (r, d1) \<Rightarrow> (r, d1, s1))))"

fun report_chunks :: "'s control_client \<Rightarrow> u64 \<Rightarrow> u64 \<Rightarrow> bytes list \<Rightarrow> 's \<Rightarrow> (exec_error + unit) \<times> 's" where
  "report_chunks cl node_id game_id [] s = (Inr (), s)"
| "report_chunks cl node_id game_id (h # hs) s =
     (case cc_report_chunk cl node_id game_id h s of
        (Inl _, s1) \<Rightarrow> (Inl ReportChunkFailed, s1)
      | (Inr _, s1) \<Rightarrow> report_chunks cl node_id game_id hs s1)"

section \<open>IDC nodes\<close>

definition IDC_BATCH_SIZE :: nat where "IDC_BATCH_SIZE = 64"

record idc_buffer =
  ib_pending :: "(bytes \<times> bytes) list"
  ib_store :: game_store
  ib_flushes :: nat

text \<open>The buffer is emptied before the batch is written; \<open>envs n\<close> is the environment of the \<open>n\<close>-th flush.\<close>

definition flush_pending :: "(nat \<Rightarrow> pack_env) \<Rightarrow> idc_buffer \<Rightarrow> (store_error + unit) \<times> idc_buffer" where
  "flush_pending envs b =
     (let batch = ib_pending b; b1 = b\<lparr>ib_pending := []\<rparr> in
      if batch = [] then (Inr (), b1)
      else case append_chunks_batch (envs (ib_flushes b)) batch (ib_store b) of
        (Inl e, st) \<Rightarrow> (Inl e, b1\<lparr>ib_store := st, ib_flushes := Suc (ib_flushes b)\<rparr>)
      | (Inr _, st) \<Rightarrow> (Inr (), b1\<lparr>ib_store := st, ib_flushes := Suc (ib_flushes b)\<rparr>))"

definition idc_sink :: "(nat \<Rightarrow> pack_env) \<Rightarrow> idc_buffer sink" where
  "idc_sink envs h x b =
     (let b1 = b\<lparr>ib_pending := ib_pending b @ [(h, x)]\<rparr> in
      if IDC_BATCH_SIZE \<le> length (ib_pending b1)
      then (case flush_pending envs b1 of (Inl e, b2) \<Rightarrow> (Inl (FlushError e), b2) | (Inr _, b2) \<Rightarrow> (Inr (), b2))
      else (Inr (), b1))"

fun not_contained :: "(nat \<Rightarrow> pack_env) \<Rightarrow> game_store \<Rightarrow> bytes list \<Rightarrow> store_error + bytes list" where
  "not_contained envs st [] = Inr []"
| "not_contained envs st (h # hs) =
     (case store_contains (envs 0) st h of
        Inl e \<Rightarrow> Inl e
      | Inr found \<Rightarrow> res_bind (not_contained (\<lambda>i. envs (Suc i)) st hs) (\<lambda>out. Inr (if found then out else h # out)))"

record idc_env =
  ie_open :: pack_env
  ie_contains :: "nat \<Rightarrow> pack_env"
  ie_flush :: "nat \<Rightarrow> pack_env"
  ie_order :: "bytes list \<Rightarrow> bytes list"

definition pack_entry :: "pack_env \<Rightarrow> u64 \<Rightarrow> executor \<Rightarrow> store_error + game_store" where
  "pack_entry env game_id x =
     (case ex_pack_stores x game_id of
        Some st \<Rightarrow> Inr st
      | None \<Rightarrow> store_open env game_id (ex_pack_disk x game_id))"

definition put_pack :: "u64 \<Rightarrow> game_store \<Rightarrow> executor \<Rightarrow> executor" where
  "put_pack game_id st x = x\<lparr>ex_pack_stores := (ex_pack_stores x)(game_id \<mapsto> st)\<rparr>"

definition held_chunks :: "game_index \<Rightarrow> bytes list" where
  "held_chunks index = sort (remdups (chunk_hashes index))"

definition run_idc ::
    "(bytes \<Rightarrow> bytes) \<Rightarrow> 's control_client \<Rightarrow> dl_env \<Rightarrow> idc_env \<Rightarrow> proto_task \<Rightarrow> game_index \<Rightarrow> executor \<Rightarrow> 's \<Rightarrow>
     (exec_error + unit) \<times> executor \<times> 's" where
  "run_idc blake3 cl de ie task index x s =
     (let game_id = pt_game_id task in
      case pack_entry (ie_open ie) game_id x of
        Inl e \<Rightarrow> (Inl (OpenPack e), x, s)
      | Inr st \<Rightarrow>
          let x1 = put_pack game_id st x in
          (case not_contained (ie_contains ie) st (ie_order ie (remdups (chunk_hashes index))) of
             Inl e \<Rightarrow> (Inl (QueryPack e), x1, s)
           | Inr missing \<Rightarrow>
               let assigned = set (filter (\<lambda>v. length v = 32) (pt_assigned_chunks task)) in
               (case download_missing blake3 cl de (ex_config x) game_id (sort missing) assigned (idc_sink (ie_flush ie))
                       \<lparr>ib_pending = [], ib_store = st, ib_flushes = 0\<rparr> s of
                  (Inl e, b, s1) \<Rightarrow> (Inl e, put_pack game_id (ib_store b) x1, s1)
                | (Inr _, b, s1) \<Rightarrow>
                    (case flush_pending (ie_flush ie) b of
                       (Inl e, b1) \<Rightarrow> (Inl (FlushFailed e), put_pack game_id (ib_store b1) x1, s1)
                     | (Inr _, b1) \<Rightarrow>
                         (case report_chunks cl (ex_node_id x) game_id (held_chunks index) s1 of
                            (r, s2) \<Rightarrow> (r, put_pack game_id (ib_store b1) x1, s2))))))"

section \<open>Cafes\<close>

text \<open>
  \<open>fe_write n\<close> says whether the \<open>n\<close>-th write of a temporary block succeeds (\<open>None\<close>) or fails,
  then what it leaves; \<open>fe_ls\<close> lists the directory of temporary blocks.
\<close>

record cafe_run =
  fe_mkdir :: bool
  fe_open :: "nat \<Rightarrow> bool"
  fe_read :: "nat \<Rightarrow> bool"
  fe_ls :: "dir \<Rightarrow> string option list option"
  fe_write :: "nat \<Rightarrow> bytes option option"
  fe_ios :: "nat \<Rightarrow> merge_io"
  fe_fails :: "string \<Rightarrow> bool"
  fe_order :: "string list \<Rightarrow> string list"
  fe_save :: "nat \<Rightarrow> bool"
  fe_left :: "nat \<Rightarrow> bytes option"

definition temp_sink :: "cafe_run \<Rightarrow> (dir \<times> nat) sink" where
  "temp_sink ce h x s =
     (case s of (temp, n) \<Rightarrow>
        (case fe_write ce n of
           None \<Rightarrow> (Inr (), (temp(blk_name h \<mapsto> x), Suc n))
         | Some left \<Rightarrow> (Inl TempWriteError, (temp(blk_name h := left), Suc n))))"

definition cafe_entry :: "(bytes \<Rightarrow> bytes) \<Rightarrow> (nat \<Rightarrow> bool) \<Rightarrow> u64 \<Rightarrow> executor \<Rightarrow> cafe_error + cafe_store" where
  "cafe_entry blake3 flt game_id x =
     (case ex_cafe_stores x game_id of
        Some c \<Rightarrow> Inr c
      | None \<Rightarrow> cafe_open blake3 flt (ex_cafe_disk x game_id))"

definition put_cafe :: "u64 \<Rightarrow> cafe_store \<Rightarrow> executor \<Rightarrow> executor" where
  "put_cafe game_id c x = x\<lparr>ex_cafe_stores := (ex_cafe_stores x)(game_id \<mapsto> c)\<rparr>"

definition decode_old :: "(bytes \<Rightarrow> bytes) \<Rightarrow> bytes option \<Rightarrow> manifest_error + game_index option" where
  "decode_old blake3 old_bytes =
     (case old_bytes of None \<Rightarrow> Inr None | Some bs \<Rightarrow> (case decode blake3 bs of Inl e \<Rightarrow> Inl e | Inr old \<Rightarrow> Inr (Some old)))"

text \<open>The chunks of the files that are not there; the set is sorted together with the plan's chunks.\<close>

definition repair_chunks :: "game_index \<Rightarrow> dir \<Rightarrow> bytes list" where
  "repair_chunks index game =
     remdups (concat (map (\<lambda>f. if game (fe_name f) = None then map cm_hash (fe_chunks f) else []) (gi_files index)))"

definition wanted_chunks :: "game_index \<Rightarrow> game_index option \<Rightarrow> bytes set \<Rightarrow> dir \<Rightarrow> bytes list" where
  "wanted_chunks index old temp_set game =
     remdups_adj (sort (chunks_to_download (compute index old temp_set) @ repair_chunks index game))"

text \<open>From the merge on.\<close>

definition install ::
    "(bytes \<Rightarrow> bytes) \<Rightarrow> 's control_client \<Rightarrow> cafe_run \<Rightarrow> proto_task \<Rightarrow> game_index \<Rightarrow> game_index option \<Rightarrow> bytes \<Rightarrow>
     cafe_store \<Rightarrow> executor \<Rightarrow> 's \<Rightarrow> (exec_error + unit) \<times> executor \<times> 's" where
  "install blake3 cl ce task index old manifest c x s =
     (case merge_files blake3 (fe_ios ce) (fe_fails ce) (fe_order ce) index old (cf_temp (cs_fs c)) (cf_game (cs_fs c)) of
        (r, game1) \<Rightarrow>
          let c1 = c\<lparr>cs_fs := (cs_fs c)\<lparr>cf_game := game1\<rparr>\<rparr> in
          (case r of
             Inl e \<Rightarrow> (Inl (MergeAborted e), put_cafe (pt_game_id task) c1 x, s)
           | Inr sm \<Rightarrow>
               if ms_failed sm \<noteq> [] then (Inl (MergeIncomplete (ms_failed sm)), put_cafe (pt_game_id task) c1 x, s)
               else (case save_manifest blake3 (fe_save ce) (fe_left ce) (pt_version task) manifest c1 of
                       (Inl e, c2) \<Rightarrow> (Inl (SaveFailed e), put_cafe (pt_game_id task) c2 x, s)
                     | (Inr _, c2) \<Rightarrow>
                         (case report_chunks cl (ex_node_id x) (pt_game_id task) (held_chunks index) s of
                            (q, s1) \<Rightarrow> (q, put_cafe (pt_game_id task) c2 x, s1)))))"

definition run_cafe ::
    "(bytes \<Rightarrow> bytes) \<Rightarrow> 's control_client \<Rightarrow> dl_env \<Rightarrow> cafe_run \<Rightarrow> proto_task \<Rightarrow> game_index \<Rightarrow> bytes \<Rightarrow> executor \<Rightarrow> 's \<Rightarrow>
     (exec_error + unit) \<times> executor \<times> 's" where
  "run_cafe blake3 cl de ce task index manifest x s =
     (let game_id = pt_game_id task in
      if \<not> fe_mkdir ce then (Inl MkTempFailed, x, s)
      else case cafe_entry blake3 (fe_open ce) game_id x of
        Inl e \<Rightarrow> (Inl (OpenCafe e), x, s)
      | Inr c \<Rightarrow>
          let x1 = put_cafe game_id c x;
              x2 = x1\<lparr>ex_data_stores := or_insert game_id (CafeSource game_id) (ex_data_stores x1)\<rparr>
          in (case current_manifest_bytes (fe_read ce) (cs_fs c) of
                Inl e \<Rightarrow> (Inl (ReadCurrent e), x2, s)
              | Inr old_bytes \<Rightarrow>
                  (case decode_old blake3 old_bytes of
                     Inl e \<Rightarrow> (Inl (BadCurrentIndex e), x2, s)
                   | Inr old \<Rightarrow>
                       (case collect_temp_hashes (fe_ls ce (cf_temp (cs_fs c))) of
                          Inl e \<Rightarrow> (Inl (ListTempFailed e), x2, s)
                        | Inr temp_set \<Rightarrow>
                            (case download_missing blake3 cl de (ex_config x) game_id
                                    (wanted_chunks index old temp_set (cf_game (cs_fs c))) {} (temp_sink ce) (cf_temp (cs_fs c), 0) s of
                               (r, (temp1, _), s1) \<Rightarrow>
                                 let c1 = c\<lparr>cs_fs := (cs_fs c)\<lparr>cf_temp := temp1\<rparr>\<rparr> in
                                 (case r of
                                    Inl e \<Rightarrow> (Inl e, put_cafe game_id c1 x2, s1)
                                  | Inr _ \<Rightarrow> install blake3 cl ce task index old manifest c1 x2 s1))))))"

section \<open>One task\<close>

text \<open>\<open>show_err\<close> prints an error for the report.\<close>

definition run_task ::
    "(bytes \<Rightarrow> bytes) \<Rightarrow> (exec_error \<Rightarrow> string) \<Rightarrow> 's control_client \<Rightarrow> (nat \<Rightarrow> bool) \<Rightarrow> dl_env \<Rightarrow> idc_env \<Rightarrow> cafe_run \<Rightarrow>
     proto_task \<Rightarrow> executor \<Rightarrow> 's \<Rightarrow> (exec_error + unit) \<times> executor \<times> 's" where
  "run_task blake3 show_err cl attempt de ie ce task x s =
     (case ag_control_addr (ex_config x) of
        None \<Rightarrow> (Inl NoControlAddr, x, s)
      | Some _ \<Rightarrow>
          (case ctl_connect attempt of
             Inl e \<Rightarrow> (Inl (ControlFailed e), x, s)
           | Inr _ \<Rightarrow>
               (case ctl_report_task cl (ex_node_id x) (pt_id task) ''running'' '''' s of
                  (Inl e, s1) \<Rightarrow> (Inl (ControlFailed e), x, s1)
                | (Inr _, s1) \<Rightarrow>
                    (case ctl_get_version cl (pt_game_id task) (pt_version task) s1 of
                       (Inl e, s2) \<Rightarrow> (Inl (ControlFailed e), x, s2)
                     | (Inr None, s2) \<Rightarrow> (Inl VersionMissing, x, s2)
                     | (Inr (Some manifest), s2) \<Rightarrow>
                         (case decode blake3 manifest of
                            Inl e \<Rightarrow> (Inl (BadVersionIndex e), x, s2)
                          | Inr index \<Rightarrow>
                              (case (case ag_node_type (ex_config x) of
                                       Idc \<Rightarrow> run_idc blake3 cl de ie task index x s2
                                     | Cafe \<Rightarrow> run_cafe blake3 cl de ce task index manifest x s2) of
                                 (Inr _, x1, s3) \<Rightarrow>
                                   (case ctl_report_task cl (ex_node_id x) (pt_id task) ''done'' '''' s3 of
                                      (Inl e, s4) \<Rightarrow> (Inl (ControlFailed e), x1, s4)
                                    | (Inr _, s4) \<Rightarrow> (Inr (), x1, s4))
                               | (Inl err, x1, s3) \<Rightarrow>
                                   (case ctl_report_task cl (ex_node_id x) (pt_id task) ''failed'' (show_err err) s3 of
                                      (_, s4) \<Rightarrow> (Inl err, x1, s4))))))))"

end
