(* ===== verification/Executor_Runs.thy ===== *)
theory Executor_Runs
  imports Executor
begin

text \<open>
  What the executor guarantees: a download is a sequence of verified deliveries into the sink,
  whatever peers, network and schedule do; a successful IDC task leaves every chunk of the
  version in the pack library, a successful cafe task every file with its digest; and what the
  scheduler learns of it.
\<close>

section \<open>Deliveries\<close>

text \<open>A run of sink calls: the chunks handed over, and whether the sink took each of them.\<close>

inductive delivers :: "(bytes \<Rightarrow> bytes \<Rightarrow> 'd \<Rightarrow> ('e + unit) \<times> 'd) \<Rightarrow> 'd \<Rightarrow> (bytes \<times> bytes \<times> bool) list \<Rightarrow> 'd \<Rightarrow> bool" for sink where
  none: "delivers sink d [] d"
| took: "sink h x d = (Inr u, d1) \<Longrightarrow> delivers sink d1 calls d2 \<Longrightarrow> delivers sink d ((h, x, True) # calls) d2"
| refused: "sink h x d = (Inl e, d1) \<Longrightarrow> delivers sink d1 calls d2 \<Longrightarrow> delivers sink d ((h, x, False) # calls) d2"

inductive_cases delivers_NilE [elim!]: "delivers sink d [] d'"
inductive_cases delivers_ConsE: "delivers sink d ((h, x, b) # calls) d'"

lemma delivers_append:
  "delivers sink d c1 d1 \<Longrightarrow> delivers sink d1 c2 d2 \<Longrightarrow> delivers sink d (c1 @ c2) d2"
  by (induction rule: delivers.induct) (auto intro: delivers.intros)

lemma delivers_one:
  "sink h x d = (Inr u, d1) \<Longrightarrow> delivers sink d [(h, x, True)] d1"
  "sink h x d = (Inl e, d1) \<Longrightarrow> delivers sink d [(h, x, False)] d1"
  by (auto intro: delivers.intros)

definition taken :: "(bytes \<times> bytes \<times> bool) list \<Rightarrow> bytes set" where
  "taken calls = {h. \<exists>x. (h, x, True) \<in> set calls}"

definition verified_calls :: "(bytes \<Rightarrow> bytes \<Rightarrow> bool) \<Rightarrow> bytes set \<Rightarrow> (bytes \<times> bytes \<times> bool) list \<Rightarrow> bool" where
  "verified_calls P hs calls \<longleftrightarrow> list_all (\<lambda>(h, x, b). P h x \<and> h \<in> hs) calls"

lemma taken_simps [simp]:
  "taken [] = {}" "taken ((h, x, b) # calls) = (if b then insert h (taken calls) else taken calls)"
  "taken (c1 @ c2) = taken c1 \<union> taken c2"
  by (auto simp: taken_def)

lemma verified_calls_simps [simp]:
  "verified_calls P hs []"
  "verified_calls P hs ((h, x, b) # calls) \<longleftrightarrow> P h x \<and> h \<in> hs \<and> verified_calls P hs calls"
  "verified_calls P hs (c1 @ c2) \<longleftrightarrow> verified_calls P hs c1 \<and> verified_calls P hs c2"
  by (auto simp: verified_calls_def)

lemma verified_calls_mono: "verified_calls P A calls \<Longrightarrow> A \<subseteq> B \<Longrightarrow> verified_calls P B calls"
  by (fastforce simp: verified_calls_def list_all_iff)

lemma verified_calls_weaken: "verified_calls P hs calls \<Longrightarrow> verified_calls P (insert h hs) calls"
  by (erule verified_calls_mono) auto

text \<open>
  Any fetch, with any sink. \<open>P\<close> is what is known of a chunk that arrives in a reply: its
  digest, and that it is not longer than the reply.
\<close>

definition gives :: "(bytes \<Rightarrow> bytes) \<Rightarrow> (bytes \<Rightarrow> bytes \<Rightarrow> bool) \<Rightarrow> bytes \<Rightarrow> bool" where
  "gives blake3 P recv \<longleftrightarrow> (\<forall>h x. blake3 x = h \<and> length x \<le> length recv \<longrightarrow> P h x)"

lemma gives_shorter: "gives blake3 P recv \<Longrightarrow> length recv' \<le> length recv \<Longrightarrow> gives blake3 P recv'"
  by (auto simp: gives_def)

lemma gives_digest [simp]: "gives blake3 (\<lambda>h x. blake3 x = h) recv"
  by (simp add: gives_def)

definition fetched :: "(bytes \<Rightarrow> bytes \<Rightarrow> bool) \<Rightarrow> bytes list \<Rightarrow> (bytes \<times> bytes \<times> bool) list \<Rightarrow> bytes list \<Rightarrow> 'e fetch_error + fetch_stats \<Rightarrow> bool" where
  "fetched P hs calls failed r \<longleftrightarrow> length calls \<le> length hs \<and> verified_calls P (set hs) calls \<and>
     (\<forall>st. r = Inr st \<longrightarrow> (\<exists>new. fs_failed st = failed @ new \<and> set new \<subseteq> set hs \<and> length new \<le> length hs \<and> set hs \<subseteq> set new \<union> taken calls))"

lemma fetched_skip:
  "fetched P hs calls (failed @ [h]) r \<Longrightarrow> fetched P (h # hs) calls failed r"
  by (fastforce simp: fetched_def intro: verified_calls_weaken)

lemma fetched_take:
  "fetched P hs calls failed r \<Longrightarrow> P h x \<Longrightarrow> fetched P (h # hs) ((h, x, True) # calls) failed r"
  by (fastforce simp: fetched_def intro: verified_calls_weaken)

lemma fetch_loop_delivers:
  "fetch_loop blake3 sink hs recv stats d = (r, d') \<Longrightarrow> gives blake3 P recv \<Longrightarrow>
     \<exists>calls. delivers sink d calls d' \<and> fetched P hs calls (fs_failed stats) r"
proof (induction hs arbitrary: recv stats d)
  case Nil
  then show ?case by (auto simp: fetched_def intro: delivers.none)
next
  case (Cons h hs)
  have skip: ?case if "fetch_loop blake3 sink hs recv' (stats\<lparr>fs_failed := fs_failed stats @ [h]\<rparr>) d = (r, d')" "length recv' \<le> length recv" for recv'
    using Cons.IH [OF that(1) gives_shorter [OF Cons.prems(2) that(2)]] fetched_skip by fastforce
  have stop: ?case if "r = Inl e" "d' = d" for e
    using that by (intro exI [of _ "[]"]) (simp add: fetched_def delivers.none)
  show ?case
  proof (cases "read_exact 4 recv")
    case (Inl e)
    with Cons.prems show ?thesis by (intro skip [of "[]"]) simp_all
  next
    case (Inr p)
    obtain lb recv1 where p: "p = (lb, recv1)" by (cases p)
    show ?thesis
    proof (cases "read_exact (unat (u32_of_be lb)) recv1")
      case e: (Inl e)
      with Cons.prems Inr p show ?thesis by (intro stop [of ReadDataFailed]) (simp_all add: Let_def)
    next
      case q: (Inr q)
      obtain x recv2 where q': "q = (x, recv2)" by (cases q)
      note eqs = Inr p q q'
      have len: "length x \<le> length recv" "length recv2 \<le> length recv"
        using eqs by (auto simp: read_exact_def split: if_splits)
      show ?thesis
      proof (cases "blake3 x = h")
        case False
        with Cons.prems eqs len show ?thesis by (intro skip [of recv2]) (simp_all add: Let_def store_chunk_def)
      next
        case eq: True
        with Cons.prems(2) len have P: "P h x" by (auto simp: gives_def)
        obtain a d1 where a: "sink h x d = (a, d1)" by fastforce
        show ?thesis
        proof (cases a)
          case e: (Inl e)
          with Cons.prems eqs eq a have "r = Inl (SinkFailed e)" "d' = d1" by (simp_all add: Let_def store_chunk_def)
          with a e P show ?thesis
            by (intro exI [of _ "[(h, x, False)]"]) (simp add: fetched_def delivers_one)
        next
          case u: (Inr u)
          with Cons.prems eqs eq a
          have "fetch_loop blake3 sink hs recv2 (stats\<lparr>fs_downloaded := fs_downloaded stats + 1, fs_bytes := fs_bytes stats + ucast (u32_of_be lb)\<rparr>) d1 = (r, d')"
            by (simp add: Let_def store_chunk_def)
          from Cons.IH [OF this gives_shorter [OF Cons.prems(2) len(2)]] obtain calls where
            "delivers sink d1 calls d'" "fetched P hs calls (fs_failed stats) r" by auto
          with a u P show ?thesis
            by (intro exI [of _ "(h, x, True) # calls"]) (simp add: fetched_take delivers.took)
        qed
      qed
    qed
  qed
qed

lemma fetch_chunks_delivers:
  assumes "fetch_chunks blake3 conn opened exchange sink g hs d = (r, d')" "\<And>req. gives blake3 P (exchange req)"
  shows "\<exists>calls. delivers sink d calls d' \<and> fetched P hs calls [] r"
proof (cases "hs = [] \<or> (\<exists>e. conn = Inl e) \<or> \<not> opened")
  case True
  with assms(1) have "d' = d" "fetched P hs [] [] r"
    by (auto simp: fetch_chunks_def fetched_def stats_default_def split: if_splits sum.splits)
  then show ?thesis by (auto intro: delivers.none)
next
  case False
  then have "fetch_loop blake3 sink hs (exchange (fetch_request g hs)) stats_default d = (r, d')"
    using assms(1) by (auto simp: fetch_chunks_def split: sum.splits)
  from fetch_loop_delivers [OF this assms(2)] show ?thesis by (simp add: stats_default_def)
qed

section \<open>Interleaved downloads\<close>

text \<open>From a list of downloads to a later one, by the given calls.\<close>

definition job_after :: "job \<Rightarrow> (bytes \<times> bytes \<times> bool) list \<Rightarrow> job \<Rightarrow> bool" where
  "job_after j calls j' \<longleftrightarrow> jb_key j' = jb_key j \<and> jb_hashes j' = jb_hashes j \<and> jb_fin j' = jb_fin j \<and>
     set (jb_todo j') \<subseteq> set (jb_todo j) \<and>
     (\<not> jb_sunk j' \<longrightarrow> \<not> jb_sunk j \<and> fst ` set (jb_todo j) \<subseteq> fst ` set (jb_todo j') \<union> taken calls)"

definition offers_left :: "job list \<Rightarrow> nat" where
  "offers_left js = (\<Sum>j \<leftarrow> js. length (jb_todo j))"

definition jobs_go :: "'d sink \<Rightarrow> job list \<Rightarrow> 'd \<Rightarrow> (bytes \<times> bytes \<times> bool) list \<Rightarrow> job list \<Rightarrow> 'd \<Rightarrow> bool" where
  "jobs_go sink js d calls js' d' \<longleftrightarrow> delivers sink d calls d' \<and>
     list_all2 (\<lambda>j j'. job_after j calls j') js js' \<and> offers_left js' + length calls \<le> offers_left js \<and>
     list_all (\<lambda>(h, x, b). \<exists>j \<in> set js. (h, x) \<in> set (jb_todo j)) calls"

lemma job_after_refl [simp]: "job_after j [] j"
  by (simp add: job_after_def)

lemma job_after_more: "job_after j calls j' \<Longrightarrow> taken calls \<subseteq> taken calls' \<Longrightarrow> job_after j calls' j'"
  by (auto simp: job_after_def)

lemma job_after_trans: "job_after j c1 j1 \<Longrightarrow> job_after j1 c2 j2 \<Longrightarrow> job_after j (c1 @ c2) j2"
  unfolding job_after_def taken_simps by (elim conjE, intro conjI) (simp, simp, simp, blast, blast)

lemma jobs_go_refl: "jobs_go sink js d [] js d"
  by (simp add: jobs_go_def delivers.none list_all2_refl)

lemma jobs_go_trans:
  assumes "jobs_go sink js d c1 js1 d1" "jobs_go sink js1 d1 c2 js2 d2"
  shows "jobs_go sink js d (c1 @ c2) js2 d2"
proof -
  have "list_all2 (\<lambda>j j'. job_after j (c1 @ c2) j') js js2"
    by (rule list_all2_trans [OF _ assms(1) [unfolded jobs_go_def, THEN conjunct2, THEN conjunct1]
          assms(2) [unfolded jobs_go_def, THEN conjunct2, THEN conjunct1]]) (rule job_after_trans)
  moreover have "\<exists>j \<in> set js. (h, x) \<in> set (jb_todo j)" if "j1 \<in> set js1" "(h, x) \<in> set (jb_todo j1)" for h x j1
  proof -
    from that(1) obtain i where "i < length js1" "js1 ! i = j1" by (auto simp: in_set_conv_nth)
    with assms(1) have "job_after (js ! i) c1 j1" "js ! i \<in> set js" by (auto simp: jobs_go_def list_all2_conv_all_nth)
    with that(2) show ?thesis by (auto simp: job_after_def)
  qed
  ultimately show ?thesis
    using assms by (fastforce simp: jobs_go_def list_all_iff intro: delivers_append)
qed

lemma offers_left_update:
  assumes "i < length js" "length (jb_todo j) < length (jb_todo (js ! i))"
  shows "offers_left (js[i := j]) + 1 \<le> offers_left js"
proof -
  have "js = take i js @ js ! i # drop (Suc i) js" using assms(1) by (rule id_take_nth_drop)
  then have "offers_left js = offers_left (take i js) + length (jb_todo (js ! i)) + offers_left (drop (Suc i) js)"
    by (metis (no_types, lifting) add.assoc list.simps(9) map_append offers_left_def sum_list.Cons sum_list_append)
  moreover have "offers_left (js[i := j]) = offers_left (take i js) + length (jb_todo j) + offers_left (drop (Suc i) js)"
    using assms(1) by (simp add: upd_conv_take_nth_drop offers_left_def)
  ultimately show ?thesis using assms(2) by simp
qed

lemma jobs_go_update:
  assumes "i < length js" "jb_todo (js ! i) = (h, x) # todo" "delivers sink d [(h, x, b)] d'"
    and "jb_key j = jb_key (js ! i)" "jb_hashes j = jb_hashes (js ! i)" "jb_fin j = jb_fin (js ! i)"
    and "if b then jb_todo j = todo \<and> jb_sunk j = jb_sunk (js ! i) else jb_todo j = [] \<and> jb_sunk j"
  shows "jobs_go sink js d [(h, x, b)] (js[i := j]) d'"
proof -
  have "job_after (js ! i) [(h, x, b)] j" using assms(2,4-) by (auto simp: job_after_def split: if_splits)
  moreover have "job_after j' [(h, x, b)] j'" for j' by (rule job_after_more [OF job_after_refl]) simp
  ultimately have "list_all2 (\<lambda>j j'. job_after j [(h, x, b)] j') js (js[i := j])"
    using assms(1) by (auto simp: list_all2_conv_all_nth nth_list_update)
  moreover have "offers_left (js[i := j]) + 1 \<le> offers_left js"
    by (rule offers_left_update [OF assms(1)]) (use assms(2,7) in \<open>auto split: if_splits\<close>)
  ultimately show ?thesis using assms(1-3) nth_mem [OF assms(1)]
    by (auto simp: jobs_go_def intro!: bexI [of _ "js ! i"])
qed

lemma job_step_go:
  assumes "job_step sink i (js, d) = (js', d')"
  shows "\<exists>calls. jobs_go sink js d calls js' d'"
proof (cases "i < length js \<and> jb_todo (js ! i) \<noteq> []")
  case False
  with assms have "js' = js" "d' = d" by (auto simp: job_step_def split: if_splits list.splits)
  then show ?thesis using jobs_go_refl [of sink js d] by (intro exI [of _ "[]"]) simp
next
  case True
  then obtain h x todo where t: "i < length js" "jb_todo (js ! i) = (h, x) # todo" by (cases "jb_todo (js ! i)") auto
  obtain a d1 where a: "sink h x d = (a, d1)" by fastforce
  show ?thesis
  proof (cases a)
    case (Inl e)
    with assms t a have js: "js' = js[i := (js ! i)\<lparr>jb_todo := [], jb_sunk := True\<rparr>]" "d' = d1" by (simp_all add: job_step_def)
    have "delivers sink d [(h, x, False)] d1" by (rule delivers_one) (use a Inl in simp)
    from jobs_go_update [OF t this, of "(js ! i)\<lparr>jb_todo := [], jb_sunk := True\<rparr>"] js show ?thesis by auto
  next
    case (Inr u)
    with assms t a have js: "js' = js[i := (js ! i)\<lparr>jb_todo := todo\<rparr>]" "d' = d1" by (simp_all add: job_step_def)
    have "delivers sink d [(h, x, True)] d1" by (rule delivers_one) (use a Inr in simp)
    from jobs_go_update [OF t this, of "(js ! i)\<lparr>jb_todo := todo\<rparr>"] js show ?thesis by auto
  qed
qed

lemma run_jobs_go: "run_jobs sink sched (js, d) = (js', d') \<Longrightarrow> \<exists>calls. jobs_go sink js d calls js' d'"
proof (induction sched arbitrary: js d)
  case Nil
  then show ?case using jobs_go_refl [of sink js d] by (intro exI [of _ "[]"]) (simp add: run_jobs_def)
next
  case (Cons i sched)
  obtain js1 d1 where s: "job_step sink i (js, d) = (js1, d1)" by fastforce
  with Cons.prems have "run_jobs sink sched (js1, d1) = (js', d')" by (simp add: run_jobs_def)
  from Cons.IH [OF this] job_step_go [OF s] show ?case by (metis jobs_go_trans)
qed

text \<open>After the schedule every download has come to its end.\<close>

lemma job_step_length:
  "job_step sink i (js, d) = (js', d') \<Longrightarrow> length js' = length js \<and>
     (k < length js \<longrightarrow> length (jb_todo (js' ! k)) \<le> length (jb_todo (js ! k)) - (if k = i then 1 else 0))"
  by (auto simp: job_step_def nth_list_update split: if_splits list.splits prod.splits sum.splits)

lemma run_jobs_length:
  "run_jobs sink sched (js, d) = (js', d') \<Longrightarrow> length js' = length js \<and>
     (k < length js \<longrightarrow> length (jb_todo (js' ! k)) \<le> length (jb_todo (js ! k)) - count_list sched k)"
proof (induction sched arbitrary: js d)
  case (Cons i sched)
  obtain js1 d1 where s: "job_step sink i (js, d) = (js1, d1)" by fastforce
  with Cons.prems have "run_jobs sink sched (js1, d1) = (js', d')" by (simp add: run_jobs_def)
  from Cons.IH [OF this] job_step_length [OF s, of k] show ?case by (auto split: if_splits)
qed (simp add: run_jobs_def)

lemma count_replicate: "count_list (replicate n i) k = (if i = k then n else 0)"
  by (induction n) auto

lemma count_turns: "k < n \<Longrightarrow> count_list (concat (map (\<lambda>i. replicate (f i) i) [0 ..< n])) k = f k"
  "n \<le> k \<Longrightarrow> count_list (concat (map (\<lambda>i. replicate (f i) i) [0 ..< n])) k = 0"
  by (induction n) (auto simp: count_replicate less_Suc_eq)

lemma finish_jobs_end:
  assumes "finish_jobs sink sched js d = (js', d')"
  shows "(\<exists>calls. jobs_go sink js d calls js' d') \<and> list_all (\<lambda>j. jb_todo j = []) js'"
proof -
  have run: "run_jobs sink (sched @ all_turns js) (js, d) = (js', d')" using assms by (simp add: finish_jobs_def)
  have "jb_todo (js' ! k) = []" if "k < length js'" for k
    using run_jobs_length [OF run, of k] that count_turns(1) [of k "length js" "\<lambda>i. length (jb_todo (js ! i))"]
    by (simp add: all_turns_def)
  then show ?thesis using run_jobs_go [OF run] by (simp add: list_all_length)
qed

section \<open>One round\<close>

text \<open>A download before it has handed over anything.\<close>

definition job_fresh :: "(bytes \<Rightarrow> bytes \<Rightarrow> bool) \<Rightarrow> job \<Rightarrow> bool" where
  "job_fresh P j \<longleftrightarrow> \<not> jb_sunk j \<and> length (jb_todo j) \<le> length (jb_hashes j) \<and>
     list_all (\<lambda>(h, x). P h x \<and> h \<in> set (jb_hashes j)) (jb_todo j) \<and>
     (\<forall>st. jb_fin j = Inr st \<longrightarrow> set (fs_failed st) \<subseteq> set (jb_hashes j) \<and> length (fs_failed st) \<le> length (jb_hashes j) \<and>
        set (jb_hashes j) \<subseteq> set (fs_failed st) \<union> fst ` set (jb_todo j))"

lemma record_sink_delivers:
  "delivers (record_sink (\<lambda>h x. True)) got calls got' \<Longrightarrow> got' = got @ map (\<lambda>(h, x, b). (h, x)) calls \<and> list_all (snd \<circ> snd) calls"
  by (induction rule: delivers.induct) (auto simp: record_sink_def)

definition net_gives :: "(bytes \<Rightarrow> bytes) \<Rightarrow> (bytes \<Rightarrow> bytes \<Rightarrow> bool) \<Rightarrow> net \<Rightarrow> bool" where
  "net_gives blake3 P nt \<longleftrightarrow> (\<forall>target req. gives blake3 P (nt_exchange nt target req))"

lemma start_job_fresh:
  assumes "net_gives blake3 P nt"
  shows "job_fresh P (start_job blake3 nt g p)" and "jb_hashes (start_job blake3 nt g p) = snd p"
proof -
  obtain target hs where p: "p = (target, hs)" by (cases p)
  obtain fin offers where f: "fetch_chunks blake3 (connect_peer (nt_direct nt target) (nt_relay nt target) (nt_url nt) target)
    (nt_opened nt target) (nt_exchange nt target) (record_sink (\<lambda>h x. True)) g hs [] = (fin, offers)" by fastforce
  then have j: "start_job blake3 nt g p = \<lparr>jb_key = pt_endpoint_id target, jb_hashes = hs, jb_todo = offers, jb_fin = fin, jb_sunk = False\<rparr>"
    by (simp add: start_job_def p)
  from fetch_chunks_delivers [OF f, of P] assms obtain calls where
    c: "delivers (record_sink (\<lambda>h x. True)) [] calls offers" "fetched P hs calls [] fin"
    by (auto simp: net_gives_def)
  from record_sink_delivers [OF c(1)] have o: "offers = map (\<lambda>(h, x, b). (h, x)) calls" "list_all (snd \<circ> snd) calls" by auto
  have t: "taken calls \<subseteq> fst ` set offers" by (force simp: o(1) taken_def)
  have v: "list_all (\<lambda>(h, x). P h x \<and> h \<in> set hs) offers" "length offers \<le> length hs"
    using c(2) by (auto simp: fetched_def o(1) verified_calls_def list.pred_map comp_def elim: list.pred_mono_strong)
  show "job_fresh P (start_job blake3 nt g p)"
    using v t c(2) unfolding j job_fresh_def fetched_def by fastforce
  show "jb_hashes (start_job blake3 nt g p) = snd p" unfolding j by (simp add: p)
qed

lemma spawn_jobs_fresh:
  "spawn_jobs blake3 nt g gs = (r, js) \<Longrightarrow> net_gives blake3 P nt \<Longrightarrow> list_all (job_fresh P) js \<and> prefix (map jb_hashes js) (map snd gs) \<and>
     (r = Inr () \<longrightarrow> map jb_hashes js = map snd gs)"
proof (induction gs arbitrary: r js)
  case (Cons p gs)
  obtain r1 js1 where s: "spawn_jobs blake3 nt g gs = (r1, js1)" by fastforce
  show ?case
  proof (cases "choose_ep (fst p)")
    case (Inl e)
    with Cons.prems show ?thesis by auto
  next
    case (Inr u)
    with Cons.prems s have "r = r1" "js = start_job blake3 nt g p # js1" by auto
    with Cons.IH [OF s Cons.prems(2)] start_job_fresh [OF Cons.prems(2), of g p] show ?thesis by simp
  qed
qed auto

text \<open>Every chunk goes into one group or stays.\<close>

definition planned :: "round_plan \<Rightarrow> bytes list" where
  "planned pl = concat (map snd (rp_groups pl)) @ rp_next pl"

definition plan_ok :: "round_plan \<Rightarrow> bool" where
  "plan_ok pl \<longleftrightarrow> (\<forall>k i. rp_index pl k = Some i \<longrightarrow> i < length (rp_groups pl))"

lemma mset_concat_update:
  "i < length gs \<Longrightarrow> mset (concat (map snd (gs[i := (t, snd (gs ! i) @ [h])]))) = add_mset h (mset (concat (map snd gs)))"
proof (induction gs arbitrary: i)
  case (Cons g gs)
  then show ?case by (cases i) auto
qed simp

lemma add_to_group_planned:
  assumes "plan_ok pl"
  shows "plan_ok (add_to_group t h pl) \<and> mset (planned (add_to_group t h pl)) = add_mset h (mset (planned pl))"
proof (cases "rp_index pl (group_key t)")
  case None
  with assms show ?thesis by (auto simp: plan_ok_def planned_def add_to_group_def Let_def less_Suc_eq)
next
  case (Some i)
  with assms have "i < length (rp_groups pl)" by (auto simp: plan_ok_def)
  from mset_concat_update [OF this, of "fst (rp_groups pl ! i)" h] assms Some show ?thesis
    by (auto simp: plan_ok_def planned_def add_to_group_def Let_def)
qed

lemma plan_round_planned:
  "plan_round cl ps relay g ex hs pl s = (Inr pl', s') \<Longrightarrow> plan_ok pl \<Longrightarrow> mset (planned pl') = mset (planned pl) + mset hs"
proof (induction hs arbitrary: pl s)
  case (Cons h hs)
  obtain a s1 where q: "cc_query_peers cl g h 5 s = (a, s1)" by fastforce
  with Cons.prems(1) obtain peers where a: "a = Inr peers" by (cases a) auto
  show ?case
  proof (cases "candidates ps ex peers = []")
    case True
    with Cons.prems q a have run: "plan_round cl ps relay g ex hs (pl\<lparr>rp_next := rp_next pl @ [h]\<rparr>) s1 = (Inr pl', s')" by simp
    from Cons.IH [OF run] Cons.prems(2) show ?thesis by (simp add: plan_ok_def planned_def)
  next
    case False
    with Cons.prems(1) q a obtain t where run: "plan_round cl ps relay g ex hs (add_to_group t h pl) s1 = (Inr pl', s')"
      by (auto simp: Let_def split: sum.splits)
    from Cons.IH [OF run] add_to_group_planned [OF Cons.prems(2), of t h] show ?thesis by simp
  qed
qed simp

text \<open>What the finished downloads leave unresolved.\<close>

definition left_over :: "job \<Rightarrow> bytes list" where
  "left_over j = (case job_result j of Some st \<Rightarrow> fs_failed st | None \<Rightarrow> jb_hashes j)"

lemma join_jobs_next: "snd (join_jobs js (ex, nx)) = nx @ concat (map left_over js)"
  by (induction js arbitrary: ex nx) (auto simp: left_over_def split: option.splits)

lemma left_over_job:
  assumes "job_fresh P j" "job_after j calls j'" "jb_todo j' = []"
  shows "set (left_over j') \<subseteq> set (jb_hashes j) \<and> length (left_over j') \<le> length (jb_hashes j) \<and>
    set (jb_hashes j) \<subseteq> set (left_over j') \<union> taken calls"
proof (cases "job_result j'")
  case None
  with assms(2) show ?thesis by (auto simp: left_over_def job_after_def)
next
  case (Some st)
  then have "\<not> jb_sunk j'" "jb_fin j' = Inr st" by (auto simp: job_result_def split: if_splits sum.splits)
  moreover from this assms have "fst ` set (jb_todo j) \<subseteq> taken calls" "jb_fin j = Inr st" by (auto simp: job_after_def)
  moreover from this(2) assms(1) have "set (fs_failed st) \<subseteq> set (jb_hashes j)" "length (fs_failed st) \<le> length (jb_hashes j)"
    "set (jb_hashes j) \<subseteq> set (fs_failed st) \<union> fst ` set (jb_todo j)" by (simp_all add: job_fresh_def)
  ultimately show ?thesis using Some by (simp add: left_over_def) blast
qed

lemma jobs_go_verified:
  assumes "list_all (job_fresh P) js" "jobs_go sink js d calls js' d'"
  shows "verified_calls P (set (concat (map jb_hashes js))) calls \<and> length calls \<le> length (concat (map jb_hashes js))"
proof
  show "verified_calls P (set (concat (map jb_hashes js))) calls"
    using assms unfolding verified_calls_def jobs_go_def list_all_iff job_fresh_def by fastforce
  have "offers_left js \<le> length (concat (map jb_hashes js))"
    using assms(1) by (induction js) (auto simp: offers_left_def job_fresh_def)
  then show "length calls \<le> length (concat (map jb_hashes js))" using assms(2) by (simp add: jobs_go_def)
qed

definition fair_turn :: "turn \<Rightarrow> bool" where
  "fair_turn t \<longleftrightarrow> (\<forall>js. mset (tn_join t js) = mset js)"

definition turn_gives :: "(bytes \<Rightarrow> bytes) \<Rightarrow> (bytes \<Rightarrow> bytes \<Rightarrow> bool) \<Rightarrow> turn \<Rightarrow> bool" where
  "turn_gives blake3 P t \<longleftrightarrow> fair_turn t \<and> net_gives blake3 P (tn_net t)"

lemma left_over_all:
  assumes "list_all (job_fresh P) js" "list_all2 (\<lambda>j j'. job_after j calls j') js js'" "list_all (\<lambda>j. jb_todo j = []) js'"
  shows "set (concat (map left_over js')) \<subseteq> set (concat (map jb_hashes js)) \<and>
    length (concat (map left_over js')) \<le> length (concat (map jb_hashes js)) \<and>
    set (concat (map jb_hashes js)) \<subseteq> set (concat (map left_over js')) \<union> taken calls"
  using assms(2,1,3)
proof (induction rule: list_all2_induct)
  case (Cons j js j' js')
  from left_over_job [of P j calls j'] Cons show ?case by auto
qed simp

lemma finish_round:
  assumes "list_all (job_fresh P) js" "finish_jobs sink sched js d = (js', d')" "fair_turn t"
    and "join_jobs (tn_join t js') (ex, nx) = (ex', nx')"
  shows "\<exists>calls. delivers sink d calls d' \<and> verified_calls P (set (concat (map jb_hashes js))) calls \<and>
    length calls \<le> length (concat (map jb_hashes js)) \<and> set nx' \<subseteq> set nx \<union> set (concat (map jb_hashes js)) \<and>
    length nx' \<le> length nx + length (concat (map jb_hashes js)) \<and>
    set nx \<union> set (concat (map jb_hashes js)) \<subseteq> set nx' \<union> taken calls"
proof -
  from finish_jobs_end [OF assms(2)] obtain calls where go: "jobs_go sink js d calls js' d'" and fin: "list_all (\<lambda>j. jb_todo j = []) js'"
    by blast
  have after: "list_all2 (\<lambda>j j'. job_after j calls j') js js'" and del: "delivers sink d calls d'" using go by (simp_all add: jobs_go_def)
  let ?L = "concat (map left_over (tn_join t js'))"
  have m: "mset (tn_join t js') = mset js'" using assms(3) by (simp add: fair_turn_def)
  have nx': "nx' = nx @ ?L" using join_jobs_next [of "tn_join t js'" ex nx] assms(4) by simp
  have sets: "set ?L = set (concat (map left_over js'))" using mset_eq_setD [OF m] by simp
  have lens: "length ?L = length (concat (map left_over js'))"
  proof -
    have "length ?L = (\<Sum>n \<in># image_mset (length \<circ> left_over) (mset (tn_join t js')). n)"
      by (simp add: length_concat sum_mset_sum_list flip: mset_map)
    also have "\<dots> = length (concat (map left_over js'))"
      unfolding m by (simp add: length_concat sum_mset_sum_list flip: mset_map)
    finally show ?thesis .
  qed
  have "set nx' \<subseteq> set nx \<union> set (concat (map jb_hashes js)) \<and> length nx' \<le> length nx + length (concat (map jb_hashes js)) \<and>
    set nx \<union> set (concat (map jb_hashes js)) \<subseteq> set nx' \<union> taken calls"
    using left_over_all [OF assms(1) after fin] unfolding nx' set_append length_append sets lens
    by (intro conjI) (blast, simp, blast)
  with del jobs_go_verified [OF assms(1) go] show ?thesis by blast
qed

section \<open>A download alone\<close>

text \<open>Handing over the chunks one by one: whether the sink refused one, and its state.\<close>

fun offer :: "(bytes \<Rightarrow> bytes \<Rightarrow> 'd \<Rightarrow> ('e + unit) \<times> 'd) \<Rightarrow> (bytes \<times> bytes) list \<Rightarrow> 'd \<Rightarrow> bool \<times> 'd" where
  "offer sink [] d = (False, d)"
| "offer sink ((h, x) # cs) d = (case sink h x d of (Inl _, d1) \<Rightarrow> (True, d1) | (Inr _, d1) \<Rightarrow> offer sink cs d1)"

definition stats_of :: "'e fetch_error + fetch_stats \<Rightarrow> fetch_stats option" where
  "stats_of r = (case r of Inl _ \<Rightarrow> None | Inr st \<Rightarrow> Some st)"

lemma stats_of_simps [simp]: "stats_of (Inl e) = None" "stats_of (Inr st) = Some st"
  by (simp_all add: stats_of_def)

lemma fetch_loop_offers:
  "fetch_loop blake3 (record_sink (\<lambda>h x. True)) hs recv stats got = (fin, got') \<Longrightarrow> fetch_loop blake3 sink hs recv stats d = (r, d') \<Longrightarrow>
     \<exists>offers. got' = got @ offers \<and> d' = snd (offer sink offers d) \<and> stats_of r = (if fst (offer sink offers d) then None else stats_of fin)"
proof (induction hs arbitrary: recv stats got d r d')
  case Nil
  then show ?case by (auto intro!: exI [of _ "[]"])
next
  case (Cons h hs)
  show ?case
  proof (cases "read_exact 4 recv")
    case (Inl e)
    with Cons.prems Cons.IH [of "[]"] show ?thesis by simp
  next
    case (Inr p)
    obtain lb recv1 where p: "p = (lb, recv1)" by (cases p)
    show ?thesis
    proof (cases "read_exact (unat (u32_of_be lb)) recv1")
      case e: (Inl e)
      with Cons.prems Inr p show ?thesis by (auto simp: Let_def intro!: exI [of _ "[]"])
    next
      case q: (Inr q)
      obtain x recv2 where q': "q = (x, recv2)" by (cases q)
      note eqs = Inr p q q'
      let ?stats = "stats\<lparr>fs_downloaded := fs_downloaded stats + 1, fs_bytes := fs_bytes stats + ucast (u32_of_be lb)\<rparr>"
      show ?thesis
      proof (cases "blake3 x = h")
        case False
        with Cons.prems eqs Cons.IH [of recv2] show ?thesis by (simp add: Let_def store_chunk_def)
      next
        case True
        obtain a d1 where a: "sink h x d = (a, d1)" by fastforce
        from Cons.prems(1) eqs True have rec: "fetch_loop blake3 (record_sink (\<lambda>h x. True)) hs recv2 ?stats (got @ [(h, x)]) = (fin, got')"
          by (simp add: Let_def store_chunk_def record_sink_def [of _ h])
        obtain r2 d2 where other: "fetch_loop blake3 sink hs recv2 ?stats d1 = (r2, d2)" by fastforce
        from Cons.IH [OF rec other] obtain offers where o: "got' = (got @ [(h, x)]) @ offers" "d2 = snd (offer sink offers d1)"
          "stats_of r2 = (if fst (offer sink offers d1) then None else stats_of fin)" by blast
        show ?thesis
          using Cons.prems(2) eqs True a other o
          by (intro exI [of _ "(h, x) # offers"]) (cases a; auto simp: Let_def store_chunk_def)
      qed
    qed
  qed
qed

lemma run_one_job:
  "run_jobs sink (replicate (length (jb_todo j)) 0) ([j], d) =
     ([j\<lparr>jb_todo := [], jb_sunk := jb_sunk j \<or> fst (offer sink (jb_todo j) d)\<rparr>], snd (offer sink (jb_todo j) d))"
proof (induction "jb_todo j" arbitrary: j d)
  case Nil
  then show ?case by (simp add: run_jobs_def)
next
  case (Cons c cs)
  obtain h x where c: "c = (h, x)" by (cases c)
  obtain a d1 where a: "sink h x d = (a, d1)" by fastforce
  have idle: "run_jobs sink (replicate n 0) ([j'], d') = ([j'], d')" if "jb_todo j' = []" for n j' d'
    using that by (induction n) (simp_all add: run_jobs_def job_step_def)
  note todo = Cons.hyps(2) [symmetric]
  show ?case
  proof (cases a)
    case (Inl e)
    then have "job_step sink 0 ([j], d) = ([j\<lparr>jb_todo := [], jb_sunk := True\<rparr>], d1)" by (simp add: job_step_def todo c a)
    then show ?thesis using idle [of "j\<lparr>jb_todo := [], jb_sunk := True\<rparr>" "length cs" d1] Inl by (simp add: run_jobs_def todo c a)
  next
    case (Inr u)
    then have "job_step sink 0 ([j], d) = ([j\<lparr>jb_todo := cs\<rparr>], d1)" by (simp add: job_step_def todo c a)
    then show ?thesis using Cons.hyps(1) [of "j\<lparr>jb_todo := cs\<rparr>" d1] Inr by (simp add: run_jobs_def todo c a)
  qed
qed

lemma connect_peer_Inr:
  "(\<exists>u. connect_peer direct relay parses t = Inr u) \<longleftrightarrow>
     (\<exists>a. pt_addr t = Some a \<and> direct a) \<or> (\<not> pt_direct_only t \<and> (\<exists>url. pt_relay_url t = Some url \<and> parses url \<and> relay url))"
  by (auto simp: connect_peer_def Let_def split: option.splits if_splits bool.splits)

text \<open>A job that runs alone does what \<open>fetch_chunks\<close> does with the same sink.\<close>

lemma job_alone:
  assumes "finish_jobs sink [] [start_job blake3 nt g (target, hs)] d = (js, d1)" "fetch_from blake3 nt g target hs sink d = (r, d2)"
  shows "d1 = d2 \<and> map job_result js = [stats_of r]"
proof -
  let ?conn = "connect_peer (nt_direct nt target) (nt_relay nt target) (nt_url nt) target"
  let ?rec = "fetch_chunks blake3 ?conn (nt_opened nt target) (nt_exchange nt target) (record_sink (\<lambda>h x. True)) g hs []"
  define ok where "ok \<longleftrightarrow> (\<exists>u. (?conn :: sink_error fetch_error + unit) = Inr u) \<and> nt_opened nt target"
  have ok_unit: "ok \<longleftrightarrow> (\<exists>u. (?conn :: unit fetch_error + unit) = Inr u) \<and> nt_opened nt target"
    unfolding ok_def connect_peer_Inr ..
  obtain fin offers where f: "?rec = (fin, offers)" by fastforce
  have o: "d2 = snd (offer sink offers d) \<and> stats_of r = (if fst (offer sink offers d) then None else stats_of fin)"
  proof (cases "hs = [] \<or> \<not> ok")
    case True
    with f assms(2) ok_unit ok_def have "offers = []" "d2 = d" "stats_of r = stats_of fin"
      by (auto simp: fetch_chunks_def fetch_from_def split: if_splits sum.splits)
    then show ?thesis by simp
  next
    case False
    with f ok_unit have "fetch_loop blake3 (record_sink (\<lambda>h x. True)) hs (nt_exchange nt target (fetch_request g hs)) stats_default [] = (fin, offers)"
      by (auto simp: fetch_chunks_def)
    moreover from False assms(2) ok_def have "fetch_loop blake3 sink hs (nt_exchange nt target (fetch_request g hs)) stats_default d = (r, d2)"
      by (auto simp: fetch_chunks_def fetch_from_def)
    ultimately show ?thesis using fetch_loop_offers [of blake3 hs _ stats_default "[]" fin offers sink d r d2] by auto
  qed
  have "start_job blake3 nt g (target, hs) = \<lparr>jb_key = pt_endpoint_id target, jb_hashes = hs, jb_todo = offers, jb_fin = fin, jb_sunk = False\<rparr>"
    using f by (simp add: start_job_def)
  with assms(1) o run_one_job [of sink "start_job blake3 nt g (target, hs)" d] show ?thesis
    by (auto simp: finish_jobs_def all_turns_def job_result_def stats_of_def)
qed

section \<open>The download\<close>

text \<open>What a download does to its sink, and what a result tells.\<close>

definition downloaded :: "(bytes \<Rightarrow> bytes \<Rightarrow> bool) \<Rightarrow> bytes list \<Rightarrow> nat \<Rightarrow> (bytes \<times> bytes \<times> bool) list \<Rightarrow> exec_error + bytes list \<Rightarrow> bool" where
  "downloaded P hs n calls r \<longleftrightarrow> verified_calls P (set hs) calls \<and> length calls \<le> n * length hs \<and>
     (\<forall>un. r = Inr un \<longrightarrow> set un \<subseteq> set hs \<and> length un \<le> length hs \<and> set hs \<subseteq> set un \<union> taken calls)"

lemma downloaded_none: "downloaded P hs n [] (Inl e)" "downloaded P hs n [] (Inr hs)"
  by (simp_all add: downloaded_def)

lemma downloaded_more: "downloaded P hs n calls r \<Longrightarrow> downloaded P hs (Suc n) calls r"
  by (auto simp: downloaded_def)

lemma downloaded_step:
  assumes "verified_calls P (set hs) c1" "length c1 \<le> length hs" "set nx \<subseteq> set hs" "length nx \<le> length hs"
    and "set hs \<subseteq> set nx \<union> taken c1" "downloaded P nx n c2 r"
  shows "downloaded P hs (Suc n) (c1 @ c2) r"
proof -
  have "n * length nx \<le> n * length hs" by (rule mult_le_mono2 [OF assms(4)])
  moreover have "length c2 \<le> n * length nx" using assms(6) unfolding downloaded_def by blast
  ultimately have "length c2 \<le> n * length hs" by (rule order_trans [rotated])
  then have "length (c1 @ c2) \<le> Suc n * length hs" using assms(2) by simp
  moreover have "verified_calls P (set hs) (c1 @ c2)"
    using assms(1,3,6) verified_calls_mono [of P "set nx" c2 "set hs"] by (simp add: downloaded_def)
  moreover have "set un \<subseteq> set hs \<and> length un \<le> length hs \<and> set hs \<subseteq> set un \<union> taken (c1 @ c2)" if "r = Inr un" for un
    using assms(3-6) that by (auto simp: downloaded_def)
  ultimately show ?thesis by (simp add: downloaded_def)
qed

lemma planned_split:
  assumes "mset (planned pl) = mset hs"
  shows "set hs = set (rp_next pl) \<union> set (concat (map snd (rp_groups pl)))"
    and "length hs = length (rp_next pl) + length (concat (map snd (rp_groups pl)))"
proof -
  show "set hs = set (rp_next pl) \<union> set (concat (map snd (rp_groups pl)))"
    using mset_eq_setD [OF assms] by (auto simp: planned_def)
  show "length hs = length (rp_next pl) + length (concat (map snd (rp_groups pl)))"
    using mset_eq_length [OF assms] by (simp add: planned_def)
qed

lemma aborted_round:
  assumes "mset (planned pl) = mset hs" "spawn_jobs blake3 nt g (rp_groups pl) = (Inl e, js)" "run_jobs sink sched (js, d) = (js1, d1)"
    and "net_gives blake3 P nt"
  shows "\<exists>calls. delivers sink d calls d1 \<and> downloaded P hs 1 calls (Inl e')"
proof -
  note fresh = spawn_jobs_fresh [OF assms(2,4)]
  from run_jobs_go [OF assms(3)] obtain calls where go: "jobs_go sink js d calls js1 d1" by blast
  from fresh obtain rest where rest: "map snd (rp_groups pl) = map jb_hashes js @ rest" by (auto simp: prefix_def)
  have v: "verified_calls P (set (concat (map jb_hashes js))) calls" "length calls \<le> length (concat (map jb_hashes js))"
    using jobs_go_verified [OF _ go, of P] fresh by blast+
  have "set (concat (map jb_hashes js)) \<subseteq> set hs" "length (concat (map jb_hashes js)) \<le> length hs"
    using planned_split [OF assms(1)] by (auto simp: rest)
  from verified_calls_mono [OF v(1) this(1)] this(2) v(2) go show ?thesis
    by (intro exI [of _ calls]) (simp add: downloaded_def jobs_go_def)
qed

lemma completed_round:
  assumes "mset (planned pl) = mset hs" "spawn_jobs blake3 nt g (rp_groups pl) = (Inr u, js)" "fair_turn t"
    and "finish_jobs sink sched js d = (js1, d1)" "join_jobs (tn_join t js1) (ex, rp_next pl) = (ex1, nx1)" "net_gives blake3 P nt"
  shows "\<exists>calls. delivers sink d calls d1 \<and> verified_calls P (set hs) calls \<and> length calls \<le> length hs \<and>
    set nx1 \<subseteq> set hs \<and> length nx1 \<le> length hs \<and> set hs \<subseteq> set nx1 \<union> taken calls"
proof -
  note fresh = spawn_jobs_fresh [OF assms(2,6)]
  have jh: "map jb_hashes js = map snd (rp_groups pl)" using fresh by simp
  have "list_all (job_fresh P) js" using fresh by blast
  from finish_round [OF this assms(4,3,5), unfolded jh] obtain c where c: "delivers sink d c d1"
    "verified_calls P (set (concat (map snd (rp_groups pl)))) c" "length c \<le> length (concat (map snd (rp_groups pl)))"
    "set nx1 \<subseteq> set hs" "length nx1 \<le> length hs" "set hs \<subseteq> set nx1 \<union> taken c"
    unfolding planned_split [OF assms(1)] by blast
  have "verified_calls P (set hs) c"
    by (rule verified_calls_mono [OF c(2)]) (simp only: planned_split(1) [OF assms(1)] Un_upper2)
  moreover have "length c \<le> length hs" using c(3) planned_split(2) [OF assms(1)] by linarith
  ultimately show ?thesis using c by blast
qed

lemma rounds_downloaded:
  assumes "list_all (turn_gives blake3 P) ts" "rounds blake3 cl ps relay g sink ts ex hs d s = (r, d', s')"
  shows "\<exists>calls. delivers sink d calls d' \<and> downloaded P hs (length ts) calls r"
  using assms
proof (induction ts arbitrary: ex hs d s)
  case Nil
  then show ?case using downloaded_none(2) by (auto intro!: exI [of _ "[]"] delivers.none)
next
  case (Cons t ts)
  have none: ?case if "d' = d" "downloaded P hs 1 [] r"
    using that by (intro exI [of _ "[]"]) (auto simp: downloaded_def intro: delivers.none)
  obtain a s1 where p: "plan_round cl ps relay g ex hs \<lparr>rp_groups = [], rp_index = Map.empty, rp_next = []\<rparr> s = (a, s1)" by fastforce
  consider "hs = []" | e where "hs \<noteq> []" "a = Inl e" | pl where "hs \<noteq> []" "a = Inr pl" by (cases a) auto
  then show ?case
  proof cases
    case 1
    with Cons.prems show ?thesis by (intro none) (auto simp: downloaded_def)
  next
    case (2 e)
    with Cons.prems p show ?thesis by (intro none) (auto simp: downloaded_none)
  next
    case (3 pl)
    have m: "mset (planned pl) = mset hs"
      using plan_round_planned [OF p [unfolded 3(2)]] by (simp add: plan_ok_def planned_def)
    obtain b js where sp: "spawn_jobs blake3 (tn_net t) g (rp_groups pl) = (b, js)" by fastforce
    consider "rp_groups pl = []" | e where "rp_groups pl \<noteq> []" "b = Inl e" | u where "rp_groups pl \<noteq> []" "b = Inr u" by (cases b) auto
    then show ?thesis
    proof cases
      case 1
      with Cons.prems(2) 3 p planned_split [OF m] show ?thesis by (intro none) (auto simp: downloaded_def)
    next
      case (2 e)
      obtain js1 d1 where rj: "run_jobs sink (tn_sched t) (js, d) = (js1, d1)" by fastforce
      have "d' = d1" "r = Inl e" using Cons.prems(2) 3 p 2 sp rj by simp_all
      moreover have "net_gives blake3 P (tn_net t)" using Cons.prems(1) by (simp add: turn_gives_def)
      from aborted_round [OF m sp [unfolded 2(2)] rj this, of e] obtain calls where "delivers sink d calls d1" "downloaded P hs 1 calls (Inl e)"
        by blast
      ultimately show ?thesis by (intro exI [of _ calls]) (auto simp: downloaded_def)
    next
      case (3 u)
      obtain js1 d1 where fj: "finish_jobs sink (tn_sched t) js d = (js1, d1)" by fastforce
      obtain ex1 nx1 where jj: "join_jobs (tn_join t js1) (ex, rp_next pl) = (ex1, nx1)" by fastforce
      have run: "rounds blake3 cl ps relay g sink ts ex1 nx1 d1 s1 = (r, d', s')"
        using Cons.prems(2) \<open>hs \<noteq> []\<close> \<open>a = Inr pl\<close> p 3 sp fj jj by simp
      have fair: "fair_turn t" "list_all (turn_gives blake3 P) ts" "net_gives blake3 P (tn_net t)"
        using Cons.prems(1) by (simp_all add: turn_gives_def [of _ _ t])
      from completed_round [OF m sp [unfolded 3(2)] fair(1) fj jj fair(3)] obtain c1 where c1: "delivers sink d c1 d1"
        "verified_calls P (set hs) c1" "length c1 \<le> length hs" "set nx1 \<subseteq> set hs" "length nx1 \<le> length hs"
        "set hs \<subseteq> set nx1 \<union> taken c1" by blast
      from Cons.IH [OF fair(2) run] obtain c2 where c2: "delivers sink d1 c2 d'" "downloaded P nx1 (length ts) c2 r" by blast
      from downloaded_step [OF c1(2-) c2(2)] delivers_append [OF c1(1) c2(1)] show ?thesis by auto
    qed
  qed
qed

lemma logged_delivers:
  "delivers (logged sink) dl calls dl' \<Longrightarrow>
     delivers sink (fst dl) calls (fst dl') \<and> snd dl' = snd dl @ map fst (filter (snd \<circ> snd) calls)"
proof (induction rule: delivers.induct)
  case (took h x dl u dl1 calls dl2)
  then obtain u' where "sink h x (fst dl) = (Inr u', fst dl1)" "snd dl1 = snd dl @ [h]"
    by (auto simp: logged_def split: prod.splits sum.splits)
  with took.IH show ?case by (auto intro: delivers.took)
next
  case (refused h x dl e dl1 calls dl2)
  then have "sink h x (fst dl) = (Inl e, fst dl1)" "snd dl1 = snd dl"
    by (auto simp: logged_def split: prod.splits sum.splits)
  with refused.IH show ?case by (auto intro: delivers.refused)
qed (auto intro: delivers.none)

lemma taken_filter: "set (map fst (filter (snd \<circ> snd) calls)) = taken calls"
  by (force simp: taken_def)

lemma taken_verified: "verified_calls P hs calls \<Longrightarrow> taken calls \<subseteq> hs"
  by (auto simp: verified_calls_def taken_def list_all_iff)

lemma from_origin_delivers:
  assumes "from_origin blake3 nt g sink origin assigned un dl = (r, d')" "net_gives blake3 P nt"
  shows "\<exists>calls. delivers sink (fst dl) calls d' \<and> verified_calls P (set un) calls \<and> length calls \<le> length un \<and>
    (\<forall>out. r = Inr out \<longrightarrow> set un \<subseteq> taken calls \<and> set out = set (snd dl) \<union> taken calls)"
proof (cases "filter (\<lambda>h. h \<notin> assigned) un = [] \<and> un \<noteq> [] \<and> origin \<noteq> None")
  case False
  have "un = []" if "filter (\<lambda>h. h \<notin> assigned) un = []" "filter (\<lambda>h. h \<in> assigned) un = []"
    using that by (cases un) (auto split: if_splits)
  with False assms(1) have "d' = fst dl \<and> (\<forall>out. r = Inr out \<longrightarrow> un = [] \<and> out = snd dl)"
    by (auto simp: from_origin_def Let_def split: if_splits option.splits)
  then show ?thesis by (intro exI [of _ "[]"]) (auto intro: delivers.none)
next
  case True
  then obtain target where o: "origin = Some target" by auto
  let ?re = "remdups_adj (sort un)"
  from True have un: "filter (\<lambda>h. h \<in> assigned) un = un" by (auto simp: filter_id_conv filter_empty_conv)
  obtain a dl1 where f: "fetch_from blake3 nt g target ?re (logged sink) dl = (a, dl1)" by (meson surj_pair)
  from fetch_chunks_delivers [OF f [unfolded fetch_from_def], of P] assms(2) obtain calls where
    c: "delivers (logged sink) dl calls dl1" "fetched P ?re calls [] a" by (auto simp: net_gives_def)
  note log = logged_delivers [OF c(1)]
  have len: "length ?re \<le> length un" using remdups_adj_length [of "sort un"] by simp
  have st: "d' = fst dl1" "\<forall>out. r = Inr out \<longrightarrow> out = snd dl1 \<and> (\<exists>st. a = Inr st \<and> fs_failed st = [])"
    using assms(1) True o un f by (auto simp: from_origin_def Let_def split: sum.splits if_splits)
  have "set un \<subseteq> taken calls" if "r = Inr out" for out
    using st(2) that c(2) by (auto simp: fetched_def)
  moreover have "set out = set (snd dl) \<union> taken calls" if "r = Inr out" for out
    using st(2) that log taken_filter [of calls] by auto
  ultimately show ?thesis using log c(2) st(1) len by (intro exI [of _ calls]) (auto simp: fetched_def)
qed

definition env_gives :: "(bytes \<Rightarrow> bytes) \<Rightarrow> (bytes \<Rightarrow> bytes \<Rightarrow> bool) \<Rightarrow> dl_env \<Rightarrow> bool" where
  "env_gives blake3 P de \<longleftrightarrow> turn_gives blake3 P (de_turn de 0) \<and> turn_gives blake3 P (de_turn de 1) \<and> net_gives blake3 P (de_origin de)"

lemma download_delivers:
  assumes "env_gives blake3 P de"
    and "download_missing blake3 cl de config g missing assigned sink d s = (r, d', s')"
  shows "\<exists>calls. delivers sink d calls d' \<and> verified_calls P (set missing) calls \<and> length calls \<le> 3 * length missing \<and>
    (\<forall>out. r = Inr out \<longrightarrow> set out = set missing \<and> taken calls = set missing)"
proof -
  have none: ?thesis if "d' = d" "\<forall>out. r = Inr out \<longrightarrow> out = [] \<and> missing = []"
    using that by (intro exI [of _ "[]"]) (auto intro: delivers.none)
  obtain a dl s1 where r: "rounds blake3 cl (de_parsers de) (ag_relay_url config) g (logged sink) [de_turn de 0, de_turn de 1] {} missing (d, []) s = (a, dl, s1)"
    by (metis prod_cases3)
  have "list_all (turn_gives blake3 P) [de_turn de 0, de_turn de 1]" using assms(1) by (simp add: env_gives_def)
  from rounds_downloaded [OF this r] obtain c1 where c1: "delivers (logged sink) (d, []) c1 dl" "downloaded P missing 2 c1 a"
    by (auto simp: numeral_2_eq_2)
  note log = logged_delivers [OF c1(1)]
  have out1: "set (snd dl) = taken c1" using log taken_filter [of c1] by simp
  consider "missing = []" | "missing \<noteq> []" "\<exists>e. origin_target (de_parsers de) config = Inl e \<or> \<not> de_endpoint de"
    | origin e where "missing \<noteq> []" "origin_target (de_parsers de) config = Inr origin" "de_endpoint de" "a = Inl e"
    | origin un where "missing \<noteq> []" "origin_target (de_parsers de) config = Inr origin" "de_endpoint de" "a = Inr un"
    by (cases "origin_target (de_parsers de) config"; cases a) auto
  then show ?thesis
  proof cases
    case 1
    with assms(2) show ?thesis by (intro none) (auto simp: download_missing_def)
  next
    case 2
    with assms(2) show ?thesis by (intro none) (auto simp: download_missing_def split: sum.splits)
  next
    case (3 origin e)
    with assms(2) r have "d' = fst dl" "r = Inl e" by (simp_all add: download_missing_def)
    with log c1(2) show ?thesis by (intro exI [of _ c1]) (auto simp: downloaded_def)
  next
    case (4 origin un)
    obtain d1 where f: "from_origin blake3 (de_origin de) g sink origin assigned un dl = (r, d1)" "d' = d1"
      using assms(2) r 4 by (auto simp: download_missing_def split: prod.splits)
    have "net_gives blake3 P (de_origin de)" using assms(1) by (simp add: env_gives_def)
    from from_origin_delivers [OF f(1) this] obtain c2 where c2: "delivers sink (fst dl) c2 d1" "verified_calls P (set un) c2"
      "length c2 \<le> length un" "\<And>out. r = Inr out \<Longrightarrow> set un \<subseteq> taken c2 \<and> set out = set (snd dl) \<union> taken c2" by blast
    have un: "set un \<subseteq> set missing" "length un \<le> length missing" "set missing \<subseteq> set un \<union> taken c1"
      using c1(2) 4(4) by (auto simp: downloaded_def)
    have ver: "verified_calls P (set missing) (c1 @ c2)" using c1(2) verified_calls_mono [OF c2(2) un(1)] by (simp add: downloaded_def)
    have len: "length (c1 @ c2) \<le> 3 * length missing" using c1(2) c2(3) un(2) by (simp add: downloaded_def)
    have "set out = set missing \<and> taken (c1 @ c2) = set missing" if "r = Inr out" for out
      using c2(4) [OF that] un out1 taken_verified [OF ver] by auto
    with ver len delivers_append [of sink d c1 "fst dl" c2 d'] log c2(1) f(2) show ?thesis by (intro exI [of _ "c1 @ c2"]) simp
  qed
qed

section \<open>The buffer of an IDC node\<close>

text \<open>What the pack library will hold once the buffer is flushed; a stored chunk stays.\<close>

definition idc_view :: "idc_buffer \<Rightarrow> bytes \<rightharpoonup> bytes" where
  "idc_view b = map_of (ib_pending b) ++ abs_store (ib_store b)"

text \<open>Room for the buffered chunks and \<open>n\<close> more of at most \<open>L\<close> bytes below the 4 GiB of the index.\<close>

definition idc_room :: "nat \<Rightarrow> nat \<Rightarrow> idc_buffer \<Rightarrow> bool" where
  "idc_room L n b \<longleftrightarrow> unat (gs_size (ib_store b)) + (\<Sum>c \<leftarrow> ib_pending b. length (snd c)) + n * L < 2 ^ 32"

lemma live_batch:
  assumes "env_live env" "store_inv st" "unat (gs_size st) + (\<Sum>c \<leftarrow> cs. length (snd c)) < 2 ^ 32"
  shows "\<exists>locs st'. append_chunks_batch env cs st = (Inr locs, st') \<and> store_inv st' \<and> abs_store st' = map_of cs ++ abs_store st \<and>
    unat (gs_size st') \<le> unat (gs_size st) + (\<Sum>c \<leftarrow> cs. length (snd c))"
proof -
  have ok: "store_ok st" using assms(2) by (simp add: store_inv_def)
  from batch_rel_all [OF assms(1) ok assms(3)] obtain out locs st' where
    b: "batch_rel env st (batch_scan_all st cs) out locs st'" "append_all env cs st = (Inr locs, st')"
      "unat (gs_size st') \<le> unat (gs_size st) + (\<Sum>c \<leftarrow> cs. length (snd c))" by blast
  from append_all_outcome [OF ok assms(3) b(2)] append_chunks_batch_rel [OF assms(1) b(1)] b(3) assms(2) show ?thesis
    by (auto simp: store_inv_def)
qed

lemma flush_live:
  assumes "\<And>n. env_live (envs n)" "store_inv (ib_store b)" "idc_room L n b" "flush_pending envs b = (r, b')"
  shows "r = Inr () \<and> store_inv (ib_store b') \<and> idc_room L n b' \<and> ib_pending b' = [] \<and> idc_view b' = idc_view b"
proof (cases "ib_pending b = []")
  case True
  with assms(2-4) show ?thesis by (auto simp: flush_pending_def idc_view_def idc_room_def)
next
  case False
  have "unat (gs_size (ib_store b)) + (\<Sum>c \<leftarrow> ib_pending b. length (snd c)) < 2 ^ 32" using assms(3) by (simp add: idc_room_def)
  from live_batch [OF assms(1) [of "ib_flushes b"] assms(2) this] obtain locs st' where
    st': "append_chunks_batch (envs (ib_flushes b)) (ib_pending b) (ib_store b) = (Inr locs, st')" "store_inv st'"
      "abs_store st' = map_of (ib_pending b) ++ abs_store (ib_store b)"
      "unat (gs_size st') \<le> unat (gs_size (ib_store b)) + (\<Sum>c \<leftarrow> ib_pending b. length (snd c))" by blast
  with assms(4) False have "r = Inr ()" "b' = b\<lparr>ib_pending := [], ib_store := st', ib_flushes := Suc (ib_flushes b)\<rparr>"
    by (simp_all add: flush_pending_def Let_def)
  with st' assms(3) show ?thesis by (simp add: idc_view_def idc_room_def)
qed

lemma idc_sink_live:
  assumes "\<And>n. env_live (envs n)" "store_inv (ib_store b)" "idc_room L (Suc n) b" "length x \<le> L" "idc_sink envs h x b = (r, b')"
  shows "r = Inr () \<and> store_inv (ib_store b') \<and> idc_room L n b' \<and> idc_view b' = [h \<mapsto> x] ++ idc_view b"
proof -
  let ?b = "b\<lparr>ib_pending := ib_pending b @ [(h, x)]\<rparr>"
  have inv: "store_inv (ib_store ?b)" using assms(2) by simp
  have room: "idc_room L n ?b" using assms(3,4) by (simp add: idc_room_def)
  have view: "idc_view ?b = [h \<mapsto> x] ++ idc_view b" by (simp add: idc_view_def map_of_append map_add_assoc)
  obtain a b2 where f: "flush_pending envs ?b = (a, b2)" by fastforce
  note live = flush_live [OF assms(1) inv room f]
  show ?thesis
  proof (cases "IDC_BATCH_SIZE \<le> length (ib_pending ?b)")
    case True
    with assms(5) f live have "r = Inr ()" "b' = b2" by (simp_all add: idc_sink_def Let_def)
    with live view show ?thesis by simp
  next
    case False
    with assms(5) have "r = Inr ()" "b' = ?b" by (simp_all add: idc_sink_def Let_def)
    with inv room view show ?thesis by simp
  qed
qed

lemma idc_delivers:
  assumes "\<And>n. env_live (envs n)"
  shows "delivers (idc_sink envs) b calls b' \<Longrightarrow> store_inv (ib_store b) \<Longrightarrow> idc_room L (length calls) b \<Longrightarrow>
    list_all (\<lambda>(h, x, t). length x \<le> L) calls \<Longrightarrow>
    store_inv (ib_store b') \<and> idc_room L 0 b' \<and> idc_view b \<subseteq>\<^sub>m idc_view b' \<and> dom (idc_view b') = dom (idc_view b) \<union> taken calls \<and>
    (\<forall>h x. idc_view b' h = Some x \<longrightarrow> idc_view b h = Some x \<or> (\<exists>t. (h, x, t) \<in> set calls))"
proof (induction rule: delivers.induct)
  case (took h x b u b1 calls b2)
  note live = idc_sink_live [OF assms took.prems(1) _ _ took.hyps(1), of L "length calls"]
  have one: "store_inv (ib_store b1)" "idc_room L (length calls) b1" "idc_view b1 = [h \<mapsto> x] ++ idc_view b"
    using live took.prems(2,3) by auto
  from took.IH [OF one(1,2)] took.prems(3)
  have IH: "store_inv (ib_store b2)" "idc_room L 0 b2" "idc_view b1 \<subseteq>\<^sub>m idc_view b2" "dom (idc_view b2) = dom (idc_view b1) \<union> taken calls"
    "\<And>h x. idc_view b2 h = Some x \<Longrightarrow> idc_view b1 h = Some x \<or> (\<exists>t. (h, x, t) \<in> set calls)" by auto
  have sub: "idc_view b \<subseteq>\<^sub>m idc_view b1" unfolding one(3) by (rule map_le_map_add)
  have "idc_view b k = Some y \<or> (\<exists>t. (k, y, t) \<in> set ((h, x, True) # calls))" if "idc_view b2 k = Some y" for k y
    using IH(5) [OF that] by (auto simp: one(3) map_add_def split: option.splits if_splits)
  with IH(1-4) map_le_trans [OF sub IH(3)] show ?case by (simp add: one(3))
next
  case (refused h x b e b1 calls b2)
  from idc_sink_live [OF assms refused.prems(1) _ _ refused.hyps(1), of L "length calls"] refused.prems(2,3) show ?case by auto
qed (simp add: map_le_refl)

lemma not_contained_set:
  "not_contained envs st hs = Inr out \<Longrightarrow> set out = {h \<in> set hs. abs_store st h = None} \<and> length out \<le> length hs"
proof (induction hs arbitrary: envs out)
  case (Cons h hs)
  then obtain found out' where f: "store_contains (envs 0) st h = Inr found" "not_contained (\<lambda>i. envs (Suc i)) st hs = Inr out'"
    "out = (if found then out' else h # out')"
    by (cases "store_contains (envs 0) st h"; cases "not_contained (\<lambda>i. envs (Suc i)) st hs") auto
  have "found \<longleftrightarrow> abs_store st h \<noteq> None"
    using f(1) by (auto simp: store_contains_def abs_store_def split: if_splits option.splits)
  with Cons.IH [OF f(2)] f(3) show ?case by auto
qed simp

section \<open>What the scheduler learns\<close>

context control_link
begin

lemma plan_round_frame:
  "plan_round cl ps relay g ex hs pl s = (r, s') \<Longrightarrow> valid s \<Longrightarrow>
     valid s' \<and> holds s' = holds s \<and> stat s' = stat s \<and> ver s' = ver s"
proof (induction hs arbitrary: pl s)
  case (Cons h hs)
  obtain a s1 where q: "cc_query_peers cl g h 5 s = (a, s1)" by fastforce
  note fr = query_peers_frame [OF Cons.prems(2) q]
  consider "s' = s1" | pl1 where "plan_round cl ps relay g ex hs pl1 s1 = (r, s')"
    using Cons.prems(1) q by (auto simp: Let_def split: sum.splits if_splits)
  then show ?case
  proof cases
    case 2
    from Cons.IH [OF this] fr show ?thesis by simp
  qed (use fr in simp)
qed simp

lemma rounds_frame:
  "rounds blake3 cl ps relay g sink ts ex hs d s = (r, d', s') \<Longrightarrow> valid s \<Longrightarrow>
     valid s' \<and> holds s' = holds s \<and> stat s' = stat s \<and> ver s' = ver s"
proof (induction ts arbitrary: ex hs d s)
  case (Cons t ts)
  obtain a s1 where p: "plan_round cl ps relay g ex hs \<lparr>rp_groups = [], rp_index = Map.empty, rp_next = []\<rparr> s = (a, s1)" by fastforce
  note fr = plan_round_frame [OF p Cons.prems(2)]
  consider "s' = s" | "s' = s1" | ex1 nx1 d1 where "rounds blake3 cl ps relay g sink ts ex1 nx1 d1 s1 = (r, d', s')"
    using Cons.prems(1) p by (auto split: sum.splits if_splits prod.splits)
  then show ?case
  proof cases
    case 3
    from Cons.IH [OF this] fr show ?thesis by simp
  qed (use fr Cons.prems(2) in simp_all)
qed simp

lemma download_frame:
  assumes "download_missing blake3 cl de config g missing assigned sink d s = (r, d', s')" "valid s"
  shows "valid s' \<and> holds s' = holds s \<and> stat s' = stat s \<and> ver s' = ver s"
proof -
  obtain a dl s1 where p: "rounds blake3 cl (de_parsers de) (ag_relay_url config) g (logged sink) [de_turn de 0, de_turn de 1] {} missing (d, []) s = (a, dl, s1)"
    by (metis prod_cases3)
  have "s' = s \<or> s' = s1" using assms(1) p by (auto simp: download_missing_def split: sum.splits if_splits prod.splits)
  with rounds_frame [OF p assms(2)] assms(2) show ?thesis by auto
qed

lemma report_chunks_spec:
  "report_chunks cl n g hs s = (r, s') \<Longrightarrow> valid s \<Longrightarrow>
     valid s' \<and> stat s' = stat s \<and> ver s' = ver s \<and> (\<forall>g' h'. holds s g' h' \<subseteq> holds s' g' h') \<and>
     (r = Inr () \<longrightarrow> (\<forall>h \<in> set hs. n \<in> holds s' g h))"
proof (induction hs arbitrary: s)
  case (Cons h hs)
  obtain a s1 where q: "cc_report_chunk cl n g h s = (a, s1)" by fastforce
  note fr = report_chunk_valid [OF Cons.prems(2) q] report_chunk_mono [OF Cons.prems(2) q] report_chunk_frame [OF Cons.prems(2) q]
  show ?case
  proof (cases a)
    case (Inl e)
    with Cons.prems(1) q have "s' = s1" "r = Inl ReportChunkFailed" by auto
    with fr show ?thesis by simp
  next
    case (Inr u)
    with Cons.prems(1) q have run: "report_chunks cl n g hs s1 = (r, s')" by simp
    have "n \<in> holds s1 g h" using report_chunk_holds [OF Cons.prems(2) q [unfolded Inr]] by simp
    with Cons.IH [OF run fr(1)] fr show ?thesis by auto blast+
  qed
qed simp

lemma run_idc_frame:
  assumes "run_idc blake3 cl de ie task index x s = (r, x', s')" "valid s"
  shows "valid s' \<and> stat s' = stat s \<and> ver s' = ver s \<and> (\<forall>g h. holds s g h \<subseteq> holds s' g h) \<and>
    (r = Inr () \<longrightarrow> (\<forall>h \<in> chunk_set index. ex_node_id x \<in> holds s' (pt_game_id task) h))"
proof -
  let ?g = "pt_game_id task"
  consider "s' = s" "r \<noteq> Inr ()"
    | st missing a b s1 where "download_missing blake3 cl de (ex_config x) ?g (sort missing)
        (set (filter (\<lambda>v. length v = 32) (pt_assigned_chunks task))) (idc_sink (ie_flush ie)) \<lparr>ib_pending = [], ib_store = st, ib_flushes = 0\<rparr> s = (a, b, s1)"
        "s' = s1 \<and> r \<noteq> Inr () \<or> report_chunks cl (ex_node_id x) ?g (held_chunks index) s1 = (r, s')"
    using assms(1) by (auto simp: run_idc_def Let_def split: sum.splits prod.splits)
  then show ?thesis
  proof cases
    case (2 st missing a b s1)
    have fr: "valid s1" "holds s1 = holds s" "stat s1 = stat s" "ver s1 = ver s" using download_frame [OF 2(1) assms(2)] by auto
    have held: "set (held_chunks index) = chunk_set index" by (simp add: held_chunks_def chunk_set_def)
    from 2(2) fr report_chunks_spec [of "ex_node_id x" ?g "held_chunks index" s1 r s'] held show ?thesis by auto
  qed (use assms(2) in simp)
qed

end

text \<open>The pack library after a successful task, whatever the control plane does.\<close>

lemma run_idc_stores:
  assumes "env_gives blake3 (\<lambda>h y. blake3 y = h \<and> length y \<le> L) de" "lists_sets (ie_order ie)" "\<And>n. env_live (ie_flush ie n)"
    and "pack_entry (ie_open ie) g x = Inr st" "store_inv st" "\<And>h d. abs_store st h = Some d \<Longrightarrow> blake3 d = h"
    and "unat (gs_size st) + 3 * card (chunk_set index) * L < 2 ^ 32"
    and "run_idc blake3 cl de ie task index x s = (Inr (), x', s')" "g = pt_game_id task"
  shows "\<exists>st'. ex_pack_stores x' = (ex_pack_stores x)(g \<mapsto> st') \<and> store_inv st' \<and> abs_store st \<subseteq>\<^sub>m abs_store st' \<and>
    dom (abs_store st') = dom (abs_store st) \<union> chunk_set index \<and> (\<forall>h d. abs_store st' h = Some d \<longrightarrow> blake3 d = h)"
proof -
  let ?b = "\<lparr>ib_pending = [], ib_store = st, ib_flushes = 0\<rparr>"
  let ?hs = "ie_order ie (remdups (chunk_hashes index))"
  obtain missing where m: "not_contained (ie_contains ie) st ?hs = Inr missing"
    using assms(8) by (cases "not_contained (ie_contains ie) st ?hs") (simp_all add: run_idc_def Let_def assms(4) assms(9) [symmetric])
  let ?dl = "download_missing blake3 cl de (ex_config x) g (sort missing) (set (filter (\<lambda>v. length v = 32) (pt_assigned_chunks task)))
    (idc_sink (ie_flush ie)) ?b s"
  obtain a b s1 where d: "?dl = (a, b, s1)" by (metis prod_cases3)
  obtain f b1 where f: "flush_pending (ie_flush ie) b = (f, b1)" by fastforce
  have run: "\<exists>out. a = Inr out" "x' = put_pack g (ib_store b1) (put_pack g st x)"
    using assms(8) m d f by (auto simp: run_idc_def Let_def assms(4) assms(9) [symmetric] split: sum.splits prod.splits)
  from run(1) obtain out where out: "a = Inr out" ..
  have hs: "set ?hs = chunk_set index" "length ?hs = card (chunk_set index)"
    using assms(2) distinct_card [of ?hs] by (auto simp: lists_sets_def chunk_set_def)
  have miss: "set missing = {h \<in> chunk_set index. abs_store st h = None}" "length missing \<le> card (chunk_set index)"
    using not_contained_set [OF m] hs by auto
  from download_delivers [OF assms(1) d] out obtain calls where c: "delivers (idc_sink (ie_flush ie)) ?b calls b"
    "verified_calls (\<lambda>h y. blake3 y = h \<and> length y \<le> L) (set missing) calls" "length calls \<le> 3 * length missing" "taken calls = set missing"
    by auto
  have "length calls * L \<le> 3 * card (chunk_set index) * L" using c(3) miss(2) by (intro mult_le_mono1) simp
  then have "unat (gs_size st) + length calls * L < 2 ^ 32" using assms(7) by linarith
  then have room: "idc_room L (length calls) ?b" by (simp add: idc_room_def)
  have len: "list_all (\<lambda>(h, y, t). length y \<le> L) calls" using c(2) by (auto simp: verified_calls_def list_all_iff)
  have view: "idc_view ?b = abs_store st" by (simp add: idc_view_def)
  from idc_delivers [OF assms(3) c(1) _ room len] assms(5) view
  have b: "store_inv (ib_store b)" "idc_room L 0 b" "abs_store st \<subseteq>\<^sub>m idc_view b" "dom (idc_view b) = dom (abs_store st) \<union> taken calls"
    "\<And>h y. idc_view b h = Some y \<Longrightarrow> abs_store st h = Some y \<or> (\<exists>t. (h, y, t) \<in> set calls)" by auto
  have "abs_store (ib_store b1) = idc_view b" "store_inv (ib_store b1)"
    using flush_live [OF assms(3) b(1,2) f] by (auto simp: idc_view_def)
  moreover have "blake3 y = h" if "idc_view b h = Some y" for h y
    using b(5) [OF that] assms(6) c(2) by (auto simp: verified_calls_def list_all_iff)
  moreover have "dom (abs_store st) \<union> taken calls = dom (abs_store st) \<union> chunk_set index" using c(4) miss(1) by auto
  ultimately show ?thesis using b(3,4) run(2) by (intro exI [of _ "ib_store b1"]) (simp add: put_pack_def)
qed

text \<open>The files and the manifest after a successful cafe task.\<close>

lemma install_done:
  assumes "install blake3 cl ce task index old manifest c x s = (Inr (), x', s')" "decode blake3 manifest = Inr index"
    and "\<And>i. compio_ok (mi_cx (fe_ios ce i))" "names_apart index old" "lists_sets (fe_order ce)" "disk_ok blake3 old (cf_game (cs_fs c))"
  shows "\<exists>c'. ex_cafe_stores x' = (ex_cafe_stores x)(pt_game_id task \<mapsto> c') \<and> cs_current c' = Some (build_map index) \<and>
    current_version False (cs_fs c') = Inr (Some (pt_version task)) \<and>
    cf_manifests (cs_fs c') (manifest_name (pt_version task)) = Some manifest \<and>
    (\<forall>e \<in> set (gi_files index). \<exists>d. cf_game (cs_fs c') (fe_name e) = Some d \<and> blake3 d = fe_hash e) \<and>
    (\<forall>n \<in> set (old_names old) - fe_name ` set (gi_files index). cf_game (cs_fs c') n = None) \<and>
    ex_data_stores x' = ex_data_stores x \<and> report_chunks cl (ex_node_id x) (pt_game_id task) (held_chunks index) s = (Inr (), s')"
proof -
  obtain r game1 where m: "merge_files blake3 (fe_ios ce) (fe_fails ce) (fe_order ce) index old (cf_temp (cs_fs c)) (cf_game (cs_fs c)) = (r, game1)"
    by fastforce
  let ?c = "c\<lparr>cs_fs := (cs_fs c)\<lparr>cf_game := game1\<rparr>\<rparr>"
  obtain a c2 where sv: "save_manifest blake3 (fe_save ce) (fe_left ce) (pt_version task) manifest ?c = (a, c2)" by fastforce
  from assms(1) m sv obtain sm u where ok: "r = Inr sm" "ms_failed sm = []" "a = Inr u" "x' = put_cafe (pt_game_id task) c2 x"
    "report_chunks cl (ex_node_id x) (pt_game_id task) (held_chunks index) s = (Inr (), s')"
    by (auto simp: install_def Let_def split: sum.splits if_splits prod.splits)
  from save_manifest_saved [OF sv [unfolded ok(3)] assms(2)] merge_files_spec [OF assms(3-5) m] ok assms(6)
  show ?thesis by (auto simp: put_cafe_def)
qed

lemma run_cafe_install:
  assumes "run_cafe blake3 cl de ce task index manifest x s = (Inr (), x', s')" "cafe_entry blake3 (fe_open ce) (pt_game_id task) x = Inr c"
    and "current_manifest_bytes (fe_read ce) (cs_fs c) = Inr old_bytes" "decode_old blake3 old_bytes = Inr old"
  obtains out temp1 n s1 temp_set x2 where
    "download_missing blake3 cl de (ex_config x) (pt_game_id task) (wanted_chunks index old temp_set (cf_game (cs_fs c))) {} (temp_sink ce)
       (cf_temp (cs_fs c), 0) s = (Inr out, (temp1, n), s1)"
    "install blake3 cl ce task index old manifest (c\<lparr>cs_fs := (cs_fs c)\<lparr>cf_temp := temp1\<rparr>\<rparr>) x2 s1 = (Inr (), x', s')"
    "ex_node_id x2 = ex_node_id x" "ex_data_stores x2 (pt_game_id task) \<noteq> None" "ex_cafe_stores x2 = (ex_cafe_stores x)(pt_game_id task \<mapsto> c)"
    "collect_temp_hashes (fe_ls ce (cf_temp (cs_fs c))) = Inr temp_set"
proof -
  let ?x1 = "put_cafe (pt_game_id task) c x"
  let ?x2 = "?x1\<lparr>ex_data_stores := or_insert (pt_game_id task) (CafeSource (pt_game_id task)) (ex_data_stores ?x1)\<rparr>"
  obtain temp_set where t: "collect_temp_hashes (fe_ls ce (cf_temp (cs_fs c))) = Inr temp_set"
    using assms by (auto simp: run_cafe_def Let_def split: sum.splits if_splits)
  obtain r temp1 n s1 where d: "download_missing blake3 cl de (ex_config x) (pt_game_id task) (wanted_chunks index old temp_set (cf_game (cs_fs c))) {} (temp_sink ce)
       (cf_temp (cs_fs c), 0) s = (r, (temp1, n), s1)" by (metis surj_pair)
  have run: "fe_mkdir ce" "(case r of Inl e \<Rightarrow> (Inl e, put_cafe (pt_game_id task) (c\<lparr>cs_fs := (cs_fs c)\<lparr>cf_temp := temp1\<rparr>\<rparr>) ?x2, s1)
    | Inr _ \<Rightarrow> install blake3 cl ce task index old manifest (c\<lparr>cs_fs := (cs_fs c)\<lparr>cf_temp := temp1\<rparr>\<rparr>) ?x2 s1) = (Inr (), x', s')"
    using assms t d by (auto simp: run_cafe_def Let_def split: if_splits)
  then obtain out where "r = Inr out" by (cases r) auto
  with run d t or_insert_at [of "pt_game_id task" "CafeSource (pt_game_id task)" "ex_data_stores ?x1"] that [of temp_set out temp1 n s1 ?x2]
  show ?thesis by (simp add: put_cafe_def)
qed

end
