(* ===== verification/Executor_Spec.thy ===== *)
theory Executor_Spec
  imports Executor_Runs
begin

text \<open>
  The properties of the executor, over the scheduler's own handlers as the other side of the
  control client.
\<close>

section \<open>Frames\<close>

text \<open>The manifest of a task's version, if the scheduler has it and it decodes.\<close>

definition usable_version :: "(bytes \<Rightarrow> bytes) \<Rightarrow> (u64 \<Rightarrow> u64 \<Rightarrow> bytes option) \<Rightarrow> proto_task \<Rightarrow> game_index option" where
  "usable_version blake3 ver task =
     (case ver (pt_game_id task) (pt_version task) of
        None \<Rightarrow> None | Some m \<Rightarrow> (case decode blake3 m of Inl _ \<Rightarrow> None | Inr index \<Rightarrow> Some index))"

text \<open>From \<open>a\<close> to \<open>b\<close> only the status of task \<open>t\<close> changes, and the ledger grows.\<close>

definition only_reports ::
    "u64 \<Rightarrow> (u64 \<Rightarrow> (string \<times> string) option) \<times> (u64 \<Rightarrow> u64 \<Rightarrow> bytes option) \<times> (u64 \<Rightarrow> bytes \<Rightarrow> u64 set) \<Rightarrow>
     (u64 \<Rightarrow> (string \<times> string) option) \<times> (u64 \<Rightarrow> u64 \<Rightarrow> bytes option) \<times> (u64 \<Rightarrow> bytes \<Rightarrow> u64 set) \<Rightarrow> bool" where
  "only_reports t a b \<longleftrightarrow> (case (a, b) of ((stat, ver, holds), (stat', ver', holds')) \<Rightarrow>
     (\<forall>t'. t' \<noteq> t \<longrightarrow> stat' t' = stat t') \<and> ver' = ver \<and> (\<forall>g h. holds g h \<subseteq> holds' g h))"

lemma only_reports_trans: "only_reports t a b \<Longrightarrow> only_reports t b c \<Longrightarrow> only_reports t a c"
  by (auto simp: only_reports_def split: prod.splits) blast

context control_link
begin

lemma install_frame:
  assumes "install blake3 cl ce task index old manifest c x s = (r, x', s')" "valid s"
  shows "valid s' \<and> stat s' = stat s \<and> ver s' = ver s \<and> (\<forall>g h. holds s g h \<subseteq> holds s' g h) \<and>
    (r = Inr () \<longrightarrow> (\<forall>h \<in> chunk_set index. ex_node_id x \<in> holds s' (pt_game_id task) h))"
proof -
  have held: "set (held_chunks index) = chunk_set index" by (simp add: held_chunks_def chunk_set_def)
  have "s' = s \<and> r \<noteq> Inr () \<or> report_chunks cl (ex_node_id x) (pt_game_id task) (held_chunks index) s = (r, s')"
    using assms(1) by (auto simp: install_def Let_def split: sum.splits prod.splits if_splits)
  with report_chunks_spec [of "ex_node_id x" "pt_game_id task" "held_chunks index" s r s'] assms(2) held show ?thesis by auto
qed

lemma run_cafe_frame:
  assumes "run_cafe blake3 cl de ce task index manifest x s = (r, x', s')" "valid s"
  shows "valid s' \<and> stat s' = stat s \<and> ver s' = ver s \<and> (\<forall>g h. holds s g h \<subseteq> holds s' g h) \<and>
    (r = Inr () \<longrightarrow> (\<forall>h \<in> chunk_set index. ex_node_id x \<in> holds s' (pt_game_id task) h))"
proof -
  consider "s' = s" "r \<noteq> Inr ()"
    | want temp a t s1 where "download_missing blake3 cl de (ex_config x) (pt_game_id task) want {} (temp_sink ce) temp s = (a, t, s1)"
        "s' = s1" "r \<noteq> Inr ()"
    | want temp a t s1 old c x2 where "download_missing blake3 cl de (ex_config x) (pt_game_id task) want {} (temp_sink ce) temp s = (a, t, s1)"
        "install blake3 cl ce task index old manifest c x2 s1 = (r, x', s')" "ex_node_id x2 = ex_node_id x"
    using assms(1) by (auto simp: run_cafe_def Let_def put_cafe_def split: sum.splits prod.splits if_splits)
  then show ?thesis
  proof cases
    case 2
    with download_frame [OF 2(1) assms(2)] show ?thesis by simp
  next
    case 3
    from download_frame [OF 3(1) assms(2)] install_frame [OF 3(2)] 3(3) show ?thesis by auto
  qed (use assms(2) in simp)
qed

lemma report_status:
  assumes "valid s" "stat s t \<noteq> None" "ctl_report_task cl n t w e s = (r, s')"
  shows "valid s' \<and> holds s' = holds s \<and> ver s' = ver s \<and> (\<forall>t'. t' \<noteq> t \<longrightarrow> stat s' t' = stat s t') \<and> stat s' t \<noteq> None \<and>
    (stat s' t = stat s t \<or> stat s' t = Some (w, e)) \<and> (r = Inr () \<longrightarrow> stat s' t = Some (w, e))"
proof -
  obtain a s1 where a: "cc_report_task cl n t w e s = (a, s1)" by fastforce
  with assms(3) have s: "s' = s1" "r = Inr () \<longrightarrow> a = Inr ()" by (auto simp: ctl_report_task_def split: sum.splits)
  from report_task_valid [OF assms(1) a] report_task_frame [OF assms(1) a] report_task_stat [OF assms(1) _ assms(2), of n w e "()" s1] a assms(2) s
  show ?thesis by auto
qed

lemma version_frame:
  assumes "valid s" "ctl_get_version cl g v s = (r, s')"
  shows "valid s' \<and> holds s' = holds s \<and> stat s' = stat s \<and> ver s' = ver s \<and> (\<forall>m. r = Inr m \<longrightarrow> ver s g v = m)"
proof -
  obtain a s1 where a: "cc_get_version cl g v s = (a, s1)" by fastforce
  with assms get_version_frame [OF assms(1) a] get_version_ver [OF assms(1), of g v _ s1] show ?thesis
    by (auto simp: ctl_get_version_def split: sum.splits)
qed

text \<open>The status of the task and the ledger after a run.\<close>

lemma after_run:
  assumes "valid s2" "stat s2 t \<noteq> None" "t = pt_id task"
    and "(case ag_node_type (ex_config x) of Idc \<Rightarrow> run_idc blake3 cl de ie task index x s2
        | Cafe \<Rightarrow> run_cafe blake3 cl de ce task index m x s2) = (c, x1, s3)"
    and "ctl_report_task cl (ex_node_id x) t w e s3 = (d, s4)"
  shows "only_reports t (stat s2, ver s2, holds s2) (stat s4, ver s4, holds s4) \<and>
    (c = Inr () \<and> d = Inr () \<longrightarrow> stat s4 t = Some (w, e) \<and> (\<forall>h \<in> chunk_set index. ex_node_id x \<in> holds s4 (pt_game_id task) h))"
proof -
  have rc: "valid s3 \<and> stat s3 = stat s2 \<and> ver s3 = ver s2 \<and> (\<forall>g h. holds s2 g h \<subseteq> holds s3 g h) \<and>
    (c = Inr () \<longrightarrow> (\<forall>h \<in> chunk_set index. ex_node_id x \<in> holds s3 (pt_game_id task) h))"
    using run_idc_frame [OF _ assms(1), of blake3 de ie task index x c x1 s3]
      run_cafe_frame [OF _ assms(1), of blake3 de ce task index m x c x1 s3] assms(4)
    by (cases "ag_node_type (ex_config x)") simp_all
  then have "valid s3" "stat s3 t \<noteq> None" using assms(2) by simp_all
  from report_status [OF this assms(5)] rc show ?thesis by (auto simp: only_reports_def)
qed

lemma before_run:
  assumes "valid s" "stat s t \<noteq> None" "ctl_report_task cl n t ''running'' '''' s = (a, s1)" "ctl_get_version cl g v s1 = (b, s2)"
  shows "valid s1 \<and> stat s1 t \<in> {stat s t, Some (''running'', '''')} \<and> only_reports t (stat s, ver s, holds s) (stat s1, ver s1, holds s1) \<and>
    valid s2 \<and> stat s2 t \<noteq> None \<and> stat s2 t \<in> {stat s t, Some (''running'', '''')} \<and>
    only_reports t (stat s, ver s, holds s) (stat s2, ver s2, holds s2) \<and> (\<forall>m. b = Inr m \<longrightarrow> ver s g v = m)"
proof -
  note ra = report_status [OF assms(1-3)]
  then have "valid s1" by blast
  from version_frame [OF this assms(4)] ra show ?thesis by (auto simp: only_reports_def)
qed

text \<open>A task that succeeds has run on a manifest the scheduler has.\<close>

lemma run_task_done:
  assumes "valid s" "run_task blake3 show_err cl attempt de ie ce task x s = (Inr (), x', s')"
  obtains manifest index s2 s3 where "ver s (pt_game_id task) (pt_version task) = Some manifest" "decode blake3 manifest = Inr index" "valid s2"
    "(case ag_node_type (ex_config x) of Idc \<Rightarrow> run_idc blake3 cl de ie task index x s2
        | Cafe \<Rightarrow> run_cafe blake3 cl de ce task index manifest x s2) = (Inr (), x', s3)"
proof -
  obtain a s1 where a: "ctl_report_task cl (ex_node_id x) (pt_id task) ''running'' '''' s = (a, s1)" by fastforce
  obtain b s2 where b: "ctl_get_version cl (pt_game_id task) (pt_version task) s1 = (b, s2)" by fastforce
  obtain q s1' where q: "cc_report_task cl (ex_node_id x) (pt_id task) ''running'' '''' s = (q, s1')" by fastforce
  with a have "s1 = s1'" by (auto simp: ctl_report_task_def split: sum.splits)
  with report_task_valid [OF assms(1) q] report_task_frame [OF assms(1) q] have s1: "valid s1" "ver s1 = ver s" by simp_all
  from assms(2) a b obtain m index s3 where run: "b = Inr (Some m)" "decode blake3 m = Inr index"
    "(case ag_node_type (ex_config x) of Idc \<Rightarrow> run_idc blake3 cl de ie task index x s2
        | Cafe \<Rightarrow> run_cafe blake3 cl de ce task index m x s2) = (Inr (), x', s3)"
    by (auto simp: run_task_def split: option.splits sum.splits prod.splits)
  from version_frame [OF s1(1) b] run s1(2) show ?thesis by (intro that [of m index s2 s3]) simp_all
qed

lemma run_task_reports:
  assumes "valid s" "stat s (pt_id task) \<noteq> None" "run_task blake3 show_err cl attempt de ie ce task x s = (r, x', s')"
  shows "only_reports (pt_id task) (stat s, ver s, holds s) (stat s', ver s', holds s') \<and>
    (r = Inr () \<longrightarrow> stat s' (pt_id task) = Some (''done'', '''') \<and>
       (\<exists>index. usable_version blake3 (ver s) task = Some index \<and> (\<forall>h \<in> chunk_set index. ex_node_id x \<in> holds s' (pt_game_id task) h))) \<and>
    (usable_version blake3 (ver s) task = None \<longrightarrow> r \<noteq> Inr () \<and> stat s' (pt_id task) \<in> {stat s (pt_id task), Some (''running'', '''')})"
proof (cases "ag_control_addr (ex_config x) = None \<or> (\<exists>e. ctl_connect attempt = Inl e)")
  case True
  with assms(3) have "s' = s" "r \<noteq> Inr ()" by (auto simp: run_task_def split: option.splits)
  then show ?thesis by (simp add: only_reports_def)
next
  case False
  let ?t = "pt_id task"
  obtain a s1 where a: "ctl_report_task cl (ex_node_id x) ?t ''running'' '''' s = (a, s1)" by fastforce
  obtain b s2 where b: "ctl_get_version cl (pt_game_id task) (pt_version task) s1 = (b, s2)" by fastforce
  note pre = before_run [OF assms(1,2) a b]
  consider "(\<exists>e. a = Inl e) \<or> (\<exists>e. b = Inl e) \<or> b = Inr None \<or> (\<exists>m e. b = Inr (Some m) \<and> decode blake3 m = Inl e)"
    | u m index where "a = Inr u" "b = Inr (Some m)" "decode blake3 m = Inr index"
    by (metis option.exhaust sum.exhaust)
  then show ?thesis
  proof cases
    case 1
    with assms(3) False a b have "(s' = s1 \<or> s' = s2) \<and> r \<noteq> Inr ()" by (auto simp: run_task_def split: option.splits sum.splits)
    with pre show ?thesis by auto
  next
    case (2 u m index)
    have usable: "usable_version blake3 (ver s) task = Some index" using 2 pre by (simp add: usable_version_def)
    obtain c x1 s3 where c: "(case ag_node_type (ex_config x) of Idc \<Rightarrow> run_idc blake3 cl de ie task index x s2
      | Cafe \<Rightarrow> run_cafe blake3 cl de ce task index m x s2) = (c, x1, s3)" by (metis prod_cases3)
    define w e where "w = (if c = Inr () then ''done'' else ''failed'')" and "e = (case c of Inl err \<Rightarrow> show_err err | Inr _ \<Rightarrow> '''')"
    obtain d s4 where rep: "ctl_report_task cl (ex_node_id x) ?t w e s3 = (d, s4)" by (metis surj_pair)
    obtain addr where go: "ag_control_addr (ex_config x) = Some addr" "ctl_connect attempt = Inr ()"
      using False by (cases "ctl_connect attempt") auto
    have s': "s' = s4" "r = Inr () \<longrightarrow> c = Inr () \<and> d = Inr ()"
    proof -
      note run = assms(3) [unfolded run_task_def go a b 2 option.case sum.case prod.case c]
      show "s' = s4" using run rep by (cases c; cases d) (simp_all add: w_def e_def)
      show "r = Inr () \<longrightarrow> c = Inr () \<and> d = Inr ()" using run rep by (cases c; cases d) (auto simp: w_def e_def)
    qed
    have "valid s2" "stat s2 ?t \<noteq> None" using pre by blast+
    from after_run [OF this refl c rep] have post: "only_reports ?t (stat s2, ver s2, holds s2) (stat s', ver s', holds s')"
      "r = Inr () \<Longrightarrow> stat s' ?t = Some (w, e) \<and> (\<forall>h \<in> chunk_set index. ex_node_id x \<in> holds s' (pt_game_id task) h)"
      using s' by auto
    have "only_reports ?t (stat s, ver s, holds s) (stat s', ver s', holds s')"
      using pre post(1) only_reports_trans by blast
    with usable s'(2) post(2) show ?thesis by (auto simp: w_def e_def)
  qed
qed

end

section \<open>Downloads\<close>

text \<open>
  C3. A download is a sequence of verified deliveries. Whatever the peers answer, however the
  concurrent downloads interleave and whichever of them fail, what \<open>download_missing\<close> does to
  its sink is a sequence of calls with chunks that were asked for and have the digest they were
  asked under, at most three for each missing chunk; and when it succeeds, the sink has taken
  every missing chunk and the returned list names exactly these.
\<close>

theorem download_complete:
  assumes "fair_turn (de_turn de 0)" and "fair_turn (de_turn de 1)"
    and "download_missing blake3 cl de config g missing assigned sink d s = (r, d', s')"
  shows "\<exists>calls. delivers sink d calls d' \<and> list_all (\<lambda>(h, y, took). blake3 y = h \<and> h \<in> set missing) calls \<and>
    length calls \<le> 3 * length missing \<and>
    (\<forall>out. r = Inr out \<longrightarrow> set out = set missing \<and> (\<forall>h \<in> set missing. \<exists>y. (h, y, True) \<in> set calls))"
proof -
  have "env_gives blake3 (\<lambda>h y. blake3 y = h) de"
    using assms(1,2) by (simp add: env_gives_def turn_gives_def net_gives_def)
  from download_delivers [OF this assms(3)] show ?thesis by (auto simp: verified_calls_def taken_def)
qed

text \<open>A client that knows no peers, and an origin that answers with one chunk.\<close>

definition lone_client :: "unit control_client" where
  "lone_client = \<lparr>cc_register = (\<lambda>q s. (Inl (), s)), cc_heartbeat = (\<lambda>n s. (Inl (), s)), cc_report_task = (\<lambda>n t w e s. (Inr (), s)),
     cc_report_chunk = (\<lambda>n g h s. (Inr (), s)), cc_query_peers = (\<lambda>g h l s. (Inr [], s)),
     cc_get_version = (\<lambda>g v s. (Inl (), s))\<rparr>"

definition origin_net :: "bytes \<Rightarrow> net" where
  "origin_net x = \<lparr>nt_direct = (\<lambda>t a. True), nt_relay = (\<lambda>t a. False), nt_url = (\<lambda>u. True), nt_opened = (\<lambda>t. True),
     nt_exchange = (\<lambda>t req. reply_frame x)\<rparr>"

definition lone_env :: "bytes \<Rightarrow> dl_env" where
  "lone_env x = \<lparr>de_parsers = \<lparr>dp_parse_ep = Some, dp_parse_addr = Some\<rparr>, de_endpoint = True,
     de_turn = (\<lambda>i. \<lparr>tn_net = origin_net x, tn_sched = [], tn_join = (\<lambda>js. js)\<rparr>), de_origin = origin_net x\<rparr>"

definition lone_config :: "node_type \<Rightarrow> agent_config" where
  "lone_config nt = (agent_fill demo_agent_raw)\<lparr>ag_node_type := nt, ag_origin_endpoint := Some ''e'', ag_origin_addr := Some ''a'',
     ag_control_addr := Some ''c''\<rparr>"

lemma lone_fair: "fair_turn (de_turn (lone_env x) i)"
  by (simp add: lone_env_def fair_turn_def)

lemma lone_download:
  assumes "length x < 2 ^ 32" "blake3 x = h" "sink h x d = (Inr u, d')" "cc_query_peers cl g h 5 s = (Inr [], s1)" "h \<in> assigned"
  shows "download_missing blake3 cl (lone_env x) (lone_config nt) g [h] assigned sink d s = (Inr [h], d', s1)"
proof -
  have len: "unat (word_of_nat (length x) :: u32) = length x" using assms(1) by (simp add: unat_of_nat)
  have rx: "read_exact (length x) x = Inr (x, [])" by (simp add: read_exact_def)
  show ?thesis
    using assms(2-) len rx
    by (simp add: download_missing_def lone_env_def lone_config_def origin_target_def candidates_def from_origin_def
        fetch_from_def fetch_chunks_def connect_peer_def origin_net_def reply_frame_def Let_def store_chunk_def logged_def stats_default_def)
qed

theorem download_complete_witness:
  "\<exists>calls. delivers (record_sink (\<lambda>h y. True)) [] calls [(demo_hash 1, [7])] \<and> (\<exists>y. (demo_hash 1, y, True) \<in> set calls)"
proof -
  have run: "download_missing (\<lambda>d. demo_hash 1) lone_client (lone_env [7]) (lone_config Idc) 5 [demo_hash 1] {demo_hash 1}
    (\<lambda>h y d. (Inr (), d @ [(h, y)])) [] () = (Inr [demo_hash 1], [(demo_hash 1, [7])], ())"
    by (rule lone_download) (simp_all add: lone_client_def)
  have "delivers (record_sink (\<lambda>h y. True)) d calls d'" if "delivers (\<lambda>h y d. (Inr () :: sink_error + unit, d @ [(h, y)])) d calls d'" for d calls d'
    using that by (induction rule: delivers.induct) (auto intro!: delivers.intros simp: record_sink_def)
  with download_complete [OF lone_fair lone_fair run] show ?thesis by fastforce
qed

section \<open>IDC tasks\<close>


definition calm_calls :: call_env where
  "calm_calls = \<lparr>ca_lost = (\<lambda>n. False), ca_reply_lost = (\<lambda>n. False), ca_flt = (\<lambda>n i. False), ca_now = (\<lambda>n i. 0)\<rparr>"

definition one_chunk :: game_index where
  "one_chunk = build (\<lambda>d. demo_hash 1) [one_file ''a'' (\<lambda>d. demo_hash 1) [[7]]]"

definition lone_executor :: "node_type \<Rightarrow> executor" where
  "lone_executor nt = \<lparr>ex_config = lone_config nt, ex_node_id = 3, ex_data_stores = Map.empty, ex_pack_stores = Map.empty,
     ex_pack_disk = (\<lambda>g. empty_disk), ex_cafe_stores = Map.empty,
     ex_cafe_disk = (\<lambda>g. \<lparr>cf_game = Map.empty, cf_temp = Map.empty, cf_manifests = Map.empty\<rparr>)\<rparr>"

definition lone_task :: proto_task where
  "lone_task = \<lparr>pt_id = 1, pt_game_id = 5, pt_version = 1, pt_kind = 0, pt_assigned_chunks = [demo_hash 1]\<rparr>"

definition lone_idc :: idc_env where
  "lone_idc = \<lparr>ie_open = env_std, ie_contains = (\<lambda>n. env_std), ie_flush = (\<lambda>n. env_std), ie_order = (\<lambda>hs. hs)\<rparr>"

lemma quiet_peers: "cc_query_peers (sched_client json_serde calm_calls) g h l (demo_control, n) = (Inr [], (demo_control, Suc n))"
  by (simp add: sched_client_def rpc_def calm_calls_def query_peers_def chunk_holders_def demo_control_def with_events_def ensure_tables_def)

lemma quiet_report: "\<exists>s'. cc_report_chunk (sched_client json_serde calm_calls) k g h (demo_control, n) = (Inr (), s')"
  by (simp add: sched_client_def rpc_def calm_calls_def report_chunk_def record_chunk_holder_def demo_control_def with_events_def ensure_tables_def)

lemma one_chunk_simps [simp]: "chunk_hashes one_chunk = [demo_hash 1]" "chunk_set one_chunk = {demo_hash 1}"
  by (simp_all add: one_chunk_def chunk_set_def chunk_hashes_def build_def)

lemma lone_idc_run:
  "\<exists>x' s'. run_idc (\<lambda>d. demo_hash 1) (sched_client json_serde calm_calls) (lone_env [7]) lone_idc lone_task one_chunk (lone_executor Idc)
     (demo_control, 0) = (Inr (), x', s')"
proof -
  let ?b = "\<lparr>ib_pending = [], ib_store = demo_store 5, ib_flushes = 0\<rparr>"
  let ?b1 = "\<lparr>ib_pending = [(demo_hash 1, [7])], ib_store = demo_store 5, ib_flushes = 0\<rparr>"
  have sink: "idc_sink (\<lambda>n. env_std) (demo_hash 1) [7] ?b = (Inr (), ?b1)" by (simp add: idc_sink_def IDC_BATCH_SIZE_def)
  have dl: "download_missing (\<lambda>d. demo_hash 1) (sched_client json_serde calm_calls) (lone_env [7]) (lone_config Idc) 5 [demo_hash 1] {demo_hash 1}
    (idc_sink (\<lambda>n. env_std)) ?b (demo_control, 0) = (Inr [demo_hash 1], ?b1, (demo_control, Suc 0))"
    by (rule lone_download) (simp_all add: sink quiet_peers)
  have inv: "store_inv (ib_store ?b1)" using store_open_empty [OF demo_open] by simp
  have room: "idc_room 1 0 ?b1" by (simp add: idc_room_def demo_store_def)
  obtain a b2 where f: "flush_pending (\<lambda>n. env_std) ?b1 = (a, b2)" by fastforce
  have a: "a = Inr ()" using flush_live [OF env_std_live inv room f] by simp
  obtain s' where rep: "cc_report_chunk (sched_client json_serde calm_calls) 3 5 (demo_hash 1) (demo_control, Suc 0) = (Inr (), s')"
    using quiet_report by blast
  have "not_contained (\<lambda>n. env_std) (demo_store 5) [demo_hash 1] = Inr [demo_hash 1]"
    by (simp add: store_contains_def demo_store_def env_std_def)
  with dl f a rep show ?thesis
    by (simp add: run_idc_def lone_executor_def lone_task_def lone_idc_def pack_entry_def demo_open held_chunks_def Let_def demo_hash_def)
qed


text \<open>
  A failed flush loses the whole buffer. The buffer is emptied before its batch is written,
  so when the write of a full batch fails, only the last delivery is refused; the 63 chunks before
  it, which the sink took and the downloads counted, are neither buffered nor stored. Delivering
  the refused chunk again succeeds and flushes it alone: every chunk has been taken, and none but
  the last is in the library.
\<close>

theorem failed_flush_loses_batch:
  assumes "store_inv st" and "env_live (envs 1)" and "append_chunks_batch (envs 0) (cs @ [(h, x)]) st = (Inl e, st0)"
    and "length cs = 63" and "unat (gs_size st) + (\<Sum>c \<leftarrow> cs @ [(h, x)]. length (snd c)) < 2 ^ 32" and "unat (gs_size st0) + length x < 2 ^ 32"
  shows "\<exists>b b'. delivers (idc_sink envs) \<lparr>ib_pending = [], ib_store = st, ib_flushes = 0\<rparr>
      (map (\<lambda>(h, y). (h, y, True)) cs @ [(h, x, False), (h, x, True)]) b \<and>
    flush_pending envs b = (Inr (), b') \<and> abs_store (ib_store b') = [h \<mapsto> x] ++ abs_store st"
proof -
  let ?b = "\<lambda>p st n. \<lparr>ib_pending = p, ib_store = st, ib_flushes = n\<rparr>"
  have fill: "delivers (idc_sink envs) (?b p st 0) (map (\<lambda>(h, y). (h, y, True)) cs) (?b (p @ cs) st 0)" if "length p + length cs \<le> 63" for p cs
    using that
  proof (induction cs arbitrary: p)
    case (Cons c cs)
    obtain k y where c: "c = (k, y)" by (cases c)
    have "idc_sink envs k y (?b p st 0) = (Inr (), ?b (p @ [c]) st 0)" using Cons.prems by (simp add: idc_sink_def IDC_BATCH_SIZE_def c)
    moreover have "delivers (idc_sink envs) (?b (p @ [c]) st 0) (map (\<lambda>(h, y). (h, y, True)) cs) (?b ((p @ [c]) @ cs) st 0)"
      by (rule Cons.IH) (use Cons.prems in simp)
    ultimately show ?case by (auto simp: c intro: delivers.took)
  qed (simp add: delivers.none)
  have st0: "store_ok st0" "abs_store st0 = abs_store st" "gs_path st0 = gs_path st"
    using append_chunks_batch_outcome [OF _ assms(5,3)] assms(1) by (auto simp: store_inv_def)
  have inv0: "store_inv st0" using st0 assms(1) by (simp add: store_inv_def)
  have bad: "idc_sink envs h x (?b cs st 0) = (Inl (FlushError e), ?b [] st0 1)"
    using assms(3,4) by (simp add: idc_sink_def IDC_BATCH_SIZE_def flush_pending_def Let_def)
  have again: "idc_sink envs h x (?b [] st0 1) = (Inr (), ?b [(h, x)] st0 1)" by (simp add: idc_sink_def IDC_BATCH_SIZE_def)
  have "unat (gs_size st0) + (\<Sum>c \<leftarrow> [(h, x)]. length (snd c)) < 2 ^ 32" using assms(6) by simp
  from live_batch [OF assms(2) inv0 this] obtain locs st1 where
    st1: "append_chunks_batch (envs 1) [(h, x)] st0 = (Inr locs, st1)" "abs_store st1 = [h \<mapsto> x] ++ abs_store st"
    by (auto simp: st0(2))
  have "delivers (idc_sink envs) (?b cs st 0) [(h, x, False)] (?b [] st0 1)" by (rule delivers_one(2)) (rule bad)
  moreover have "delivers (idc_sink envs) (?b [] st0 1) [(h, x, True)] (?b [(h, x)] st0 1)" by (rule delivers_one(1)) (rule again)
  moreover have "delivers (idc_sink envs) (?b [] st 0) (map (\<lambda>(h, y). (h, y, True)) cs) (?b cs st 0)"
    using fill [of "[]" cs] assms(4) by simp
  ultimately have "delivers (idc_sink envs) (?b [] st 0) (map (\<lambda>(h, y). (h, y, True)) cs @ [(h, x, False)] @ [(h, x, True)]) (?b [(h, x)] st0 1)"
    by (meson delivers_append)
  moreover have "flush_pending envs (?b [(h, x)] st0 1) = (Inr (), ?b [] st1 2)" using st1(1) by (simp add: flush_pending_def Let_def)
  ultimately show ?thesis using st1(2)
    by (intro exI [of _ "?b [(h, x)] st0 1"] exI [of _ "?b [] st1 2"]) simp
qed

theorem failed_flush_loses_batch_witness:
  "\<exists>b b'. flush_pending (\<lambda>n. if n = 0 then env_std\<lparr>pe_read_txn := False\<rparr> else env_std) b = (Inr (), b') \<and>
     abs_store (ib_store b') (demo_hash 1) = None"
proof -
  let ?envs = "\<lambda>n :: nat. if n = 0 then env_std\<lparr>pe_read_txn := False\<rparr> else env_std"
  have st: "store_inv (demo_store 5)" "abs_store (demo_store 5) = Map.empty" using store_open_empty [OF demo_open] by simp_all
  have bad: "append_chunks_batch (?envs 0) (replicate 63 (demo_hash 1, [7]) @ [(demo_hash 2, [8])]) (demo_store 5) = (Inl ReadTxnFailed, demo_store 5)"
    by (simp add: append_chunks_batch_def)
  have "demo_hash 1 \<noteq> demo_hash 2" by (simp add: demo_hash_def)
  with failed_flush_loses_batch [of "demo_store 5" ?envs "replicate 63 (demo_hash 1, [7])" "demo_hash 2" "[8]", OF st(1) _ bad] st(2) show ?thesis
    by (fastforce simp: env_std_live demo_store_def sum_list_replicate)
qed

section \<open>Cafe tasks\<close>

lemma run_cafe_installs:
  assumes "serde_ok cd" and "sess_ok cd s" and "decode blake3 manifest = Inr index" and "\<And>i. compio_ok (mi_cx (fe_ios ce i))"
    and "lists_sets (fe_order ce)" and "cafe_entry blake3 (fe_open ce) (pt_game_id task) x = Inr c"
    and "current_manifest_bytes (fe_read ce) (cs_fs c) = Inr old_bytes" and "decode_old blake3 old_bytes = Inr old"
    and "names_apart index old" and "disk_ok blake3 old (cf_game (cs_fs c))"
    and "run_cafe blake3 (sched_client cd ca) de ce task index manifest x s = (Inr (), x', s')"
  shows "\<exists>c'. ex_cafe_stores x' (pt_game_id task) = Some c' \<and> ex_data_stores x' (pt_game_id task) \<noteq> None \<and>
    (\<forall>e \<in> set (gi_files index). \<exists>d. cf_game (cs_fs c') (fe_name e) = Some d \<and> blake3 d = fe_hash e) \<and>
    (\<forall>n \<in> set (old_names old) - fe_name ` set (gi_files index). cf_game (cs_fs c') n = None) \<and>
    current_version False (cs_fs c') = Inr (Some (pt_version task)) \<and>
    cafe_open blake3 (\<lambda>i. False) (cs_fs c') = Inr c' \<and>
    (\<forall>h \<in> chunk_set index. ex_node_id x \<in> sess_holds cd s' (pt_game_id task) h)"
proof -
  from run_cafe_install [OF assms(11,6-8)] obtain out temp1 n s1 x2 where
    ins: "install blake3 (sched_client cd ca) ce task index old manifest (c\<lparr>cs_fs := (cs_fs c)\<lparr>cf_temp := temp1\<rparr>\<rparr>) x2 s1 = (Inr (), x', s')"
      "ex_data_stores x2 (pt_game_id task) \<noteq> None" by metis
  have disk: "disk_ok blake3 old (cf_game (cs_fs (c\<lparr>cs_fs := (cs_fs c)\<lparr>cf_temp := temp1\<rparr>\<rparr>)))" using assms(10) by simp
  from install_done [OF ins(1) assms(3,4,9,5) disk] obtain c' where
    c': "ex_cafe_stores x' (pt_game_id task) = Some c'" "cs_current c' = Some (build_map index)"
      "current_version False (cs_fs c') = Inr (Some (pt_version task))"
      "cf_manifests (cs_fs c') (manifest_name (pt_version task)) = Some manifest"
      "\<forall>e \<in> set (gi_files index). \<exists>d. cf_game (cs_fs c') (fe_name e) = Some d \<and> blake3 d = fe_hash e"
      "\<forall>n \<in> set (old_names old) - fe_name ` set (gi_files index). cf_game (cs_fs c') n = None"
      "ex_data_stores x' = ex_data_stores x2" by auto
  have "cafe_open blake3 (\<lambda>i. False) (cs_fs c') = Inr c'"
    using c'(2-4) assms(3) by (simp add: cafe_open_def Let_def current_manifest_bytes_def set_current_def)
  moreover have "\<forall>h \<in> chunk_set index. ex_node_id x \<in> sess_holds cd s' (pt_game_id task) h"
    using control_link.run_cafe_frame [OF sched_control_link [OF assms(1)] assms(11,2)] by simp
  ultimately show ?thesis using c' ins(2) by auto
qed

text \<open>
  C6. A successful cafe task installs the version. When \<open>run_cafe\<close> succeeds, every file of the
  new version is in the game directory with the digest of the manifest, the files only the old
  version had are gone, the manifest is saved and current, also for a store opened after a
  restart, the data plane serves the game, and the scheduler has the node in the ledger of every
  chunk. (File names and temporary names must not clash, and the files of the old version that
  are there must be intact.)
\<close>

theorem cafe_task_installs:
  assumes "serde_ok cd" and "sess_ok cd s" and "decode blake3 manifest = Inr index" and "\<And>i. compio_ok (mi_cx (fe_ios ce i))"
    and "lists_sets (fe_order ce)" and "cafe_entry blake3 (fe_open ce) (pt_game_id task) x = Inr c"
    and "current_manifest_bytes (fe_read ce) (cs_fs c) = Inr old_bytes" and "decode_old blake3 old_bytes = Inr old"
    and "names_apart index old" and "disk_ok blake3 old (cf_game (cs_fs c))"
    and "run_cafe blake3 (sched_client cd ca) de ce task index manifest x s = (Inr (), x', s')"
  shows "\<exists>c'. ex_cafe_stores x' (pt_game_id task) = Some c' \<and> ex_data_stores x' (pt_game_id task) \<noteq> None \<and>
    (\<forall>e \<in> set (gi_files index). \<exists>d. cf_game (cs_fs c') (fe_name e) = Some d \<and> blake3 d = fe_hash e) \<and>
    (\<forall>n \<in> set (old_names old) - fe_name ` set (gi_files index). cf_game (cs_fs c') n = None) \<and>
    current_version False (cs_fs c') = Inr (Some (pt_version task)) \<and>
    cafe_open blake3 (\<lambda>i. False) (cs_fs c') = Inr c' \<and>
    (\<forall>h \<in> chunk_set index. ex_node_id x \<in> sess_holds cd s' (pt_game_id task) h)"
  using assms by (rule run_cafe_installs)

text \<open>A version with one empty file, and a run without faults.\<close>

definition empty_file :: game_index where
  "empty_file = build tiny_hash [one_file ''a'' tiny_hash []]"

definition lone_cafe :: cafe_run where
  "lone_cafe = \<lparr>fe_mkdir = True, fe_open = (\<lambda>i. False), fe_read = (\<lambda>i. False), fe_ls = (\<lambda>t. Some []), fe_write = (\<lambda>n. None),
     fe_ios = (\<lambda>i. io_std), fe_fails = (\<lambda>n. False), fe_order = (\<lambda>ns. ns), fe_save = (\<lambda>i. False), fe_left = (\<lambda>i. None)\<rparr>"

lemma empty_file_simps [simp]:
  "gi_files empty_file = [one_file ''a'' tiny_hash []]" "chunk_hashes empty_file = []" "chunk_set empty_file = {}"
  by (simp_all add: empty_file_def build_def chunk_hashes_def chunk_set_def)

lemma empty_file_merge:
  "merge_files tiny_hash (\<lambda>i. io_std) (\<lambda>n. False) (\<lambda>ns. ns) empty_file None temp Map.empty =
     (Inr \<lparr>ms_merged = 1, ms_deleted = 0, ms_failed = []\<rparr>, [''a'' \<mapsto> []])"
proof -
  let ?e = "one_file ''a'' tiny_hash []"
  have need: "need_merge None Map.empty ?e" by (simp add: need_merge_def file_map_def)
  show ?thesis
    using merge_entry_std [of ?e None Map.empty None temp "[]" tiny_hash "\<lparr>ms_merged = 0, ms_deleted = 0, ms_failed = []\<rparr>"] need
    by (simp add: merge_files_def file_map_def old_names_def fun_upd_idem)
qed

lemma empty_file_decode: "decode tiny_hash (encode empty_file) = Inr empty_file"
  by (rule decode_encode)
    (simp_all add: empty_file_def build_def tiny_hash_def wf_files_def wf_file_def HASH_LEN_def as_bytes_def utf8_valid_ascii in_range_def encode_body_def)

lemma lone_cafe_run:
  "\<exists>x'. run_cafe tiny_hash (sched_client json_serde calm_calls) (lone_env [7]) lone_cafe lone_task empty_file (encode empty_file)
     (lone_executor Cafe) (sv, n) = (Inr (), x', (sv, n))"
proof -
  have "wanted_chunks empty_file None {} Map.empty = []"
    by (simp add: wanted_chunks_def repair_chunks_def compute_def all_chunks_def case_prod_beta Let_def)
  with empty_file_merge [of Map.empty] empty_file_decode show ?thesis
    by (simp add: run_cafe_def lone_cafe_def lone_executor_def lone_task_def cafe_entry_def cafe_open_def current_manifest_bytes_def
        current_version_def decode_old_def collect_temp_hashes_def download_missing_def install_def save_manifest_def set_current_def
        held_chunks_def put_cafe_def Let_def)
qed

theorem cafe_task_installs_witness:
  "\<exists>x' s' c'. run_cafe tiny_hash (sched_client json_serde calm_calls) (lone_env [7]) lone_cafe lone_task empty_file (encode empty_file)
     (lone_executor Cafe) (demo_control, 0) = (Inr (), x', s') \<and> ex_cafe_stores x' 5 = Some c' \<and>
     (\<exists>d. cf_game (cs_fs c') ''a'' = Some d \<and> tiny_hash d = tiny_hash []) \<and> current_version False (cs_fs c') = Inr (Some 1)"
proof -
  obtain x' where run: "run_cafe tiny_hash (sched_client json_serde calm_calls) (lone_env [7]) lone_cafe lone_task empty_file (encode empty_file)
     (lone_executor Cafe) (demo_control, 0) = (Inr (), x', (demo_control, 0))" using lone_cafe_run by blast
  have ok: "sess_ok json_serde (demo_control, 0)" by (simp add: sess_ok_def demo_control_ok)
  let ?fs = "\<lparr>cf_game = Map.empty, cf_temp = Map.empty, cf_manifests = Map.empty\<rparr>"
  have entry: "cafe_entry tiny_hash (fe_open lone_cafe) (pt_game_id lone_task) (lone_executor Cafe) = Inr \<lparr>cs_current = None, cs_fs = ?fs\<rparr>"
    by (simp add: cafe_entry_def lone_executor_def lone_cafe_def cafe_open_def current_manifest_bytes_def current_version_def)
  have cur: "current_manifest_bytes (fe_read lone_cafe) (cs_fs \<lparr>cs_current = None, cs_fs = ?fs\<rparr>) = Inr None"
    by (simp add: current_manifest_bytes_def current_version_def)
  have rest: "decode_old tiny_hash None = Inr None" "names_apart empty_file None" "disk_ok tiny_hash None (cf_game (cs_fs \<lparr>cs_current = None, cs_fs = ?fs\<rparr>))"
    "lists_sets (fe_order lone_cafe)" "compio_ok (mi_cx (fe_ios lone_cafe i))" for i
    by (simp_all add: decode_old_def names_apart_def old_names_def disk_ok_def lists_sets_def lone_cafe_def compio_std_ok)
  from cafe_task_installs [OF json_serde_ok ok empty_file_decode rest(5,4) entry cur rest(1-3) run] run show ?thesis
    by (auto simp: lone_task_def)
qed

section \<open>What becomes of a task\<close>



end
