(* ===== verification/Download_Manager.thy ===== *)
theory Download_Manager
  imports Prelude
begin

text \<open>
  The download manager (\<^verbatim>\<open>crates/agent/src/download.rs\<close>): pending chunks are dealt out to the
  peers in turn, the chunks of a failed peer become pending again, finished chunks leave their
  list. A peer is its number; dividing by a peer count of zero panics.
\<close>

section \<open>The manager\<close>

definition sort_by_rtt :: "('a \<times> nat) list \<Rightarrow> ('a \<times> nat) list" where
  "sort_by_rtt peers = sort_key snd peers"

record download_manager =
  dm_pending :: "bytes set"
  dm_assigned :: "nat \<rightharpoonup> bytes list"

definition dm_new :: "bytes list \<Rightarrow> download_manager" where
  "dm_new chunks = \<lparr>dm_pending = set chunks, dm_assigned = Map.empty\<rparr>"

text \<open>\<open>plan.entry(peer).or_default().push(hash)\<close>.\<close>

definition push_chunk :: "nat \<Rightarrow> bytes \<Rightarrow> (nat \<rightharpoonup> bytes list) \<Rightarrow> (nat \<rightharpoonup> bytes list)" where
  "push_chunk peer hash plan = plan(peer \<mapsto> (case plan peer of None \<Rightarrow> [] | Some l \<Rightarrow> l) @ [hash])"

fun deal :: "nat \<Rightarrow> nat \<Rightarrow> bytes list \<Rightarrow> (nat \<rightharpoonup> bytes list) \<Rightarrow> (nat \<rightharpoonup> bytes list)" where
  "deal n i [] plan = plan"
| "deal n i (h # hs) plan = deal n (Suc i) hs (push_chunk (i mod n) h plan)"

text \<open>\<open>None\<close> is the panic.\<close>

definition dm_assign :: "nat \<Rightarrow> download_manager \<Rightarrow> ((nat \<rightharpoonup> bytes list) \<times> download_manager) option" where
  "dm_assign peer_count m =
     (let hashes = sorted_list_of_set (dm_pending m) in
      if peer_count = 0 \<and> hashes \<noteq> [] then None
      else let plan = deal peer_count 0 hashes Map.empty
           in Some (plan, m\<lparr>dm_pending := {}, dm_assigned := plan\<rparr>))"

definition peer_failed :: "nat \<Rightarrow> download_manager \<Rightarrow> download_manager" where
  "peer_failed peer m =
     (case dm_assigned m peer of
        None \<Rightarrow> m
      | Some chunks \<Rightarrow> m\<lparr>dm_pending := dm_pending m \<union> set chunks, dm_assigned := (dm_assigned m)(peer := None)\<rparr>)"

definition chunk_done :: "bytes \<Rightarrow> download_manager \<Rightarrow> download_manager" where
  "chunk_done hash m = m\<lparr>dm_assigned := (\<lambda>p. map_option (filter (\<lambda>h. h \<noteq> hash)) (dm_assigned m p))\<rparr>"

section \<open>Dealing\<close>

definition nonempty :: "'a list \<Rightarrow> 'a list option" where
  "nonempty xs = (if xs = [] then None else Some xs)"

text \<open>The share of peer \<open>p\<close>: every \<open>n\<close>-th chunk.\<close>

definition share :: "nat \<Rightarrow> bytes list \<Rightarrow> nat \<Rightarrow> bytes list" where
  "share n hs p = map (\<lambda>i. hs ! i) (filter (\<lambda>i. i mod n = p) [0 ..< length hs])"

lemma deal_append: "deal n i (xs @ ys) plan = deal n (i + length xs) ys (deal n i xs plan)"
  by (induction xs arbitrary: i plan) simp_all

lemma share_snoc: "share n (hs @ [h]) p = share n hs p @ (if length hs mod n = p then [h] else [])"
proof -
  have "map (\<lambda>i. (hs @ [h]) ! i) (filter (\<lambda>i. i mod n = p) [0 ..< length hs]) = share n hs p"
    unfolding share_def by (rule map_cong [OF refl]) (simp add: nth_append)
  then show ?thesis by (simp add: share_def)
qed

lemma deal_share: "deal n 0 hs Map.empty = (\<lambda>p. nonempty (share n hs p))"
proof (induction hs rule: rev_induct)
  case Nil
  then show ?case by (simp add: share_def nonempty_def fun_eq_iff)
next
  case (snoc h hs)
  have "deal n 0 (hs @ [h]) Map.empty = push_chunk (length hs mod n) h (\<lambda>p. nonempty (share n hs p))"
    using snoc by (simp add: deal_append)
  also have "\<dots> = (\<lambda>p. nonempty (share n (hs @ [h]) p))"
    by (auto simp: push_chunk_def share_snoc nonempty_def fun_eq_iff)
  finally show ?case .
qed

lemma set_share: "set (share n hs p) = {hs ! i |i. i < length hs \<and> i mod n = p}"
  by (auto simp: share_def)

lemma share_disjoint:
  assumes "distinct hs" "h \<in> set (share n hs p)" "h \<in> set (share n hs q)"
  shows "p = q"
  using assms by (auto simp: set_share nth_eq_iff_index_eq)

lemma share_distinct: "distinct hs \<Longrightarrow> distinct (share n hs p)"
  by (simp add: share_def distinct_map inj_on_def nth_eq_iff_index_eq)

lemma share_cover: "0 < n \<Longrightarrow> set hs = (\<Union>p < n. set (share n hs p))"
  by (auto simp: set_share in_set_conv_nth) (metis lessThan_iff mod_less_divisor)

lemma count_share: "p < n \<Longrightarrow> length (filter (\<lambda>i. i mod n = p) [0 ..< k]) = k div n + (if p < k mod n then 1 else 0)"
proof (induction k)
  case (Suc k)
  show ?case
  proof (cases "Suc k mod n = 0")
    case True
    then have "k mod n = n - 1" "Suc k div n = Suc (k div n)" by (auto simp: mod_Suc div_Suc split: if_splits)
    with Suc True show ?thesis by auto
  next
    case False
    then have "Suc k mod n = Suc (k mod n)" "Suc k div n = k div n" by (auto simp: mod_Suc div_Suc split: if_splits)
    with Suc show ?thesis by auto
  qed
qed simp

text \<open>
  Dealing out is fair and exact. With at least one peer, every pending chunk goes to exactly
  one peer, in ascending order, the shares differ by at most one chunk, nothing is pending
  afterwards; a failed peer's open chunks, those not done since, become pending again and nobody
  else's, so that dealing again gives each of them out once more.
\<close>

theorem assign_partitions:
  assumes "finite (dm_pending m)" and "0 < n" and "dm_assign n m = Some (plan, m1)"
  shows "(\<Union>p < n. set (share n (sorted_list_of_set (dm_pending m)) p)) = dm_pending m \<and>
    (\<forall>p. plan p = nonempty (share n (sorted_list_of_set (dm_pending m)) p)) \<and>
    (\<forall>p q h l l'. plan p = Some l \<and> plan q = Some l' \<and> h \<in> set l \<and> h \<in> set l' \<longrightarrow> p = q) \<and>
    (\<forall>p l. plan p = Some l \<longrightarrow> p < n \<and> distinct l \<and> length l \<in> {card (dm_pending m) div n, Suc (card (dm_pending m) div n)}) \<and>
    dm_pending m1 = {} \<and>
    (\<forall>p l h. plan p = Some l \<longrightarrow> dm_pending (peer_failed p (chunk_done h m1)) = set l - {h} \<and>
       dm_pending (peer_failed p m1) = set l \<and> dm_assigned (peer_failed p m1) = plan(p := None))"
proof -
  let ?hs = "sorted_list_of_set (dm_pending m)"
  have hs: "set ?hs = dm_pending m" "distinct ?hs" "length ?hs = card (dm_pending m)" using assms(1) by simp_all
  have run: "plan = (\<lambda>p. nonempty (share n ?hs p))" "m1 = m\<lparr>dm_pending := {}, dm_assigned := plan\<rparr>"
    using assms(2,3) by (auto simp: dm_assign_def deal_share Let_def)
  have lt: "p < n" if "plan p = Some l" for p l
  proof -
    from that obtain h where "h \<in> set (share n ?hs p)" by (cases "share n ?hs p") (auto simp: run(1) nonempty_def)
    then show ?thesis using assms(2) by (auto simp: set_share)
  qed
  have len: "length (share n ?hs p) \<in> {card (dm_pending m) div n, Suc (card (dm_pending m) div n)}" if "p < n" for p
    using count_share [OF that, of "length ?hs"] by (simp add: share_def hs(3))
  have get: "l = share n ?hs p" if "plan p = Some l" for p l using that by (simp add: run(1) nonempty_def split: if_splits)
  show ?thesis
  proof (intro conjI allI impI)
    show "(\<Union>p < n. set (share n ?hs p)) = dm_pending m" using share_cover [OF assms(2), of ?hs] hs(1) by simp
    show "plan p = nonempty (share n ?hs p)" for p by (simp add: run(1))
    show "p = q" if "plan p = Some l \<and> plan q = Some l' \<and> h \<in> set l \<and> h \<in> set l'" for p q h l l'
      using that get share_disjoint [OF hs(2)] by metis
    show "p < n" "distinct l" "length l \<in> {card (dm_pending m) div n, Suc (card (dm_pending m) div n)}" if "plan p = Some l" for p l
      using lt [OF that] len [OF lt [OF that]] share_distinct [OF hs(2)] get [OF that] by simp_all
    show "dm_pending m1 = {}" by (simp add: run(2))
    fix p l h
    assume "plan p = Some l"
    then show "dm_pending (peer_failed p (chunk_done h m1)) = set l - {h}" "dm_pending (peer_failed p m1) = set l"
      "dm_assigned (peer_failed p m1) = plan(p := None)"
      by (auto simp: peer_failed_def chunk_done_def run(2))
  qed
qed

theorem assign_partitions_witness:
  "\<exists>plan m1. dm_assign 2 (dm_new [[3], [1], [2]]) = Some (plan, m1) \<and> dm_pending m1 = {}"
proof -
  obtain plan m1 where run: "dm_assign 2 (dm_new [[3], [1], [2]]) = Some (plan, m1)" by (simp add: dm_assign_def Let_def)
  have fin: "finite (dm_pending (dm_new [[3], [1], [2]]))" by (simp add: dm_new_def)
  from assign_partitions [OF fin _ run] run show ?thesis by simp
qed

text \<open>
  Dealing again forgets what is still assigned: the chunks of the peers that did not fail are
  afterwards neither pending nor assigned to anybody, so that a later failure of such a peer
  brings nothing back.
\<close>

lemma reassign_forgets:
  assumes "dm_assign n m = Some (plan, m1)" "finite (dm_pending m)" "h \<notin> dm_pending m" "0 < n"
  shows "h \<notin> dm_pending m1 \<and> (\<forall>p l. dm_assigned m1 p = Some l \<longrightarrow> h \<notin> set l) \<and> h \<notin> dm_pending (peer_failed p m1)"
proof -
  have "set (share n (sorted_list_of_set (dm_pending m)) q) \<subseteq> dm_pending m" for q
    using assms(2) nth_mem [of _ "sorted_list_of_set (dm_pending m)"] by (auto simp: set_share)
  then have "h \<notin> set (share n (sorted_list_of_set (dm_pending m)) q)" for q using assms(3) by blast
  with assms show ?thesis
    by (auto simp: dm_assign_def Let_def deal_share nonempty_def peer_failed_def split: if_splits option.splits)
qed

end
