(* ===== verification/Producer.thy ===== *)
theory Producer
  imports Upload_Service Update_Plan Configs
begin

text \<open>
  The producer (\<^verbatim>\<open>crates/producer/src\<close>): it cuts the files of a game directory into chunks, stages
  the chunks, writes the index and the difference to the previous version, and uploads what the
  origin lacks before it commits the version.

  A directory is what \<open>read_dir\<close> shows, with its failures; what opening and reading a file
  gives is a parameter. The FastCDC cutter (crate \<^verbatim>\<open>fastcdc\<close>), the TOML and JSON libraries and
  the gRPC client are not part of the repository and are parameters as well; the client is a
  record of calls, interpreted below by the handlers of the upload service.
\<close>

section \<open>Configuration\<close>

record chunk_raw =
  kr_min_size :: "nat option"
  kr_avg_size :: "nat option"
  kr_max_size :: "nat option"

record producer_raw =
  pw_game_id :: u64
  pw_version :: u64
  pw_source_dir :: string
  pw_previous_dir :: "string option"
  pw_output_dir :: string
  pw_origin_addr :: "string option"
  pw_origin_token :: "string option"
  pw_chunk :: "chunk_raw option"

definition chunk_fill :: "chunk_raw option \<Rightarrow> chunk_params" where
  "chunk_fill raw =
     (case raw of
        None \<Rightarrow> chunk_params_default
      | Some k \<Rightarrow> \<lparr>cp_min_size = or_default (kr_min_size k) DEFAULT_CHUNK_MIN,
          cp_avg_size = or_default (kr_avg_size k) DEFAULT_CHUNK_AVG, cp_max_size = or_default (kr_max_size k) DEFAULT_CHUNK_MAX\<rparr>)"

definition producer_fill :: "producer_raw \<Rightarrow> producer_config" where
  "producer_fill r =
     \<lparr>pc_game_id = pw_game_id r, pc_version = pw_version r, pc_source_dir = pw_source_dir r,
      pc_previous_dir = pw_previous_dir r, pc_output_dir = pw_output_dir r, pc_origin_addr = pw_origin_addr r,
      pc_origin_token = pw_origin_token r, pc_chunk = chunk_fill (pw_chunk r)\<rparr>"

definition producer_load ::
    "(string \<Rightarrow> string option) \<Rightarrow> (string \<Rightarrow> producer_raw option) \<Rightarrow> (string \<Rightarrow> bool) \<Rightarrow> string \<Rightarrow> config_error + producer_config" where
  "producer_load read_file from_toml is_dir = load_with read_file from_toml producer_fill (producer_validate is_dir)"

section \<open>Listing files\<close>

text \<open>
  A directory entry as \<open>is_file\<close> and \<open>is_dir\<close> see it. A directory that cannot be read is
  \<open>Directory None\<close>, an entry that cannot be read is \<open>None\<close>. A path is the list of its components,
  and the order of paths is the lexicographic one.
\<close>

datatype fs_node = RegularFile | OtherNode | Directory "(string \<times> fs_node) option list option"

datatype chunker_error =
    OpenFailed | ReadFailed | CutterPanic | CutFailed | StageWriteFailed | ReadDirFailed | ReadEntryFailed

function collect_files :: "string list \<Rightarrow> (string \<times> fs_node) option list \<Rightarrow> string list list \<Rightarrow> chunker_error + string list list" where
  "collect_files dir [] files = Inr files"
| "collect_files dir (None # es) files = Inl ReadEntryFailed"
| "collect_files dir (Some (name, RegularFile) # es) files = collect_files dir es (files @ [dir @ [name]])"
| "collect_files dir (Some (name, Directory None) # es) files = Inl ReadDirFailed"
| "collect_files dir (Some (name, Directory (Some sub)) # es) files =
     (case collect_files (dir @ [name]) sub files of
        Inl e \<Rightarrow> Inl e
      | Inr files1 \<Rightarrow> collect_files dir es files1)"
| "collect_files dir (Some (name, OtherNode) # es) files = collect_files dir es files"
  by pat_completeness auto
termination
  by (relation "measure (\<lambda>(dir, es, files). size_list (size_option (size_prod (\<lambda>_. 0) size)) es)") auto

definition list_files :: "fs_node \<Rightarrow> chunker_error + string list list" where
  "list_files d =
     (case d of
        Directory (Some es) \<Rightarrow> (case collect_files [] es [] of Inl e \<Rightarrow> Inl e | Inr files \<Rightarrow> Inr (sort files))
      | _ \<Rightarrow> Inl ReadDirFailed)"

section \<open>Hashing and cutting\<close>

text \<open>The successive results of \<open>read\<close>; the end of the list is the end of the file.\<close>

fun hash_loop :: "(unit + bytes) list \<Rightarrow> bytes \<Rightarrow> chunker_error + bytes" where
  "hash_loop [] acc = Inr acc"
| "hash_loop (Inl _ # reads) acc = Inl ReadFailed"
| "hash_loop (Inr buf # reads) acc = (if buf = [] then Inr acc else hash_loop reads (acc @ buf))"

definition file_hash :: "(bytes \<Rightarrow> bytes) \<Rightarrow> (unit + bytes) list option \<Rightarrow> chunker_error + bytes" where
  "file_hash blake3 reads =
     (case reads of
        None \<Rightarrow> Inl OpenFailed
      | Some rs \<Rightarrow> (case hash_loop rs [] of Inl e \<Rightarrow> Inl e | Inr content \<Rightarrow> Inr (blake3 content)))"

type_synonym cutter = "chunk_params \<Rightarrow> bytes \<Rightarrow> (unit + bytes) list option"

definition stage_name :: "bytes \<Rightarrow> string" where
  "stage_name hash = hex_bytes hash @ ''.blk''"

text \<open>
  One pass over the pieces of a file. \<open>stage\<close> is the staging directory, if there is one;
  \<open>wr h\<close> is \<open>None\<close> when the write of the block \<open>h\<close> succeeds, and otherwise what it leaves.
\<close>

fun chunk_loop ::
    "(bytes \<Rightarrow> bytes) \<Rightarrow> (bytes \<Rightarrow> bytes option option) \<Rightarrow> (unit + bytes) list \<Rightarrow> (string \<rightharpoonup> bytes) option \<Rightarrow> bytes set \<Rightarrow>
     chunk_meta list \<Rightarrow> (chunker_error + chunk_meta list) \<times> (string \<rightharpoonup> bytes) option \<times> bytes set" where
  "chunk_loop blake3 wr [] stage seen metas = (Inr metas, stage, seen)"
| "chunk_loop blake3 wr (Inl _ # items) stage seen metas = (Inl CutFailed, stage, seen)"
| "chunk_loop blake3 wr (Inr piece # items) stage seen metas =
     (let hash = blake3 piece; metas1 = metas @ [\<lparr>cm_hash = hash, cm_len = word_of_nat (length piece)\<rparr>] in
      case stage of
        None \<Rightarrow> chunk_loop blake3 wr items stage seen metas1
      | Some dir \<Rightarrow>
          if hash \<in> seen then chunk_loop blake3 wr items stage seen metas1
          else (case wr hash of
                  None \<Rightarrow> chunk_loop blake3 wr items (Some (dir(stage_name hash \<mapsto> piece))) (insert hash seen) metas1
                | Some left \<Rightarrow> (Inl StageWriteFailed, Some (dir(stage_name hash := left)), insert hash seen)))"

definition chunk_file ::
    "(bytes \<Rightarrow> bytes) \<Rightarrow> cutter \<Rightarrow> (bytes \<Rightarrow> bytes option option) \<Rightarrow> bytes option \<Rightarrow> chunk_params \<Rightarrow> (string \<rightharpoonup> bytes) option \<Rightarrow>
     bytes set \<Rightarrow> (chunker_error + chunk_meta list) \<times> (string \<rightharpoonup> bytes) option \<times> bytes set" where
  "chunk_file blake3 cdc wr content params stage seen =
     (case content of
        None \<Rightarrow> (Inl OpenFailed, stage, seen)
      | Some bs \<Rightarrow>
          (case cdc params bs of
             None \<Rightarrow> (Inl CutterPanic, stage, seen)
           | Some items \<Rightarrow> chunk_loop blake3 wr items stage seen []))"

text \<open>
  What the program finds under a directory: the tree, the content that opening a file for the
  cutter shows, and the reads of the second pass, which computes the digest.
\<close>

record source_dir =
  so_tree :: fs_node
  so_open :: "string list \<rightharpoonup> bytes"
  so_reads :: "string list \<rightharpoonup> (unit + bytes) list"

fun show_path :: "string list \<Rightarrow> string" where
  "show_path [] = ''''"
| "show_path [name] = name"
| "show_path (name # path) = name @ ''/'' @ show_path path"

text \<open>\<open>lossy\<close> is \<open>to_string_lossy\<close>, the identity on UTF-8 text.\<close>

definition entry_name :: "(string \<Rightarrow> string) \<Rightarrow> string list \<Rightarrow> string" where
  "entry_name lossy path = map (\<lambda>c. if c = CHR 0x5C then CHR ''/'' else c) (lossy (show_path path))"

fun chunk_all ::
    "(bytes \<Rightarrow> bytes) \<Rightarrow> cutter \<Rightarrow> (string \<Rightarrow> string) \<Rightarrow> (bytes \<Rightarrow> bytes option option) \<Rightarrow> source_dir \<Rightarrow> chunk_params \<Rightarrow>
     string list list \<Rightarrow> (string \<rightharpoonup> bytes) option \<Rightarrow> bytes set \<Rightarrow> (chunker_error + file_entry list) \<times> (string \<rightharpoonup> bytes) option" where
  "chunk_all blake3 cdc lossy wr src params [] stage seen = (Inr [], stage)"
| "chunk_all blake3 cdc lossy wr src params (path # paths) stage seen =
     (case chunk_file blake3 cdc wr (so_open src path) params stage seen of
        (Inl e, stage1, seen1) \<Rightarrow> (Inl e, stage1)
      | (Inr chunks, stage1, seen1) \<Rightarrow>
          (case file_hash blake3 (so_reads src path) of
             Inl e \<Rightarrow> (Inl e, stage1)
           | Inr h \<Rightarrow>
               (case chunk_all blake3 cdc lossy wr src params paths stage1 seen1 of
                  (Inl e, stage2) \<Rightarrow> (Inl e, stage2)
                | (Inr es, stage2) \<Rightarrow>
                    (Inr (\<lparr>fe_name = entry_name lossy path, fe_hash = h, fe_chunks = chunks\<rparr> # es), stage2))))"

section \<open>The upload client\<close>

text \<open>
  The calls of the generated client. The second argument of each is the value of the
  \<open>authorization\<close> header; an upload is answered by a stream of acknowledgements that may break.
\<close>

record 'u upload_client =
  cl_query :: "u64 \<Rightarrow> bytes list \<Rightarrow> string option \<Rightarrow> 'u \<Rightarrow> (unit + bytes list) \<times> 'u"
  cl_upload :: "upload_chunk list \<Rightarrow> string option \<Rightarrow> 'u \<Rightarrow> (unit + (unit + upload_ack) list) \<times> 'u"
  cl_commit :: "commit_request \<Rightarrow> string option \<Rightarrow> 'u \<Rightarrow> (unit + commit_reply) \<times> 'u"

datatype upload_error =
    BadToken | QueryFailed | ReplyHashPanic | StagedMissing bytes | UploadFailed | AckFailed
  | StagedUnreadable "bytes list" | CommitFailed | NotPublished commit_error

record upload_summary =
  sm_uploaded :: nat
  sm_skipped :: nat
  sm_failed :: "bytes list"

text \<open>\<open>header_ok\<close> accepts the texts that are valid header values.\<close>

definition attach_token :: "(string \<Rightarrow> bool) \<Rightarrow> string option \<Rightarrow> upload_error + string option" where
  "attach_token header_ok token =
     (case token of
        None \<Rightarrow> Inr None
      | Some t \<Rightarrow> if header_ok (''Bearer '' @ t) then Inr (Some (''Bearer '' @ t)) else Inl BadToken)"

definition query_existing ::
    "'u upload_client \<Rightarrow> (string \<Rightarrow> bool) \<Rightarrow> u64 \<Rightarrow> bytes list \<Rightarrow> string option \<Rightarrow> 'u \<Rightarrow> (upload_error + bytes list) \<times> 'u" where
  "query_existing cl header_ok game_id hashes token u =
     (case attach_token header_ok token of
        Inl e \<Rightarrow> (Inl e, u)
      | Inr auth \<Rightarrow>
          (case cl_query cl game_id hashes auth u of
             (Inl _, u1) \<Rightarrow> (Inl QueryFailed, u1)
           | (Inr existing, u1) \<Rightarrow>
               (if list_all (\<lambda>v. length v = HASH_LEN) existing then Inr existing else Inl ReplyHashPanic, u1)))"

definition client_commit_version ::
    "'u upload_client \<Rightarrow> (string \<Rightarrow> bool) \<Rightarrow> u64 \<Rightarrow> u64 \<Rightarrow> bytes \<Rightarrow> bytes \<Rightarrow> string option \<Rightarrow> 'u \<Rightarrow> (upload_error + unit) \<times> 'u" where
  "client_commit_version cl header_ok game_id version manifest manifest_hash token u =
     (case attach_token header_ok token of
        Inl e \<Rightarrow> (Inl e, u)
      | Inr auth \<Rightarrow>
          (case cl_commit cl \<lparr>cr_game_id = game_id, cr_version = version, cr_manifest = manifest, cr_manifest_hash = manifest_hash\<rparr> auth u of
             (Inl _, u1) \<Rightarrow> (Inl CommitFailed, u1)
           | (Inr reply, u1) \<Rightarrow> (if cp_published reply then Inr () else Inl (NotPublished (cp_error reply)), u1)))"

fun count_acks :: "(unit + upload_ack) list \<Rightarrow> upload_summary \<Rightarrow> upload_error + upload_summary" where
  "count_acks [] summary = Inr summary"
| "count_acks (Inl _ # acks) summary = Inl AckFailed"
| "count_acks (Inr ack # acks) summary =
     (if ua_ok ack then count_acks acks (summary\<lparr>sm_uploaded := sm_uploaded summary + 1\<rparr>)
      else if length (ua_chunk_hash ack) = HASH_LEN
      then count_acks acks (summary\<lparr>sm_failed := sm_failed summary @ [ua_chunk_hash ack]\<rparr>)
      else Inl ReplyHashPanic)"

text \<open>
  What the sending task puts on the stream: the staged blocks that can be read, in order
  (\<open>rd h\<close> says whether reading the block \<open>h\<close> succeeds).
\<close>

definition sent_chunks :: "u64 \<Rightarrow> (bytes \<Rightarrow> bool) \<Rightarrow> (string \<rightharpoonup> bytes) \<Rightarrow> bytes list \<Rightarrow> upload_chunk list" where
  "sent_chunks game_id rd stage missing =
     map (\<lambda>h. \<lparr>uc_game_id = game_id, uc_chunk_hash = h, uc_data = the (stage (stage_name h))\<rparr>) (filter rd missing)"

definition upload_delta ::
    "'u upload_client \<Rightarrow> (string \<Rightarrow> bool) \<Rightarrow> (bytes \<Rightarrow> bool) \<Rightarrow> u64 \<Rightarrow> (string \<rightharpoonup> bytes) \<Rightarrow> bytes list \<Rightarrow> string option \<Rightarrow> 'u \<Rightarrow>
     (upload_error + upload_summary) \<times> 'u" where
  "upload_delta cl header_ok rd game_id stage hashes token u =
     (case query_existing cl header_ok game_id hashes token u of
        (Inl e, u1) \<Rightarrow> (Inl e, u1)
      | (Inr existing, u1) \<Rightarrow>
          let missing = filter (\<lambda>h. h \<notin> set existing) hashes;
              summary = \<lparr>sm_uploaded = 0, sm_skipped = length existing, sm_failed = []\<rparr>
          in if missing = [] then (Inr summary, u1)
             else case find (\<lambda>h. stage (stage_name h) = None) missing of
               Some h \<Rightarrow> (Inl (StagedMissing h), u1)
             | None \<Rightarrow>
                 (case attach_token header_ok token of
                    Inl e \<Rightarrow> (Inl e, u1)
                  | Inr auth \<Rightarrow>
                      (case cl_upload cl (sent_chunks game_id rd stage missing) auth u1 of
                         (Inl _, u2) \<Rightarrow> (Inl UploadFailed, u2)
                       | (Inr acks, u2) \<Rightarrow>
                           (case count_acks acks summary of
                              Inl e \<Rightarrow> (Inl e, u2)
                            | Inr summary1 \<Rightarrow>
                                if filter (\<lambda>h. \<not> rd h) missing \<noteq> [] then (Inl (StagedUnreadable (filter (\<lambda>h. \<not> rd h) missing)), u2)
                                else (Inr summary1, u2)))))"

section \<open>One run\<close>

datatype producer_error =
    BadConfig config_error | MkOutputFailed | OutputLocked | ListFailed chunker_error | NoFiles
  | MkStageFailed | MkIndexFailed | MkDeltaFailed | ChunkFailed chunker_error | WriteIndexFailed | JsonFailed | WriteDeltaFailed
  | RuntimeFailed | OriginUnreachable | UploadError upload_error

record output_dir =
  od_lock :: bool
  od_chunks :: "string \<rightharpoonup> bytes"
  od_index :: "string \<rightharpoonup> bytes"
  od_delta :: "string \<rightharpoonup> bytes"

record delta =
  dt_game_id :: u64
  dt_version :: u64
  dt_download_count :: nat
  dt_update_count :: nat
  dt_delete_count :: nat
  dt_new_chunk_count :: nat
  dt_new_bytes :: u64
  dt_chunk_hashes :: "string list"

text \<open>
  The environment of a run: the loaded configuration, the success of each directory creation,
  of the lock file and its removal, of the writes (\<open>None\<close>, or what a failed write leaves), of
  the runtime and the connection.
\<close>

record producer_env =
  pv_config :: "config_error + producer_config"
  pv_mkdir :: "nat \<Rightarrow> bool"
  pv_lock :: bool
  pv_unlock :: bool
  pv_source :: source_dir
  pv_previous :: "source_dir option"
  pv_stage_write :: "bytes \<Rightarrow> bytes option option"
  pv_index_write :: "bytes option option"
  pv_delta_write :: "bytes option option"
  pv_stage_read :: "bytes \<Rightarrow> bool"
  pv_runtime :: bool
  pv_connect :: bool

record libraries =
  li_blake3 :: "bytes \<Rightarrow> bytes"
  li_cdc :: cutter
  li_lossy :: "string \<Rightarrow> string"
  li_json :: "delta \<Rightarrow> bytes option"
  li_header_ok :: "string \<Rightarrow> bool"

definition index_name :: "u64 \<Rightarrow> string" where
  "index_name version = show_u64 version @ ''.gameindex''"

definition delta_name :: "u64 \<Rightarrow> string" where
  "delta_name version = show_u64 version @ ''.json''"

definition delta_of :: "producer_config \<Rightarrow> update_plan \<Rightarrow> delta" where
  "delta_of config plan =
     \<lparr>dt_game_id = pc_game_id config, dt_version = pc_version config,
      dt_download_count = length (files_to_download plan), dt_update_count = length (files_to_update plan),
      dt_delete_count = length (files_to_delete plan), dt_new_chunk_count = length (chunks_to_download plan),
      dt_new_bytes = download_bytes plan, dt_chunk_hashes = map hex_bytes (chunks_to_download plan)\<rparr>"

text \<open>The index of the previous version: the directory is cut again, without staging.\<close>

definition previous_index :: "libraries \<Rightarrow> producer_config \<Rightarrow> source_dir option \<Rightarrow> producer_error + game_index option" where
  "previous_index li config previous =
     (case (pc_previous_dir config, previous) of
        (Some _, Some prev) \<Rightarrow>
          (case list_files (so_tree prev) of
             Inl e \<Rightarrow> Inl (ListFailed e)
           | Inr paths \<Rightarrow>
               (case chunk_all (li_blake3 li) (li_cdc li) (li_lossy li) (\<lambda>h. None) prev (pc_chunk config) paths None {} of
                  (Inl e, _) \<Rightarrow> Inl (ChunkFailed e)
                | (Inr es, _) \<Rightarrow> Inr (Some (build (li_blake3 li) es))))
      | _ \<Rightarrow> Inr None)"

definition publish :: "libraries \<Rightarrow> 'u upload_client \<Rightarrow> producer_env \<Rightarrow> producer_config \<Rightarrow> game_index \<Rightarrow> update_plan \<Rightarrow> (string \<rightharpoonup> bytes) \<Rightarrow> 'u \<Rightarrow>
     (producer_error + unit) \<times> 'u" where
  "publish li cl pv config index plan stage u =
     (if pc_origin_addr config = None then (Inr (), u)
      else if \<not> pv_runtime pv then (Inl RuntimeFailed, u)
      else if \<not> pv_connect pv then (Inl OriginUnreachable, u)
      else case upload_delta cl (li_header_ok li) (pv_stage_read pv) (pc_game_id config) stage
                  (chunks_to_download plan) (pc_origin_token config) u of
        (Inl e, u1) \<Rightarrow> (Inl (UploadError e), u1)
      | (Inr summary, u1) \<Rightarrow>
          (case client_commit_version cl (li_header_ok li) (pc_game_id config) (pc_version config) (encode index) (gi_hash index)
                  (pc_origin_token config) u1 of
             (Inl e, u2) \<Rightarrow> (Inl (UploadError e), u2)
           | (Inr _, u2) \<Rightarrow> (Inr (), u2)))"

text \<open>From the index on: write it, compare with the previous version, write the difference, upload.\<close>

definition release :: "libraries \<Rightarrow> 'u upload_client \<Rightarrow> producer_env \<Rightarrow> producer_config \<Rightarrow> game_index \<Rightarrow> output_dir \<Rightarrow> 'u \<Rightarrow>
     (producer_error + unit) \<times> output_dir \<times> 'u" where
  "release li cl pv config index od u =
     (case pv_index_write pv of
        Some left \<Rightarrow> (Inl WriteIndexFailed, od\<lparr>od_index := (od_index od)(index_name (pc_version config) := left)\<rparr>, u)
      | None \<Rightarrow>
          let od1 = od\<lparr>od_index := (od_index od)(index_name (pc_version config) \<mapsto> encode index)\<rparr> in
          (case previous_index li config (pv_previous pv) of
             Inl e \<Rightarrow> (Inl e, od1, u)
           | Inr old \<Rightarrow>
               let plan = compute index old {} in
               (case li_json li (delta_of config plan) of
                  None \<Rightarrow> (Inl JsonFailed, od1, u)
                | Some js \<Rightarrow>
                    (case pv_delta_write pv of
                       Some left \<Rightarrow> (Inl WriteDeltaFailed, od1\<lparr>od_delta := (od_delta od1)(delta_name (pc_version config) := left)\<rparr>, u)
                     | None \<Rightarrow>
                         let od2 = od1\<lparr>od_delta := (od_delta od1)(delta_name (pc_version config) \<mapsto> js)\<rparr> in
                         (case publish li cl pv config index plan (od_chunks od2) u of (r, u1) \<Rightarrow> (r, od2, u1))))))"

text \<open>With the lock held.\<close>

definition produce :: "libraries \<Rightarrow> 'u upload_client \<Rightarrow> producer_env \<Rightarrow> producer_config \<Rightarrow> output_dir \<Rightarrow> 'u \<Rightarrow>
     (producer_error + unit) \<times> output_dir \<times> 'u" where
  "produce li cl pv config od u =
     (case list_files (so_tree (pv_source pv)) of
        Inl e \<Rightarrow> (Inl (ListFailed e), od, u)
      | Inr paths \<Rightarrow>
          if paths = [] then (Inl NoFiles, od, u)
          else if \<not> pv_mkdir pv 1 then (Inl MkStageFailed, od, u)
          else if \<not> pv_mkdir pv 2 then (Inl MkIndexFailed, od, u)
          else if \<not> pv_mkdir pv 3 then (Inl MkDeltaFailed, od, u)
          else (case chunk_all (li_blake3 li) (li_cdc li) (li_lossy li) (pv_stage_write pv) (pv_source pv) (pc_chunk config) paths
                       (Some (od_chunks od)) {} of
                  (r, stage) \<Rightarrow>
                    let od1 = od\<lparr>od_chunks := (case stage of None \<Rightarrow> od_chunks od | Some dir \<Rightarrow> dir)\<rparr> in
                    (case r of
                       Inl e \<Rightarrow> (Inl (ChunkFailed e), od1, u)
                     | Inr es \<Rightarrow> release li cl pv config (build (li_blake3 li) es) od1 u)))"

text \<open>\<open>run_with_config\<close>: every way out of it drops the lock.\<close>

definition run_with_config :: "libraries \<Rightarrow> 'u upload_client \<Rightarrow> producer_env \<Rightarrow> output_dir \<Rightarrow> 'u \<Rightarrow>
     (producer_error + unit) \<times> output_dir \<times> 'u" where
  "run_with_config li cl pv od u =
     (case pv_config pv of
        Inl e \<Rightarrow> (Inl (BadConfig e), od, u)
      | Inr config \<Rightarrow>
          if \<not> pv_mkdir pv 0 then (Inl MkOutputFailed, od, u)
          else if od_lock od \<or> \<not> pv_lock pv then (Inl OutputLocked, od, u)
          else (case produce li cl pv config (od\<lparr>od_lock := True\<rparr>) u of
                  (r, od1, u1) \<Rightarrow> (r, od1\<lparr>od_lock := \<not> pv_unlock pv\<rparr>, u1)))"

section \<open>The listing\<close>

text \<open>The regular files below a directory.\<close>

inductive reg_at :: "(string \<times> fs_node) option list \<Rightarrow> string list \<Rightarrow> bool" where
  here: "Some (name, RegularFile) \<in> set es \<Longrightarrow> reg_at es [name]"
| below: "Some (name, Directory (Some sub)) \<in> set es \<Longrightarrow> reg_at sub path \<Longrightarrow> reg_at es (name # path)"

inductive_simps reg_at_Nil [simp]: "reg_at [] path"

lemma reg_at_Cons:
  "reg_at (e # es) path \<longleftrightarrow> (\<exists>name. e = Some (name, RegularFile) \<and> path = [name]) \<or>
     (\<exists>name sub rest. e = Some (name, Directory (Some sub)) \<and> path = name # rest \<and> reg_at sub rest) \<or> reg_at es path"
  by (subst (1 2) reg_at.simps) auto

lemma collect_files_Inr:
  "collect_files dir es files = Inr out \<Longrightarrow> \<exists>new. out = files @ new \<and> set new = (\<lambda>p. dir @ p) ` {p. reg_at es p}"
proof (induction dir es files arbitrary: out rule: collect_files.induct)
  case (3 dir name es files)
  then obtain new where "out = (files @ [dir @ [name]]) @ new" "set new = (\<lambda>p. dir @ p) ` {p. reg_at es p}" by fastforce
  then show ?case by (intro exI [of _ "(dir @ [name]) # new"]) (auto simp: reg_at_Cons)
next
  case (5 dir name sub es files)
  then obtain files1 where 1: "collect_files (dir @ [name]) sub files = Inr files1" "collect_files dir es files1 = Inr out"
    by (auto split: sum.splits)
  from "5.IH"(1) [OF 1(1)] "5.IH"(2) [OF 1] obtain n1 n2 where
    "files1 = files @ n1" "set n1 = (\<lambda>p. (dir @ [name]) @ p) ` {p. reg_at sub p}"
    "out = files1 @ n2" "set n2 = (\<lambda>p. dir @ p) ` {p. reg_at es p}" by blast
  then show ?case by (intro exI [of _ "n1 @ n2"]) (auto simp: reg_at_Cons image_iff)
qed (auto simp: reg_at_Cons)

lemma list_files_Inr:
  assumes "list_files d = Inr paths"
  obtains es where "d = Directory (Some es)" "set paths = {p. reg_at es p}" "sorted paths"
proof -
  from assms obtain es files where d: "d = Directory (Some es)" "collect_files [] es [] = Inr files" "paths = sort files"
    by (auto simp: list_files_def split: fs_node.splits option.splits sum.splits)
  with collect_files_Inr [OF d(2)] have "set paths = {p. reg_at es p}" by auto
  with that d show ?thesis by simp
qed

section \<open>Cutting and staging\<close>

definition meta_of :: "(bytes \<Rightarrow> bytes) \<Rightarrow> bytes \<Rightarrow> chunk_meta" where
  "meta_of blake3 piece = \<lparr>cm_hash = blake3 piece, cm_len = word_of_nat (length piece)\<rparr>"

text \<open>The staged blocks of \<open>hs\<close> are pieces with these digests.\<close>

definition staged :: "(bytes \<Rightarrow> bytes) \<Rightarrow> (string \<rightharpoonup> bytes) \<Rightarrow> bytes set \<Rightarrow> bytes set \<Rightarrow> bool" where
  "staged blake3 stage pieces hs \<longleftrightarrow> (\<forall>h \<in> hs. \<exists>x \<in> pieces. stage (stage_name h) = Some x \<and> blake3 x = h)"

lemma stage_name_inject [simp]: "stage_name a = stage_name b \<longleftrightarrow> a = b"
  by (simp add: stage_name_def)

lemma staged_insert: "staged blake3 stage ps hs \<Longrightarrow> staged blake3 (stage(stage_name (blake3 x) \<mapsto> x)) (insert x ps) (insert (blake3 x) hs)"
  by (auto simp: staged_def)

lemma staged_mono: "staged blake3 stage ps hs \<Longrightarrow> ps \<subseteq> ps' \<Longrightarrow> hs' \<subseteq> hs \<Longrightarrow> staged blake3 stage ps' hs'"
  by (fastforce simp: staged_def)

lemma chunk_loop_Inr:
  "chunk_loop blake3 wr items stage seen metas = (Inr metas', stage', seen') \<Longrightarrow>
     \<exists>ps. items = map Inr ps \<and> metas' = metas @ map (meta_of blake3) ps \<and>
       (\<forall>dir qs. stage = Some dir \<and> staged blake3 dir qs seen \<longrightarrow>
          seen' = seen \<union> blake3 ` set ps \<and> (\<exists>dir'. stage' = Some dir' \<and> staged blake3 dir' (qs \<union> set ps) seen'))"
proof (induction blake3 wr items stage seen metas rule: chunk_loop.induct)
  case (3 blake3 wr piece items stage seen metas)
  let ?h = "blake3 piece" and ?m = "metas @ [meta_of blake3 piece]"
  consider "stage = None" | dir where "stage = Some dir" "?h \<in> seen" | dir where "stage = Some dir" "?h \<notin> seen" "wr ?h = None"
    using "3.prems" by (auto simp: Let_def split: option.splits if_splits)
  then show ?case
  proof cases
    case 1
    with "3.prems" "3.IH"(1) [OF refl refl 1] obtain ps where "items = map Inr ps" "metas' = ?m @ map (meta_of blake3) ps"
      by (auto simp: Let_def meta_of_def)
    with 1 show ?thesis by (intro exI [of _ "piece # ps"]) simp
  next
    case (2 dir)
    with "3.prems" have run: "chunk_loop blake3 wr items stage seen ?m = (Inr metas', stage', seen')" by (simp add: Let_def meta_of_def)
    from "3.IH"(2) [OF refl refl 2, folded meta_of_def, OF run] obtain ps where ps: "items = map Inr ps" "metas' = ?m @ map (meta_of blake3) ps"
      "\<And>d qs. stage = Some d \<and> staged blake3 d qs seen \<Longrightarrow>
         seen' = seen \<union> blake3 ` set ps \<and> (\<exists>d'. stage' = Some d' \<and> staged blake3 d' (qs \<union> set ps) seen')" by blast
    have "seen' = seen \<union> blake3 ` set (piece # ps) \<and> (\<exists>d'. stage' = Some d' \<and> staged blake3 d' (qs \<union> set (piece # ps)) seen')"
      if "stage = Some d" "staged blake3 d qs seen" for d qs
      using ps(3) [of d qs] that 2(2) staged_mono [of blake3 _ "qs \<union> set ps" seen' "qs \<union> set (piece # ps)" seen'] by auto
    with ps(1,2) show ?thesis by (intro exI [of _ "piece # ps"]) auto
  next
    case (3 dir)
    let ?d = "dir(stage_name ?h \<mapsto> piece)"
    from 3 "3.prems" have run: "chunk_loop blake3 wr items (Some ?d) (insert ?h seen) ?m = (Inr metas', stage', seen')"
      by (simp add: Let_def meta_of_def)
    from "3.IH"(3) [OF refl refl 3, folded meta_of_def, OF run] obtain ps where ps: "items = map Inr ps" "metas' = ?m @ map (meta_of blake3) ps"
      "\<And>qs. staged blake3 ?d qs (insert ?h seen) \<Longrightarrow>
         seen' = insert ?h seen \<union> blake3 ` set ps \<and> (\<exists>d'. stage' = Some d' \<and> staged blake3 d' (qs \<union> set ps) seen')" by blast
    have "seen' = insert ?h seen \<union> blake3 ` set ps \<and> (\<exists>d'. stage' = Some d' \<and> staged blake3 d' (insert piece qs \<union> set ps) seen')"
      if "staged blake3 dir qs seen" for qs using ps(3) staged_insert [OF that, of piece] by blast
    with ps(1,2) 3 show ?thesis by (intro exI [of _ "piece # ps"]) auto
  qed
qed auto

text \<open>
  An entry of the index for a file: its chunks are the pieces of the content that was cut, its
  digest that of the content that was read for it.
\<close>

definition entry_of :: "(bytes \<Rightarrow> bytes) \<Rightarrow> cutter \<Rightarrow> (string \<Rightarrow> string) \<Rightarrow> source_dir \<Rightarrow> chunk_params \<Rightarrow> string list \<Rightarrow> file_entry \<times> bytes list \<Rightarrow> bool" where
  "entry_of blake3 cdc lossy src params path ep \<longleftrightarrow> (case ep of (e, ps) \<Rightarrow>
     fe_name e = entry_name lossy path \<and> fe_chunks e = map (meta_of blake3) ps \<and>
     (\<exists>content. so_open src path = Some content \<and> cdc params content = Some (map Inr ps)) \<and>
     (\<exists>rs content. so_reads src path = Some rs \<and> hash_loop rs [] = Inr content \<and> fe_hash e = blake3 content))"

lemma chunk_all_Inr:
  "chunk_all blake3 cdc lossy wr src params paths stage seen = (Inr es, stage') \<Longrightarrow>
     \<exists>pss. length pss = length es \<and> list_all2 (entry_of blake3 cdc lossy src params) paths (zip es pss) \<and>
       (\<forall>dir qs. stage = Some dir \<and> staged blake3 dir qs seen \<longrightarrow>
          (\<exists>dir'. stage' = Some dir' \<and> staged blake3 dir' (qs \<union> \<Union> (set ` set pss)) (seen \<union> blake3 ` \<Union> (set ` set pss))))"
proof (induction blake3 cdc lossy wr src params paths stage seen arbitrary: es stage' rule: chunk_all.induct)
  case (2 blake3 cdc lossy wr src params path paths stage seen)
  from "2.prems" obtain chunks stage1 seen1 h es1 where
    cut: "chunk_file blake3 cdc wr (so_open src path) params stage seen = (Inr chunks, stage1, seen1)"
    and h: "file_hash blake3 (so_reads src path) = Inr h"
    and rest: "chunk_all blake3 cdc lossy wr src params paths stage1 seen1 = (Inr es1, stage')"
    and es: "es = \<lparr>fe_name = entry_name lossy path, fe_hash = h, fe_chunks = chunks\<rparr> # es1"
    by (auto split: prod.splits sum.splits)
  from cut obtain content items where content: "so_open src path = Some content" "cdc params content = Some items"
    "chunk_loop blake3 wr items stage seen [] = (Inr chunks, stage1, seen1)"
    by (auto simp: chunk_file_def split: option.splits)
  from chunk_loop_Inr [OF content(3)] obtain ps where ps: "items = map Inr ps" "chunks = map (meta_of blake3) ps"
    "\<And>dir qs. stage = Some dir \<Longrightarrow> staged blake3 dir qs seen \<Longrightarrow>
       seen1 = seen \<union> blake3 ` set ps \<and> (\<exists>dir'. stage1 = Some dir' \<and> staged blake3 dir' (qs \<union> set ps) seen1)" by auto
  from "2.IH" [OF cut [symmetric] refl refl h rest] obtain pss where pss: "length pss = length es1"
    "list_all2 (entry_of blake3 cdc lossy src params) paths (zip es1 pss)"
    "\<And>dir qs. stage1 = Some dir \<Longrightarrow> staged blake3 dir qs seen1 \<Longrightarrow>
       \<exists>dir'. stage' = Some dir' \<and> staged blake3 dir' (qs \<union> \<Union> (set ` set pss)) (seen1 \<union> blake3 ` \<Union> (set ` set pss))" by blast
  have e: "entry_of blake3 cdc lossy src params path (\<lparr>fe_name = entry_name lossy path, fe_hash = h, fe_chunks = chunks\<rparr>, ps)"
    using content ps h by (auto simp: entry_of_def file_hash_def split: option.splits sum.splits)
  have st: "\<exists>dir'. stage' = Some dir' \<and> staged blake3 dir' (qs \<union> \<Union> (set ` set (ps # pss))) (seen \<union> blake3 ` \<Union> (set ` set (ps # pss)))"
    if pre: "stage = Some dir" "staged blake3 dir qs seen" for dir qs
  proof -
    from ps(3) [OF pre] obtain d1 where d1: "stage1 = Some d1" "staged blake3 d1 (qs \<union> set ps) seen1" "seen1 = seen \<union> blake3 ` set ps" by blast
    from pss(3) [OF d1(1,2)] d1(3) show ?thesis by (simp add: image_Un Un_assoc)
  qed
  show ?case using pss(1,2) e st by (intro exI [of _ "ps # pss"]) (simp add: es)
qed (auto simp: staged_def)

end
