(* ===== verification/Producer_Spec.thy ===== *)
theory Producer_Spec
  imports Producer Agent_Control
begin

text \<open>
  The properties of the producer: what it writes, and what a run leaves at the origin and at the
  scheduler, whose handlers answer its calls.
\<close>

section \<open>What a run produces\<close>

text \<open>
  What the cutter promises: the pieces make up the content, none is empty and none exceeds the
  maximal size. A source that does not change during the run shows both passes the same content.
\<close>

definition cutter_ok :: "cutter \<Rightarrow> bool" where
  "cutter_ok cdc \<longleftrightarrow> (\<forall>params content ps. cdc params content = Some (map Inr ps) \<longrightarrow>
     concat ps = content \<and> (\<forall>p \<in> set ps. p \<noteq> [] \<and> length p \<le> cp_max_size params))"

definition stable :: "source_dir \<Rightarrow> bool" where
  "stable src \<longleftrightarrow> (\<forall>path content rs c. so_open src path = Some content \<and> so_reads src path = Some rs \<and> hash_loop rs [] = Inr c \<longrightarrow> c = content)"

text \<open>An entry that describes a content.\<close>

definition describes :: "(bytes \<Rightarrow> bytes) \<Rightarrow> nat \<Rightarrow> file_entry \<Rightarrow> bytes \<Rightarrow> bool" where
  "describes blake3 mx e content \<longleftrightarrow> fe_hash e = blake3 content \<and>
     (\<exists>ps. concat ps = content \<and> fe_chunks e = map (meta_of blake3) ps \<and> (\<forall>p \<in> set ps. p \<noteq> [] \<and> length p \<le> mx))"

lemma entry_describes:
  assumes "cutter_ok cdc" "stable src" "entry_of blake3 cdc lossy src params path (e, ps)"
  shows "fe_name e = entry_name lossy path \<and> (\<exists>content. so_open src path = Some content \<and> describes blake3 (cp_max_size params) e content)"
  using assms unfolding entry_of_def cutter_ok_def stable_def describes_def by fastforce

lemma chunk_all_staged:
  assumes "chunk_all blake3 cdc lossy wr src params paths (Some dir) {} = (Inr es, stage)"
  obtains pss dir' where "length pss = length es" "list_all2 (entry_of blake3 cdc lossy src params) paths (zip es pss)"
    "stage = Some dir'" "staged blake3 dir' (\<Union> (set ` set pss)) (blake3 ` \<Union> (set ` set pss))"
proof -
  from chunk_all_Inr [OF assms] obtain pss where pss: "length pss = length es"
    "list_all2 (entry_of blake3 cdc lossy src params) paths (zip es pss)"
    "\<And>qs. staged blake3 dir qs {} \<Longrightarrow>
       \<exists>dir'. stage = Some dir' \<and> staged blake3 dir' (qs \<union> \<Union> (set ` set pss)) ({} \<union> blake3 ` \<Union> (set ` set pss))" by auto
  from pss(3) [of "{}"] obtain dir' where "stage = Some dir'" "staged blake3 dir' (\<Union> (set ` set pss)) (blake3 ` \<Union> (set ` set pss))"
    by (auto simp: staged_def)
  with pss(1,2) that show ?thesis by blast
qed

text \<open>The successful run, step by step.\<close>

lemma run_with_config_Inr:
  assumes "run_with_config li cl pv od u = (Inr (), od', u')"
  obtains config paths es dir js old where "pv_config pv = Inr config" "list_files (so_tree (pv_source pv)) = Inr paths" "paths \<noteq> []"
    "chunk_all (li_blake3 li) (li_cdc li) (li_lossy li) (pv_stage_write pv) (pv_source pv) (pc_chunk config) paths
       (Some (od_chunks od)) {} = (Inr es, Some dir)"
    "previous_index li config (pv_previous pv) = Inr old"
    "od' = od\<lparr>od_lock := \<not> pv_unlock pv, od_chunks := dir,
       od_index := (od_index od)(index_name (pc_version config) \<mapsto> encode (build (li_blake3 li) es)),
       od_delta := (od_delta od)(delta_name (pc_version config) \<mapsto> js)\<rparr>"
    "publish li cl pv config (build (li_blake3 li) es) (compute (build (li_blake3 li) es) old {}) dir u = (Inr (), u')"
proof -
  from assms obtain config od1 where config: "pv_config pv = Inr config" "produce li cl pv config (od\<lparr>od_lock := True\<rparr>) u = (Inr (), od1, u')"
    "od' = od1\<lparr>od_lock := \<not> pv_unlock pv\<rparr>"
    by (auto simp: run_with_config_def split: sum.splits if_splits prod.splits)
  from config(2) obtain paths es stage where cut: "list_files (so_tree (pv_source pv)) = Inr paths" "paths \<noteq> []"
    "chunk_all (li_blake3 li) (li_cdc li) (li_lossy li) (pv_stage_write pv) (pv_source pv) (pc_chunk config) paths
       (Some (od_chunks od)) {} = (Inr es, stage)"
    "release li cl pv config (build (li_blake3 li) es)
       (od\<lparr>od_lock := True, od_chunks := (case stage of None \<Rightarrow> od_chunks (od\<lparr>od_lock := True\<rparr>) | Some dir \<Rightarrow> dir)\<rparr>) u = (Inr (), od1, u')"
    by (auto simp: produce_def Let_def split: sum.splits if_splits prod.splits)
  from chunk_all_staged [OF cut(3)] obtain dir where dir: "stage = Some dir" by blast
  let ?od = "\<lambda>js. od\<lparr>od_lock := True, od_chunks := dir,
    od_index := (od_index od)(index_name (pc_version config) \<mapsto> encode (build (li_blake3 li) es)),
    od_delta := (od_delta od)(delta_name (pc_version config) \<mapsto> js)\<rparr>"
  from cut(4) obtain js old where "previous_index li config (pv_previous pv) = Inr old" "od1 = ?od js"
    "publish li cl pv config (build (li_blake3 li) es) (compute (build (li_blake3 li) es) old {}) dir u = (Inr (), u')"
    by (auto simp: release_def Let_def dir split: sum.splits option.splits prod.splits)
  with config cut(1-3) dir show ?thesis by (intro that [of config paths es dir old js]) simp_all
qed

definition nameable :: "(string \<Rightarrow> string) \<Rightarrow> source_dir \<Rightarrow> string list list \<Rightarrow> bool" where
  "nameable lossy src paths \<longleftrightarrow> length paths < 2 ^ 32 \<and>
     (\<forall>p \<in> set paths. utf8_valid (as_bytes (entry_name lossy p)) \<and> length (entry_name lossy p) < 2 ^ 16 \<and>
        (\<forall>content. so_open src p = Some content \<longrightarrow> length content < 2 ^ 32))"

lemma length_le_concat: "(\<forall>p \<in> set ps. p \<noteq> []) \<Longrightarrow> length ps \<le> length (concat ps)"
proof (induction ps)
  case (Cons p ps)
  then show ?case by (cases p) auto
qed simp

lemma described_wf:
  assumes "blake3_ok blake3" "nameable lossy src paths"
    and "list_all2 (\<lambda>p e. fe_name e = entry_name lossy p \<and> (\<exists>content. so_open src p = Some content \<and> describes blake3 mx e content)) paths es"
  shows "decode blake3 (encode (build blake3 es)) = Inr (build blake3 es)"
proof (rule decode_encode)
  show "wf_files (gi_files (build blake3 es))"
    unfolding wf_files_def build_simps list_all_iff
  proof (intro conjI ballI)
    show "length es < 2 ^ 32" using assms(2) list_all2_lengthD [OF assms(3)] by (simp add: nameable_def)
    fix e assume "e \<in> set es"
    then obtain p content ps where p: "p \<in> set paths" "fe_name e = entry_name lossy p" "so_open src p = Some content"
      "fe_hash e = blake3 content" "concat ps = content" "fe_chunks e = map (meta_of blake3) ps" "\<forall>q \<in> set ps. q \<noteq> []"
      using assms(3) unfolding list_all2_conv_all_nth in_set_conv_nth describes_def by fastforce
    have "length ps < 2 ^ 32" using p assms(2) length_le_concat [OF p(7)] by (fastforce simp: nameable_def)
    with p assms show "wf_file e" by (simp add: wf_file_def wf_chunk_def nameable_def blake3_ok_def meta_of_def list_all_iff)
  qed
qed (use assms(1) in \<open>simp_all add: build_hash blake3_ok_def\<close>)

lemma chunk_set_pieces:
  assumes "list_all2 (entry_of blake3 cdc lossy src params) paths (zip es pss)" "length pss = length es"
  shows "chunk_set (build blake3 es) = blake3 ` \<Union> (set ` set pss)"
proof -
  have "map (\<lambda>e. map cm_hash (fe_chunks e)) es = map (map blake3) pss"
  proof (rule nth_equalityI)
    fix i assume "i < length (map (\<lambda>e. map cm_hash (fe_chunks e)) es)"
    with assms show "map (\<lambda>e. map cm_hash (fe_chunks e)) es ! i = map (map blake3) pss ! i"
      by (auto simp: list_all2_conv_all_nth entry_of_def meta_of_def)
  qed (use assms(2) in simp)
  then have "concat (map (\<lambda>e. map cm_hash (fe_chunks e)) es) = map blake3 (concat pss)" by (simp add: map_concat)
  then show ?thesis by (simp add: chunk_set_def chunk_hashes_def)
qed

lemma run_produces:
  assumes "cutter_ok (li_cdc li)" and "stable (pv_source pv)" and "run_with_config li cl pv od u = (Inr (), od', u')"
  obtains config paths index where "pv_config pv = Inr config" "list_files (so_tree (pv_source pv)) = Inr paths" "paths \<noteq> []"
    "od_index od' (index_name (pc_version config)) = Some (encode index)"
    "list_all2 (\<lambda>p e. fe_name e = entry_name (li_lossy li) p \<and>
      (\<exists>content. so_open (pv_source pv) p = Some content \<and> describes (li_blake3 li) (cp_max_size (pc_chunk config)) e content)) paths (gi_files index)"
    "\<forall>h \<in> chunk_set index. \<exists>x. od_chunks od' (stage_name h) = Some x \<and> li_blake3 li x = h"
    "blake3_ok (li_blake3 li) \<and> nameable (li_lossy li) (pv_source pv) paths \<longrightarrow> decode (li_blake3 li) (encode index) = Inr index"
    "index = build (li_blake3 li) (gi_files index)"
proof -
  let ?b = "li_blake3 li" and ?src = "pv_source pv"
  from run_with_config_Inr [OF assms(3)] obtain config paths es dir js old where run: "pv_config pv = Inr config"
    "list_files (so_tree ?src) = Inr paths" "paths \<noteq> []"
    "chunk_all ?b (li_cdc li) (li_lossy li) (pv_stage_write pv) ?src (pc_chunk config) paths (Some (od_chunks od)) {} = (Inr es, Some dir)"
    "od' = od\<lparr>od_lock := \<not> pv_unlock pv, od_chunks := dir, od_index := (od_index od)(index_name (pc_version config) \<mapsto> encode (build ?b es)),
       od_delta := (od_delta od)(delta_name (pc_version config) \<mapsto> js)\<rparr>" by metis
  from chunk_all_staged [OF run(4)] obtain pss where pss: "length pss = length es"
    "list_all2 (entry_of ?b (li_cdc li) (li_lossy li) ?src (pc_chunk config)) paths (zip es pss)"
    "staged ?b dir (\<Union> (set ` set pss)) (?b ` \<Union> (set ` set pss))" by blast
  have all: "list_all2 (\<lambda>p e. fe_name e = entry_name (li_lossy li) p \<and>
      (\<exists>content. so_open ?src p = Some content \<and> describes ?b (cp_max_size (pc_chunk config)) e content)) paths es"
    using pss(1,2) entry_describes [OF assms(1,2)] by (fastforce simp: list_all2_conv_all_nth)
  have "\<forall>h \<in> chunk_set (build ?b es). \<exists>x. od_chunks od' (stage_name h) = Some x \<and> ?b x = h"
    using pss(3) chunk_set_pieces [OF pss(2,1)] run(5) by (fastforce simp: staged_def)
  moreover have "od_index od' (index_name (pc_version config)) = Some (encode (build ?b es))" using run(5) by simp
  ultimately show ?thesis using run(1-3) all described_wf [OF _ _ all]
    by (intro that [of config paths "build ?b es"]) simp_all
qed

text \<open>
  C16. What a successful run produces. The index file of the version holds the encoding of an
  index with one entry for each regular file below the source directory, in the order of their
  paths; the chunks of an entry are the digests and lengths of pieces that make up the file's
  content, its digest is that of the content; every chunk is staged under its digest; and unless a
  name is too long or no UTF-8 text, a reader of the index file gets this index. (The cutter must
  cut, and the files must not change during the run.)
\<close>

theorem produced_index:
  assumes "cutter_ok (li_cdc li)" and "stable (pv_source pv)" and "run_with_config li cl pv od u = (Inr (), od', u')"
  shows "\<exists>config es paths index. pv_config pv = Inr config \<and> so_tree (pv_source pv) = Directory (Some es) \<and>
    set paths = {p. reg_at es p} \<and> sorted paths \<and> paths \<noteq> [] \<and>
    od_index od' (index_name (pc_version config)) = Some (encode index) \<and>
    list_all2 (\<lambda>p e. fe_name e = entry_name (li_lossy li) p \<and>
      (\<exists>content. so_open (pv_source pv) p = Some content \<and> describes (li_blake3 li) (cp_max_size (pc_chunk config)) e content)) paths (gi_files index) \<and>
    (\<forall>h \<in> chunk_set index. \<exists>x. od_chunks od' (stage_name h) = Some x \<and> li_blake3 li x = h) \<and>
    (blake3_ok (li_blake3 li) \<and> nameable (li_lossy li) (pv_source pv) paths \<longrightarrow> decode (li_blake3 li) (encode index) = Inr index)"
proof -
  obtain config paths index where out: "pv_config pv = Inr config" "list_files (so_tree (pv_source pv)) = Inr paths" "paths \<noteq> []"
    "od_index od' (index_name (pc_version config)) = Some (encode index)"
    "list_all2 (\<lambda>p e. fe_name e = entry_name (li_lossy li) p \<and>
      (\<exists>content. so_open (pv_source pv) p = Some content \<and> describes (li_blake3 li) (cp_max_size (pc_chunk config)) e content)) paths (gi_files index)"
    "\<forall>h \<in> chunk_set index. \<exists>x. od_chunks od' (stage_name h) = Some x \<and> li_blake3 li x = h"
    "blake3_ok (li_blake3 li) \<and> nameable (li_lossy li) (pv_source pv) paths \<longrightarrow> decode (li_blake3 li) (encode index) = Inr index"
    "index = build (li_blake3 li) (gi_files index)"
    by (rule run_produces [OF assms])
  from list_files_Inr [OF out(2)] obtain es where "so_tree (pv_source pv) = Directory (Some es)" "set paths = {p. reg_at es p}" "sorted paths" .
  with out show ?thesis by (intro exI [of _ config] exI [of _ es] exI [of _ paths] exI [of _ index]) blast
qed

section \<open>Sizes\<close>

definition source_bytes :: "source_dir \<Rightarrow> nat" where
  "source_bytes src = (case list_files (so_tree src) of Inl _ \<Rightarrow> 0 | Inr paths \<Rightarrow> (\<Sum>p \<leftarrow> paths. length (the (so_open src p))))"

lemma sum_set_le_sum_list: "(\<Sum>x \<in> set xs. f x) \<le> (\<Sum>x \<leftarrow> xs. f x :: nat)"
proof (induction xs)
  case (Cons x xs)
  then show ?case by (cases "x \<in> set xs") (simp_all add: insert_absorb)
qed simp

lemma staged_bytes:
  assumes "staged blake3 dir (set xs) (blake3 ` set xs)" "distinct hs" "set hs \<subseteq> blake3 ` set xs"
  shows "(\<Sum>h \<leftarrow> hs. length (the (dir (stage_name h)))) \<le> (\<Sum>x \<leftarrow> xs. length x)"
proof -
  let ?f = "\<lambda>h. the (dir (stage_name h))"
  have f: "?f h \<in> set xs \<and> blake3 (?f h) = h" if "h \<in> set hs" for h
    using assms(1,3) that by (fastforce simp: staged_def)
  have inj: "inj_on ?f (set hs)" by (rule inj_on_inverseI [of _ blake3]) (use f in blast)
  have "(\<Sum>h \<leftarrow> hs. length (?f h)) = (\<Sum>h \<in> set hs. length (?f h))" using assms(2) by (simp add: sum_list_distinct_conv_sum_set)
  also have "\<dots> = (\<Sum>x \<in> ?f ` set hs. length x)" by (simp add: sum.reindex [OF inj])
  also have "\<dots> \<le> (\<Sum>x \<in> set xs. length x)" using f by (intro sum_mono2) auto
  also have "\<dots> \<le> (\<Sum>x \<leftarrow> xs. length x)" by (rule sum_set_le_sum_list)
  finally show ?thesis .
qed

lemma pieces_bytes:
  "list_all2 (entry_of blake3 cdc lossy src params) paths (zip es pss) \<Longrightarrow> length pss = length es \<Longrightarrow> cutter_ok cdc \<Longrightarrow>
     (\<Sum>x \<leftarrow> concat pss. length x) = (\<Sum>p \<leftarrow> paths. length (the (so_open src p)))"
proof (induction paths arbitrary: es pss)
  case (Cons path paths)
  then obtain e es1 ps pss1 where c: "es = e # es1" "pss = ps # pss1" by (cases es; cases pss) auto
  with Cons.prems have "entry_of blake3 cdc lossy src params path (e, ps)" by simp
  with Cons.prems(3) have "the (so_open src path) = concat ps" by (auto simp: entry_of_def cutter_ok_def)
  then have "length (the (so_open src path)) = (\<Sum>x \<leftarrow> ps. length x)" by (simp add: length_concat)
  with Cons.IH [of es1 pss1] Cons.prems c show ?case by simp
qed auto

text \<open>The staged chunks of a plan are no larger than the source.\<close>

lemma plan_bytes:
  assumes "cutter_ok (li_cdc li)" "list_files (so_tree src) = Inr paths"
    and "chunk_all (li_blake3 li) (li_cdc li) (li_lossy li) wr src params paths (Some d0) {} = (Inr es, Some dir)"
    and "distinct hs" "set hs \<subseteq> set (chunks_to_download (compute (build (li_blake3 li) es) old {}))"
  shows "(\<Sum>h \<leftarrow> hs. length (the (dir (stage_name h)))) \<le> source_bytes src"
proof -
  from chunk_all_staged [OF assms(3)] obtain pss where pss: "length pss = length es"
    "list_all2 (entry_of (li_blake3 li) (li_cdc li) (li_lossy li) src params) paths (zip es pss)"
    "staged (li_blake3 li) dir (\<Union> (set ` set pss)) (li_blake3 li ` \<Union> (set ` set pss))" by blast
  have "set (chunks_to_download (compute (build (li_blake3 li) es) old {})) \<subseteq> chunk_set (build (li_blake3 li) es)"
    by (auto simp: compute_simps set_chunk_hashes first_chunks_set)
  then have "set hs \<subseteq> li_blake3 li ` set (concat pss)" using assms(5) chunk_set_pieces [OF pss(2,1)] by auto
  with staged_bytes [of "li_blake3 li" dir "concat pss" hs] pss(3) assms(4)
  have "(\<Sum>h \<leftarrow> hs. length (the (dir (stage_name h)))) \<le> (\<Sum>x \<leftarrow> concat pss. length x)" by simp
  then show ?thesis using pieces_bytes [OF pss(2,1) assms(1)] assms(2) by (simp add: source_bytes_def)
qed

section \<open>Runs without faults\<close>

definition readable :: "source_dir \<Rightarrow> string list list \<Rightarrow> bool" where
  "readable src paths \<longleftrightarrow> (\<forall>p \<in> set paths. \<exists>content rs. so_open src p = Some content \<and> so_reads src p = Some rs \<and> hash_loop rs [] = Inr content)"

definition cuts_all :: "cutter \<Rightarrow> chunk_params \<Rightarrow> bool" where
  "cuts_all cdc params \<longleftrightarrow> (\<forall>content. \<exists>ps. cdc params content = Some (map Inr ps))"

lemma chunk_loop_live:
  "\<exists>metas' stage' seen'. chunk_loop blake3 (\<lambda>h. None) (map Inr ps) stage seen metas = (Inr metas', stage', seen')"
  by (induction ps arbitrary: stage seen metas) (auto simp: Let_def split: option.splits)

lemma chunk_all_live:
  "readable src paths \<Longrightarrow> cuts_all cdc params \<Longrightarrow>
     \<exists>es stage'. chunk_all blake3 cdc lossy (\<lambda>h. None) src params paths stage seen = (Inr es, stage')"
proof (induction paths arbitrary: stage seen)
  case (Cons path paths)
  from Cons.prems(1) obtain content rs where r: "so_open src path = Some content" "so_reads src path = Some rs" "hash_loop rs [] = Inr content"
    by (auto simp: readable_def)
  from Cons.prems(2) obtain ps where ps: "cdc params content = Some (map Inr ps)" by (auto simp: cuts_all_def)
  obtain metas stage1 seen1 where "chunk_loop blake3 (\<lambda>h. None) (map Inr ps) stage seen [] = (Inr metas, stage1, seen1)"
    using chunk_loop_live by blast
  with r ps have cut: "chunk_file blake3 cdc (\<lambda>h. None) (so_open src path) params stage seen = (Inr metas, stage1, seen1)"
    by (simp add: chunk_file_def)
  have "readable src paths" using Cons.prems(1) by (simp add: readable_def)
  from Cons.IH [OF this Cons.prems(2), of stage1 seen1] obtain es stage' where
    "chunk_all blake3 cdc lossy (\<lambda>h. None) src params paths stage1 seen1 = (Inr es, stage')" by blast
  with cut r show ?case by (simp add: file_hash_def)
qed simp

definition no_faults :: "producer_env \<Rightarrow> output_dir \<Rightarrow> bool" where
  "no_faults pv od \<longleftrightarrow> (\<forall>i. pv_mkdir pv i) \<and> pv_lock pv \<and> \<not> od_lock od \<and> pv_stage_write pv = (\<lambda>h. None) \<and>
     pv_index_write pv = None \<and> pv_delta_write pv = None \<and> pv_stage_read pv = (\<lambda>h. True) \<and> pv_runtime pv \<and> pv_connect pv"

text \<open>The part before the upload.\<close>

lemma run_with_config_live:
  assumes "no_faults pv od" "pv_config pv = Inr config" "list_files (so_tree (pv_source pv)) = Inr paths" "paths \<noteq> []"
    and "readable (pv_source pv) paths" "cuts_all (li_cdc li) (pc_chunk config)" "previous_index li config (pv_previous pv) = Inr old"
    and "\<And>d. li_json li d \<noteq> None"
  obtains es dir where "chunk_all (li_blake3 li) (li_cdc li) (li_lossy li) (\<lambda>h. None) (pv_source pv) (pc_chunk config) paths
      (Some (od_chunks od)) {} = (Inr es, Some dir)"
    "\<And>r u'. publish li cl pv config (build (li_blake3 li) es) (compute (build (li_blake3 li) es) old {}) dir u = (r, u') \<Longrightarrow>
      \<exists>od'. run_with_config li cl pv od u = (r, od', u')"
proof -
  from chunk_all_live [OF assms(5,6)] obtain es stage where
    c: "chunk_all (li_blake3 li) (li_cdc li) (li_lossy li) (\<lambda>h. None) (pv_source pv) (pc_chunk config) paths (Some (od_chunks od)) {} = (Inr es, stage)"
    by blast
  from chunk_all_staged [OF c] obtain dir where dir: "stage = Some dir" by blast
  have "\<exists>od'. run_with_config li cl pv od u = (r, od', u')"
    if "publish li cl pv config (build (li_blake3 li) es) (compute (build (li_blake3 li) es) old {}) dir u = (r, u')" for r u'
  proof -
    obtain js where "li_json li (delta_of config (compute (build (li_blake3 li) es) old {})) = Some js" using assms(8) by blast
    with that c dir assms(1-4,7) show ?thesis
      by (simp add: run_with_config_def produce_def release_def no_faults_def Let_def)
  qed
  with that c dir show ?thesis by blast
qed

section \<open>What the producer relies on\<close>

text \<open>
  \<open>valid\<close> is the invariant of the other side, \<open>fits u g n\<close> says that \<open>n\<close> more bytes fit into the library
  of a game, \<open>stored\<close> that a chunk is there under its digest, \<open>pub\<close> that a manifest is published.
\<close>

locale upload_link =
  fixes cl :: "'u upload_client"
    and blake3 :: "bytes \<Rightarrow> bytes"
    and valid :: "'u \<Rightarrow> bool"
    and fits :: "'u \<Rightarrow> u64 \<Rightarrow> nat \<Rightarrow> bool"
    and stored :: "'u \<Rightarrow> u64 \<Rightarrow> bytes \<Rightarrow> bool"
    and pub :: "'u \<Rightarrow> u64 \<Rightarrow> u64 \<Rightarrow> bytes \<Rightarrow> bool"
  assumes fits_less: "fits u g n \<Longrightarrow> m \<le> n \<Longrightarrow> fits u g m"
    and query_valid: "valid u \<Longrightarrow> cl_query cl g hs auth u = (r, u') \<Longrightarrow> valid u' \<and> (\<forall>n. fits u g n \<longrightarrow> fits u' g n)"
    and upload_valid: "valid u \<Longrightarrow> \<forall>c \<in> set cs. uc_game_id c = g \<Longrightarrow> fits u g (\<Sum>c \<leftarrow> cs. length (uc_data c)) \<Longrightarrow>
      cl_upload cl cs auth u = (q, u') \<Longrightarrow> valid u'"
    and commit_pub: "valid u \<Longrightarrow> cl_commit cl c auth u = (Inr reply, u') \<Longrightarrow> cp_published reply \<Longrightarrow>
      valid u' \<and> pub u' (cr_game_id c) (cr_version c) (cr_manifest c) \<and>
      (\<exists>index. decode blake3 (cr_manifest c) = Inr index \<and> (\<forall>h \<in> chunk_set index. stored u' (cr_game_id c) h))"
begin

lemma query_existing_valid:
  assumes "valid u" "query_existing cl header_ok g hs token u = (r, u')"
  shows "valid u' \<and> (\<forall>n. fits u g n \<longrightarrow> fits u' g n)"
  using assms query_valid [OF assms(1)] by (auto simp: query_existing_def split: sum.splits prod.splits)

lemma upload_delta_valid:
  assumes "valid u" "fits u g n" "upload_delta cl header_ok rd g stage hs token u = (r, u')"
    and "\<And>hs'. distinct hs' \<Longrightarrow> set hs' \<subseteq> set hs \<Longrightarrow> \<forall>h \<in> set hs'. stage (stage_name h) \<noteq> None \<Longrightarrow>
      (\<Sum>h \<leftarrow> hs'. length (the (stage (stage_name h)))) \<le> n" and "distinct hs"
  shows "valid u'"
proof -
  obtain q u1 where q: "query_existing cl header_ok g hs token u = (q, u1)" by fastforce
  note v1 = query_existing_valid [OF assms(1) q]
  show ?thesis
  proof (cases "u' = u1")
    case False
    with assms(3) q obtain existing auth out where up: "q = Inr existing"
      "find (\<lambda>h. stage (stage_name h) = None) (filter (\<lambda>h. h \<notin> set existing) hs) = None"
      "cl_upload cl (sent_chunks g rd stage (filter (\<lambda>h. h \<notin> set existing) hs)) auth u1 = (out, u')"
      by (auto simp: upload_delta_def Let_def split: sum.splits prod.splits if_splits option.splits)
    let ?hs = "filter rd (filter (\<lambda>h. h \<notin> set existing) hs)"
    have "\<forall>h \<in> set ?hs. stage (stage_name h) \<noteq> None" using up(2) by (auto simp: find_None_iff)
    from assms(4) [OF _ _ this] assms(5) have "(\<Sum>h \<leftarrow> ?hs. length (the (stage (stage_name h)))) \<le> n" by auto
    then have le: "(\<Sum>c \<leftarrow> sent_chunks g rd stage (filter (\<lambda>h. h \<notin> set existing) hs). length (uc_data c)) \<le> n"
      by (simp add: sent_chunks_def comp_def)
    have "fits u1 g n" using v1 assms(2) by blast
    then have fit: "fits u1 g (\<Sum>c \<leftarrow> sent_chunks g rd stage (filter (\<lambda>h. h \<notin> set existing) hs). length (uc_data c))"
      by (rule fits_less [OF _ le])
    have "\<forall>c \<in> set (sent_chunks g rd stage (filter (\<lambda>h. h \<notin> set existing) hs)). uc_game_id c = g" by (simp add: sent_chunks_def)
    from upload_valid [OF conjunct1 [OF v1] this fit up(3)] show ?thesis .
  qed (use v1 in simp)
qed

text \<open>A successful publication, when the staged blocks fit.\<close>

lemma publish_pub:
  assumes "valid u" "fits u (pc_game_id config) n" "publish li cl pv config index plan stage u = (Inr (), u')"
    and "\<And>hs'. distinct hs' \<Longrightarrow> set hs' \<subseteq> set (chunks_to_download plan) \<Longrightarrow> \<forall>h \<in> set hs'. stage (stage_name h) \<noteq> None \<Longrightarrow>
      (\<Sum>h \<leftarrow> hs'. length (the (stage (stage_name h)))) \<le> n" and "distinct (chunks_to_download plan)"
    and "pc_origin_addr config \<noteq> None"
  shows "valid u' \<and> pub u' (pc_game_id config) (pc_version config) (encode index) \<and>
    (\<exists>i. decode blake3 (encode index) = Inr i \<and> (\<forall>h \<in> chunk_set i. stored u' (pc_game_id config) h))"
proof -
  from assms(3,6) obtain summary u1 where
    up: "upload_delta cl (li_header_ok li) (pv_stage_read pv) (pc_game_id config) stage (chunks_to_download plan) (pc_origin_token config) u = (Inr summary, u1)"
      "client_commit_version cl (li_header_ok li) (pc_game_id config) (pc_version config) (encode index) (gi_hash index) (pc_origin_token config) u1 = (Inr (), u')"
    by (auto simp: publish_def split: if_splits sum.splits prod.splits)
  have v1: "valid u1" by (rule upload_delta_valid [OF assms(1,2) up(1) assms(4,5)])
  from up(2) obtain auth reply where "cl_commit cl \<lparr>cr_game_id = pc_game_id config, cr_version = pc_version config,
      cr_manifest = encode index, cr_manifest_hash = gi_hash index\<rparr> auth u1 = (Inr reply, u')" "cp_published reply"
    by (auto simp: client_commit_version_def split: sum.splits prod.splits if_splits)
  from commit_pub [OF v1 this] show ?thesis by simp
qed

lemma run_publishes:
  assumes "blake3 = li_blake3 li" "valid u" "cutter_ok (li_cdc li)" "pv_config pv = Inr config" "pc_origin_addr config \<noteq> None"
    and "fits u (pc_game_id config) (source_bytes (pv_source pv))" "run_with_config li cl pv od u = (Inr (), od', u')"
  shows "\<exists>index. od_index od' (index_name (pc_version config)) = Some (encode index) \<and>
    valid u' \<and> pub u' (pc_game_id config) (pc_version config) (encode index) \<and>
    (\<exists>i. decode blake3 (encode index) = Inr i \<and> (\<forall>h \<in> chunk_set i. stored u' (pc_game_id config) h))"
proof -
  obtain config' paths es dir js old where run: "pv_config pv = Inr config'" "list_files (so_tree (pv_source pv)) = Inr paths" "paths \<noteq> []"
    "chunk_all (li_blake3 li) (li_cdc li) (li_lossy li) (pv_stage_write pv) (pv_source pv) (pc_chunk config') paths
       (Some (od_chunks od)) {} = (Inr es, Some dir)"
    "previous_index li config' (pv_previous pv) = Inr old"
    "od' = od\<lparr>od_lock := \<not> pv_unlock pv, od_chunks := dir, od_index := (od_index od)(index_name (pc_version config') \<mapsto> encode (build (li_blake3 li) es)),
       od_delta := (od_delta od)(delta_name (pc_version config') \<mapsto> js)\<rparr>"
    "publish li cl pv config' (build (li_blake3 li) es) (compute (build (li_blake3 li) es) old {}) dir u = (Inr (), u')"
    by (rule run_with_config_Inr [OF assms(7)])
  have same: "config' = config" using run(1) assms(4) by simp
  have "distinct (chunks_to_download (compute (build (li_blake3 li) es) old {}))"
    by (simp add: compute_simps first_chunks_distinct)
  with publish_pub [OF assms(2,6) run(7) [unfolded same] _ _ assms(5)] plan_bytes [OF assms(3) run(2,4)] run(6) show ?thesis
    by (intro exI [of _ "build (li_blake3 li) es"]) (auto simp: same)
qed

end

text \<open>A link that does not fail, to a side that does not either.\<close>

locale live_upload_link = upload_link +
  assumes query_live: "valid u \<Longrightarrow> g \<noteq> 0 \<Longrightarrow> \<forall>h \<in> set hs. length h = HASH_LEN \<Longrightarrow>
      \<exists>u'. cl_query cl g hs auth u = (Inr (filter (stored u' g) hs), u') \<and> (\<forall>h. stored u g h \<longrightarrow> stored u' g h)"
    and upload_live: "valid u \<Longrightarrow> g \<noteq> 0 \<Longrightarrow> cs \<noteq> [] \<Longrightarrow>
      \<forall>c \<in> set cs. uc_game_id c = g \<and> blake3 (uc_data c) = uc_chunk_hash c \<and> length (uc_chunk_hash c) = HASH_LEN \<Longrightarrow>
      fits u g (\<Sum>c \<leftarrow> cs. length (uc_data c)) \<Longrightarrow>
      \<exists>acks u'. cl_upload cl cs auth u = (Inr (map Inr acks), u') \<and> (\<forall>a \<in> set acks. ua_ok a) \<and>
        (\<forall>h. stored u g h \<longrightarrow> stored u' g h) \<and> (\<forall>c \<in> set cs. stored u' g (uc_chunk_hash c))"
    and commit_live: "valid u \<Longrightarrow> cr_game_id c \<noteq> 0 \<Longrightarrow> cr_version c \<noteq> 0 \<Longrightarrow> decode blake3 (cr_manifest c) = Inr index \<Longrightarrow>
      cr_manifest_hash c = blake3 (take (length (cr_manifest c) - 32) (cr_manifest c)) \<Longrightarrow> length (cr_manifest_hash c) = HASH_LEN \<Longrightarrow>
      \<forall>h \<in> chunk_set index. stored u (cr_game_id c) h \<Longrightarrow>
      \<exists>reply u'. cl_commit cl c auth u = (Inr reply, u') \<and> cp_published reply"
begin

lemma count_acks_ok: "\<forall>a \<in> set acks. ua_ok a \<Longrightarrow> \<exists>s'. count_acks (map Inr acks) s = Inr s'"
  by (induction acks arbitrary: s) auto

lemma upload_delta_live:
  assumes "valid u" "g \<noteq> 0" "distinct hs" "\<forall>h \<in> set hs. length h = HASH_LEN"
    and "\<forall>h \<in> set hs. \<exists>x. stage (stage_name h) = Some x \<and> blake3 x = h" "fits u g n" "attach_token header_ok token = Inr auth"
    and le: "\<And>hs'. distinct hs' \<Longrightarrow> set hs' \<subseteq> set hs \<Longrightarrow> (\<Sum>h \<leftarrow> hs'. length (the (stage (stage_name h)))) \<le> n"
  shows "\<exists>summary u'. upload_delta cl header_ok (\<lambda>h. True) g stage hs token u = (Inr summary, u') \<and> valid u' \<and>
    (\<forall>h. stored u g h \<longrightarrow> stored u' g h) \<and> (\<forall>h \<in> set hs. stored u' g h)"
proof -
  from query_live [OF assms(1,2,4), of auth] obtain u1 where
    q: "cl_query cl g hs auth u = (Inr (filter (stored u1 g) hs), u1)" "\<forall>h. stored u g h \<longrightarrow> stored u1 g h" by blast
  note v1 = query_valid [OF assms(1) q(1)]
  let ?missing = "filter (\<lambda>h. h \<notin> set (filter (stored u1 g) hs)) hs"
  let ?cs = "sent_chunks g (\<lambda>h. True) stage ?missing"
  have qe: "query_existing cl header_ok g hs token u = (Inr (filter (stored u1 g) hs), u1)"
    using q(1) assms(4,7) by (simp add: query_existing_def list_all_iff)
  show ?thesis
  proof (cases "?missing = []")
    case True
    then have "\<forall>h \<in> set hs. stored u1 g h" by (auto simp: filter_empty_conv)
    with True qe v1 q(2) show ?thesis by (auto simp: upload_delta_def)
  next
    case False
    have found: "find (\<lambda>h. stage (stage_name h) = None) ?missing = None" using assms(5) by (auto simp: find_None_iff)
    have cs: "\<forall>c \<in> set ?cs. uc_game_id c = g \<and> blake3 (uc_data c) = uc_chunk_hash c \<and> length (uc_chunk_hash c) = HASH_LEN"
      using assms(4,5) by (fastforce simp: sent_chunks_def)
    have "(\<Sum>c \<leftarrow> ?cs. length (uc_data c)) \<le> n" using le [of ?missing] assms(3) by (simp add: sent_chunks_def comp_def)
    with v1 assms(6) fits_less have "fits u1 g (\<Sum>c \<leftarrow> ?cs. length (uc_data c))" by blast
    note fit = this
    have "?cs \<noteq> []" using False by (simp add: sent_chunks_def)
    from upload_live [OF conjunct1 [OF v1] assms(2) this cs fit, of auth] obtain acks u2 where
      up: "cl_upload cl ?cs auth u1 = (Inr (map Inr acks), u2)" "\<forall>a \<in> set acks. ua_ok a"
        "\<forall>h. stored u1 g h \<longrightarrow> stored u2 g h" "\<forall>c \<in> set ?cs. stored u2 g (uc_chunk_hash c)" by blast
    obtain summary where "count_acks (map Inr acks) \<lparr>sm_uploaded = 0, sm_skipped = length (filter (stored u1 g) hs), sm_failed = []\<rparr> = Inr summary"
      using count_acks_ok [OF up(2)] by blast
    then have "upload_delta cl header_ok (\<lambda>h. True) g stage hs token u = (Inr summary, u2)"
      unfolding upload_delta_def qe prod.case sum.case Let_def using False found assms(7) up(1) by simp
    moreover have "valid u2" using upload_valid [OF conjunct1 [OF v1] _ fit up(1)] cs by simp
    moreover have "\<forall>h \<in> set hs. stored u2 g h" using up(3,4) by (auto simp: sent_chunks_def)
    ultimately show ?thesis using q(2) up(3) by blast
  qed
qed

text \<open>A run without faults, over a link without faults, succeeds.\<close>

lemma run_succeeds:
  assumes b: "blake3 = li_blake3 li" and v: "valid u" and cut: "cutter_ok (li_cdc li)" "cuts_all (li_cdc li) (pc_chunk config)"
    and pv: "no_faults pv od" "pv_config pv = Inr config" "pc_game_id config \<noteq> 0" "pc_version config \<noteq> 0"
    and src: "list_files (so_tree (pv_source pv)) = Inr paths" "paths \<noteq> []" "readable (pv_source pv) paths" "stable (pv_source pv)"
      "nameable (li_lossy li) (pv_source pv) paths"
    and old: "previous_index li config (pv_previous pv) = Inr old" "\<forall>h \<in> old_chunk_set old. stored u (pc_game_id config) h"
    and lib: "\<And>d. li_json li d \<noteq> None" "\<And>t. li_header_ok li t" "blake3_ok blake3"
    and fit: "fits u (pc_game_id config) (source_bytes (pv_source pv))"
  shows "\<exists>od' u'. run_with_config li cl pv od u = (Inr (), od', u')"
proof -
  let ?b = "li_blake3 li"
  obtain es dir where run: "chunk_all ?b (li_cdc li) (li_lossy li) (\<lambda>h. None) (pv_source pv) (pc_chunk config) paths
      (Some (od_chunks od)) {} = (Inr es, Some dir)"
    "\<And>r u'. publish li cl pv config (build ?b es) (compute (build ?b es) old {}) dir u = (r, u') \<Longrightarrow>
      \<exists>od'. run_with_config li cl pv od u = (r, od', u')"
    using run_with_config_live [OF pv(1,2) src(1-3) cut(2) old(1) lib(1)] by metis
  let ?i = "build ?b es" and ?hs = "chunks_to_download (compute (build ?b es) old {})"
  from chunk_all_staged [OF run(1)] obtain pss where pss: "length pss = length es"
    "list_all2 (entry_of ?b (li_cdc li) (li_lossy li) (pv_source pv) (pc_chunk config)) paths (zip es pss)"
    "staged ?b dir (\<Union> (set ` set pss)) (?b ` \<Union> (set ` set pss))" by blast
  have all: "list_all2 (\<lambda>p e. fe_name e = entry_name (li_lossy li) p \<and>
      (\<exists>content. so_open (pv_source pv) p = Some content \<and> describes ?b (cp_max_size (pc_chunk config)) e content)) paths es"
    using pss(1,2) entry_describes [OF cut(1) src(4)] by (fastforce simp: list_all2_conv_all_nth)
  have dec: "decode blake3 (encode ?i) = Inr ?i" using described_wf [OF _ src(5) all] lib(3) b by simp
  have hs: "distinct ?hs" "set ?hs = chunk_set ?i - old_chunk_set old"
    by (auto simp: compute_simps first_chunks_distinct first_chunks_set set_chunk_hashes)
  have stg: "\<forall>h \<in> set ?hs. \<exists>x. dir (stage_name h) = Some x \<and> blake3 x = h" "\<forall>h \<in> set ?hs. length h = HASH_LEN"
    using pss(3) chunk_set_pieces [OF pss(2,1)] hs(2) b lib(3) by (fastforce simp: staged_def blake3_ok_def)+
  obtain auth where auth: "attach_token (li_header_ok li) (pc_origin_token config) = Inr auth"
    using lib(2) by (cases "pc_origin_token config") (simp_all add: attach_token_def)
  have "(\<Sum>h \<leftarrow> hs'. length (the (dir (stage_name h)))) \<le> source_bytes (pv_source pv)" if "distinct hs'" "set hs' \<subseteq> set ?hs" for hs'
    by (rule plan_bytes [OF cut(1) src(1) run(1) that])
  from upload_delta_live [OF v pv(3) hs(1) stg(2,1) fit auth this] obtain summary u1 where
    up: "upload_delta cl (li_header_ok li) (\<lambda>h. True) (pc_game_id config) dir ?hs (pc_origin_token config) u = (Inr summary, u1)" "valid u1"
      "\<forall>h. stored u (pc_game_id config) h \<longrightarrow> stored u1 (pc_game_id config) h" "\<forall>h \<in> set ?hs. stored u1 (pc_game_id config) h" by blast
  let ?c = "\<lparr>cr_game_id = pc_game_id config, cr_version = pc_version config, cr_manifest = encode ?i, cr_manifest_hash = gi_hash ?i\<rparr>"
  have "\<forall>h \<in> chunk_set ?i. stored u1 (pc_game_id config) h" using up(3,4) old(2) hs(2) by blast
  then have "\<exists>reply u'. cl_commit cl ?c auth u1 = (Inr reply, u') \<and> cp_published reply"
    using lib(3) b pv(3,4) dec by (intro commit_live [OF up(2), of ?c ?i]) (simp_all add: encode_def build_hash blake3_ok_def HASH_LEN_def)
  then obtain reply u2 where "cl_commit cl ?c auth u1 = (Inr reply, u2)" "cp_published reply" by blast
  then have "\<exists>u2. publish li cl pv config ?i (compute ?i old {}) dir u = (Inr (), u2)"
    using up(1) auth pv(1) by (simp add: publish_def client_commit_version_def no_faults_def)
  with run(2) show ?thesis by blast
qed

end

section \<open>The origin and the scheduler as the other side\<close>

text \<open>
  The client over the upload service and the scheduler behind it. In the \<open>n\<close>-th call the request
  may be lost, the origin may receive only the first items of a stream, and the reply may break
  off after some items; the service runs in environments of its own.
\<close>

record origin_link =
  ol_lost :: "nat \<Rightarrow> bool"
  ol_short :: "nat \<Rightarrow> nat option"
  ol_cut :: "nat \<Rightarrow> nat option"
  ol_envs :: "nat \<Rightarrow> nat \<Rightarrow> pack_env"
  ol_commit :: "nat \<Rightarrow> commit_env"
  ol_order :: "bytes list \<Rightarrow> bytes list"
  ol_attempt :: "nat \<Rightarrow> bool"
  ol_faults :: "nat \<Rightarrow> nat \<Rightarrow> bool"

type_synonym 'j origin_session = "upload_service \<times> 'j control_service \<times> nat"

definition sched_publish :: "'j serde \<Rightarrow> (nat \<Rightarrow> bool) \<Rightarrow> u64 \<Rightarrow> u64 \<Rightarrow> bytes \<Rightarrow> 'j control_service \<Rightarrow> (unit + bool \<times> string) \<times> 'j control_service" where
  "sched_publish cd flt g v m sc =
     (case publish_version cd flt g v m sc of
        (Inl _, sc1) \<Rightarrow> (Inl (), sc1)
      | (Inr ok, sc1) \<Rightarrow> (Inr (ok, ''''), sc1))"

definition received :: "nat option \<Rightarrow> upload_chunk list \<Rightarrow> (upload_status + upload_chunk) list" where
  "received short cs = (case short of None \<Rightarrow> map Inr cs | Some k \<Rightarrow> map Inr (take k cs) @ [Inl StreamFailed])"

definition replied :: "nat option \<Rightarrow> (upload_status + upload_ack) list \<Rightarrow> (unit + upload_ack) list" where
  "replied brk out =
     (let acks = map (map_sum (\<lambda>_. ()) id) out in case brk of None \<Rightarrow> acks | Some k \<Rightarrow> take k acks @ [Inl ()])"

definition origin_client :: "(bytes \<Rightarrow> bytes) \<Rightarrow> 'j serde \<Rightarrow> origin_link \<Rightarrow> 'j origin_session upload_client" where
  "origin_client blake3 cd ol =
     \<lparr>cl_query = (\<lambda>g hs auth (sv, sc, n).
        if ol_lost ol n then (Inl (), sv, sc, Suc n)
        else case query_existing_chunks (ol_envs ol n) g hs sv of
          (r, sv1) \<Rightarrow> (if ol_cut ol n \<noteq> None then Inl () else map_sum (\<lambda>_. ()) id r, sv1, sc, Suc n)),
      cl_upload = (\<lambda>cs auth (sv, sc, n).
        if ol_lost ol n then (Inl (), sv, sc, Suc n)
        else case process_upload blake3 (ol_envs ol n) (received (ol_short ol n) cs) sv of
          (r, out, sv1) \<Rightarrow> (Inr (replied (ol_cut ol n) out), sv1, sc, Suc n)),
      cl_commit = (\<lambda>c auth (sv, sc, n).
        if ol_lost ol n then (Inl (), sv, sc, Suc n)
        else case commit_version blake3 (ol_order ol) \<lparr>sl_attempt = ol_attempt ol, sl_publish = sched_publish cd (ol_faults ol n)\<rparr>
                    (ol_envs ol n) (ol_commit ol n) c sv sc of
          (r, sv1, sc1) \<Rightarrow> (if ol_cut ol n \<noteq> None then Inl () else map_sum (\<lambda>_. ()) id r, sv1, sc1, Suc n))\<rparr>"

definition os_valid :: "(bytes \<Rightarrow> bytes) \<Rightarrow> 'j serde \<Rightarrow> string option \<Rightarrow> 'j origin_session \<Rightarrow> bool" where
  "os_valid blake3 cd addr u = (case u of (sv, sc, n) \<Rightarrow> svc_ok blake3 sv \<and> db_ok cd (cv_store sc) \<and> us_scheduler_addr sv = addr)"

definition os_fits :: "'j origin_session \<Rightarrow> u64 \<Rightarrow> nat \<Rightarrow> bool" where
  "os_fits u g n \<longleftrightarrow> (\<forall>env store sv1. store_entry env g (fst u) = Inr (store, sv1) \<longrightarrow> unat (gs_size store) + n < 2 ^ 32)"

definition os_stored :: "'j origin_session \<Rightarrow> u64 \<Rightarrow> bytes \<Rightarrow> bool" where
  "os_stored u g h \<longleftrightarrow> (\<exists>st. us_stores (fst u) g = Some st \<and> abs_store st h \<noteq> None)"

text \<open>Published: on the origin's disk and, if the origin has a scheduler, there as well.\<close>

definition os_pub :: "'j serde \<Rightarrow> 'j origin_session \<Rightarrow> u64 \<Rightarrow> u64 \<Rightarrow> bytes \<Rightarrow> bool" where
  "os_pub cd u g v m \<longleftrightarrow> (case u of (sv, sc, n) \<Rightarrow> us_published sv (g, v) = Some m \<and>
     (us_scheduler_addr sv \<noteq> None \<longrightarrow> sess_ver cd (sc, n) g v = Some m))"

lemma sched_publish_run:
  assumes "serde_ok cd" "db_ok cd (cv_store sc)" "sched_publish cd flt g v m sc = (r, sc')"
  shows "db_ok cd (cv_store sc') \<and> (\<forall>ok e. r = Inr (ok, e) \<longrightarrow> ok \<and> sess_ver cd (sc', n) g v = Some m) \<and>
    (g \<noteq> 0 \<and> v \<noteq> 0 \<and> m \<noteq> [] \<and> \<not> flt 0 \<longrightarrow> (\<exists>e. r = Inr (True, e)))"
proof (cases "g = 0 \<or> v = 0 \<or> m = [] \<or> flt 0")
  case True
  with assms show ?thesis
    by (auto simp: sched_publish_def publish_version_def save_version_def Let_def split: if_splits)
next
  case False
  obtain r1 st1 where save: "save_version cd False g v m (cv_store sc) = (r1, st1)" by fastforce
  have t: "tbl_ok (db_versions (cv_store sc))" using assms(2) by (simp add: db_ok_defs)
  have ok1: "db_ok cd st1" by (rule save_version_ok [OF assms(1,2) save])
  have st1: "r1 = Inr ()" "get_version cd False st1 g v = Inr (Some m)"
    using save t assms(1) by (auto simp: save_version_def Let_def get_version_def tbl_laws(1) db_decode_def serde_ok_def)
  define st2 where "st2 = (case get_game cd (flt 1) st1 g of
      Inr (Some game) \<Rightarrow> if gm_latest_version game < v then snd (insert_game cd (flt 2) (game\<lparr>gm_latest_version := v\<rparr>) st1) else st1
    | _ \<Rightarrow> st1)"
  have run: "r = Inr (True, '''')" "sc' = sc\<lparr>cv_store := st2\<rparr>"
    using assms(3) False save st1(1) by (auto simp: sched_publish_def publish_version_def Let_def st2_def)
  have "db_ok cd st2 \<and> get_version cd False st2 g v = get_version cd False st1 g v"
  proof (cases "\<exists>game. get_game cd (flt 1) st1 g = Inr (Some game) \<and> gm_latest_version game < v")
    case True
    then obtain game where g: "get_game cd (flt 1) st1 g = Inr (Some game)" "gm_latest_version game < v" by blast
    obtain r3 st3 where ins: "insert_game cd (flt 2) (game\<lparr>gm_latest_version := v\<rparr>) st1 = (r3, st3)" by fastforce
    have "db_versions st3 = db_versions st1" using ins by (auto simp: insert_game_def insert_json_def Let_def split: if_splits)
    with g ins insert_game_ok [OF assms(1) ok1 ins] show ?thesis by (simp add: st2_def get_version_def)
  qed (auto simp: st2_def ok1 split: sum.splits option.splits)
  with run st1 show ?thesis by (simp add: sess_ver_def)
qed

lemma origin_query:
  assumes "os_valid blake3 cd addr u" "cl_query (origin_client blake3 cd ol) g hs auth u = (r, u')"
  shows "os_valid blake3 cd addr u' \<and> (\<forall>n. os_fits u g n \<longrightarrow> os_fits u' g n)"
proof -
  obtain sv sc n where u: "u = (sv, sc, n)" by (cases u)
  have ok: "svc_ok blake3 sv" "db_ok cd (cv_store sc)" "us_scheduler_addr sv = addr" using assms(1) by (simp_all add: os_valid_def u)
  consider "u' = (sv, sc, Suc n)"
    | store sv1 where "store_entry (ol_envs ol n 0) g sv = Inr (store, sv1)" "u' = (sv1, sc, Suc n)"
    using assms(2) by (auto simp: u origin_client_def query_existing_chunks_def split: if_splits sum.splits prod.splits)
  then show ?thesis
  proof cases
    case (2 store sv1)
    note good = store_entry_good [OF ok(1) 2(1)]
    then have entry: "store_entry env g sv1 = Inr (store, sv1)" for env by (simp add: store_entry_def)
    have "os_fits u' g m" if fits: "os_fits u g m" for m
    proof -
      from fits 2(1) have "unat (gs_size store) + m < 2 ^ 32" unfolding os_fits_def u fst_conv by blast
      with entry 2(2) show ?thesis by (simp add: os_fits_def)
    qed
    with 2(2) good ok show ?thesis by (simp add: os_valid_def)
  qed (use ok in \<open>simp add: os_valid_def os_fits_def u\<close>)
qed

lemma received_bytes: "stream_bytes (received short cs) \<le> (\<Sum>c \<leftarrow> cs. length (uc_data c))"
proof -
  have "(\<Sum>c \<leftarrow> take k cs. length (uc_data c)) \<le> (\<Sum>c \<leftarrow> cs. length (uc_data c))" for k
    by (subst (2) append_take_drop_id [of k cs, symmetric]) (simp only: map_append sum_list_append le_add1)
  then show ?thesis by (cases short) (simp_all add: received_def stream_bytes_def comp_def)
qed

lemma received_first:
  assumes "received short cs = Inr c # rest"
  shows "c \<in> set cs"
proof (cases short)
  case (Some k)
  with assms have "c \<in> set (take k cs)" by (cases "take k cs") (auto simp: received_def)
  then show ?thesis by (rule in_set_takeD)
qed (use assms in \<open>auto simp: received_def\<close>)

lemma received_room:
  assumes "\<forall>c \<in> set cs. uc_game_id c = g" "os_fits u g (\<Sum>c \<leftarrow> cs. length (uc_data c))"
  shows "upload_room env (received short cs) (fst u)"
proof -
  have "unat (gs_size store) + stream_bytes (received short cs) < 2 ^ 32" if "store_entry env g (fst u) = Inr (store, sv1)" for store sv1
    using assms(2) that received_bytes [of short cs] by (fastforce simp: os_fits_def)
  moreover have "uc_game_id c = g" if "received short cs = Inr c # rest" for c rest
    using received_first [OF that] assms(1) by blast
  ultimately show ?thesis by (auto simp: upload_room_def split: list.splits sum.splits prod.splits)
qed

lemma origin_upload:
  assumes "os_valid blake3 cd addr u" "\<forall>c \<in> set cs. uc_game_id c = g" "os_fits u g (\<Sum>c \<leftarrow> cs. length (uc_data c))"
    and "cl_upload (origin_client blake3 cd ol) cs auth u = (r, u')"
  shows "os_valid blake3 cd addr u' \<and> (\<forall>g h. os_stored u g h \<longrightarrow> os_stored u' g h)"
proof -
  obtain sv sc n where u: "u = (sv, sc, n)" by (cases u)
  have ok: "svc_ok blake3 sv" "db_ok cd (cv_store sc)" "us_scheduler_addr sv = addr" using assms(1) by (simp_all add: os_valid_def u)
  show ?thesis
  proof (cases "ol_lost ol n")
    case True
    with assms(4) ok show ?thesis by (auto simp: u origin_client_def os_valid_def os_stored_def)
  next
    case False
    obtain q out sv1 where run: "process_upload blake3 (ol_envs ol n) (received (ol_short ol n) cs) sv = (q, out, sv1)" by (metis prod_cases3)
    have room: "upload_room (ol_envs ol n 0) (received (ol_short ol n) cs) sv"
      using received_room [OF assms(2,3)] by (simp add: u)
    have u': "u' = (sv1, sc, Suc n)" using assms(4) False run by (simp add: u origin_client_def)
    note good = process_upload_good [OF ok(1) room run]
    have "os_stored u' g h" if "os_stored u g h" for g h
    proof -
      from that obtain st d where st: "us_stores sv g = Some st" "abs_store st h = Some d" by (auto simp: os_stored_def u)
      with good obtain st' where "us_stores sv1 g = Some st'" "abs_store st \<subseteq>\<^sub>m abs_store st'" by blast
      moreover from this(2) st(2) have "abs_store st' h = Some d" unfolding map_le_def by (metis domI)
      ultimately show ?thesis by (simp add: os_stored_def u')
    qed
    moreover have "us_scheduler_addr sv1 = us_scheduler_addr sv"
      using run by (auto simp: process_upload_def store_entry_def put_store_def split: list.splits sum.splits if_splits option.splits prod.splits)
    ultimately show ?thesis using good ok u' by (simp add: os_valid_def)
  qed
qed

lemma commit_version_addr:
  "commit_version blake3 order link envs ce c sv sc = (r, sv', sc') \<Longrightarrow> us_scheduler_addr sv' = us_scheduler_addr sv"
  by (auto simp: commit_version_def publish_step_def store_entry_def Let_def
      split: if_splits option.splits sum.splits prod.splits)

lemma commit_version_sched:
  assumes "commit_version blake3 order link envs ce c sv sc = (r, sv', sc')"
  shows "sc' = sc \<or> (\<exists>q. sl_publish link (cr_game_id c) (cr_version c) (cr_manifest c) sc = (q, sc'))"
  using assms by (auto simp: commit_version_def publish_step_def publish_to_scheduler_def Let_def
      split: if_splits option.splits sum.splits prod.splits)

lemma origin_commit:
  assumes "serde_ok cd" "\<And>xs. set (ol_order ol xs) = set xs" "os_valid blake3 cd addr u"
    and "cl_commit (origin_client blake3 cd ol) c auth u = (Inr reply, u')" "cp_published reply"
  shows "os_valid blake3 cd addr u' \<and> os_pub cd u' (cr_game_id c) (cr_version c) (cr_manifest c) \<and>
    (\<exists>index. decode blake3 (cr_manifest c) = Inr index \<and> (\<forall>h \<in> chunk_set index. os_stored u' (cr_game_id c) h))"
proof -
  obtain sv sc n where u: "u = (sv, sc, n)" by (cases u)
  let ?link = "\<lparr>sl_attempt = ol_attempt ol, sl_publish = sched_publish cd (ol_faults ol n)\<rparr>"
  have ok: "svc_ok blake3 sv" "db_ok cd (cv_store sc)" "us_scheduler_addr sv = addr" using assms(3) by (simp_all add: os_valid_def u)
  obtain r sv1 sc1 where run: "commit_version blake3 (ol_order ol) ?link (ol_envs ol n) (ol_commit ol n) c sv sc = (r, sv1, sc1)"
    by (metis prod_cases3)
  have res: "r = Inr reply" "u' = (sv1, sc1, Suc n)"
    using assms(4) run by (cases r; auto simp: u origin_client_def split: if_splits)+
  from commit_version_complete [OF ok(1) assms(2) run [unfolded res]] assms(5) obtain index store where
    fin: "decode blake3 (cr_manifest c) = Inr index" "us_stores sv1 (cr_game_id c) = Some store" "svc_ok blake3 sv1"
      "\<forall>h \<in> chunk_set index. \<exists>d. abs_store store h = Some d \<and> blake3 d = h"
      "us_published sv1 (cr_game_id c, cr_version c) = Some (cr_manifest c)"
      "us_scheduler_addr sv \<noteq> None \<longrightarrow> (\<exists>err. sched_publish cd (ol_faults ol n) (cr_game_id c) (cr_version c) (cr_manifest c) sc = (Inr (True, err), sc1))"
    by (auto simp: commit_valid_def)
  have "db_ok cd (cv_store sc1)"
    using commit_version_sched [OF run] sched_publish_run [OF assms(1) ok(2)] ok(2) by auto
  moreover have "us_scheduler_addr sv1 \<noteq> None \<longrightarrow> sess_ver cd (sc1, Suc n) (cr_game_id c) (cr_version c) = Some (cr_manifest c)"
    using fin(6) commit_version_addr [OF run] sched_publish_run [OF assms(1) ok(2)] by metis
  moreover have "us_scheduler_addr sv1 = addr" using commit_version_addr [OF run] ok(3) by simp
  ultimately show ?thesis using fin res(2) by (fastforce simp: os_valid_def os_pub_def os_stored_def)
qed

lemma origin_upload_link:
  assumes "serde_ok cd" "\<And>xs. set (ol_order ol xs) = set xs"
  shows "upload_link (origin_client blake3 cd ol) blake3 (os_valid blake3 cd addr) os_fits os_stored (os_pub cd)"
proof unfold_locales
  show "os_fits u g n \<Longrightarrow> m \<le> n \<Longrightarrow> os_fits u g m" for u :: "'a origin_session" and g n m by (fastforce simp: os_fits_def)
qed (erule (1) origin_query, erule (3) origin_upload [THEN conjunct1], rule origin_commit [OF assms])

section \<open>When nothing fails\<close>

definition link_live :: "origin_link \<Rightarrow> bool" where
  "link_live ol \<longleftrightarrow> (\<forall>n. \<not> ol_lost ol n \<and> ol_short ol n = None \<and> ol_cut ol n = None \<and> (\<forall>i. env_live (ol_envs ol n i)) \<and>
     ce_mkdir (ol_commit ol n) \<and> ce_write (ol_commit ol n) = None \<and> \<not> ol_faults ol n 0) \<and> (\<forall>i. ol_attempt ol i)"

lemma store_entry_live: "env_live env \<Longrightarrow> \<exists>store sv1. store_entry env g sv = Inr (store, sv1)"
  by (auto simp: store_entry_def store_open_def env_live_def Let_def split: option.splits)

lemma query_loop_live:
  "(\<And>i. env_live (envs i)) \<Longrightarrow> \<forall>h \<in> set hs. length h = HASH_LEN \<Longrightarrow>
     query_loop envs store hs = Inr (filter (\<lambda>h. abs_store store h \<noteq> None) hs)"
  by (induction envs store hs rule: query_loop.induct) (auto simp: to_hash_def store_contains_abs env_live_read)

lemma origin_query_live:
  assumes "link_live ol" "os_valid blake3 cd addr u" "g \<noteq> 0" "\<forall>h \<in> set hs. length h = HASH_LEN"
  shows "\<exists>u'. cl_query (origin_client blake3 cd ol) g hs auth u = (Inr (filter (os_stored u' g) hs), u') \<and>
    (\<forall>h. os_stored u g h \<longrightarrow> os_stored u' g h)"
proof -
  obtain sv sc n where u: "u = (sv, sc, n)" by (cases u)
  have live: "env_live (ol_envs ol n i)" for i using assms(1) by (simp add: link_live_def)
  obtain store sv1 where e: "store_entry (ol_envs ol n 0) g sv = Inr (store, sv1)" using store_entry_live [OF live] by blast
  have ok: "svc_ok blake3 sv" using assms(2) by (simp add: os_valid_def u)
  note good = store_entry_good [OF ok e]
  have st: "os_stored (sv1, sc, Suc n) g = (\<lambda>h. abs_store store h \<noteq> None)" using good by (simp add: os_stored_def fun_eq_iff)
  have "us_stores sv g = Some store \<or> us_stores sv g = None"
    using e by (auto simp: store_entry_def split: option.splits sum.splits)
  then have "\<forall>h. os_stored u g h \<longrightarrow> os_stored (sv1, sc, Suc n) g h" using good by (auto simp: os_stored_def u)
  moreover have "cl_query (origin_client blake3 cd ol) g hs auth u = (Inr (filter (\<lambda>h. abs_store store h \<noteq> None) hs), sv1, sc, Suc n)"
    using query_loop_live [of "\<lambda>i. ol_envs ol n (Suc i)" hs store, OF live assms(4)] e assms(1,3)
    by (simp add: u origin_client_def query_existing_chunks_def link_live_def)
  ultimately show ?thesis by (intro exI [of _ "(sv1, sc, Suc n)"]) (simp add: st)
qed

lemma upload_loop_live:
  assumes "\<And>i. env_live (envs i)" "store_good blake3 g st" "unat (gs_size st) + stream_bytes (map Inr cs) < 2 ^ 32"
    and "\<forall>c \<in> set cs. blake3 (uc_data c) = uc_chunk_hash c \<and> length (uc_chunk_hash c) = HASH_LEN"
  shows "\<exists>acks st'. upload_loop blake3 envs (map Inr cs) st = (Inr (), acks, st') \<and> (\<forall>a \<in> set acks. ua_ok a)"
  using assms
proof (induction cs arbitrary: envs st)
  case (Cons c cs)
  let ?h = "uc_chunk_hash c"
  have hash: "to_hash ?h = Some ?h" "blake3 (uc_data c) = ?h" using Cons.prems(4) by (simp_all add: to_hash_def)
  have ok: "store_ok st" using Cons.prems(2) by (simp add: store_good_def)
  obtain loc st1 where a: "append_chunk (envs 0) ?h (uc_data c) st = (Inr loc, st1)"
    using append_chunk_live [OF Cons.prems(1) ok] by (cases "tbl_get (gs_index st) (key (gs_game_id st) ?h)") auto
  have room: "unat (gs_size st) + length (uc_data c) < 2 ^ 32" using Cons.prems(3) by (simp add: stream_bytes_def)
  note good = append_good [OF Cons.prems(2) hash(2) room a]
  have "unat (gs_size st1) + stream_bytes (map Inr cs) < 2 ^ 32" using good(3) Cons.prems(3) by (simp add: stream_bytes_def)
  from Cons.IH [of "\<lambda>i. envs (Suc i)", OF Cons.prems(1) good(1) this] Cons.prems(4) obtain acks st' where
    "upload_loop blake3 (\<lambda>i. envs (Suc i)) (map Inr cs) st1 = (Inr (), acks, st')" "\<forall>a \<in> set acks. ua_ok a" by auto
  with hash a show ?case by (simp add: append_ack_def)
qed simp

lemma origin_upload_live:
  assumes "link_live ol" "os_valid blake3 cd addr u" "g \<noteq> 0" "cs \<noteq> []"
    and "\<forall>c \<in> set cs. uc_game_id c = g \<and> blake3 (uc_data c) = uc_chunk_hash c \<and> length (uc_chunk_hash c) = HASH_LEN"
    and "os_fits u g (\<Sum>c \<leftarrow> cs. length (uc_data c))"
  shows "\<exists>acks u'. cl_upload (origin_client blake3 cd ol) cs auth u = (Inr (map Inr acks), u') \<and> (\<forall>a \<in> set acks. ua_ok a) \<and>
    (\<forall>h. os_stored u g h \<longrightarrow> os_stored u' g h) \<and> (\<forall>c \<in> set cs. os_stored u' g (uc_chunk_hash c))"
proof -
  obtain sv sc n where u: "u = (sv, sc, n)" by (cases u)
  obtain c cs1 where cs: "cs = c # cs1" using assms(4) by (cases cs) auto
  have live: "env_live (ol_envs ol n i)" for i using assms(1) by (simp add: link_live_def)
  obtain store sv1 where e: "store_entry (ol_envs ol n 0) g sv = Inr (store, sv1)" using store_entry_live [OF live] by blast
  have ok: "svc_ok blake3 sv" using assms(2) by (simp add: os_valid_def u)
  note good = store_entry_good [OF ok e]
  have bytes: "stream_bytes (map Inr cs) = (\<Sum>c \<leftarrow> cs. length (uc_data c))" by (simp add: stream_bytes_def comp_def)
  have room: "unat (gs_size store) + stream_bytes (map Inr cs) < 2 ^ 32" using assms(6) e unfolding bytes os_fits_def u by auto
  from upload_loop_live [of "\<lambda>i. ol_envs ol n (Suc i)", OF live conjunct1 [OF good] room] assms(5) obtain acks st' where
    loop: "upload_loop blake3 (\<lambda>i. ol_envs ol n (Suc i)) (map Inr cs) store = (Inr (), acks, st')" "\<forall>a \<in> set acks. ua_ok a" by auto
  let ?u = "(put_store g st' sv1, sc, Suc n)"
  have run: "cl_upload (origin_client blake3 cd ol) cs auth u = (Inr (map Inr acks), ?u)"
    using assms(1,3,5) e loop(1) cs
    by (simp add: u origin_client_def link_live_def received_def replied_def process_upload_def Let_def comp_def)
  have st: "os_stored ?u g h \<longleftrightarrow> abs_store st' h \<noteq> None" for h by (simp add: os_stored_def put_store_def)
  from upload_loop_good [OF loop(1) conjunct1 [OF good] room] have
    ack: "\<forall>a \<in> set acks. abs_store st' (ua_chunk_hash a) \<noteq> None" "acks_match acks (map Inr cs)" "length acks = length cs"
    using loop(2) by simp_all
  have stored: "os_stored ?u g (uc_chunk_hash d)" if d: "d \<in> set cs" for d
  proof -
    obtain i where i: "i < length cs" "d = cs ! i" using d by (metis in_set_conv_nth)
    with ack(2,3) have "ua_chunk_hash (acks ! i) = uc_chunk_hash d" by (auto simp: acks_match_def list_all2_conv_all_nth)
    moreover have "acks ! i \<in> set acks" using i(1) ack(3) by simp
    ultimately show ?thesis using ack(1) by (metis st)
  qed
  have "\<forall>h. os_stored u g h \<longrightarrow> os_stored ?u g h"
    using origin_upload [OF assms(2) _ assms(6) run] assms(5) by blast
  with run loop(2) stored show ?thesis by (intro exI [of _ acks] exI [of _ ?u]) simp
qed

lemma origin_commit_live:
  assumes "serde_ok cd" "\<And>xs. set (ol_order ol xs) = set xs" "link_live ol" "os_valid blake3 cd addr u"
    and "cr_game_id c \<noteq> 0" "cr_version c \<noteq> 0" "decode blake3 (cr_manifest c) = Inr index"
    and "cr_manifest_hash c = blake3 (take (length (cr_manifest c) - 32) (cr_manifest c))" "length (cr_manifest_hash c) = HASH_LEN"
    and "\<forall>h \<in> chunk_set index. os_stored u (cr_game_id c) h"
  shows "\<exists>reply u'. cl_commit (origin_client blake3 cd ol) c auth u = (Inr reply, u') \<and> cp_published reply"
proof -
  obtain sv sc n where u: "u = (sv, sc, n)" by (cases u)
  let ?g = "cr_game_id c" and ?link = "\<lparr>sl_attempt = ol_attempt ol, sl_publish = sched_publish cd (ol_faults ol n)\<rparr>"
  have live: "env_live (ol_envs ol n i)" for i using assms(3) by (simp add: link_live_def)
  obtain store sv1 where e: "store_entry (ol_envs ol n 0) ?g sv = Inr (store, sv1)" using store_entry_live [OF live] by blast
  have ok: "svc_ok blake3 sv" "db_ok cd (cv_store sc)" using assms(4) by (simp_all add: os_valid_def u)
  have all: "\<forall>h \<in> chunk_set index. abs_store store h \<noteq> None"
    using assms(10) e by (auto simp: os_stored_def u store_entry_def)
  obtain ms where ms: "missing_loop (\<lambda>i. ol_envs ol n (Suc i)) store (ol_order ol (remdups (chunk_hashes index))) [] = Inr ms"
    using missing_loop_live [of "\<lambda>i. ol_envs ol n (Suc i)", OF env_live_read [OF live, THEN conjunct1]] by blast
  have "filter (\<lambda>h. abs_store store h = None) (ol_order ol (remdups (chunk_hashes index))) = []"
    using all assms(2) by (auto simp: filter_empty_conv chunk_set_def)
  with missing_loop_Inr [OF ms] have "ms = []" by simp
  note ms = ms [unfolded this]
  have len: "32 \<le> length (cr_manifest c)" by (rule decode_length [OF assms(7)])
  then have "cr_manifest c \<noteq> []" by auto
  with sched_publish_run [OF assms(1) ok(2), of "ol_faults ol n" ?g "cr_version c" "cr_manifest c"] assms(3,5,6) obtain err sc' where
    pub: "sched_publish cd (ol_faults ol n) ?g (cr_version c) (cr_manifest c) sc = (Inr (True, err), sc')"
    by (metis link_live_def surj_pair)
  have "connect_control (ol_attempt ol) = Inr ()"
    using assms(3) by (simp add: connect_control_def link_live_def list_ex_iff) (rule exI [of _ 0], simp)
  with assms(3) pub have "\<exists>reply sv2 sc2. publish_step ?link (ol_commit ol n) c sv1 sc = (Inr reply, sv2, sc2) \<and> cp_published reply"
    by (simp add: publish_step_def publish_to_scheduler_def ensure_publish_ok_def link_live_def Let_def split: option.split)
  then obtain reply sv2 sc2 where step: "publish_step ?link (ol_commit ol n) c sv1 sc = (Inr reply, sv2, sc2)" "cp_published reply" by blast
  have "commit_version blake3 (ol_order ol) ?link (ol_envs ol n) (ol_commit ol n) c sv sc = (Inr reply, sv2, sc2)"
    using assms(5-9) len e ms step(1) by (simp add: commit_version_def to_hash_def Let_def)
  with step(2) assms(3) show ?thesis by (simp add: u origin_client_def link_live_def)
qed

lemma origin_live_link:
  assumes "serde_ok cd" "\<And>xs. set (ol_order ol xs) = set xs" "link_live ol"
  shows "live_upload_link (origin_client blake3 cd ol) blake3 (os_valid blake3 cd addr) os_fits os_stored (os_pub cd)"
proof (intro live_upload_link.intro live_upload_link_axioms.intro)
  show "upload_link (origin_client blake3 cd ol) blake3 (os_valid blake3 cd addr) os_fits os_stored (os_pub cd)"
    by (rule origin_upload_link [OF assms(1,2)])
qed (rule origin_query_live [OF assms(3)], assumption+, rule origin_upload_live [OF assms(3)], assumption+,
    rule origin_commit_live [OF assms], assumption+)

text \<open>A link on which nothing is lost.\<close>

definition link_std :: origin_link where
  "link_std = \<lparr>ol_lost = (\<lambda>n. False), ol_short = (\<lambda>n. None), ol_cut = (\<lambda>n. None), ol_envs = (\<lambda>n i. env_std),
     ol_commit = (\<lambda>n. \<lparr>ce_mkdir = True, ce_write = None\<rparr>), ol_order = (\<lambda>xs. xs), ol_attempt = (\<lambda>i. True), ol_faults = (\<lambda>n i. False)\<rparr>"

lemma link_std_live: "link_live link_std"
  by (simp add: link_live_def link_std_def env_std_live)

interpretation json_origin: live_upload_link "origin_client blake3 json_serde link_std" blake3 "os_valid blake3 json_serde addr"
    os_fits os_stored "os_pub json_serde" for blake3 addr
  by (rule origin_live_link [OF json_serde_ok _ link_std_live]) (simp add: link_std_def)

section \<open>From the source directory to the scheduler\<close>

text \<open>
  C14. A run that succeeds has released a complete version. Whatever is lost between the producer,
  the origin and the scheduler and whatever fails in their stores, if \<open>run_with_config\<close> returns
  without an error, the manifest it wrote is published at the origin (and known to the
  scheduler, if the origin has one), it decodes, and every chunk it names is in the origin's
  library. (The staged blocks must fit below 4 GiB.)
\<close>

theorem release_published:
  assumes "serde_ok cd" and "\<And>xs. set (ol_order ol xs) = set xs" and "os_valid (li_blake3 li) cd addr u" and "cutter_ok (li_cdc li)"
    and "pv_config pv = Inr config" and "pc_origin_addr config \<noteq> None" and "os_fits u (pc_game_id config) (source_bytes (pv_source pv))"
    and "run_with_config li (origin_client (li_blake3 li) cd ol) pv od u = (Inr (), od', u')"
  shows "\<exists>manifest index. od_index od' (index_name (pc_version config)) = Some manifest \<and>
    os_pub cd u' (pc_game_id config) (pc_version config) manifest \<and> decode (li_blake3 li) manifest = Inr index \<and>
    (\<forall>h \<in> chunk_set index. os_stored u' (pc_game_id config) h) \<and> os_valid (li_blake3 li) cd addr u'"
  using upload_link.run_publishes [OF origin_upload_link [OF assms(1,2)] refl assms(3-8)] by blast


text \<open>A game with one file, cut into single bytes, for a new origin with a new scheduler.\<close>

definition demo_libs :: "(bytes \<Rightarrow> bytes) \<Rightarrow> libraries" where
  "demo_libs blake3 = \<lparr>li_blake3 = blake3,
     li_cdc = (\<lambda>params content. if cp_max_size params = 0 then None else Some (map (\<lambda>b. Inr [b]) content)),
     li_lossy = (\<lambda>s. s), li_json = (\<lambda>d. Some []), li_header_ok = (\<lambda>t. True)\<rparr>"

definition demo_source :: "bytes \<Rightarrow> source_dir" where
  "demo_source bs = \<lparr>so_tree = Directory (Some [Some (''a'', RegularFile)]), so_open = (\<lambda>p. Some bs), so_reads = (\<lambda>p. Some [Inr bs])\<rparr>"

definition demo_producer :: producer_config where
  "demo_producer = \<lparr>pc_game_id = 5, pc_version = 1, pc_source_dir = ''s'', pc_previous_dir = None, pc_output_dir = ''o'',
     pc_origin_addr = Some ''http://o'', pc_origin_token = None, pc_chunk = chunk_params_default\<rparr>"

definition demo_run :: "bytes \<Rightarrow> producer_env" where
  "demo_run bs = \<lparr>pv_config = Inr demo_producer, pv_mkdir = (\<lambda>i. True), pv_lock = True, pv_unlock = True, pv_source = demo_source bs,
     pv_previous = None, pv_stage_write = (\<lambda>h. None), pv_index_write = None, pv_delta_write = None, pv_stage_read = (\<lambda>h. True),
     pv_runtime = True, pv_connect = True\<rparr>"

definition demo_out :: output_dir where
  "demo_out = \<lparr>od_lock = False, od_chunks = Map.empty, od_index = Map.empty, od_delta = Map.empty\<rparr>"

definition demo_session :: "json origin_session" where
  "demo_session = (with_scheduler (Some ''http://s'') demo_service, demo_control, 0)"

lemma demo_files: "list_files (so_tree (pv_source (demo_run bs))) = Inr [[''a'']]"
  by (simp add: list_files_def demo_run_def demo_source_def)

lemma demo_source_ok:
  assumes "length bs < 2 ^ 32"
  shows "readable (pv_source (demo_run bs)) [[''a'']]" "stable (pv_source (demo_run bs))"
    "nameable (li_lossy (demo_libs blake3)) (pv_source (demo_run bs)) [[''a'']]" "source_bytes (pv_source (demo_run bs)) = length bs"
  using demo_files [of bs] assms
  by (auto simp: readable_def stable_def nameable_def source_bytes_def demo_run_def demo_source_def demo_libs_def entry_name_def
      as_bytes_def utf8_valid_ascii in_range_def split: if_splits)

lemma demo_libs_ok: "cutter_ok (li_cdc (demo_libs blake3))" "cuts_all (li_cdc (demo_libs blake3)) (pc_chunk demo_producer)"
proof -
  have "concat ps = content \<and> (\<forall>p \<in> set ps. p \<noteq> [] \<and> length p \<le> k)" if "map (\<lambda>b. Inr [b]) content = (map Inr ps :: (unit + bytes) list)" "0 < k" for ps content k
    using that by (induction content arbitrary: ps) auto
  then show "cutter_ok (li_cdc (demo_libs blake3))" by (simp add: cutter_ok_def demo_libs_def)
  have "\<exists>ps. map (\<lambda>b. Inr [b]) content = (map Inr ps :: (unit + bytes) list)" for content :: bytes
    by (rule exI [of _ "map (\<lambda>b. [b]) content"]) simp
  then show "cuts_all (li_cdc (demo_libs blake3)) (pc_chunk demo_producer)"
    by (simp add: cuts_all_def demo_libs_def demo_producer_def chunk_params_default_def DEFAULT_CHUNK_MAX_def)
qed

lemma demo_session_ok: "os_valid blake3 json_serde (Some ''http://s'') demo_session" "n < 2 ^ 32 \<Longrightarrow> os_fits demo_session 5 n"
proof -
  have "svc_ok blake3 (with_scheduler (Some ''http://s'') demo_service)"
    using demo_service_ok [of blake3] by (simp add: svc_ok_def with_scheduler_def)
  then show "os_valid blake3 json_serde (Some ''http://s'') demo_session"
    by (simp add: os_valid_def demo_session_def demo_control_ok) (simp add: with_scheduler_def)
  have "gs_size store = 0" if "store_entry env 5 (with_scheduler (Some ''http://s'') demo_service) = Inr (store, sv)" for env store sv
    using that by (auto simp: demo_service_def with_scheduler_def with_stores_def store_entry_def store_open_def empty_disk_def Let_def split: sum.splits if_splits)
  then show "n < 2 ^ 32 \<Longrightarrow> os_fits demo_session 5 n" by (fastforce simp: os_fits_def demo_session_def)
qed

lemma link_std_order: "set (ol_order link_std xs) = set xs"
  by (simp add: link_std_def)

lemma demo_no_faults: "no_faults (demo_run bs) demo_out" "pv_config (demo_run bs) = Inr demo_producer"
  "previous_index li demo_producer (pv_previous (demo_run bs)) = Inr None"
  by (simp_all add: no_faults_def demo_run_def demo_out_def demo_producer_def previous_index_def)

lemma demo_producer_simps [simp]: "pc_game_id demo_producer = 5" "pc_version demo_producer = 1" "pc_origin_addr demo_producer = Some ''http://o''"
  by (simp_all add: demo_producer_def)

lemma demo_rest:
  "\<forall>h \<in> old_chunk_set None. os_stored u 5 h" "li_json (demo_libs blake3) d \<noteq> None" "li_header_ok (demo_libs blake3) t"
  "length bs < 2 ^ 32 \<Longrightarrow> os_fits demo_session (pc_game_id demo_producer) (source_bytes (pv_source (demo_run bs)))"
  using demo_session_ok(2) by (simp_all add: old_chunk_set_def demo_libs_def demo_source_ok)

lemma demo_release:
  assumes "blake3_ok blake3" "length bs < 2 ^ 32"
  obtains od' u' where "run_with_config (demo_libs blake3) (origin_client blake3 json_serde link_std) (demo_run bs) demo_out demo_session = (Inr (), od', u')"
proof -
  have b: "blake3 = li_blake3 (demo_libs blake3)" by (simp add: demo_libs_def)
  from json_origin.run_succeeds [where li = "demo_libs blake3" and config = demo_producer and pv = "demo_run bs" and od = demo_out,
      OF b demo_session_ok(1) demo_libs_ok demo_no_faults(1,2) _ _ demo_files _ demo_source_ok(1-3) [OF assms(2)] demo_no_faults(3) _
        demo_rest(2,3) assms(1) demo_rest(4) [OF assms(2)]] that show ?thesis by (auto simp: demo_rest)
qed

text \<open>The constant digest of the examples.\<close>

lemma demo_digest: "blake3_ok (\<lambda>d. demo_hash 5)" "li_blake3 (demo_libs blake3) = blake3" "length [7 :: u8] < 2 ^ 32"
  by (simp_all add: blake3_ok_def demo_libs_def demo_hash_def HASH_LEN_def)


theorem release_published_witness:
  "\<exists>od' u' manifest. run_with_config (demo_libs (\<lambda>d. demo_hash 5)) (origin_client (\<lambda>d. demo_hash 5) json_serde link_std) (demo_run [7]) demo_out demo_session =
       (Inr (), od', u') \<and> od_index od' (index_name 1) = Some manifest \<and> os_pub json_serde u' 5 1 manifest"
proof -
  obtain od' u' where run: "run_with_config (demo_libs (\<lambda>d. demo_hash 5)) (origin_client (\<lambda>d. demo_hash 5) json_serde link_std) (demo_run [7]) demo_out
      demo_session = (Inr (), od', u')" using demo_release [OF demo_digest(1,3)] .
  have "pc_origin_addr demo_producer \<noteq> None" by simp
  from release_published [OF json_serde_ok link_std_order demo_session_ok(1) demo_libs_ok(1) demo_no_faults(2) this
      demo_rest(4) [OF demo_digest(3)], unfolded demo_digest(2), OF run]
  obtain manifest where "od_index od' (index_name 1) = Some manifest" "os_pub json_serde u' 5 1 manifest" by auto
  with run show ?thesis by blast
qed

theorem produced_index_witness:
  "\<exists>od' u' index. run_with_config (demo_libs (\<lambda>d. demo_hash 5)) (origin_client (\<lambda>d. demo_hash 5) json_serde link_std) (demo_run [7]) demo_out demo_session =
       (Inr (), od', u') \<and> od_index od' (index_name 1) = Some (encode index) \<and> chunk_set index \<subseteq> {demo_hash 5}"
proof -
  obtain od' u' where run: "run_with_config (demo_libs (\<lambda>d. demo_hash 5)) (origin_client (\<lambda>d. demo_hash 5) json_serde link_std) (demo_run [7]) demo_out
      demo_session = (Inr (), od', u')" using demo_release [OF demo_digest(1,3)] .
  from produced_index [OF demo_libs_ok(1) demo_source_ok(2) [OF demo_digest(3)] run] obtain config index where
    i: "pv_config (demo_run [7]) = Inr config" "od_index od' (index_name (pc_version config)) = Some (encode index)"
      "\<forall>h \<in> chunk_set index. \<exists>x. od_chunks od' (stage_name h) = Some x \<and> li_blake3 (demo_libs (\<lambda>d. demo_hash 5)) x = h" by blast
  have "config = demo_producer" using i(1) by (simp add: demo_no_faults)
  moreover have "chunk_set index \<subseteq> {demo_hash 5}" using i(3) by (auto simp: demo_digest)
  ultimately show ?thesis using run i(2) by (intro exI [of _ od'] exI [of _ u'] exI [of _ index]) simp
qed

end
