(* ===== verification/Tools.thy ===== *)
theory Tools
  imports Pack_Runs Manifest
begin

text \<open>
  The command line tools that work on a block library: the seed writer
  (\<^verbatim>\<open>crates/agent/src/bin/seed.rs\<close>, \<^verbatim>\<open>crates/agent/src/lib.rs\<close>), the synchroniser
  (\<^verbatim>\<open>crates/agent/src/bin/sync.rs\<close>), which fetches the chunks of a version that are missing
  from one endpoint, the fetcher of a single chunk (\<^verbatim>\<open>crates/agent/src/bin/fetch.rs\<close>), and the inspector (\<^verbatim>\<open>crates/origin/src/bin/inspect.rs\<close>), which verifies
  every indexed chunk and the published manifests.

  Command line arguments are strings; the parsers of endpoint identifiers, addresses and URLs,
  the manifest file, the endpoint and the bytes that the peer sends back are parameters.
  What a tool prints is the value it returns.
\<close>

section \<open>Seeding\<close>

datatype tool_error =
    Usage | BadNumber | StoreFailed store_error | ManifestRead | ManifestDecode manifest_error
  | BadEndpointId | BadRelay | BadAddress | BindFailed | ConnectError | OpenStreamError | SendError
  | ChunksFailed u64 | ListPublished | PublishedEntry | SlicePanic
  | BadHash | DirectTimeout | ReadLength | ReadData | HashMismatch

text \<open>\<open>{i:04}\<close>: at least four digits.\<close>

definition pad4 :: "nat \<Rightarrow> string" where
  "pad4 n = (let s = show_nat n in replicate (4 - length s) CHR ''0'' @ s)"

definition seed_data :: "u64 \<Rightarrow> nat \<Rightarrow> bytes" where
  "seed_data game_id i =
     as_bytes (concat (replicate (64 * 1024) (''blazenet-seed-'' @ show_u64 game_id @ ''-'' @ pad4 i)))"

fun seed_loop :: "(bytes \<Rightarrow> bytes) \<Rightarrow> (nat \<Rightarrow> pack_env) \<Rightarrow> nat list \<Rightarrow> game_store \<Rightarrow> (store_error + bytes list) \<times> game_store" where
  "seed_loop blake3 envs [] st = (Inr [], st)"
| "seed_loop blake3 envs (i # is) st =
     (let x = seed_data (gs_game_id st) i; h = blake3 x in
      case append_chunk (envs 0) h x st of
        (Inl e, st1) \<Rightarrow> (Inl e, st1)
      | (Inr _, st1) \<Rightarrow>
          (case seed_loop blake3 (\<lambda>k. envs (Suc k)) is st1 of
             (Inl e, st2) \<Rightarrow> (Inl e, st2)
           | (Inr hs, st2) \<Rightarrow> (Inr (h # hs), st2)))"

definition seed ::
    "(bytes \<Rightarrow> bytes) \<Rightarrow> pack_env \<Rightarrow> (nat \<Rightarrow> pack_env) \<Rightarrow> u64 \<Rightarrow> nat \<Rightarrow> game_disk \<Rightarrow> (tool_error + bytes list) \<times> game_disk" where
  "seed blake3 env envs game_id chunk_count disk =
     (case store_open env game_id disk of
        Inl e \<Rightarrow> (Inl (StoreFailed e), disk)
      | Inr st \<Rightarrow>
          (case seed_loop blake3 envs [0 ..< chunk_count] st of
             (Inl e, st1) \<Rightarrow> (Inl (StoreFailed e), store_disk st1)
           | (Inr hs, st1) \<Rightarrow> (Inr hs, store_disk st1)))"

definition seed_main ::
    "(bytes \<Rightarrow> bytes) \<Rightarrow> pack_env \<Rightarrow> (nat \<Rightarrow> pack_env) \<Rightarrow> string list \<Rightarrow> (string \<Rightarrow> game_disk) \<Rightarrow>
     (tool_error + bytes list) \<times> (string \<Rightarrow> game_disk)" where
  "seed_main blake3 env envs args disks =
     (if length args \<noteq> 4 then (Inl Usage, disks)
      else case parse_u64 (args ! 2) of
        None \<Rightarrow> (Inl BadNumber, disks)
      | Some game_id \<Rightarrow>
          (case parse_u64 (args ! 3) of
             None \<Rightarrow> (Inl BadNumber, disks)
           | Some chunk_count \<Rightarrow>
               let dir = args ! 1 @ ''/'' @ show_u64 game_id in
               (case seed blake3 env envs game_id (unat chunk_count) (disks dir) of
                  (r, disk) \<Rightarrow> (r, disks(dir := disk)))))"

section \<open>Synchronising\<close>

text \<open>The reply loop: a failed read leaves nothing to read, and the chunk counts as failed.\<close>

fun sync_loop ::
    "(bytes \<Rightarrow> bytes) \<Rightarrow> (nat \<Rightarrow> pack_env) \<Rightarrow> bytes list \<Rightarrow> bytes \<Rightarrow> u64 \<Rightarrow> u64 \<Rightarrow> game_store \<Rightarrow>
     (store_error + u64 \<times> u64) \<times> game_store" where
  "sync_loop blake3 envs [] recv downloaded failed st = (Inr (downloaded, failed), st)"
| "sync_loop blake3 envs (hash # hashes) recv downloaded failed st =
     (case read_exact 4 recv of
        Inl _ \<Rightarrow> sync_loop blake3 envs hashes [] downloaded (failed + 1) st
      | Inr (lb, recv1) \<Rightarrow>
          (case read_exact (unat (u32_of_be lb)) recv1 of
             Inl _ \<Rightarrow> sync_loop blake3 envs hashes [] downloaded (failed + 1) st
           | Inr (x, recv2) \<Rightarrow>
               if blake3 x \<noteq> hash then sync_loop blake3 envs hashes recv2 downloaded (failed + 1) st
               else case append_chunk (envs 0) hash x st of
                 (Inl e, st1) \<Rightarrow> (Inl e, st1)
               | (Inr _, st1) \<Rightarrow> sync_loop blake3 (\<lambda>k. envs (Suc k)) hashes recv2 (downloaded + 1) failed st1))"

text \<open>\<open>contains(hash).unwrap_or(false)\<close>: a failed lookup counts as missing.\<close>

fun not_contained_in :: "(nat \<Rightarrow> pack_env) \<Rightarrow> game_store \<Rightarrow> bytes list \<Rightarrow> bytes list" where
  "not_contained_in envs st [] = []"
| "not_contained_in envs st (h # hs) =
     (let rest = not_contained_in (\<lambda>k. envs (Suc k)) st hs in
      case store_contains (envs 0) st h of Inl _ \<Rightarrow> h # rest | Inr found \<Rightarrow> if found then rest else h # rest)"

definition sync_missing :: "(nat \<Rightarrow> pack_env) \<Rightarrow> game_store \<Rightarrow> bytes list \<Rightarrow> bytes list" where
  "sync_missing envs st hashes = sort (not_contained_in envs st hashes)"

record sync_net =
  sn_endpoint :: "string \<Rightarrow> bool"
  sn_relay_url :: "string \<Rightarrow> bool"
  sn_addr :: "string \<Rightarrow> bool"
  sn_bind :: bool
  sn_connect :: bool
  sn_open :: bool
  sn_send :: bool
  sn_exchange :: "bytes \<Rightarrow> bytes"

definition sync_relay_url :: "string list \<Rightarrow> string option" where
  "sync_relay_url args =
     (if prefix ''https://'' (args ! 5) then Some (args ! 5)
      else if 6 < length args then Some (args ! 6) else None)"

definition sync_target :: "sync_net \<Rightarrow> string list \<Rightarrow> tool_error + unit" where
  "sync_target nt args =
     (case sync_relay_url args of
        Some url \<Rightarrow> if sn_relay_url nt url then Inr () else Inl BadRelay
      | None \<Rightarrow> if sn_addr nt (args ! 5) then Inr () else Inl BadAddress)"

definition sync_request :: "u64 \<Rightarrow> bytes list \<Rightarrow> bytes" where
  "sync_request game_id hashes = be_of_u64 game_id @ be_of_u32 (word_of_nat (length hashes)) @ concat hashes"

definition sync_fetch ::
    "(bytes \<Rightarrow> bytes) \<Rightarrow> sync_net \<Rightarrow> (nat \<Rightarrow> pack_env) \<Rightarrow> u64 \<Rightarrow> bytes list \<Rightarrow> game_store \<Rightarrow> (tool_error + u64) \<times> game_store" where
  "sync_fetch blake3 nt envs game_id missing st =
     (if missing = [] then (Inr 0, st)
      else if \<not> sn_connect nt then (Inl ConnectError, st)
      else if \<not> sn_open nt then (Inl OpenStreamError, st)
      else if \<not> sn_send nt then (Inl SendError, st)
      else case sync_loop blake3 envs missing (sn_exchange nt (sync_request game_id missing)) 0 0 st of
        (Inl e, st1) \<Rightarrow> (Inl (StoreFailed e), st1)
      | (Inr (downloaded, failed), st1) \<Rightarrow>
          if 0 < failed then (Inl (ChunksFailed failed), st1) else (Inr downloaded, st1))"

definition sync_main ::
    "(bytes \<Rightarrow> bytes) \<Rightarrow> (bytes list \<Rightarrow> bytes list) \<Rightarrow> sync_net \<Rightarrow> pack_env \<Rightarrow> (nat \<Rightarrow> pack_env) \<Rightarrow> (nat \<Rightarrow> pack_env) \<Rightarrow>
     string list \<Rightarrow> (string \<rightharpoonup> bytes) \<Rightarrow> (string \<Rightarrow> game_disk) \<Rightarrow> (tool_error + u64) \<times> (string \<Rightarrow> game_disk)" where
  "sync_main blake3 order nt env envs1 envs2 args files disks =
     (if length args \<noteq> 6 \<and> length args \<noteq> 7 then (Inl Usage, disks)
      else case parse_u64 (args ! 2) of
        None \<Rightarrow> (Inl BadNumber, disks)
      | Some game_id \<Rightarrow>
          (case files (args ! 3) of
             None \<Rightarrow> (Inl ManifestRead, disks)
           | Some manifest_bytes \<Rightarrow>
               (case decode blake3 manifest_bytes of
                  Inl e \<Rightarrow> (Inl (ManifestDecode e), disks)
                | Inr index \<Rightarrow>
                    if \<not> sn_endpoint nt (args ! 4) then (Inl BadEndpointId, disks)
                    else (case sync_target nt args of
                      Inl e \<Rightarrow> (Inl e, disks)
                    | Inr _ \<Rightarrow>
                        if \<not> sn_bind nt then (Inl BindFailed, disks)
                        else let dir = args ! 1 @ ''/'' @ show_u64 game_id in
                          (case store_open env game_id (disks dir) of
                             Inl e \<Rightarrow> (Inl (StoreFailed e), disks)
                           | Inr st \<Rightarrow>
                               (case sync_fetch blake3 nt envs2 game_id
                                       (sync_missing envs1 st (order (remdups (chunk_hashes index)))) st of
                                  (r, st1) \<Rightarrow> (r, disks(dir := store_disk st1))))))))"

section \<open>Inspecting\<close>

fun hash_pairs :: "string \<Rightarrow> nat \<Rightarrow> nat \<Rightarrow> tool_error + bytes option" where
  "hash_pairs s i 0 = Inr (Some [])"
| "hash_pairs s i (Suc k) =
     (if \<not> is_char_boundary (as_bytes s) (2 * i) \<or> \<not> is_char_boundary (as_bytes s) (2 * i + 2) then Inl SlicePanic
      else (case u8_from_hex2 (s ! (2 * i)) (s ! (2 * i + 1)) of
              None \<Rightarrow> Inr None
            | Some b \<Rightarrow> res_bind (hash_pairs s (Suc i) k) (\<lambda>r. Inr (map_option ((#) b) r))))"

definition parse_hash :: "string \<Rightarrow> tool_error + bytes option" where
  "parse_hash s = (if length s \<noteq> 64 then Inr None else hash_pairs s 0 32)"

text \<open>Counting the verified and the bad entries; a key shorter than the game number panics.\<close>

fun inspect_entries ::
    "(bytes \<Rightarrow> bytes) \<Rightarrow> (nat \<Rightarrow> pack_env) \<Rightarrow> game_store \<Rightarrow> (string \<times> u64 \<times> u32) list \<Rightarrow> u64 \<times> u64 \<Rightarrow> tool_error + u64 \<times> u64" where
  "inspect_entries blake3 envs st [] counts = Inr counts"
| "inspect_entries blake3 envs st ((k, _) # es) (ok, bad) =
     (if length k < 16 \<or> \<not> is_char_boundary (as_bytes k) 16 then Inl SlicePanic
      else res_bind (parse_hash (drop 16 k)) (\<lambda>r. case r of
        None \<Rightarrow> inspect_entries blake3 envs st es (ok, bad + 1)
      | Some h \<Rightarrow>
          (case store_read_chunk (envs 0) st h of
             Inr (Some x) \<Rightarrow>
               inspect_entries blake3 (\<lambda>i. envs (Suc i)) st es (if blake3 x = h then (ok + 1, bad) else (ok, bad + 1))
           | _ \<Rightarrow> inspect_entries blake3 (\<lambda>i. envs (Suc i)) st es (ok, bad + 1))))"

text \<open>A line of the report: the version, its files, its distinct chunks, those not in the index,
  and whether the stored digest is right.\<close>

record version_line =
  vl_version :: u64
  vl_files :: nat
  vl_chunks :: nat
  vl_set :: "bytes list"
  vl_missing :: "bytes list"
  vl_hash_ok :: bool

definition inspect_version ::
    "(bytes \<Rightarrow> bytes) \<Rightarrow> (bytes list \<Rightarrow> bytes list) \<Rightarrow> (nat \<Rightarrow> pack_env) \<Rightarrow> game_store \<Rightarrow> u64 \<Rightarrow> bytes \<Rightarrow> tool_error + version_line" where
  "inspect_version blake3 order envs st version bs =
     (case decode blake3 bs of
        Inl e \<Rightarrow> Inl (ManifestDecode e)
      | Inr index \<Rightarrow>
          let chunks = order (remdups (chunk_hashes index)) in
          Inr \<lparr>vl_version = version, vl_files = length (gi_files index), vl_chunks = length chunks, vl_set = chunks,
            vl_missing = not_contained_in envs st chunks,
            vl_hash_ok = (gi_hash index = blake3 (take (length bs - 32) bs))\<rparr>)"

text \<open>The directory listing: \<open>None\<close> is an entry that cannot be read; a name comes with its content, if readable.\<close>

fun inspect_published ::
    "(bytes \<Rightarrow> bytes) \<Rightarrow> (bytes list \<Rightarrow> bytes list) \<Rightarrow> (nat \<Rightarrow> pack_env) \<Rightarrow> game_store \<Rightarrow> (string \<times> bytes option) option list \<Rightarrow>
     tool_error + version_line list" where
  "inspect_published blake3 order envs st [] = Inr []"
| "inspect_published blake3 order envs st (None # es) = Inl PublishedEntry"
| "inspect_published blake3 order envs st (Some (name, content) # es) =
     (case strip_suffix ''.gameindex'' name of
        None \<Rightarrow> inspect_published blake3 order envs st es
      | Some ver_text \<Rightarrow>
          (case parse_u64 ver_text of
             None \<Rightarrow> Inl BadNumber
           | Some version \<Rightarrow>
               (case content of
                  None \<Rightarrow> Inl ManifestRead
                | Some bs \<Rightarrow>
                    res_bind (inspect_version blake3 order envs st version bs) (\<lambda>l.
                    res_bind (inspect_published blake3 order envs st es) (\<lambda>ls. Inr (l # ls))))))"

record inspect_report =
  ir_ok :: u64
  ir_bad :: u64
  ir_versions :: "version_line list"
  ir_shared :: "(nat \<times> nat \<times> nat) option"

text \<open>The first two versions compared: the chunks they share, and those of one of them only.\<close>

fun shared_chunks :: "version_line list \<Rightarrow> (nat \<times> nat \<times> nat) option" where
  "shared_chunks (v1 # v2 # vs) =
     Some (length (filter (\<lambda>h. h \<in> set (vl_set v2)) (vl_set v1)), length (filter (\<lambda>h. h \<notin> set (vl_set v2)) (vl_set v1)),
       length (filter (\<lambda>h. h \<notin> set (vl_set v1)) (vl_set v2)))"
| "shared_chunks vs = None"

definition inspect_main ::
    "(bytes \<Rightarrow> bytes) \<Rightarrow> (bytes list \<Rightarrow> bytes list) \<Rightarrow> pack_env \<Rightarrow> (nat \<Rightarrow> pack_env) \<Rightarrow> (nat \<Rightarrow> pack_env) \<Rightarrow> string list \<Rightarrow>
     (string \<Rightarrow> game_disk) \<Rightarrow> (string \<Rightarrow> (string \<times> bytes option) option list option option) \<Rightarrow> tool_error + inspect_report" where
  "inspect_main blake3 order env envs1 envs2 args disks published =
     (if length args \<noteq> 3 then Inl Usage
      else case parse_u64 (args ! 2) of
        None \<Rightarrow> Inl BadNumber
      | Some game_id \<Rightarrow>
          let dir = args ! 1 @ ''/'' @ show_u64 game_id in
          (case store_open env game_id (disks dir) of
             Inl e \<Rightarrow> Inl (StoreFailed e)
           | Inr st \<Rightarrow>
               (case entries env st of
                  Inl e \<Rightarrow> Inl (StoreFailed e)
                | Inr es \<Rightarrow>
                    res_bind (inspect_entries blake3 envs1 st es (0, 0)) (\<lambda>(ok, bad).
                      (case published dir of
                         None \<Rightarrow> Inr \<lparr>ir_ok = ok, ir_bad = bad, ir_versions = [], ir_shared = None\<rparr>
                       | Some None \<Rightarrow> Inl ListPublished
                       | Some (Some listing) \<Rightarrow>
                           res_bind (inspect_published blake3 order envs2 st listing) (\<lambda>vs.
                             Inr \<lparr>ir_ok = ok, ir_bad = bad, ir_versions = vs, ir_shared = shared_chunks vs\<rparr>))))))"


section \<open>Fetching one chunk\<close>

text \<open>\<open>hex_decode\<close>: like \<open>parse_hash\<close>, with errors.\<close>

definition hex_decode :: "string \<Rightarrow> tool_error + bytes" where
  "hex_decode s =
     (if length s \<noteq> 64 then Inl BadHash
      else res_bind (hash_pairs s 0 32) (\<lambda>r. case r of None \<Rightarrow> Inl BadHash | Some h \<Rightarrow> Inr h))"

text \<open>The wait for a direct path: polls every half second for twenty seconds, so the clock has passed
  the deadline at the last of 41 polls; \<open>late i\<close> says that it had at poll \<open>i\<close>.\<close>

fun fetch_wait :: "nat \<Rightarrow> (nat \<Rightarrow> bool) \<Rightarrow> (nat \<Rightarrow> bool) \<Rightarrow> tool_error + unit" where
  "fetch_wait 0 direct late = (if direct 0 then Inr () else Inl DirectTimeout)"
| "fetch_wait (Suc n) direct late =
     (if direct 0 then Inr () else if late 0 then Inl DirectTimeout
      else fetch_wait n (\<lambda>i. direct (Suc i)) (\<lambda>i. late (Suc i)))"

definition fetch_relay_url :: "string list \<Rightarrow> string option" where
  "fetch_relay_url args =
     (if prefix ''https://'' (args ! 2) then Some (args ! 2)
      else if 5 < length args then Some (args ! 5) else None)"

definition fetch_target :: "sync_net \<Rightarrow> string list \<Rightarrow> tool_error + unit" where
  "fetch_target nt args =
     (if 6 < length args \<and> \<not> sn_addr nt (args ! 6) then Inl BadAddress
      else case fetch_relay_url args of
        Some url \<Rightarrow> if sn_relay_url nt url then Inr () else Inl BadRelay
      | None \<Rightarrow> if sn_addr nt (args ! 2) then Inr () else Inl BadAddress)"

definition fetch_reply :: "(bytes \<Rightarrow> bytes) \<Rightarrow> bytes \<Rightarrow> bytes \<Rightarrow> tool_error + bytes" where
  "fetch_reply blake3 hash recv =
     (case read_exact 4 recv of
        Inl _ \<Rightarrow> Inl ReadLength
      | Inr (lb, recv1) \<Rightarrow>
          (case read_exact (unat (u32_of_be lb)) recv1 of
             Inl _ \<Rightarrow> Inl ReadData
           | Inr (x, _) \<Rightarrow> if blake3 x \<noteq> hash then Inl HashMismatch else Inr x))"

definition fetch_main ::
    "(bytes \<Rightarrow> bytes) \<Rightarrow> sync_net \<Rightarrow> (nat \<Rightarrow> bool) \<Rightarrow> (nat \<Rightarrow> bool) \<Rightarrow> string list \<Rightarrow> tool_error + bytes" where
  "fetch_main blake3 nt direct late args =
     (if length args \<noteq> 5 \<and> length args \<noteq> 6 \<and> length args \<noteq> 7 then Inl Usage
      else if \<not> sn_endpoint nt (args ! 1) then Inl BadEndpointId
      else case parse_u64 (args ! 3) of
        None \<Rightarrow> Inl BadNumber
      | Some game_id \<Rightarrow>
          res_bind (hex_decode (args ! 4)) (\<lambda>hash.
          res_bind (fetch_target nt args) (\<lambda>_.
            if \<not> sn_bind nt then Inl BindFailed
            else if \<not> sn_connect nt then Inl ConnectError
            else res_bind (fetch_wait 40 direct late) (\<lambda>_.
              if \<not> sn_open nt then Inl OpenStreamError
              else if \<not> sn_send nt then Inl SendError
              else fetch_reply blake3 hash (sn_exchange nt (sync_request game_id [hash]))))))"


section \<open>The synchroniser\<close>

text \<open>What every run of the reply loop keeps: the library stays sound and keeps its chunks, new
  chunks have their digest, and a run without failures leaves every requested chunk stored.\<close>

definition synced :: "(bytes \<Rightarrow> bytes) \<Rightarrow> game_store \<Rightarrow> game_store \<Rightarrow> bool" where
  "synced blake3 st st' \<longleftrightarrow> store_ok st' \<and> gs_path st' = gs_path st \<and>
     (\<forall>h x. abs_store st h = Some x \<longrightarrow> abs_store st' h = Some x) \<and>
     (\<forall>h x. abs_store st' h = Some x \<longrightarrow> abs_store st h = Some x \<or> blake3 x = h)"

lemma synced_refl: "store_ok st \<Longrightarrow> synced blake3 st st"
  by (simp add: synced_def)

lemma synced_trans: "synced blake3 a b \<Longrightarrow> synced blake3 b c \<Longrightarrow> synced blake3 a c"
  unfolding synced_def by metis

lemma synced_append:
  assumes "store_ok st" "unat (gs_size st) + length x < 2 ^ 32" "append_chunk env (blake3 x) x st = (r, st1)"
  shows "synced blake3 st st1" "r = Inr loc \<Longrightarrow> abs_store st1 (blake3 x) \<noteq> None"
    "unat (gs_size st1) \<le> unat (gs_size st) + length x"
  using append_chunk_outcome [OF assms] append_chunk_path [OF assms(1,3)]
  by (auto simp: synced_def split: if_splits)

lemma sync_loop_spec:
  assumes "store_ok st" "unat (gs_size st) + length recv < 2 ^ 32" "unat failed + length hashes < 2 ^ 64"
    and "sync_loop blake3 envs hashes recv downloaded failed st = (r, st')"
  shows "synced blake3 st st' \<and>
    (\<forall>d f. r = Inr (d, f) \<longrightarrow> unat failed \<le> unat f \<and> (f = failed \<longrightarrow> (\<forall>h \<in> set hashes. abs_store st' h \<noteq> None)))"
  using assms
proof (induction hashes arbitrary: envs recv downloaded failed st)
  case Nil
  then show ?case by (auto simp: synced_refl)
next
  case (Cons h hs)
  have inc: "unat (failed + 1) = Suc (unat failed)" "unat (failed + 1) + length hs < 2 ^ 64"
    using Cons.prems(3) by (simp_all add: unat_word_ariths)
  have skip: ?case if "sync_loop blake3 envs hs recv' downloaded (failed + 1) st = (r, st')" "length recv' \<le> length recv" for recv'
  proof -
    have "unat (gs_size st) + length recv' < 2 ^ 32" using Cons.prems(2) that(2) by simp
    from Cons.IH [OF Cons.prems(1) this inc(2) that(1)] inc(1) show ?thesis by fastforce
  qed
  show ?case
  proof (cases "read_exact 4 recv")
    case (Inl e)
    with Cons.prems(4) skip [of "[]"] show ?thesis by simp
  next
    case (Inr p)
    obtain lb recv1 where p: "p = (lb, recv1)" by fastforce
    have r1: "recv = lb @ recv1" using Inr p by (simp add: read_exact_eq_Inr)
    show ?thesis
    proof (cases "read_exact (unat (u32_of_be lb)) recv1")
      case (Inl e)
      with Cons.prems(4) skip [of "[]"] Inr p show ?thesis by simp
    next
      case two: (Inr q)
      obtain x recv2 where q: "q = (x, recv2)" by fastforce
      have r2: "recv1 = x @ recv2" using two q by (simp add: read_exact_eq_Inr)
      show ?thesis
      proof (cases "blake3 x = h")
        case False
        with Cons.prems(4) skip [of recv2] Inr p two q r1 r2 show ?thesis by simp
      next
        case True
        obtain a st1 where app: "append_chunk (envs 0) h x st = (a, st1)" by fastforce
        have "unat (gs_size st) + length x < 2 ^ 32" using Cons.prems(2) r1 r2 by simp
        note one = synced_append [of st x "envs 0" blake3 a st1, OF Cons.prems(1) this app [folded True]]
        show ?thesis
        proof (cases a)
          case (Inl e)
          with Cons.prems(4) Inr p two q True app one(1) show ?thesis by auto
        next
          case stored: (Inr loc)
          have rest: "sync_loop blake3 (\<lambda>k. envs (Suc k)) hs recv2 (downloaded + 1) failed st1 = (r, st')"
            using Cons.prems(4) Inr p two q True app stored by simp
          have "unat (gs_size st1) + length recv2 < 2 ^ 32" using one(3) Cons.prems(2) r1 r2 by simp
          from Cons.IH [OF _ this _ rest] one(1) Cons.prems(3)
          have next_ok: "synced blake3 st1 st'" "\<forall>d f. r = Inr (d, f) \<longrightarrow> unat failed \<le> unat f \<and> (f = failed \<longrightarrow> (\<forall>h \<in> set hs. abs_store st' h \<noteq> None))"
            by (auto simp: synced_def)
          obtain y where "abs_store st1 h = Some y" using one(2) [OF stored] True by auto
          with next_ok(1) have "abs_store st' h \<noteq> None" by (simp add: synced_def)
          with next_ok(2) synced_trans [OF one(1) next_ok(1)] show ?thesis by simp
        qed
      qed
    qed
  qed
qed

lemma not_contained_in_mem:
  "h \<in> set hashes \<Longrightarrow> h \<notin> set (not_contained_in envs st hashes) \<Longrightarrow> abs_store st h \<noteq> None"
  by (induction hashes arbitrary: envs)
    (auto simp: Let_def store_contains_def abs_store_def split: sum.splits if_splits)

lemma not_contained_in_length: "length (not_contained_in envs st hashes) \<le> length hashes"
  by (induction hashes arbitrary: envs) (auto simp: Let_def intro: le_SucI split: sum.splits)



definition demo_sync_net :: sync_net where
  "demo_sync_net = \<lparr>sn_endpoint = \<lambda>_. True, sn_relay_url = \<lambda>_. True, sn_addr = \<lambda>_. True, sn_bind = True,
     sn_connect = True, sn_open = True, sn_send = True, sn_exchange = \<lambda>_. [0, 0, 0, 1, 7]\<rparr>"

definition demo_sync_index :: game_index where
  "demo_sync_index = build (\<lambda>_. demo_hash 1)
     [\<lparr>fe_name = ''f'', fe_hash = demo_hash 1, fe_chunks = [\<lparr>cm_hash = demo_hash 1, cm_len = 1\<rparr>]\<rparr>]"

definition demo_sync_args :: "string list" where
  "demo_sync_args = [''sync'', ''d'', show_u64 5, ''m'', ''e'', ''a'']"

lemma demo_sync_decodes: "decode (\<lambda>_. demo_hash 1) (encode demo_sync_index) = Inr demo_sync_index"
  unfolding demo_sync_index_def
  by (rule decode_encode) (simp_all add: build_def demo_hash_def wf_files_def wf_file_def wf_chunk_def HASH_LEN_def
      as_bytes_def utf8_valid_ascii in_range_def)



section \<open>The inspector\<close>

lemma hex_bytes_nth:
  "i < length h \<Longrightarrow> hex_bytes h ! (2 * i) = hex2 (h ! i) ! 0"
  "i < length h \<Longrightarrow> hex_bytes h ! (2 * i + 1) = hex2 (h ! i) ! 1"
proof (induction h arbitrary: i)
  case (Cons b bs)
  {
    case 1
    with Cons.IH(1) show ?case by (cases i) (simp_all add: nth_append)
  next
    case 2
    with Cons.IH(2) show ?case by (cases i) (simp_all add: nth_append)
  }
qed simp_all

lemma hex_bytes_ascii: "c \<in> set (hex_bytes h) \<Longrightarrow> of_char c < (128 :: nat)"
proof (induction h)
  case (Cons b bs)
  then show ?case
    using hex_digit_ascii byte_nibbles [of b] by (auto simp: hex2_def)
qed simp

lemma ascii_boundary:
  assumes "\<And>c. c \<in> set s \<Longrightarrow> of_char c < (128 :: nat)" "i \<le> length s"
  shows "is_char_boundary (as_bytes s) i"
proof (cases "i = length s")
  case False
  then have "i < length s" using assms(2) by simp
  moreover from this have "of_char (s ! i) < (128 :: nat)" using assms(1) by simp
  then have "\<not> utf8_cont (as_bytes s ! i)"
    using \<open>i < length s\<close> by (simp add: as_bytes_def utf8_cont_def in_range_def word_le_nat_alt unat_of_nat)
  ultimately show ?thesis by (simp add: is_char_boundary_def)
qed (simp add: is_char_boundary_def)

lemma hash_pairs_hex: "i + k = length h \<Longrightarrow> hash_pairs (hex_bytes h) i k = Inr (Some (drop i h))"
proof (induction k arbitrary: i)
  case (Suc k)
  then have i: "i < length h" by simp
  have "is_char_boundary (as_bytes (hex_bytes h)) (2 * i)" "is_char_boundary (as_bytes (hex_bytes h)) (2 * i + 2)"
    using i by (auto intro!: ascii_boundary hex_bytes_ascii)
  moreover have "u8_from_hex2 (hex_bytes h ! (2 * i)) (hex_bytes h ! (2 * i + 1)) = Some (h ! i)"
    using hex_bytes_nth [OF i] u8_from_hex2_hex2 by simp
  ultimately show ?case
    using Suc.IH [of "Suc i"] Suc.prems i by (simp add: Cons_nth_drop_Suc)
qed simp

lemma parse_hash_hex: "length h = 32 \<Longrightarrow> parse_hash (hex_bytes h) = Inr (Some h)"
  by (simp add: parse_hash_def hash_pairs_hex)

text \<open>The keys the library writes: the game and a digest of 32 bytes.\<close>

definition keys_ok :: "game_store \<Rightarrow> bool" where
  "keys_ok st \<longleftrightarrow> (\<forall>k \<in> fst ` set (gs_index st). \<exists>h. length h = 32 \<and> k = key (gs_game_id st) h)"

definition verifies :: "(bytes \<Rightarrow> bytes) \<Rightarrow> game_store \<Rightarrow> string \<Rightarrow> bool" where
  "verifies blake3 st k \<longleftrightarrow> (\<forall>h. k = key (gs_game_id st) h \<longrightarrow> (case abs_store st h of None \<Rightarrow> False | Some x \<Rightarrow> blake3 x = h))"

lemma key_boundary: "length h = 32 \<Longrightarrow> is_char_boundary (as_bytes (key g h)) 16"
  by (auto simp: key_def hex16_def intro!: ascii_boundary dest: hex_bytes_ascii)

lemma inspect_entries_counts:
  assumes "store_ok st" "\<And>i. pe_read_txn (envs i) \<and> os_live (pe_rd (envs i))"
    and "\<And>e. e \<in> set es \<Longrightarrow> \<exists>h. length h = 32 \<and> fst e = key (gs_game_id st) h"
  shows "inspect_entries blake3 envs st es (ok, bad) =
    Inr (ok + word_of_nat (length (filter (\<lambda>e. verifies blake3 st (fst e)) es)),
         bad + word_of_nat (length (filter (\<lambda>e. \<not> verifies blake3 st (fst e)) es)))"
  using assms(2,3)
proof (induction es arbitrary: envs ok bad)
  case (Cons e es)
  obtain k v where e: "e = (k, v)" by (cases e)
  obtain h where h: "length h = 32" "k = key (gs_game_id st) h" using Cons.prems(2) [of e] e by auto
  have parse: "parse_hash (drop 16 k) = Inr (Some h)" using h by (simp add: key_def parse_hash_hex)
  have read: "store_read_chunk (envs 0) st h = Inr (abs_store st h)"
    using read_refines [OF assms(1)] Cons.prems(1) by blast
  have good: "verifies blake3 st k \<longleftrightarrow> (case abs_store st h of None \<Rightarrow> False | Some x \<Rightarrow> blake3 x = h)"
    by (auto simp: verifies_def h)
  have "16 \<le> length k" "is_char_boundary (as_bytes k) 16" using h key_boundary by (simp_all add: key_def)
  moreover have IH: "inspect_entries blake3 (\<lambda>i. envs (Suc i)) st es (a, b) =
      Inr (a + word_of_nat (length (filter (\<lambda>e. verifies blake3 st (fst e)) es)),
           b + word_of_nat (length (filter (\<lambda>e. \<not> verifies blake3 st (fst e)) es)))" for a b
    using Cons.IH Cons.prems by auto
  ultimately show ?case
    using parse read good by (cases "abs_store st h") (auto simp: e algebra_simps)
qed simp

text \<open>
  The inspector. On a sound library whose keys are well formed, with reads that work, the
  inspector counts every indexed chunk once, as verified or as bad, and it counts no bad chunk iff
  every chunk of the library has the digest it is stored under. (It ends normally in either case.)
\<close>

theorem inspect_finds_corruption:
  assumes "store_ok st" and "keys_ok st" and "\<And>i. pe_read_txn (envs i) \<and> os_live (pe_rd (envs i))"
    and "entries env st = Inr es" and "length es < 2 ^ 64"
  shows "\<exists>ok bad. inspect_entries blake3 envs st es (0, 0) = Inr (ok, bad) \<and> unat ok + unat bad = length es \<and>
    (bad = 0 \<longleftrightarrow> (\<forall>h x. abs_store st h = Some x \<longrightarrow> blake3 x = h))"
proof -
  let ?good = "filter (\<lambda>e. verifies blake3 st (fst e)) es" and ?bad = "filter (\<lambda>e. \<not> verifies blake3 st (fst e)) es"
  have es: "map fst es = map fst (gs_index st)" using assms(4) by (auto simp: entries_def split: if_splits)
  then have keys: "\<exists>h. length h = 32 \<and> fst e = key (gs_game_id st) h" if "e \<in> set es" for e
    using that assms(2) by (metis keys_ok_def image_eqI list.set_map)
  have len: "length ?good + length ?bad = length es" by (rule sum_length_filter_compl)
  have run: "inspect_entries blake3 envs st es (0, 0) = Inr (word_of_nat (length ?good), word_of_nat (length ?bad))"
    using inspect_entries_counts [OF assms(1,3) keys, where ?blake3.0 = blake3 and ok = 0 and bad = 0] by simp
  have unat: "unat (word_of_nat (length ?good) :: u64) = length ?good" "unat (word_of_nat (length ?bad) :: u64) = length ?bad"
    using len assms(5) by (simp_all add: unat_word_of_nat_u64)
  have "?bad = [] \<longleftrightarrow> (\<forall>h x. abs_store st h = Some x \<longrightarrow> blake3 x = h)"
  proof
    assume "?bad = []"
    then have good: "\<forall>k \<in> fst ` set es. verifies blake3 st k" by (auto simp: filter_empty_conv)
    show "\<forall>h x. abs_store st h = Some x \<longrightarrow> blake3 x = h"
    proof (intro allI impI)
      fix h x
      assume x: "abs_store st h = Some x"
      then have "key (gs_game_id st) h \<in> fst ` set (gs_index st)"
        by (auto simp: abs_store_def tbl_get_def dest: map_of_SomeD intro: rev_image_eqI)
      then have "key (gs_game_id st) h \<in> fst ` set es" using es by (metis list.set_map)
      with good have "verifies blake3 st (key (gs_game_id st) h)" by blast
      with x show "blake3 x = h" by (simp add: verifies_def)
    qed
  next
    assume all: "\<forall>h x. abs_store st h = Some x \<longrightarrow> blake3 x = h"
    have "verifies blake3 st k" if "k \<in> fst ` set es" for k
    proof -
      have "k \<in> fst ` set (gs_index st)" using that es by (metis list.set_map)
      then have "tbl_get (gs_index st) k \<noteq> None" by (simp add: tbl_get_None)
      with all show ?thesis by (auto simp: verifies_def abs_store_def)
    qed
    then show "?bad = []" by (auto simp: filter_empty_conv)
  qed
  then have "word_of_nat (length ?bad) = (0 :: u64) \<longleftrightarrow> (\<forall>h x. abs_store st h = Some x \<longrightarrow> blake3 x = h)"
    using unat(2) by (metis length_0_conv unat_0 unat_eq_zero)
  with run unat len show ?thesis by (intro exI conjI) auto
qed

section \<open>The fetcher\<close>

lemma hex_decode_hex: "length h = 32 \<Longrightarrow> hex_decode (hex_bytes h) = Inr h"
  by (simp add: hex_decode_def hash_pairs_hex)

lemma fetch_wait_Inr: "fetch_wait n direct late = Inr u \<Longrightarrow> \<exists>i \<le> n. direct i"
proof (induction n arbitrary: direct late)
  case (Suc n)
  from Suc.prems consider "direct 0" | "fetch_wait n (\<lambda>i. direct (Suc i)) (\<lambda>i. late (Suc i)) = Inr u" by (auto split: if_splits)
  then show ?case using Suc.IH by cases (blast, fastforce)
qed (auto split: if_splits)

text \<open>
  The fetcher returns data only over a direct path and only with the digest that was asked for;
  a peer that frames that chunk rightly is believed.
\<close>

theorem fetch_tool_verified:
  assumes "length hash = 32" and "args ! 4 = hex_bytes hash"
  shows "(\<forall>x. fetch_main blake3 nt direct late args = Inr x \<longrightarrow> blake3 x = hash \<and> (\<exists>i \<le> 40. direct i)) \<and>
    (\<forall>x g. (length args = 5 \<or> length args = 6 \<or> length args = 7) \<and> parse_u64 (args ! 3) = Some g \<and> fetch_target nt args = Inr () \<and>
       sn_endpoint nt (args ! 1) \<and> sn_bind nt \<and> sn_connect nt \<and> sn_open nt \<and> sn_send nt \<and> direct 0 \<and>
       length x < 2 ^ 32 \<and> blake3 x = hash \<and> sn_exchange nt (sync_request g [hash]) = be_of_u32 (word_of_nat (length x)) @ x \<longrightarrow>
       fetch_main blake3 nt direct late args = Inr x)"
proof (intro conjI allI impI)
  fix x
  assume run: "fetch_main blake3 nt direct late args = Inr x"
  then show "blake3 x = hash"
    using hex_decode_hex [OF assms(1)] assms(2)
    by (auto simp: fetch_main_def fetch_reply_def split: if_splits option.splits sum.splits)
  from run show "\<exists>i \<le> 40. direct i"
    by (auto simp: fetch_main_def split: if_splits option.splits dest!: fetch_wait_Inr)
next
  fix x g
  assume a: "(length args = 5 \<or> length args = 6 \<or> length args = 7) \<and> parse_u64 (args ! 3) = Some g \<and> fetch_target nt args = Inr () \<and>
       sn_endpoint nt (args ! 1) \<and> sn_bind nt \<and> sn_connect nt \<and> sn_open nt \<and> sn_send nt \<and> direct 0 \<and>
       length x < 2 ^ 32 \<and> blake3 x = hash \<and> sn_exchange nt (sync_request g [hash]) = be_of_u32 (word_of_nat (length x)) @ x"
  have wait: "fetch_wait 40 direct late = Inr ()" using a fetch_wait.simps(2) [of 39 direct late] by simp
  have "fetch_reply blake3 hash (be_of_u32 (word_of_nat (length x)) @ x) = Inr x"
    using a by (simp add: fetch_reply_def read_exact_def unat_of_nat)
  with a wait hex_decode_hex [OF assms(1)] assms(2) show "fetch_main blake3 nt direct late args = Inr x"
    by (auto simp: fetch_main_def)
qed

end
