(* ===== verification/Address_Echo.thy ===== *)
theory Address_Echo
  imports Prelude
begin

text \<open>
  How a node learns its public address: the relay's UDP echo service
  (\<^verbatim>\<open>crates/relay/src/lib.rs\<close>), which answers every datagram with the address it came
  from, and the agent's probe (\<^verbatim>\<open>crates/agent/src/stun.rs\<close>), which parses that answer.

  Socket addresses are those of the standard library: the printing and the parser of IPv4
  addresses are written out; the bracketed IPv6 notation is a parameter, as the probe's socket
  is bound to an IPv4 address. The network is a list of events for the relay and one
  outcome for the probe.
\<close>

section \<open>Socket addresses\<close>

datatype 'v6 socket_addr = V4 u8 u8 u8 u8 u16 | V6 'v6

definition show_v4 :: "u8 \<Rightarrow> u8 \<Rightarrow> u8 \<Rightarrow> u8 \<Rightarrow> u16 \<Rightarrow> string" where
  "show_v4 a b c d port = show_nat (unat a) @ ''.'' @ show_nat (unat b) @ ''.'' @ show_nat (unat c) @ ''.'' @ show_nat (unat d) @
     '':'' @ show_nat (unat port)"

fun show_addr :: "('v6 \<Rightarrow> string) \<Rightarrow> 'v6 socket_addr \<Rightarrow> string" where
  "show_addr show_v6 (V4 a b c d port) = show_v4 a b c d port"
| "show_addr show_v6 (V6 x) = show_v6 x"

text \<open>A number of the address parser: all digits up to the next other character, at most
  \<open>max_digits\<close> of them, no leading zero unless allowed, below the bound of its type.\<close>

definition read_number :: "nat option \<Rightarrow> bool \<Rightarrow> nat \<Rightarrow> string \<Rightarrow> (nat \<times> string) option" where
  "read_number max_digits zero_prefix bound s =
     (let ds = takeWhile is_digit s in
      if ds = [] \<or> (case max_digits of None \<Rightarrow> False | Some m \<Rightarrow> m < length ds) \<or> bound \<le> digits_value ds \<or>
         \<not> zero_prefix \<and> hd ds = CHR ''0'' \<and> 1 < length ds
      then None else Some (digits_value ds, dropWhile is_digit s))"

definition read_char :: "char \<Rightarrow> string \<Rightarrow> string option" where
  "read_char c s = (case s of [] \<Rightarrow> None | x # xs \<Rightarrow> if x = c then Some xs else None)"

definition read_octet :: "string \<Rightarrow> (u8 \<times> string) option" where
  "read_octet s = map_option (\<lambda>(n, r). (word_of_nat n, r)) (read_number (Some 3) False 256 s)"

definition read_v4 :: "string \<Rightarrow> ('v6 socket_addr \<times> string) option" where
  "read_v4 s =
     Option.bind (read_octet s) (\<lambda>(a, s1). Option.bind (read_char CHR ''.'' s1) (\<lambda>s2.
     Option.bind (read_octet s2) (\<lambda>(b, s3). Option.bind (read_char CHR ''.'' s3) (\<lambda>s4.
     Option.bind (read_octet s4) (\<lambda>(c, s5). Option.bind (read_char CHR ''.'' s5) (\<lambda>s6.
     Option.bind (read_octet s6) (\<lambda>(d, s7). Option.bind (read_char CHR '':'' s7) (\<lambda>s8.
     Option.bind (read_number None True 65536 s8) (\<lambda>(port, s9).
       Some (V4 a b c d (word_of_nat port), s9))))))))))"

definition parse_addr :: "(string \<Rightarrow> 'v6 option) \<Rightarrow> string \<Rightarrow> 'v6 socket_addr option" where
  "parse_addr parse_v6 s =
     (case read_v4 s of
        Some (a, rest) \<Rightarrow> if rest = [] then Some a else None
      | None \<Rightarrow> map_option V6 (parse_v6 s))"

section \<open>Text of a datagram\<close>

text \<open>
  \<open>String::from_utf8_lossy\<close>, as the list of the characters, each with its bytes: an
  ill-formed sequence is replaced, up to the first byte that cannot continue it, by U+FFFD.
\<close>

definition REPLACEMENT :: bytes where "REPLACEMENT = [239, 191, 189]"

definition second_ok :: "u8 \<Rightarrow> u8 \<Rightarrow> bool" where
  "second_ok b c =
     (if b = 224 then in_range 160 191 c else if b = 237 then in_range 128 159 c
      else if b = 240 then in_range 144 191 c else if b = 244 then in_range 128 143 c
      else utf8_cont c)"

text \<open>The length of the well-formed sequence at the start, or of the ill-formed one to replace.\<close>

definition utf8_width :: "bytes \<Rightarrow> nat + nat" where
  "utf8_width bs =
     (let at = (\<lambda>i. if i < length bs then bs ! i else 0); b = at 0 in
      if in_range 0 127 b then Inr 1
      else if in_range 194 223 b then (if utf8_cont (at 1) then Inr 2 else Inl 1)
      else if in_range 224 239 b then
        (if \<not> second_ok b (at 1) then Inl 1 else if utf8_cont (at 2) then Inr 3 else Inl 2)
      else if in_range 240 244 b then
        (if \<not> second_ok b (at 1) then Inl 1 else if \<not> utf8_cont (at 2) then Inl 2 else if utf8_cont (at 3) then Inr 4 else Inl 3)
      else Inl 1)"

lemma utf8_width_pos: "(case utf8_width bs of Inl n \<Rightarrow> n | Inr n \<Rightarrow> n) \<noteq> 0"
  by (simp add: utf8_width_def Let_def)

function from_utf8_lossy :: "bytes \<Rightarrow> bytes list" where
  "from_utf8_lossy [] = []"
| "from_utf8_lossy (b # bs) =
     (case utf8_width (b # bs) of
        Inr n \<Rightarrow> take n (b # bs) # from_utf8_lossy (drop n (b # bs))
      | Inl n \<Rightarrow> REPLACEMENT # from_utf8_lossy (drop n (b # bs)))"
  by pat_completeness auto
termination
proof (relation "measure length")
  fix b :: u8 and bs n
  assume "utf8_width (b # bs) = Inr n"
  then show "(drop n (b # bs), b # bs) \<in> measure length" using utf8_width_pos [of "b # bs"] by simp
next
  fix b :: u8 and bs n
  assume "utf8_width (b # bs) = Inl n"
  then show "(drop n (b # bs), b # bs) \<in> measure length" using utf8_width_pos [of "b # bs"] by simp
qed simp

text \<open>\<open>char::is_whitespace\<close> on the UTF-8 bytes of a character.\<close>

definition is_whitespace :: "bytes \<Rightarrow> bool" where
  "is_whitespace c \<longleftrightarrow> (\<exists>b \<in> set (take 1 c). c = [b] \<and> (in_range 9 13 b \<or> b = 32)) \<or>
     c \<in> set [[194, 133], [194, 160], [225, 154, 128], [226, 128, 168], [226, 128, 169], [226, 128, 175], [226, 129, 159], [227, 128, 128]] \<or>
     (\<exists>b \<in> set (drop 2 c). c = [226, 128, b] \<and> in_range 128 138 b)"

fun split_words :: "bytes \<Rightarrow> bytes list \<Rightarrow> bytes list" where
  "split_words acc [] = (if acc = [] then [] else [acc])"
| "split_words acc (c # cs) =
     (if is_whitespace c then (if acc = [] then [] else [acc]) @ split_words [] cs else split_words (acc @ c) cs)"

definition split_whitespace :: "bytes list \<Rightarrow> string list" where
  "split_whitespace cs = map of_bytes (split_words [] cs)"

section \<open>The relay\<close>

datatype 'v6 echo_event = EchoStop | EchoRecvError | EchoPacket bytes "'v6 socket_addr" bool

definition echo_reply :: "('v6 \<Rightarrow> string) \<Rightarrow> 'v6 socket_addr \<Rightarrow> bytes" where
  "echo_reply show_v6 src = as_bytes (''ADDR blazenet-relay '' @ show_addr show_v6 src)"

text \<open>The result and the datagrams sent; a packet event says whether its answer could be sent.\<close>

fun echo_loop :: "('v6 \<Rightarrow> string) \<Rightarrow> 'v6 echo_event list \<Rightarrow> (unit + unit) option \<times> (bytes \<times> 'v6 socket_addr) list" where
  "echo_loop show_v6 [] = (None, [])"
| "echo_loop show_v6 (EchoStop # es) = (Some (Inr ()), [])"
| "echo_loop show_v6 (EchoRecvError # es) = (Some (Inl ()), [])"
| "echo_loop show_v6 (EchoPacket msg src send_ok # es) =
     (if \<not> send_ok then (Some (Inl ()), [])
      else case echo_loop show_v6 es of (r, out) \<Rightarrow> (r, (echo_reply show_v6 src, src) # out))"

section \<open>The probe\<close>

datatype stun_error = BadServer | ProbeBind | ProbeSend | ProbeTimeout | ProbeRecv | WrongSource | NoAddress | BadAddressText

datatype 'v6 probe_answer = TimedOut | RecvFailed | Datagram bytes "'v6 socket_addr"

text \<open>The buffer of the probe holds 256 bytes; a longer datagram is cut.\<close>

definition discover ::
    "(string \<Rightarrow> 'v6 option) \<Rightarrow> bool \<Rightarrow> bool \<Rightarrow> ('v6 socket_addr \<Rightarrow> bytes \<Rightarrow> 'v6 probe_answer) \<Rightarrow> string \<Rightarrow> stun_error + 'v6 socket_addr" where
  "discover parse_v6 bind_ok send_ok ask server =
     (case parse_addr parse_v6 server of
        None \<Rightarrow> Inl BadServer
      | Some server_addr \<Rightarrow>
          if \<not> bind_ok then Inl ProbeBind
          else if \<not> send_ok then Inl ProbeSend
          else (case ask server_addr (as_bytes ''ECHO blazenet-agent'') of
            TimedOut \<Rightarrow> Inl ProbeTimeout
          | RecvFailed \<Rightarrow> Inl ProbeRecv
          | Datagram msg src \<Rightarrow>
              if src \<noteq> server_addr then Inl WrongSource
              else (case split_whitespace (from_utf8_lossy (take 256 msg)) of
                _ # _ # addr_text # _ \<Rightarrow>
                  (case parse_addr parse_v6 addr_text of None \<Rightarrow> Inl BadAddressText | Some a \<Rightarrow> Inr a)
              | _ \<Rightarrow> Inl NoAddress)))"

section \<open>Printing and parsing addresses\<close>

lemma takeWhile_digits: "list_all is_digit ds \<Longrightarrow> \<not> is_digit c \<Longrightarrow> takeWhile is_digit (ds @ c # s) = ds"
  by (simp add: takeWhile_tail list_all_iff)

lemma dropWhile_digits: "list_all is_digit ds \<Longrightarrow> \<not> is_digit c \<Longrightarrow> dropWhile is_digit (ds @ c # s) = c # s"
  by (simp add: dropWhile_append list_all_iff)

lemma show_nat_no_zero: "hd (show_nat n) = CHR ''0'' \<Longrightarrow> length (show_nat n) = 1"
proof (induction n rule: show_nat.induct)
  case (1 n)
  show ?case
  proof (cases "n < 10")
    case False
    then have eq: "show_nat n = show_nat (n div 10) @ [char_of (48 + n mod 10)]" by (simp add: show_nat.simps [of n])
    with 1 False have "length (show_nat (n div 10)) = 1" "hd (show_nat (n div 10)) = CHR ''0''" by auto
    then have "show_nat (n div 10) = ''0''" by (cases "show_nat (n div 10)") auto
    then have "digits_value (show_nat (n div 10)) = 0" by (simp add: digits_value_def)
    with False show ?thesis by simp
  qed (simp add: show_nat.simps [of n])
qed

lemma show_nat_length: "n < 10 ^ Suc k \<Longrightarrow> length (show_nat n) \<le> Suc k"
proof (induction k arbitrary: n)
  case (Suc k)
  show ?case
  proof (cases "n < 10")
    case False
    moreover have "n div 10 < 10 ^ Suc k" using Suc.prems by (simp add: div_less_iff_less_mult mult.commute)
    ultimately show ?thesis using Suc.IH by (simp add: show_nat.simps [of n])
  qed (simp add: show_nat.simps [of n])
qed (simp add: show_nat.simps)

lemma read_octet_show:
  assumes "\<not> is_digit c"
  shows "read_octet (show_nat (unat a) @ c # s) = Some (a, c # s)"
proof -
  have "length (show_nat (unat a)) \<le> 3" using unat_less [of a] by (intro show_nat_length [of _ 2, simplified]) (simp add: numeral_2_eq_2 [symmetric])
  moreover have "unat a < 256" using unat_less [of a] by simp
  ultimately show ?thesis
    using takeWhile_digits [OF show_nat_digits assms] dropWhile_digits [OF show_nat_digits assms] show_nat_no_zero [of "unat a"]
    by (auto simp: read_octet_def read_number_def Let_def)
qed

lemma read_port_show: "read_number None True 65536 (show_nat (unat (p :: u16))) = Some (unat p, [])"
proof -
  have tw: "takeWhile is_digit (show_nat (unat p)) = show_nat (unat p)" and dw: "dropWhile is_digit (show_nat (unat p)) = []"
    using show_nat_digits [of "unat p"] by (simp_all add: takeWhile_eq_all_conv list_all_iff)
  have "unat p < 65536" using unat_less [of p] by simp
  then show ?thesis unfolding read_number_def Let_def tw dw by simp
qed

lemma parse_show_v4: "parse_addr parse_v6 (show_v4 a b c d p) = Some (V4 a b c d p)"
proof -
  have "\<not> is_digit CHR ''.''" "\<not> is_digit CHR '':''" by (simp_all add: is_digit_def)
  then show ?thesis
    by (simp add: parse_addr_def read_v4_def show_v4_def read_octet_show read_char_def read_port_show)
qed

text \<open>What the standard library promises of the bracketed notation: it is printed in ASCII without
  white space, in at most 60 bytes, never as an IPv4 address, and the parser reads it back.\<close>

definition v6_codec :: "('v6 \<Rightarrow> string) \<Rightarrow> (string \<Rightarrow> 'v6 option) \<Rightarrow> bool" where
  "v6_codec show_v6 parse_v6 \<longleftrightarrow> (\<forall>x. parse_v6 (show_v6 x) = Some x \<and> prefix ''['' (show_v6 x) \<and> length (show_v6 x) \<le> 60 \<and>
     (\<forall>c \<in> set (show_v6 x). 33 \<le> (of_char c :: nat) \<and> (of_char c :: nat) \<le> 127))"

definition plain :: "char \<Rightarrow> bool" where
  "plain c \<longleftrightarrow> 33 \<le> (of_char c :: nat) \<and> (of_char c :: nat) \<le> 127"

lemma read_v4_bracket: "read_v4 (CHR ''['' # s) = None"
  by (simp add: read_v4_def read_octet_def read_number_def is_digit_def)

lemma parse_show_addr:
  assumes "v6_codec show_v6 parse_v6"
  shows "parse_addr parse_v6 (show_addr show_v6 src) = Some src"
proof (cases src)
  case (V6 x)
  have "prefix ''['' (show_v6 x)" "parse_v6 (show_v6 x) = Some x" using assms unfolding v6_codec_def by blast+
  moreover from this(1) obtain s where "show_v6 x = CHR ''['' # s" by (auto simp: prefix_def)
  ultimately show ?thesis by (simp add: V6 parse_addr_def read_v4_bracket)
qed (simp add: parse_show_v4)

lemma show_nat_plain: "c \<in> set (show_nat n) \<Longrightarrow> plain c"
  using show_nat_digits [of n] by (auto simp: list_all_iff is_digit_def plain_def)

lemma show_addr_text:
  assumes "v6_codec show_v6 parse_v6"
  shows "c \<in> set (show_addr show_v6 src) \<Longrightarrow> plain c" "show_addr show_v6 src \<noteq> []" "length (show_addr show_v6 src) \<le> 60"
proof -
  have octet: "length (show_nat (unat (a :: u8))) \<le> 3" for a
    using unat_less [of a] by (intro show_nat_length [of _ 2, simplified]) (simp add: numeral_2_eq_2 [symmetric])
  have port: "length (show_nat (unat (p :: u16))) \<le> 5" for p
    using unat_less [of p] by (intro show_nat_length [of _ 4, simplified]) simp
  have v6: "prefix ''['' (show_v6 x)" "length (show_v6 x) \<le> 60" "\<forall>c \<in> set (show_v6 x). plain c" for x
    using assms unfolding v6_codec_def plain_def by blast+
  show "c \<in> set (show_addr show_v6 src) \<Longrightarrow> plain c"
    using v6(3) by (cases src) (auto simp: show_v4_def show_nat_plain, auto simp: plain_def)
  show "show_addr show_v6 src \<noteq> []"
  proof (cases src)
    case (V6 x)
    then show ?thesis using v6(1) [of x] by auto
  qed (simp add: show_v4_def)
  show "length (show_addr show_v6 src) \<le> 60"
  proof (cases src)
    case (V4 a b c d p)
    then show ?thesis using octet [of a] octet [of b] octet [of c] octet [of d] port [of p] by (simp add: show_v4_def)
  qed (simp add: v6)
qed

section \<open>Reading the reply\<close>

lemma from_utf8_lossy_ascii: "list_all (in_range 0 127) bs \<Longrightarrow> from_utf8_lossy bs = map (\<lambda>b. [b]) bs"
  by (induction bs) (simp_all add: utf8_width_def Let_def)

lemma is_whitespace_byte: "is_whitespace [b] \<longleftrightarrow> in_range 9 13 b \<or> b = 32"
  by (auto simp: is_whitespace_def)

lemma split_words_word:
  "list_all (\<lambda>b. \<not> is_whitespace [b]) w \<Longrightarrow> split_words acc (map (\<lambda>b. [b]) w @ cs) = split_words (acc @ w) cs"
  by (induction w arbitrary: acc) simp_all

lemma plain_byte:
  assumes "plain c"
  shows "in_range 0 127 (word_of_nat (of_char c) :: u8)" "\<not> is_whitespace [word_of_nat (of_char c) :: u8]"
proof -
  have "unat (word_of_nat (of_char c) :: u8) = of_char c" using assms by (simp add: plain_def unat_of_nat)
  then show "in_range 0 127 (word_of_nat (of_char c) :: u8)" "\<not> is_whitespace [word_of_nat (of_char c) :: u8]"
    using assms by (auto simp: plain_def is_whitespace_byte in_range_def word_le_nat_alt)
qed

lemma split_reply:
  assumes "\<And>c. c \<in> set t \<Longrightarrow> plain c" "t \<noteq> []"
  shows "split_whitespace (from_utf8_lossy (as_bytes (''ADDR blazenet-relay '' @ t))) = [''ADDR'', ''blazenet-relay'', t]"
proof -
  have pl: "list_all plain ''ADDR''" "list_all plain ''blazenet-relay''" "list_all plain t"
    using assms(1) by (auto simp: list_all_iff plain_def)
  have word: "list_all (\<lambda>b. \<not> is_whitespace [b]) (as_bytes w)" "list_all (in_range 0 127) (as_bytes w)" if "list_all plain w" for w
    using that plain_byte by (auto simp: list_all_iff as_bytes_def)
  let ?sp = "[32] :: bytes"
  have eq: "as_bytes (''ADDR blazenet-relay '' @ t) = as_bytes ''ADDR'' @ ?sp @ as_bytes ''blazenet-relay'' @ ?sp @ as_bytes t"
    by (simp add: as_bytes_def)
  have sp: "in_range 0 127 (32 :: u8)" "is_whitespace ?sp" by (simp_all add: in_range_def is_whitespace_byte)
  have ascii: "list_all (in_range 0 127) (as_bytes ''ADDR'' @ ?sp @ as_bytes ''blazenet-relay'' @ ?sp @ as_bytes t)"
    using pl word(2) sp by (simp add: list_all_append)
  have ne: "as_bytes ''ADDR'' \<noteq> []" "as_bytes ''blazenet-relay'' \<noteq> []" "as_bytes t \<noteq> []" using assms(2) by (simp_all add: as_bytes_def)
  have "split_words [] (map (\<lambda>b. [b]) (as_bytes ''ADDR'' @ ?sp @ as_bytes ''blazenet-relay'' @ ?sp @ as_bytes t)) =
      [as_bytes ''ADDR'', as_bytes ''blazenet-relay'', as_bytes t]"
    using ne sp split_words_word [OF word(1) [OF pl(1)]] split_words_word [OF word(1) [OF pl(2)]]
      split_words_word [OF word(1) [OF pl(3)], of "[]" "[]"]
    by simp
  then show ?thesis unfolding split_whitespace_def eq from_utf8_lossy_ascii [OF ascii] by simp
qed

lemma echo_loop_sends:
  "(reply, src) \<in> set (snd (echo_loop show_v6 es)) \<Longrightarrow> reply = echo_reply show_v6 src \<and> (\<exists>msg. EchoPacket msg src True \<in> set es)"
  by (induction es rule: echo_loop.induct) (auto split: prod.splits if_splits)

text \<open>
  C28. Address discovery. When the datagram that reaches the probe is one the relay's echo service
  sent, the node learns exactly the address from which the relay saw its packet come, for every
  IPv4 address and port and for every IPv6 address whose notation the parser reads back. Any
  answer the probe accepts came from the configured server's address.
\<close>

theorem discover_observes:
  assumes "v6_codec show_v6 parse_v6" and "parse_addr parse_v6 server = Some sa"
    and "(reply, src) \<in> set (snd (echo_loop show_v6 es))" and "ask sa (as_bytes ''ECHO blazenet-agent'') = Datagram reply sa"
  shows "discover parse_v6 True True ask server = Inr src \<and> (\<exists>msg. EchoPacket msg src True \<in> set es) \<and>
    (\<forall>bind_ok send_ok ask' a. discover parse_v6 bind_ok send_ok ask' server = Inr a \<longrightarrow>
       (\<exists>msg. ask' sa (as_bytes ''ECHO blazenet-agent'') = Datagram msg sa))"
proof -
  note text_ok = show_addr_text [OF assms(1), where src = src] and sent = echo_loop_sends [OF assms(3)]
  have "take 256 reply = as_bytes (''ADDR blazenet-relay '' @ show_addr show_v6 src)"
    using text_ok(3) sent by (simp add: echo_reply_def)
  then have "discover parse_v6 True True ask server = Inr src"
    using assms(2,4) split_reply [OF text_ok(1,2)] parse_show_addr [OF assms(1)] by (simp add: discover_def)
  moreover have "\<exists>msg. ask' sa (as_bytes ''ECHO blazenet-agent'') = Datagram msg sa"
    if "discover parse_v6 bind_ok send_ok ask' server = Inr a" for bind_ok send_ok ask' a
    using that assms(2) by (auto simp: discover_def split: if_splits probe_answer.splits)
  ultimately show ?thesis using sent by blast
qed

definition demo_show_v6 :: "unit \<Rightarrow> string" where "demo_show_v6 _ = ''[::1]:42000''"
definition demo_parse_v6 :: "string \<Rightarrow> unit option" where
  "demo_parse_v6 s = (if s = ''[::1]:42000'' then Some () else None)"

theorem discover_observes_witness:
  "discover demo_parse_v6 True True (\<lambda>sa _. Datagram (echo_reply demo_show_v6 (V4 10 0 0 7 42001)) sa) (show_v4 127 0 0 1 42000) =
     Inr (V4 10 0 0 7 42001)"
proof -
  have codec: "v6_codec demo_show_v6 demo_parse_v6"
    by (simp add: v6_codec_def demo_show_v6_def demo_parse_v6_def)
  show ?thesis
    by (rule discover_observes [OF codec parse_show_v4, where es = "[EchoPacket [] (V4 10 0 0 7 42001) True]", THEN conjunct1]) simp_all
qed

end
