(* ===== verification/Agent_Start.thy ===== *)
theory Agent_Start
  imports Executor Address_Echo "HOL-Library.Multiset"
begin

text \<open>
  Starting a node (\<^verbatim>\<open>start\<close> and \<^verbatim>\<open>AgentHandle\<close> in \<^verbatim>\<open>crates/agent/src/lib.rs\<close>): the choice of the
  external address, the data plane, the side services, the registration, and the tasks, each of which
  is spawned and waits for a permit of the semaphore \<open>game_permits\<close>
  (\<^verbatim>\<open>crates/agent/src/executor.rs\<close>).

  The spawned tasks are a state machine: a task is spawned, first polled at some later time, holds
  a permit while \<open>run_task\<close> runs, and gives it back when it returns or panics. Permits are given
  in the order of the requests, as the semaphore of tokio documents.
\<close>

section \<open>The tasks of a node\<close>

record task_pool =
  tp_free :: nat
  tp_spawned :: "proto_task list"
  tp_waiting :: "proto_task list"
  tp_running :: "proto_task list"
  tp_finished :: "proto_task list"

definition pool_new :: "agent_config \<Rightarrow> task_pool" where
  "pool_new config = \<lparr>tp_free = unat (ag_concurrent_games config), tp_spawned = [], tp_waiting = [], tp_running = [], tp_finished = []\<rparr>"

definition on_task :: "proto_task \<Rightarrow> task_pool \<Rightarrow> task_pool" where
  "on_task t p = p\<lparr>tp_spawned := tp_spawned p @ [t]\<rparr>"

text \<open>A spawned task asks for a permit; \<open>release\<close> passes a permit to the first waiting task.\<close>

definition acquire :: "proto_task \<Rightarrow> task_pool \<Rightarrow> task_pool" where
  "acquire t p =
     (if 0 < tp_free p then p\<lparr>tp_free := tp_free p - 1, tp_running := tp_running p @ [t]\<rparr>
      else p\<lparr>tp_waiting := tp_waiting p @ [t]\<rparr>)"

definition release :: "task_pool \<Rightarrow> task_pool" where
  "release p =
     (case tp_waiting p of
        [] \<Rightarrow> p\<lparr>tp_free := Suc (tp_free p)\<rparr>
      | t # ts \<Rightarrow> p\<lparr>tp_waiting := ts, tp_running := tp_running p @ [t]\<rparr>)"

definition remove_nth :: "nat \<Rightarrow> 'a list \<Rightarrow> 'a list" where
  "remove_nth i xs = take i xs @ drop (Suc i) xs"

datatype pool_event = Deliver proto_task | Poll nat | Finish nat

fun pool_step :: "pool_event \<Rightarrow> task_pool \<Rightarrow> task_pool option" where
  "pool_step (Deliver t) p = Some (on_task t p)"
| "pool_step (Poll i) p =
     (if i < length (tp_spawned p)
      then Some (acquire (tp_spawned p ! i) (p\<lparr>tp_spawned := remove_nth i (tp_spawned p)\<rparr>)) else None)"
| "pool_step (Finish i) p =
     (if i < length (tp_running p)
      then Some (release (p\<lparr>tp_running := remove_nth i (tp_running p), tp_finished := tp_finished p @ [tp_running p ! i]\<rparr>)) else None)"

fun pool_run :: "pool_event list \<Rightarrow> task_pool \<Rightarrow> task_pool option" where
  "pool_run [] p = Some p"
| "pool_run (e # es) p = Option.bind (pool_step e p) (pool_run es)"

fun delivered :: "pool_event list \<Rightarrow> proto_task list" where
  "delivered [] = []"
| "delivered (Deliver t # es) = t # delivered es"
| "delivered (_ # es) = delivered es"

section \<open>Starting\<close>

definition show_ip :: "('v6 \<Rightarrow> string) \<Rightarrow> 'v6 socket_addr \<Rightarrow> string" where
  "show_ip show_ip6 a =
     (case a of
        V4 a b c d _ \<Rightarrow> show_nat (unat a) @ ''.'' @ show_nat (unat b) @ ''.'' @ show_nat (unat c) @ ''.'' @ show_nat (unat d)
      | V6 x \<Rightarrow> show_ip6 x)"

record 'v6 start_env =
  se_parse_v6 :: "string \<Rightarrow> 'v6 option"
  se_show_v6 :: "'v6 \<Rightarrow> string"
  se_show_ip6 :: "'v6 \<Rightarrow> string"
  se_bind :: bool
  se_send :: bool
  se_ask :: "'v6 socket_addr \<Rightarrow> bytes \<Rightarrow> 'v6 probe_answer"
  se_serve :: "unit + string"
  se_attempt :: "nat \<Rightarrow> bool"

datatype start_error = ExternalInvalid | DiscoveryFailed stun_error | DataPlaneFailed | ControlPlaneFailed control_error

definition external_choice :: "'v6 start_env \<Rightarrow> agent_config \<Rightarrow> start_error + 'v6 socket_addr option" where
  "external_choice env config =
     (case ag_external_addr config of
        Some addr \<Rightarrow> (case parse_addr (se_parse_v6 env) addr of None \<Rightarrow> Inl ExternalInvalid | Some a \<Rightarrow> Inr (Some a))
      | None \<Rightarrow>
          (case ag_stun_addr config of
             Some server \<Rightarrow>
               (case discover (se_parse_v6 env) (se_bind env) (se_send env) (se_ask env) server of
                  Inl e \<Rightarrow> Inl (DiscoveryFailed e) | Inr a \<Rightarrow> Inr (Some a))
           | None \<Rightarrow> Inr None))"

text \<open>\<open>TaskExecutor::new\<close>: no store of any game is open yet.\<close>

definition executor_new :: "agent_config \<Rightarrow> u64 \<Rightarrow> (u64 \<Rightarrow> game_disk) \<Rightarrow> (u64 \<Rightarrow> cafe_fs) \<Rightarrow> executor" where
  "executor_new config node_id packs cafes =
     \<lparr>ex_config = config, ex_node_id = node_id, ex_data_stores = Map.empty, ex_pack_stores = Map.empty, ex_pack_disk = packs,
      ex_cafe_stores = Map.empty, ex_cafe_disk = cafes\<rparr>"

text \<open>The handle: the endpoint, the external address, the port of the pong service, the expiry of
  the cleaner, and the executor with its tasks where a control plane is configured.\<close>

record 'v6 agent_handle =
  ah_endpoint :: string
  ah_external :: "'v6 socket_addr option"
  ah_pong :: "u16 option"
  ah_cleaner :: "u64 option"
  ah_control :: "(executor \<times> task_pool) option"

definition agent_start ::
    "'v6 start_env \<Rightarrow> 's control_client \<Rightarrow> agent_config \<Rightarrow> (u64 \<Rightarrow> game_disk) \<Rightarrow> (u64 \<Rightarrow> cafe_fs) \<Rightarrow> 's \<Rightarrow>
     (start_error + 'v6 agent_handle) \<times> 's" where
  "agent_start env cl config packs cafes s =
     (case external_choice env config of
        Inl e \<Rightarrow> (Inl e, s)
      | Inr external_addr \<Rightarrow>
          (case se_serve env of
             Inl _ \<Rightarrow> (Inl DataPlaneFailed, s)
           | Inr endpoint \<Rightarrow>
               let handle = \<lparr>ah_endpoint = endpoint, ah_external = external_addr, ah_pong = ag_keepalive_port config,
                     ah_cleaner = (if ag_node_type config = Cafe then Some (ag_temp_ttl_hours config) else None), ah_control = None\<rparr>
               in (case ag_control_addr config of
                 None \<Rightarrow> (Inr handle, s)
               | Some _ \<Rightarrow>
                   (case register_node cl (se_attempt env) (\<lambda>t. map_option (show_ip (se_show_ip6 env)) (parse_addr (se_parse_v6 env) t))
                           config (map_option (show_addr (se_show_v6 env)) external_addr) endpoint s of
                      (Inl e, s1) \<Rightarrow> (Inl (ControlPlaneFailed e), s1)
                    | (Inr reply, s1) \<Rightarrow>
                        (Inr (handle\<lparr>ah_control :=
                           Some (executor_new config (rr_node_id reply) packs cafes,
                                 fold on_task (rr_initial_tasks reply) (pool_new config))\<rparr>), s1)))))"

section \<open>Permits\<close>

lemma mset_remove_nth: "i < length xs \<Longrightarrow> mset xs = add_mset (xs ! i) (mset (remove_nth i xs))"
  by (metis id_take_nth_drop mset_append mset.simps(2) remove_nth_def union_mset_add_mset_right)

lemma length_remove_nth: "i < length xs \<Longrightarrow> length xs = Suc (length (remove_nth i xs))"
  by (simp add: remove_nth_def)

text \<open>Every permit is free or held, tasks wait only when none is free, and every delivered task
  is in exactly one place.\<close>

definition pool_inv :: "nat \<Rightarrow> proto_task multiset \<Rightarrow> task_pool \<Rightarrow> bool" where
  "pool_inv n ts p \<longleftrightarrow> tp_free p + length (tp_running p) = n \<and> (tp_waiting p \<noteq> [] \<longrightarrow> tp_free p = 0) \<and>
     ts = mset (tp_spawned p) + mset (tp_waiting p) + mset (tp_running p) + mset (tp_finished p)"

lemma pool_inv_new: "pool_inv (unat (ag_concurrent_games config)) {#} (pool_new config)"
  by (simp add: pool_inv_def pool_new_def)

lemma pool_step_inv:
  assumes "pool_inv n ts p" "pool_step e p = Some p'"
  shows "pool_inv n (mset (delivered [e]) + ts) p'"
proof (cases e)
  case (Deliver t)
  with assms show ?thesis by (auto simp: pool_inv_def on_task_def)
next
  case (Poll i)
  with assms(2) have i: "i < length (tp_spawned p)" by (auto split: if_splits)
  with assms Poll show ?thesis by (auto simp: pool_inv_def acquire_def mset_remove_nth [OF i])
next
  case (Finish i)
  with assms(2) have i: "i < length (tp_running p)" by (auto split: if_splits)
  with assms Finish show ?thesis
    by (auto simp: pool_inv_def release_def mset_remove_nth [OF i] length_remove_nth [OF i] split: list.splits)
qed

lemma pool_run_inv: "pool_inv n ts p \<Longrightarrow> pool_run es p = Some p' \<Longrightarrow> pool_inv n (mset (delivered es) + ts) p'"
proof (induction es arbitrary: p ts)
  case (Cons e es)
  then obtain q where q: "pool_step e p = Some q" "pool_run es q = Some p'" by (auto simp: bind_eq_Some_conv)
  have "mset (delivered (e # es)) = mset (delivered es) + mset (delivered [e])" by (cases e) simp_all
  with Cons.IH [OF pool_step_inv [OF Cons.prems(1) q(1)] q(2)] show ?case by (simp add: add.assoc)
qed simp

text \<open>What is left to do: each step but a delivery takes a task further.\<close>

definition work :: "task_pool \<Rightarrow> nat" where
  "work p = 3 * length (tp_spawned p) + 2 * length (tp_waiting p) + length (tp_running p)"

lemma pool_step_work:
  assumes "pool_step e p = Some p'" "delivered [e] = []"
  shows "work p' < work p"
proof (cases e)
  case (Poll i)
  with assms have i: "i < length (tp_spawned p)" by (auto split: if_splits)
  with assms Poll show ?thesis by (auto simp: work_def acquire_def length_remove_nth [OF i])
next
  case (Finish i)
  with assms have i: "i < length (tp_running p)" by (auto split: if_splits)
  with assms Finish show ?thesis by (auto simp: work_def release_def length_remove_nth [OF i] split: list.splits)
qed (use assms in simp)

lemma delivered_Cons: "delivered (e # es) = delivered [e] @ delivered es"
  by (cases e) simp_all

lemma pool_run_work: "pool_run es p = Some p' \<Longrightarrow> delivered es = [] \<Longrightarrow> length es + work p' \<le> work p"
proof (induction es arbitrary: p)
  case (Cons e es)
  then obtain q where q: "pool_step e p = Some q" "pool_run es q = Some p'" by (auto simp: bind_eq_Some_conv)
  have d: "delivered [e] = []" "delivered es = []" using Cons.prems(2) delivered_Cons [of e es] by auto
  from Cons.IH [OF q(2) d(2)] pool_step_work [OF q(1) d(1)] show ?case by simp
qed simp

lemma pool_stuck:
  assumes "pool_inv n ts p" "0 < n" "\<And>e. delivered [e] = [] \<Longrightarrow> pool_step e p = None"
  shows "ts = mset (tp_finished p)"
proof -
  have "tp_spawned p = []" using assms(3) [of "Poll 0"] by (auto split: if_splits)
  moreover have "tp_running p = []" using assms(3) [of "Finish 0"] by (auto split: if_splits)
  ultimately show ?thesis using assms(1,2) by (auto simp: pool_inv_def)
qed

lemma pool_drains:
  assumes "pool_inv n ts p" "0 < n"
  shows "\<exists>es p'. delivered es = [] \<and> pool_run es p = Some p' \<and> mset (tp_finished p') = ts"
  using assms(1)
proof (induction "work p" arbitrary: p rule: less_induct)
  case less
  show ?case
  proof (cases "\<exists>e q. delivered [e] = [] \<and> pool_step e p = Some q")
    case True
    then obtain e q where e: "delivered [e] = []" "pool_step e p = Some q" by blast
    have "pool_inv n ts q" using pool_step_inv [OF less.prems e(2)] e(1) by simp
    from less.hyps [OF pool_step_work [OF e(2,1)] this] obtain es p' where
      "delivered es = []" "pool_run es q = Some p'" "mset (tp_finished p') = ts" by blast
    with e delivered_Cons [of e es] have "delivered (e # es) = []" "pool_run (e # es) p = Some p'" by simp_all
    with \<open>mset (tp_finished p') = ts\<close> show ?thesis by blast
  next
    case False
    then have "ts = mset (tp_finished p)" using pool_stuck [OF less.prems assms(2)] by (metis not_Some_eq)
    then show ?thesis by (intro exI [of _ "[]"] exI [of _ p]) simp
  qed
qed


definition demo_pool_task :: proto_task where
  "demo_pool_task = \<lparr>pt_id = 1, pt_game_id = 5, pt_version = 2, pt_kind = 0, pt_assigned_chunks = []\<rparr>"


section \<open>Registration of a started node\<close>

lemma node_type_valid: "valid_node_type (show_node_type t)"
  by (cases t) (simp_all add: valid_node_type_def show_node_type_def)

lemma start_registers:
  assumes "serde_ok cd" and "db_ok cd (cv_store sv)" and "tasks_named cd (cv_store sv)"
    and "ctr (cv_store sv) NEXT_NODE_ID < -1" and "\<not> ca_lost ca n" and "\<not> ca_reply_lost ca n" and "\<And>i. \<not> ca_flt ca n i"
    and "ag_control_addr config = Some url"
    and "agent_start env (sched_client cd ca) config packs cafes (sv, n) = (Inr h, (sv', n'))"
  shows "\<exists>x node. ah_control h = Some (x, pool_new config) \<and> node_of cd (cv_store sv) (ex_node_id x) = None \<and>
    node_of cd (cv_store sv') = (node_of cd (cv_store sv))(ex_node_id x \<mapsto> node) \<and> nd_status node = ''online'' \<and>
    nd_addrs node = node_addrs (\<lambda>t. map_option (show_ip (se_show_ip6 env)) (parse_addr (se_parse_v6 env) t)) config
      (map_option (show_addr (se_show_v6 env)) (ah_external h)) \<and>
    all_tasks cd (cv_store sv') = all_tasks cd (cv_store sv) \<and> cv_pending sv' = cv_pending sv"
proof -
  let ?ip = "\<lambda>t. map_option (show_ip (se_show_ip6 env)) (parse_addr (se_parse_v6 env) t)"
  obtain ext endpoint reply where run: "external_choice env config = Inr ext" "se_serve env = Inr endpoint"
      "register_node (sched_client cd ca) (se_attempt env) ?ip config (map_option (show_addr (se_show_v6 env)) ext) endpoint (sv, n) =
        (Inr reply, (sv', n'))"
    and h: "ah_external h = ext" "ah_control h = Some (executor_new config (rr_node_id reply) packs cafes,
        fold on_task (rr_initial_tasks reply) (pool_new config))"
    using assms(8,9) by (auto simp: agent_start_def Let_def split: sum.splits prod.splits)
  let ?req = "\<lparr>rq_node_type = show_node_type (ag_node_type config), rq_endpoint_id = endpoint,
      rq_addrs = node_addrs ?ip config (map_option (show_addr (se_show_v6 env)) ext)\<rparr>"
  have "register cd (ca_flt ca n) (ca_now ca n) ?req sv = (Inr reply, sv')"
    using run(3) assms(5,6) by (auto simp: register_node_def ctl_register_def sched_client_def rpc_def split: sum.splits prod.splits)
  from register_creates_node [OF assms(1-4) _ assms(7) this] node_type_valid obtain node where
    "node_of cd (cv_store sv) (rr_node_id reply) = None" "nd_status node = ''online''" "rr_initial_tasks reply = []"
    "node_of cd (cv_store sv') = (node_of cd (cv_store sv))(rr_node_id reply \<mapsto> node)" "nd_addrs node = rq_addrs ?req"
    "all_tasks cd (cv_store sv') = all_tasks cd (cv_store sv)" "cv_pending sv' = cv_pending sv" by auto
  with h show ?thesis by (intro exI [of _ "executor_new config (rr_node_id reply) packs cafes"] exI [of _ node]) (simp add: executor_new_def)
qed

definition demo_start_env :: "unit start_env" where
  "demo_start_env = \<lparr>se_parse_v6 = \<lambda>_. None, se_show_v6 = \<lambda>_. ''[::1]:1'', se_show_ip6 = \<lambda>_. ''::1'', se_bind = True, se_send = True,
     se_ask = \<lambda>_ _. TimedOut, se_serve = Inr ''e1'', se_attempt = \<lambda>_. True\<rparr>"

definition demo_calls :: call_env where
  "demo_calls = \<lparr>ca_lost = \<lambda>_. False, ca_reply_lost = \<lambda>_. False, ca_flt = \<lambda>_ _. False, ca_now = \<lambda>_ _. 1000\<rparr>"

section \<open>The keepalive address\<close>

text \<open>What the standard library documents of IPv6: the host is printed as groups of hexadecimal
  digits separated by colons, and a socket address is parsed only in brackets.\<close>

definition ip6_text :: "('v6 \<Rightarrow> string) \<Rightarrow> (string \<Rightarrow> 'v6 option) \<Rightarrow> bool" where
  "ip6_text show_ip6 parse_v6 \<longleftrightarrow> (\<forall>t. parse_v6 t \<noteq> None \<longrightarrow> prefix ''['' t) \<and>
     (\<forall>x. \<exists>hs rest. show_ip6 x = hs @ CHR '':'' # rest \<and> set hs \<subseteq> set ''0123456789abcdef'')"

lemma dropWhile_hex:
  "set hs \<subseteq> set ''0123456789abcdef'' \<Longrightarrow> \<exists>c r. dropWhile is_digit (hs @ CHR '':'' # rest) = c # r \<and> c \<noteq> CHR ''.''"
  by (induction hs) (auto simp: is_digit_def)

lemma parse_unbracketed:
  assumes "ip6_text show_ip6 parse_v6"
  shows "parse_addr parse_v6 (show_ip6 x @ s) = None"
proof -
  obtain hs rest where t: "show_ip6 x = hs @ CHR '':'' # rest" "set hs \<subseteq> set ''0123456789abcdef''"
    using assms unfolding ip6_text_def by blast
  obtain c r where c: "dropWhile is_digit (show_ip6 x @ s) = c # r" "c \<noteq> CHR ''.''"
    using dropWhile_hex [OF t(2), of "rest @ s"] by (auto simp: t(1))
  have "read_v4 (show_ip6 x @ s) = (None :: ('a socket_addr \<times> string) option)"
    using c by (auto simp: read_v4_def read_octet_def read_number_def read_char_def Let_def split: option.splits)
  moreover have "\<not> prefix ''['' (show_ip6 x @ s)" using t by (cases hs) auto
  then have "parse_v6 (show_ip6 x @ s) = None" using assms unfolding ip6_text_def by blast
  ultimately show ?thesis by (simp add: parse_addr_def)
qed

text \<open>
  The keepalive address. For a configured IPv4 address the address a node announces for keepalive
  probes is one that the scheduler's parser reads, with the same host and the keepalive port. For a
  configured IPv6 address it is none: the host is printed without its brackets, so no probe of that
  node is ever sent.
\<close>

theorem keepalive_address:
  assumes "ag_external_addr config = Some addr" and "ag_keepalive_port config = Some port" and "parse_addr parse_v6 addr = Some a"
    and "ip6_text show_ip6 parse_v6"
  shows "\<exists>ka. filter (\<lambda>r. ad_kind r = ''keepalive'')
      (node_addrs (\<lambda>t. map_option (show_ip show_ip6) (parse_addr parse_v6 t)) config ext) = [ka] \<and>
    parse_addr parse_v6 (ad_addr ka) = (case a of V4 w x y z _ \<Rightarrow> Some (V4 w x y z port) | V6 _ \<Rightarrow> None)"
proof (cases a)
  case (V4 w x y z q)
  have "parse_addr parse_v6 (show_ip show_ip6 a @ '':'' @ show_nat (unat port)) = Some (V4 w x y z port)"
    using parse_show_v4 [of parse_v6 w x y z port] by (simp add: V4 show_ip_def show_v4_def)
  with assms V4 show ?thesis by (auto simp: node_addrs_def split: option.splits)
next
  case (V6 x)
  with assms parse_unbracketed [OF assms(4), of x] show ?thesis by (auto simp: node_addrs_def show_ip_def split: option.splits)
qed

definition demo_ip6 :: "unit \<Rightarrow> string" where "demo_ip6 _ = ''::1''"

theorem keepalive_address_witness:
  "\<exists>ka. filter (\<lambda>r. ad_kind r = ''keepalive'')
      (node_addrs (\<lambda>t. map_option (show_ip demo_ip6) (parse_addr demo_parse_v6 t))
        ((agent_fill demo_agent_raw)\<lparr>ag_external_addr := Some ''[::1]:42000'', ag_keepalive_port := Some 42002\<rparr>) None) = [ka] \<and>
    parse_addr demo_parse_v6 (ad_addr ka) = None"
proof -
  let ?c = "(agent_fill demo_agent_raw)\<lparr>ag_external_addr := Some ''[::1]:42000'', ag_keepalive_port := Some 42002\<rparr>"
  have "parse_addr demo_parse_v6 ''[::1]:42000'' = Some (V6 ())" by (simp add: parse_addr_def read_v4_bracket demo_parse_v6_def)
  moreover have "ip6_text demo_ip6 demo_parse_v6"
    unfolding ip6_text_def
  proof (intro conjI allI)
    show "\<exists>hs rest. demo_ip6 x = hs @ CHR '':'' # rest \<and> set hs \<subseteq> set ''0123456789abcdef''" for x
      by (intro exI [of _ "[]"] exI [of _ "'':1''"]) (simp add: demo_ip6_def)
  qed (simp add: demo_parse_v6_def)
  ultimately show ?thesis using keepalive_address [of ?c "''[::1]:42000''" 42002 demo_parse_v6 "V6 ()" demo_ip6 None] by simp
qed

end
