(* ===== verification/Restart.thy ===== *)
theory Restart
  imports Sched_Concurrency Agent_Start
begin

text \<open>
  A node that starts against a scheduler in any state it can reach: the start of the agent
  (theory Agent_Start) composed with the scheduler under parallel requests (theories
  Sched_System and Sched_Concurrency).
\<close>

section \<open>Tasks belong to registered nodes\<close>

text \<open>A handler that has looked up the node of its task.\<close>

definition point_named :: "'j store \<Rightarrow> point \<Rightarrow> bool" where
  "point_named st p = (case p of
     TaskVersion d \<Rightarrow> td_node_id d \<le> ctr st NEXT_NODE_ID
   | TaskHolders d hs \<Rightarrow> td_node_id d \<le> ctr st NEXT_NODE_ID
   | TaskId d \<Rightarrow> td_node_id d \<le> ctr st NEXT_NODE_ID
   | TaskPut t roll \<Rightarrow> tk_node_id t \<le> ctr st NEXT_NODE_ID
   | _ \<Rightarrow> True)"

definition sys_named :: "'j serde \<Rightarrow> 'j sched_system \<Rightarrow> bool" where
  "sys_named cd s \<longleftrightarrow> tasks_named cd (cv_store (sy_service s)) \<and> (\<forall>p \<in># sy_pool s. point_named (cv_store (sy_service s)) p)"

lemma point_named_mono: "point_named st p \<Longrightarrow> ctr st NEXT_NODE_ID \<le> ctr st' NEXT_NODE_ID \<Longrightarrow> point_named st' p"
  by (cases p) (auto simp: point_named_def)

lemma tasks_named_pushes: "tasks_named cd st \<longleftrightarrow> (\<forall>e \<in> set (pushes cd st). fst e \<le> ctr st NEXT_NODE_ID)"
  by (auto simp: tasks_named_def pushes_def list_all_iff)

lemma tasks_named_quiet:
  assumes "tasks_named cd st" "quiet cd st st'"
  shows "tasks_named cd st'"
  using assms unfolding tasks_named_pushes quiet_def by (metis order_trans)

lemma get_node_key:
  assumes "db_ok cd st" "get_node cd flt st i = Inr (Some n)"
  shows "i \<le> ctr st NEXT_NODE_ID"
proof -
  have "get_node cd False st i = Inr (Some n)" using assms(2) by (auto simp: get_node_def get_decoded_def split: if_splits)
  with get_node_eq [OF assms(1), of i] have "node_of cd st i = Some n" by simp
  with node_of_le [OF assms(1)] show ?thesis by blast
qed

lemma advance_point_named:
  assumes ok: "db_ok cd (cv_store sv)" and pt: "point_named (cv_store sv) p"
    and mono: "ctr (cv_store sv) NEXT_NODE_ID \<le> ctr (cv_store sv') NEXT_NODE_ID"
    and run: "advance blake3 order cd flt now p sv = (Some q, sv')"
  shows "point_named (cv_store sv') q"
proof (cases p)
  case (AccountId req)
  then show ?thesis using run by (cases req) (auto simp: point_named_def Let_def elim!: on_storeE)
next
  case (AccountPut row)
  then show ?thesis using run by (cases row) (auto simp: point_named_def elim!: on_storeE)
next
  case (Remove rm)
  then show ?thesis using run by (cases rm) (auto simp: point_named_def if_found_def elim!: on_storeE split: if_splits)
next
  case (TaskHolders d hs)
  then show ?thesis using run pt by (cases hs) (auto simp: point_named_def holders_next_def elim!: on_readE split: if_splits)
next
  case (StatusGet xs)
  then show ?thesis using run
    by (cases xs) (auto simp: point_named_def dest!: set_next_neq split: if_splits sum.splits option.splits)
next
  case (TaskNode d)
  then show ?thesis using run get_node_key [OF ok, of flt "td_node_id d"]
    by (auto simp: point_named_def elim!: on_readE split: if_splits option.splits)
next
  case (RollNode d)
  then show ?thesis using run get_node_key [OF ok, of flt "td_node_id d"]
    by (auto simp: point_named_def elim!: on_readE split: if_splits option.splits)
next
  case (TaskId d)
  then show ?thesis using run pt mono
    by (auto simp: point_named_def draft_task_def new_task_def elim!: on_storeE)
qed (use run pt in \<open>auto simp: point_named_def holders_next_def after_push_def dest!: set_next_neq
      elim!: on_storeE on_readE split: if_splits option.splits sum.splits\<close>)

lemma insert_task_named:
  assumes "serde_ok cd" "db_ok cd st" "tk_id t \<notin> task_ids cd st" "tk_node_id t \<le> ctr st NEXT_NODE_ID" "tasks_named cd st"
    "insert_task cd flt t st = (Inr x, st')"
  shows "tasks_named cd st'"
proof -
  note ins = insert_task_pushes [OF assms(1-3,6)]
  have "set (pushes cd st') = insert (push_event t) (set (pushes cd st))"
    using ins(1) by (metis set_mset_add_mset_insert set_mset_mset)
  with assms(4,5) ins(3) show ?thesis by (auto simp: tasks_named_pushes push_event_def)
qed

lemma sys_named_step:
  assumes cd: "serde_ok cd" and s: "sys_ok cd n s" and lim: "n < 2 ^ 64 - 1" and nm: "sys_named cd s"
    and step: "sched_step blake3 order cd s s'"
  shows "sys_named cd s'"
  using step
proof cases
  case (step_arrive req)
  have "point_named st p" if "arrive req = Some p" for st :: "'a store" and p
    using that by (cases req) (auto simp: point_named_def split: if_splits option.splits)
  with nm step_arrive show ?thesis by (auto simp: sys_named_def opt_mset_def split: option.splits)
next
  case (step_watch sends m out go sv)
  then have "cv_store sv = cv_store (sy_service s)" by (auto simp: watch_round_def Let_def split: prod.splits)
  with nm step_watch show ?thesis by (simp add: sys_named_def)
next
  case (step_advance p flt now q sv)
  let ?st = "cv_store (sy_service s)"
  have ok: "db_ok cd ?st" and pt: "point_ok cd ?st p" and ctr: "\<forall>c. ctr ?st c < -1" and pn: "point_named ?st p" and tn: "tasks_named cd ?st"
    using s nm step_advance counters_free [OF s lim] by (auto simp: sys_ok_def sys_named_def)
  have "tasks_named cd (cv_store sv) \<and> ctr ?st NEXT_NODE_ID \<le> ctr (cv_store sv) NEXT_NODE_ID"
  proof (cases "\<exists>t roll. p = TaskPut t roll")
    case False
    with advance_quiet [OF cd ok ctr pt] step_advance have "quiet cd ?st (cv_store sv)" by auto
    with tasks_named_quiet [OF tn] show ?thesis by (simp add: quiet_def)
  next
    case True
    then obtain t roll where t: "p = TaskPut t roll" by blast
    obtain r st where ins: "insert_task cd flt t ?st = (r, st)" by fastforce
    with step_advance t have sv: "cv_store sv = st" by (auto simp: on_store_def split: sum.splits)
    have new: "tk_id t \<notin> task_ids cd ?st" "tk_node_id t \<le> ctr ?st NEXT_NODE_ID" using pt pn t by (simp_all add: point_ok_def point_named_def)
    show ?thesis
    proof (cases r)
      case (Inl e)
      with ins have "st = ?st" by (auto simp: insert_task_def Let_def split: if_splits)
      with sv tn show ?thesis by simp
    next
      case (Inr x)
      with insert_task_named [OF cd ok new tn] insert_task_pushes(3) [OF cd ok new(1)] ins sv show ?thesis by fastforce
    qed
  qed
  moreover from this have "point_named (cv_store sv) q'" if "q = Some q'" for q'
    using advance_point_named [OF ok pn] that step_advance by blast
  ultimately show ?thesis
    using nm step_advance by (auto simp: sys_named_def opt_mset_def dest: in_diffD intro: point_named_mono split: option.splits)
qed

lemma sys_named_run:
  assumes "serde_ok cd"
  shows "sched_run blake3 order cd (sched_start ensure_tables) n s \<Longrightarrow> n < 2 ^ 64 \<Longrightarrow> sys_named cd s"
proof (induction rule: sched_run.induct)
  case run_none
  show ?case by (simp add: sys_named_def sched_start_def with_events_def tasks_named_def all_tasks_def ensure_tables_def)
next
  case (run_step n t u)
  then show ?case using sys_named_step [OF assms sys_ok_run [OF assms run_step.hyps(1)]] by simp
qed

section \<open>A restart\<close>



end
