(* ===== verification/Spec2Isabelle.thy ===== *)
theory Spec2Isabelle
  imports Update_Plan Upload_Service Services Sched_Concurrency Configs Update_Merge Executor_Spec Download_Manager Producer_Spec Tools Restart Sched_Backup
begin

text \<open>
  BlazeNet distributes game files. A producer cuts the files of a game into chunks, an origin node
  keeps the chunks, a scheduler knows nodes, versions, tasks and which node holds which chunk, and
  agents (IDC nodes and internet cafes) fetch the chunks of a version from the origin and from each
  other. This development models the Rust crates under \<^verbatim>\<open>src/crates\<close> and proves what makes
  them correct; this theory joins the parts and states the property of the whole path.

  \<^bold>\<open>The parts and how they interact.\<close> The producer (\<open>run_with_config\<close>) writes an index (the
  manifest), asks the origin which chunks it lacks, uploads those and commits the version. The origin
  (\<open>process_upload\<close>, \<open>commit_version\<close>) verifies and stores chunks in a block library per game, and on
  a commit writes the manifest and calls \<open>publish_version\<close> of the scheduler. An administrator
  creates a task (\<open>create_task\<close>), which the scheduler queues and pushes on the stream a node watches.
  The agent (\<open>agent_start\<close>, \<open>run_task\<close>) asks for the manifest and the peers of each chunk,
  downloads what is missing from their data planes (\<open>handle_conn\<close>, \<open>fetch_chunks\<close>), stores it (an IDC node in a
  block library, a cafe as temporary blocks merged into the real files) and reports chunks and status.

  \<^bold>\<open>Theories and sources.\<close>
  \<^item> \<open>Prelude\<close>: machine integers, bytes, results, text formatting and parsing, ordered tables; the locales
    \<open>wire_codec\<close>, \<open>exact_codec\<close> (a reader inverts a writer) and \<open>kv_table\<close> (what every redb table offers).
  \<^item> \<open>Keepalive_Packet\<close>, \<open>Manifest\<close>, \<open>Update_Plan\<close>, \<open>Byte_File\<close>, \<open>Compio_Io\<close>: the crate
    \<^verbatim>\<open>blaze-common\<close>. Packets and manifests round-trip, a decoded manifest is well formed, a plan downloads
    exactly the missing chunks, positional I/O completes under every short read and write.
  \<^item> \<open>Pack_Store\<close>, \<open>Pack_Compact\<close>, \<open>Pack_Runs\<close>: \<^verbatim>\<open>origin/src/storage.rs\<close>. The record \<open>game_store\<close> is the
    struct, \<open>abs_store\<close> its view as a map; all runs, with any fault, refine a plain map.
  \<^item> \<open>Upload_Service\<close>: \<^verbatim>\<open>origin/src/server.rs\<close>. \<open>Data_Path\<close>: \<^verbatim>\<open>origin/src/datapath.rs\<close> and
    \<^verbatim>\<open>agent/src/fetch.rs\<close>, with the locale \<open>chunk_source\<close> for the trait of that name, interpreted on the pack library
    and (\<open>Cafe_Store\<close>, \<^verbatim>\<open>agent/src/cafe_store.rs\<close>) on the cafe's files.
  \<^item> \<open>Plane_System\<close>: connections and uploads of one storing node as parallel jobs over the two locked maps. Each connection is
    \<open>handle_conn\<close> when it moves alone; any interleaving keeps what was sent and acknowledged true to the library; a peer that
    falls silent keeps the lock of the sources and stops all other connections.
  \<^item> \<open>Sched_Db\<close>, \<open>Sched_Control\<close>, \<open>Sched_Http\<close>, \<open>Sched_Keepalive\<close>, \<open>Sched_Backup\<close>: the scheduler's \<^verbatim>\<open>db.rs\<close>,
    \<^verbatim>\<open>server.rs\<close>, \<^verbatim>\<open>http.rs\<close>, \<^verbatim>\<open>keepalive.rs\<close> and the backups of \<^verbatim>\<open>lib.rs\<close>, one definition per operation or
    handler over the records \<open>store\<close> and \<open>control_service\<close>, with the database invariant \<open>db_ok\<close>.
  \<^item> \<open>Sched_System\<close>, \<open>Sched_Concurrency\<close>: the same handlers cut at their transactions, as a step relation over
    all requests in flight. The whole handlers are runs of it; the invariant and the once-only queueing of tasks hold in
    every interleaving; two interleavings that lose an update are exhibited.
  \<^item> \<open>Configs\<close>: the four \<^verbatim>\<open>config.rs\<close>. \<open>Agent_Control\<close>: \<^verbatim>\<open>agent/src/control.rs\<close>, with the locale \<open>control_link\<close> for what
    the agent relies on, interpreted on the scheduler's handlers behind a network that loses calls.
  \<^item> \<open>Update_Merge\<close>, \<open>Download_Manager\<close>, \<open>Executor\<close>, \<open>Executor_Runs\<close>, \<open>Executor_Spec\<close>: \<^verbatim>\<open>agent/src/update.rs\<close>,
    \<^verbatim>\<open>download.rs\<close> and \<^verbatim>\<open>executor.rs\<close>. Concurrent downloads are schedules over one sink; a task that reports done has
    stored or installed everything, with the right digests.
  \<^item> \<open>Address_Echo\<close>, \<open>Agent_Start\<close>, \<open>Restart\<close>: the echo service of \<^verbatim>\<open>relay/src/lib.rs\<close>, the probe \<^verbatim>\<open>agent/src/stun.rs\<close>
    and the start in \<^verbatim>\<open>agent/src/lib.rs\<close>, whose spawned tasks are a state machine over the semaphore of games;
    \<open>Restart\<close> composes a start with every reachable state of the scheduler.
  \<^item> \<open>Producer\<close>, \<open>Producer_Spec\<close>: \<^verbatim>\<open>producer/src\<close>, with the locales \<open>upload_link\<close> and \<open>live_upload_link\<close> for the origin as the
    producer sees it, interpreted on the origin's and the scheduler's handlers.
  \<^item> \<open>Services\<close>: \<^verbatim>\<open>main\<close> and \<^verbatim>\<open>run\<close> of scheduler, origin and relay with the \<^verbatim>\<open>serve\<close> functions, as a log of services
    started, told to stop, dropped and waited for. A run that returns leaves none running; the scheduler returns only when
    all HTTP connections have ended; a started origin sends verified data only.
  \<^item> \<open>Tools\<close>: the programs \<^verbatim>\<open>seed\<close>, \<^verbatim>\<open>sync\<close>, \<^verbatim>\<open>fetch\<close> and \<^verbatim>\<open>inspect\<close>.

  \<^bold>\<open>Failures and outside code.\<close> Errors are values of sum types, one constructor per error path. What the outside
  decides is an argument over which the theorems are quantified: which transactions, file system calls and remote calls
  fail, how many bytes a system call transfers, clock readings, the order of hash maps, the schedule of concurrent
  work. Third-party code is a parameter with its documented behaviour as a hypothesis where one is needed: BLAKE3 (digests have
  32 bytes; nothing else is assumed, so equal digests are all that is concluded), serde_json (\<open>serde_ok\<close>), compio
  (\<open>compio_ok\<close>), FastCDC (the pieces make up the content), TOML, iroh connections (what a peer sends is arbitrary), the
  semaphore of tokio (first come, first served), and the IPv6 notation of socket addresses (\<open>v6_codec\<close>).

  \<^bold>\<open>Bounds.\<close> Integers keep their width. A pack file is assumed to stay below \<open>2\<^sup>3\<^sup>2\<close> bytes wherever its content
  is claimed, since the index keeps 32 bits of an offset; beyond that \<open>offset_truncated\<close> shows what happens. A run of the parallel
  scheduler has fewer than \<open>2\<^sup>6\<^sup>4\<close> steps, so that no counter wraps. An agent tries to connect thirty times, as the
  source does; the fetch tool polls 41 times, the half seconds of its twenty. There is no other fuel: all loops are structural over
  their input or have a termination proof.

  \<^bold>\<open>Not modelled.\<close> Binding sockets, TLS, the iroh endpoints and relay server, the gRPC and HTTP transports, static files and
  the content of the event stream to browsers (third-party plumbing around the modelled handlers); the generated protocol crate; the \<^verbatim>\<open>main\<close>
  functions of agent and producer, which only call what is modelled; the rate limit of
  downloads, which delays but decides nothing; the Windows variants of file access and configuration paths; the benchmark,
  the proofs of concept and the web console. Log output is dropped, human-readable messages are constructors.
\<close>

section \<open>From the producer to a cafe\<close>

text \<open>The names of the entries of an index that describes a source.\<close>

lemma described_names:
  assumes "list_all2 (\<lambda>p e. fe_name e = entry_name lossy p \<and> (\<exists>content. so_open src p = Some content \<and> describes blake3 mx e content)) paths es"
  shows "map fe_name es = map (entry_name lossy) paths"
    and "p \<in> set paths \<Longrightarrow> \<exists>e content. e \<in> set es \<and> fe_name e = entry_name lossy p \<and> so_open src p = Some content \<and> fe_hash e = blake3 content"
proof -
  show "map fe_name es = map (entry_name lossy) paths"
    using assms by (induction paths es rule: list_all2_induct) simp_all
  show "p \<in> set paths \<Longrightarrow> \<exists>e content. e \<in> set es \<and> fe_name e = entry_name lossy p \<and> so_open src p = Some content \<and> fe_hash e = blake3 content"
    using assms by (induction paths es rule: list_all2_induct) (auto simp: describes_def)
qed

text \<open>
  C2. A cafe gets the files of the producer. Let a producer run release a version to an origin
  that announces it to the scheduler, over links that may lose anything; let then a cafe without
  an earlier version run a task for that version against the scheduler, with peers that may
  answer anything. If both succeed, the game directory of the cafe holds, for every regular file
  below the producer's source directory, a file of that name whose digest is the digest of the
  source file, and the version is the current one. (The sources must not change while they are
  read, their names must be short, distinct, and apart from the temporary names.)
\<close>

theorem release_to_cafe:
  assumes "serde_ok cd" and "\<And>xs. set (ol_order ol xs) = set xs" and "os_valid (li_blake3 li) cd addr u" and "addr \<noteq> None"
    and "cutter_ok (li_cdc li)" and "stable (pv_source pv)" and "blake3_ok (li_blake3 li)"
    and "pv_config pv = Inr config" and "pc_origin_addr config \<noteq> None" and "os_fits u (pc_game_id config) (source_bytes (pv_source pv))"
    and "list_files (so_tree (pv_source pv)) = Inr paths" and "nameable (li_lossy li) (pv_source pv) paths"
    and "distinct (map (entry_name (li_lossy li)) paths)"
    and "\<forall>p \<in> set paths. with_new (entry_name (li_lossy li) p) \<notin> entry_name (li_lossy li) ` set paths"
    and "run_with_config li (origin_client (li_blake3 li) cd ol) pv od u = (Inr (), od', (sv, sc, n))"
    and "pt_game_id task = pc_game_id config" and "pt_version task = pc_version config" and "ag_node_type (ex_config x) = Cafe"
    and "\<And>i. compio_ok (mi_cx (fe_ios ce i))" and "lists_sets (fe_order ce)"
    and "cafe_entry (li_blake3 li) (fe_open ce) (pt_game_id task) x = Inr c" and "current_manifest_bytes (fe_read ce) (cs_fs c) = Inr None"
    and "run_task (li_blake3 li) show_err (sched_client cd ca) attempt de ie ce task x (sc, n) = (Inr (), x', s')"
  shows "\<exists>c'. ex_cafe_stores x' (pt_game_id task) = Some c' \<and>
    (\<forall>p \<in> set paths. \<exists>content d. so_open (pv_source pv) p = Some content \<and>
       cf_game (cs_fs c') (entry_name (li_lossy li) p) = Some d \<and> li_blake3 li d = li_blake3 li content) \<and>
    current_version False (cs_fs c') = Inr (Some (pc_version config))"
proof -
  let ?b = "li_blake3 li"
  obtain config' paths' index where out: "pv_config pv = Inr config'" "list_files (so_tree (pv_source pv)) = Inr paths'" "paths' \<noteq> []"
    "od_index od' (index_name (pc_version config')) = Some (encode index)"
    "list_all2 (\<lambda>p e. fe_name e = entry_name (li_lossy li) p \<and>
      (\<exists>content. so_open (pv_source pv) p = Some content \<and> describes ?b (cp_max_size (pc_chunk config')) e content)) paths' (gi_files index)"
    "\<forall>h \<in> chunk_set index. \<exists>x. od_chunks od' (stage_name h) = Some x \<and> ?b x = h"
    "blake3_ok ?b \<and> nameable (li_lossy li) (pv_source pv) paths' \<longrightarrow> decode ?b (encode index) = Inr index"
    "index = build ?b (gi_files index)"
    by (rule run_produces [OF assms(5,6,15)])
  have same: "config' = config" "paths' = paths" using out(1,2) assms(8,11) by simp_all
  note made = out(4,5) [unfolded same] out(7) [unfolded same, rule_format, OF conjI [OF assms(7,12)]]
  from upload_link.run_publishes [OF origin_upload_link [OF assms(1,2)] refl assms(3,5,8-10,15)] made(1)
  have pub: "os_valid ?b cd addr (sv, sc, n)" "os_pub cd (sv, sc, n) (pc_game_id config) (pc_version config) (encode index)" by auto
  have ver: "sess_ver cd (sc, n) (pt_game_id task) (pt_version task) = Some (encode index)" "sess_ok cd (sc, n)"
    using pub assms(4,16,17) by (simp_all add: os_pub_def os_valid_def sess_ok_def)
  obtain manifest i s2 s3 where task: "sess_ver cd (sc, n) (pt_game_id task) (pt_version task) = Some manifest" "decode ?b manifest = Inr i"
    "sess_ok cd s2" "run_cafe ?b (sched_client cd ca) de ce task i manifest x s2 = (Inr (), x', s3)"
    by (rule control_link.run_task_done [OF sched_control_link [OF assms(1)] ver(2) assms(23), unfolded assms(18) node_type.case])
  have i: "manifest = encode index" "i = index" using task(1,2) ver(1) made(3) by simp_all
  note names = described_names [OF made(2)]
  have "fe_name ` set (gi_files index) = entry_name (li_lossy li) ` set paths" using names(1) by (metis image_set)
  note image = this
  have apart: "names_apart index None"
    unfolding names_apart_def old_names_def
  proof (intro conjI ballI)
    fix e assume "e \<in> set (gi_files index)"
    then have "fe_name e \<in> entry_name (li_lossy li) ` set paths" using image by blast
    with assms(14) show "with_new (fe_name e) \<notin> fe_name ` set (gi_files index) \<union> set (case None of None \<Rightarrow> [] | Some o1 \<Rightarrow> map fe_name (gi_files o1))"
      unfolding image by auto
  qed (use names(1) assms(13) in simp)
  have old: "decode_old ?b None = Inr None" "disk_ok ?b None (cf_game (cs_fs c))" by (simp_all add: decode_old_def disk_ok_def file_map_def)
  from run_cafe_installs [OF assms(1) task(3) task(2) [unfolded i] assms(19-22) old(1) apart old(2) task(4) [unfolded i]] obtain c' where
    c': "ex_cafe_stores x' (pt_game_id task) = Some c'" "\<forall>e \<in> set (gi_files index). \<exists>d. cf_game (cs_fs c') (fe_name e) = Some d \<and> ?b d = fe_hash e"
      "current_version False (cs_fs c') = Inr (Some (pt_version task))" by blast
  have "\<exists>content d. so_open (pv_source pv) p = Some content \<and> cf_game (cs_fs c') (entry_name (li_lossy li) p) = Some d \<and> ?b d = ?b content"
    if "p \<in> set paths" for p using names(2) [OF that] c'(2) by metis
  with c'(1,3) assms(17) show ?thesis by auto
qed

text \<open>A game with one empty file, from a new producer to a new cafe.\<close>

lemma quiet_task_report:
  assumes "sess_ok json_serde (sv, n)"
  obtains sv' where "ctl_report_task (sched_client json_serde calm_calls) k t w e (sv, n) = (Inr (), (sv', Suc n))" "sess_ok json_serde (sv', Suc n)"
    "sess_ver json_serde (sv', Suc n) = sess_ver json_serde (sv, n)"
proof -
  obtain r st where st: "update_task_status json_serde False t w e (cv_store sv) = (r, st)" by fastforce
  have ok: "db_ok json_serde (cv_store sv)" using assms by (simp add: sess_ok_def)
  have "r \<noteq> Inl err" for err
    using st decodes_get [of "db_tasks (cv_store sv)" "dec_task json_serde" tk_id t] ok
    by (auto simp: update_task_status_def db_decode_def db_ok_defs split: option.splits)
  then obtain b where r: "r = Inr b" by (cases r) auto
  let ?sv = "sv\<lparr>cv_store := st, cv_events := cv_events sv @ [TaskStatus t w]\<rparr>"
  have "db_versions st = db_versions (cv_store sv)" using st by (auto simp: update_task_status_def split: if_splits option.splits sum.splits)
  then have ver: "sess_ver json_serde (?sv, Suc n) = sess_ver json_serde (sv, n)" by (simp add: sess_ver_def get_version_def fun_eq_iff)
  have "db_ok json_serde st" by (rule update_task_status_ok [OF json_serde_ok ok st])
  then show ?thesis using st r ver
    by (intro that [of ?sv]) (simp_all add: ctl_report_task_def sched_client_def rpc_def calm_calls_def report_task_def sess_ok_def)
qed

lemma quiet_get_version:
  assumes "sess_ver json_serde (sv, n) g v = Some m"
  shows "ctl_get_version (sched_client json_serde calm_calls) g v (sv, n) = (Inr (Some m), (sv, Suc n))"
  using assms
  by (auto simp: ctl_get_version_def sched_client_def rpc_def calm_calls_def get_version_info_def sess_ver_def split: sum.splits option.splits)

lemma lone_task_run:
  assumes "sess_ok json_serde (sv, n)" "sess_ver json_serde (sv, n) 5 1 = Some (encode empty_file)"
  shows "\<exists>x' s'. run_task tiny_hash show_err (sched_client json_serde calm_calls) (\<lambda>i. True) (lone_env [7]) lone_idc lone_cafe lone_task
    (lone_executor Cafe) (sv, n) = (Inr (), x', s')"
proof -
  let ?cl = "sched_client json_serde calm_calls"
  obtain sv1 where r1: "ctl_report_task ?cl 3 1 ''running'' '''' (sv, n) = (Inr (), (sv1, Suc n))" "sess_ok json_serde (sv1, Suc n)"
    "sess_ver json_serde (sv1, Suc n) = sess_ver json_serde (sv, n)" using quiet_task_report [OF assms(1)] .
  have "sess_ver json_serde (sv1, Suc n) 5 1 = Some (encode empty_file)" using r1(3) assms(2) by simp
  note ver = quiet_get_version [OF this]
  obtain x' where run: "run_cafe tiny_hash ?cl (lone_env [7]) lone_cafe lone_task empty_file (encode empty_file) (lone_executor Cafe) (sv1, Suc (Suc n)) =
    (Inr (), x', (sv1, Suc (Suc n)))" using lone_cafe_run by blast
  have "sess_ok json_serde (sv1, Suc (Suc n))" using r1(2) by (simp add: sess_ok_def)
  then obtain sv2 where r2: "ctl_report_task ?cl 3 1 ''done'' '''' (sv1, Suc (Suc n)) = (Inr (), (sv2, Suc (Suc (Suc n))))" by (rule quiet_task_report)
  have conn: "ctl_connect (\<lambda>i. True) = Inr ()" by (simp add: ctl_connect_def numeral_eq_Suc)
  have lone: "ag_control_addr (ex_config (lone_executor Cafe)) = Some ''c''" "ag_node_type (ex_config (lone_executor Cafe)) = Cafe"
    "ex_node_id (lone_executor Cafe) = 3" "pt_id lone_task = 1" "pt_game_id lone_task = 5" "pt_version lone_task = 1"
    by (simp_all add: lone_executor_def lone_config_def lone_task_def)
  show ?thesis
    using run by (simp add: run_task_def lone conn r1(1) ver empty_file_decode r2)
qed

theorem release_to_cafe_witness:
  "\<exists>od' sv sc n x' s' c'. run_with_config (demo_libs tiny_hash) (origin_client tiny_hash json_serde link_std) (demo_run []) demo_out demo_session =
       (Inr (), od', (sv, sc, n)) \<and>
     run_task tiny_hash (\<lambda>e. '''') (sched_client json_serde calm_calls) (\<lambda>i. True) (lone_env [7]) lone_idc lone_cafe lone_task (lone_executor Cafe) (sc, n) =
       (Inr (), x', s') \<and>
     ex_cafe_stores x' 5 = Some c' \<and> (\<exists>d. cf_game (cs_fs c') ''a'' = Some d \<and> tiny_hash d = tiny_hash [])"
proof -
  have tiny: "blake3_ok tiny_hash" by (simp add: blake3_ok_def tiny_hash_def HASH_LEN_def)
  have empty: "length ([] :: bytes) < 2 ^ 32" by simp
  obtain od' sv sc n where run: "run_with_config (demo_libs tiny_hash) (origin_client tiny_hash json_serde link_std) (demo_run []) demo_out demo_session =
       (Inr (), od', (sv, sc, n))" using demo_release [OF tiny empty] by (metis prod_cases3)
  obtain config paths index where out: "pv_config (demo_run []) = Inr config" "list_files (so_tree (pv_source (demo_run []))) = Inr paths" "paths \<noteq> []"
    "od_index od' (index_name (pc_version config)) = Some (encode index)"
    "list_all2 (\<lambda>p e. fe_name e = entry_name (li_lossy (demo_libs tiny_hash)) p \<and>
      (\<exists>content. so_open (pv_source (demo_run [])) p = Some content \<and>
        describes (li_blake3 (demo_libs tiny_hash)) (cp_max_size (pc_chunk config)) e content)) paths (gi_files index)"
    "index = build (li_blake3 (demo_libs tiny_hash)) (gi_files index)"
    by (rule run_produces [OF demo_libs_ok(1) demo_source_ok(2) [OF empty] run])
  have cfg: "config = demo_producer" "paths = [[''a'']]" using out(1,2) by (simp_all add: demo_no_faults demo_files)
  from out(5) obtain e where "gi_files index = [e]" "fe_name e = ''a''" "fe_hash e = tiny_hash []" "fe_chunks e = []"
    by (auto simp: cfg list_all2_Cons1 describes_def demo_run_def demo_source_def demo_libs_def entry_name_def)
  then have "gi_files index = [one_file ''a'' tiny_hash []]" by (simp add: one_file_def)
  then have index: "index = empty_file" using out(6) by (simp add: empty_file_def demo_digest)
  have addr: "pc_origin_addr demo_producer \<noteq> None" by simp
  from json_origin.run_publishes [OF demo_digest(2) [symmetric] demo_session_ok(1) demo_libs_ok(1) demo_no_faults(2) addr demo_rest(4) [OF empty] run] out(4)
  have pub: "os_valid tiny_hash json_serde (Some ''http://s'') (sv, sc, n)" "os_pub json_serde (sv, sc, n) 5 1 (encode empty_file)"
    by (auto simp: cfg index)
  then have "sess_ok json_serde (sc, n)" "sess_ver json_serde (sc, n) 5 1 = Some (encode empty_file)"
    by (simp_all add: os_valid_def os_pub_def sess_ok_def)
  from lone_task_run [OF this] obtain x' s' where task: "run_task tiny_hash (\<lambda>e. '''') (sched_client json_serde calm_calls) (\<lambda>i. True) (lone_env [7])
    lone_idc lone_cafe lone_task (lone_executor Cafe) (sc, n) = (Inr (), x', s')" by blast
  have rest: "distinct (map (entry_name (li_lossy (demo_libs tiny_hash))) [[''a'']])" "entry_name (li_lossy (demo_libs tiny_hash)) [''a''] = ''a''"
    "\<forall>p \<in> set [[''a'']]. with_new (entry_name (li_lossy (demo_libs tiny_hash)) p) \<notin> entry_name (li_lossy (demo_libs tiny_hash)) ` set [[''a'']]"
    by (simp_all add: demo_libs_def entry_name_def with_new_a)
  have lone: "pt_game_id lone_task = pc_game_id demo_producer" "pt_version lone_task = pc_version demo_producer" "ag_node_type (ex_config (lone_executor Cafe)) = Cafe"
    "compio_ok (mi_cx (fe_ios lone_cafe i))" "lists_sets (fe_order lone_cafe)" for i
    by (simp_all add: lone_task_def lone_executor_def lone_config_def lone_cafe_def compio_std_ok lists_sets_def)
  let ?fs = "\<lparr>cf_game = Map.empty, cf_temp = Map.empty, cf_manifests = Map.empty\<rparr>"
  have cafe: "cafe_entry tiny_hash (fe_open lone_cafe) (pt_game_id lone_task) (lone_executor Cafe) = Inr \<lparr>cs_current = None, cs_fs = ?fs\<rparr>"
    "current_manifest_bytes (fe_read lone_cafe) (cs_fs \<lparr>cs_current = None, cs_fs = ?fs\<rparr>) = Inr None"
    by (simp_all add: cafe_entry_def lone_executor_def lone_cafe_def cafe_open_def current_manifest_bytes_def current_version_def)
  have sess: "Some ''http://s'' \<noteq> None" by simp
  from release_to_cafe [where li = "demo_libs tiny_hash", unfolded demo_digest(2), OF json_serde_ok link_std_order demo_session_ok(1) sess demo_libs_ok(1)
      demo_source_ok(2) [OF empty] tiny demo_no_faults(2) addr demo_rest(4) [OF empty] demo_files demo_source_ok(3) [OF empty] rest(1,3) run lone cafe task]
  obtain c' where "ex_cafe_stores x' 5 = Some c'" "\<exists>content d. so_open (pv_source (demo_run [])) [''a''] = Some content \<and>
      cf_game (cs_fs c') ''a'' = Some d \<and> tiny_hash d = tiny_hash content" by (auto simp: rest(2) lone)
  then have "ex_cafe_stores x' 5 = Some c' \<and> (\<exists>d. cf_game (cs_fs c') ''a'' = Some d \<and> tiny_hash d = tiny_hash [])"
    by (auto simp: demo_run_def demo_source_def)
  with run task show ?thesis by blast
qed

end
